(* ===== verification/Prelude.thy ===== *)
theory Prelude
  imports Main "HOL-Library.Word" "HOL-Library.Sublist"
begin

section \<open>Prelude: the JavaScript values the components share\<close>

text \<open>
  This theory fixes how the values of the TypeScript sources are represented and
  collects the lemmas every component uses:

  \<^item> a JavaScript string is its list of 16-bit code units (\<open>jsstring\<close>), a
    \<^verbatim>\<open>Uint8Array\<close> or \<^verbatim>\<open>Buffer\<close> is a list of bytes (\<open>bytes\<close>);
  \<^item> reading an array at a number is \<open>js_nth\<close>, which is \<open>None\<close> (undefined) out of
    range; a \<^verbatim>\<open>Set\<close> or a \<^verbatim>\<open>Map\<close> iterated in insertion order is a list without
    repetitions (\<open>js_set_add\<close>, \<open>amap_set\<close>);
  \<^item> \<open>be_bytes\<close> and \<open>be_value\<close> are the big-endian writers and readers of
    \<^verbatim>\<open>node:buffer\<close>, \<open>toHex\<close> its lowercase-hex printer.

  A fallible computation is a value of \<open>'e + 'a\<close> with \<open>Inl\<close> for what the code throws.
\<close>

named_theorems js_eval \<open>evaluation of the JavaScript value operations on literals\<close>
named_theorems inv_intros \<open>preservation of component invariants\<close>

type_synonym byte = "8 word"
type_synonym bytes = "byte list"
type_synonym jsstring = "16 word list"

text \<open>A string literal of the source.\<close>

definition js :: "string \<Rightarrow> jsstring" where
  "js s = map (\<lambda>c. of_nat (of_char c)) s"

declare js_def [js_eval]

lemma js_inj [simp]: "js s = js t \<longleftrightarrow> s = t"
proof -
  have "inj (\<lambda>c. of_nat (of_char c) :: 16 word)"
  proof (rule injI)
    fix c d :: char
    assume "(of_nat (of_char c) :: 16 word) = of_nat (of_char d)"
    moreover have "(of_char c :: nat) < 65536" "(of_char d :: nat) < 65536"
      using nat_of_char_less_256 [of c] nat_of_char_less_256 [of d] by linarith+
    ultimately have "(of_char c :: nat) = of_char d"
      by (simp add: word_of_nat_eq_iff take_bit_nat_eq_self)
    then show "c = d" by simp
  qed
  then show ?thesis by (simp add: js_def inj_map_eq_map)
qed

subsection \<open>Results\<close>

definition rbind :: "'e + 'a \<Rightarrow> ('a \<Rightarrow> 'e + 'b) \<Rightarrow> 'e + 'b" where
  "rbind r f = (case r of Inl e \<Rightarrow> Inl e | Inr x \<Rightarrow> f x)"

lemma rbind_simps [simp]:
  "rbind (Inl e) f = Inl e"
  "rbind (Inr x) f = f x"
  by (simp_all add: rbind_def)

lemma rbind_Inr_iff: "rbind r f = Inr y \<longleftrightarrow> (\<exists>x. r = Inr x \<and> f x = Inr y)"
  by (cases r) simp_all

lemma rbind_assoc: "rbind (rbind r f) g = rbind r (\<lambda>x. rbind (f x) g)"
  by (cases r) simp_all

lemma rbind_InrE:
  assumes "rbind r f = Inr y"
  obtains x where "r = Inr x" and "f x = Inr y"
  using assms by (auto simp: rbind_Inr_iff)

subsection \<open>Arrays and insertion-ordered sets\<close>

definition js_nth :: "'a list \<Rightarrow> int \<Rightarrow> 'a option" where
  "js_nth xs i = (if 0 \<le> i \<and> i < int (length xs) then Some (xs ! nat i) else None)"

lemma js_nth_Some_iff: "js_nth xs i = Some x \<longleftrightarrow> 0 \<le> i \<and> nat i < length xs \<and> xs ! nat i = x"
  by (auto simp: js_nth_def)

lemma js_nth_of_nat [simp]: "i < length xs \<Longrightarrow> js_nth xs (int i) = Some (xs ! i)"
  by (simp add: js_nth_def)

lemma js_nth_prefix: "js_nth xs i = Some x \<Longrightarrow> prefix xs ys \<Longrightarrow> js_nth ys i = Some x"
  by (auto simp: js_nth_Some_iff prefix_def nth_append)

definition js_set_add :: "'a list \<Rightarrow> 'a \<Rightarrow> 'a list" where
  "js_set_add xs x = (if x \<in> set xs then xs else xs @ [x])"

definition js_set_del :: "'a list \<Rightarrow> 'a \<Rightarrow> 'a list" where
  "js_set_del xs x = filter (\<lambda>y. y \<noteq> x) xs"

definition js_set_of :: "'a list \<Rightarrow> 'a list" where
  "js_set_of xs = foldl js_set_add [] xs"

lemma set_js_set_add [simp]: "set (js_set_add xs x) = insert x (set xs)"
  by (auto simp: js_set_add_def)

lemma set_js_set_del [simp]: "set (js_set_del xs x) = set xs - {x}"
  by (auto simp: js_set_del_def)

lemma distinct_js_set_add [simp]: "distinct xs \<Longrightarrow> distinct (js_set_add xs x)"
  by (auto simp: js_set_add_def)

lemma distinct_js_set_del [simp]: "distinct xs \<Longrightarrow> distinct (js_set_del xs x)"
  by (simp add: js_set_del_def)

lemma foldl_js_set_add:
  "set (foldl js_set_add acc xs) = set acc \<union> set xs"
  "distinct acc \<Longrightarrow> distinct (foldl js_set_add acc xs)"
  by (induction xs arbitrary: acc) auto

lemma set_js_set_of [simp]: "set (js_set_of xs) = set xs"
  by (simp add: js_set_of_def foldl_js_set_add)

lemma distinct_js_set_of [simp]: "distinct (js_set_of xs)"
  by (simp add: js_set_of_def foldl_js_set_add)

subsection \<open>Insertion-ordered maps\<close>

text \<open>
  A \<^verbatim>\<open>Map\<close> keeps its insertion order: setting an existing key keeps its place, a new
  key goes last. \<open>map_of\<close> is its lookup.
\<close>

fun amap_set :: "('k \<times> 'v) list \<Rightarrow> 'k \<Rightarrow> 'v \<Rightarrow> ('k \<times> 'v) list" where
  "amap_set [] k v = [(k, v)]"
| "amap_set (kv # m) k v = (if fst kv = k then (k, v) # m else kv # amap_set m k v)"

definition amap_del :: "('k \<times> 'v) list \<Rightarrow> 'k \<Rightarrow> ('k \<times> 'v) list" where
  "amap_del m k = filter (\<lambda>kv. fst kv \<noteq> k) m"

definition amap_ok :: "('k \<times> 'v) list \<Rightarrow> bool" where
  "amap_ok m \<longleftrightarrow> distinct (map fst m)"

lemma map_of_amap_set: "map_of (amap_set m k v) = (map_of m)(k \<mapsto> v)"
  by (induction m) (auto simp: fun_eq_iff)

lemma map_of_amap_del: "map_of (amap_del m k) = (map_of m)(k := None)"
  by (induction m) (auto simp: amap_del_def fun_eq_iff)

lemma keys_amap_set: "fst ` set (amap_set m k v) = insert k (fst ` set m)"
  by (induction m) auto

lemma amap_ok_set [simp]: "amap_ok m \<Longrightarrow> amap_ok (amap_set m k v)"
proof (induction m)
  case (Cons kv m)
  then show ?case
    using keys_amap_set [of m k v] by (auto simp: amap_ok_def image_iff)
qed (simp add: amap_ok_def)

lemma amap_ok_del [simp]: "amap_ok m \<Longrightarrow> amap_ok (amap_del m k)"
  by (induction m) (auto simp: amap_ok_def amap_del_def)

lemma amap_ok_Nil [simp]: "amap_ok []"
  by (simp add: amap_ok_def)

lemma amap_set_new: "k \<notin> fst ` set m \<Longrightarrow> amap_set m k v = m @ [(k, v)]"
  by (induction m) auto

text \<open>Rebuilding a map from its own entries gives the same map, order included.\<close>

lemma foldl_amap_set_rebuild:
  "amap_ok (acc @ m) \<Longrightarrow> foldl (\<lambda>a (k, v). amap_set a k v) acc m = acc @ m"
proof (induction m arbitrary: acc)
  case (Cons kv m)
  then have "fst kv \<notin> fst ` set acc"
    by (auto simp: amap_ok_def image_iff)
  then show ?case
    using Cons.IH [of "acc @ [kv]"] Cons.prems
    by (cases kv) (simp add: amap_set_new)
qed simp

lemma amap_rebuild: "amap_ok m \<Longrightarrow> foldl (\<lambda>a (k, v). amap_set a k v) [] m = m"
  using foldl_amap_set_rebuild [of "[]" m] by simp

subsection \<open>Big-endian integers\<close>

fun be_bytes :: "nat \<Rightarrow> nat \<Rightarrow> bytes" where
  "be_bytes 0 n = []"
| "be_bytes (Suc k) n = be_bytes k (n div 256) @ [of_nat (n mod 256)]"

definition be_value :: "bytes \<Rightarrow> nat" where
  "be_value bs = foldl (\<lambda>a b. a * 256 + unat b) 0 bs"

lemma length_be_bytes [simp]: "length (be_bytes k n) = k"
  by (induction k arbitrary: n) auto

lemma be_value_Nil [simp]: "be_value [] = 0"
  by (simp add: be_value_def)

lemma be_value_snoc [simp]: "be_value (bs @ [b]) = be_value bs * 256 + unat b"
  by (simp add: be_value_def)

lemma be_value_be_bytes: "be_value (be_bytes k n) = n mod 256 ^ k"
proof (induction k arbitrary: n)
  case (Suc k)
  have "unat (of_nat (n mod 256) :: byte) = n mod 256"
    by (simp add: unat_of_nat)
  with Suc show ?case
    by (simp add: mod_mult2_eq mult.commute)
qed simp

lemma be_value_be_bytes_id [simp]: "n < 256 ^ k \<Longrightarrow> be_value (be_bytes k n) = n"
  by (simp add: be_value_be_bytes)

lemma be_value_bound: "be_value bs < 256 ^ length bs"
proof (induction bs rule: rev_induct)
  case (snoc b bs)
  have "unat b < 256"
    using unsigned_less [of b, where 'a = nat] by simp
  with snoc show ?case by simp
qed simp

lemma be_bytes_inj: "m < 256 ^ k \<Longrightarrow> n < 256 ^ k \<Longrightarrow> be_bytes k m = be_bytes k n \<longleftrightarrow> m = n"
  by (metis be_value_be_bytes_id)

subsection \<open>Lowercase hexadecimal\<close>

definition hexDigit :: "nat \<Rightarrow> 16 word" where
  "hexDigit n = (if n < 10 then of_nat (48 + n) else of_nat (87 + n))"

definition hexByte :: "byte \<Rightarrow> jsstring" where
  "hexByte b = [hexDigit (unat b div 16), hexDigit (unat b mod 16)]"

definition toHex :: "bytes \<Rightarrow> jsstring" where
  "toHex bs = concat (map hexByte bs)"

definition isHexUnit :: "16 word \<Rightarrow> bool" where
  "isHexUnit u \<longleftrightarrow> (48 \<le> u \<and> u \<le> 57) \<or> (97 \<le> u \<and> u \<le> 102)"

lemma unat_of_nat_16: "n < 65536 \<Longrightarrow> unat (of_nat n :: 16 word) = n"
  by (subst unat_of_nat) simp

lemma unat_hexDigit: "n < 16 \<Longrightarrow> unat (hexDigit n) = (if n < 10 then 48 + n else 87 + n)"
proof -
  assume n: "n < 16"
  show ?thesis
  proof (cases "n < 10")
    case True
    then show ?thesis unfolding hexDigit_def using unat_of_nat_16 [of "48 + n"] by simp
  next
    case False
    then show ?thesis unfolding hexDigit_def using n unat_of_nat_16 [of "87 + n"] by simp
  qed
qed

lemma hexDigit_inj:
  assumes "m < 16" "n < 16" shows "hexDigit m = hexDigit n \<longleftrightarrow> m = n"
proof
  assume "hexDigit m = hexDigit n"
  then have "unat (hexDigit m) = unat (hexDigit n)" by (rule arg_cong)
  then have "(if m < 10 then 48 + m else 87 + m) = (if n < 10 then 48 + n else 87 + n)"
    by (simp only: unat_hexDigit assms)
  then show "m = n" using assms by (simp split: if_splits)
qed simp

lemma unat_byte_bound: "unat (b :: byte) < 256"
  using unsigned_less [of b, where 'a = nat] by simp

lemma hexByte_inj: "hexByte a = hexByte b \<longleftrightarrow> a = b"
proof
  assume "hexByte a = hexByte b"
  moreover have "unat a div 16 < 16" "unat b div 16 < 16"
    using unat_byte_bound [of a] unat_byte_bound [of b] by linarith+
  ultimately have "unat a div 16 = unat b div 16" "unat a mod 16 = unat b mod 16"
    by (simp_all add: hexByte_def hexDigit_inj)
  then have "unat a = unat b"
    by (metis div_mult_mod_eq)
  then show "a = b" by (simp add: word_unat_eq_iff)
qed simp

lemma toHex_inj: "toHex xs = toHex ys \<longleftrightarrow> xs = ys"
proof
  show "toHex xs = toHex ys \<Longrightarrow> xs = ys"
  proof (induction xs arbitrary: ys)
    case Nil
    then show ?case by (cases ys) (simp_all add: toHex_def hexByte_def)
  next
    case (Cons x xs)
    then obtain y ys' where ys: "ys = y # ys'"
      by (cases ys) (simp_all add: toHex_def hexByte_def)
    with Cons.prems have "hexByte x @ toHex xs = hexByte y @ toHex ys'"
      by (simp add: toHex_def)
    moreover have "length (hexByte x) = length (hexByte y)"
      by (simp add: hexByte_def)
    ultimately have "hexByte x = hexByte y" "toHex xs = toHex ys'"
      by simp_all
    with Cons.IH ys show ?case by (simp add: hexByte_inj)
  qed
qed simp

lemma hexDigit_isHex: "n < 16 \<Longrightarrow> isHexUnit (hexDigit n)"
  by (auto simp: isHexUnit_def word_le_nat_alt unat_hexDigit)

lemma toHex_isHex: "\<forall>u \<in> set (toHex bs). isHexUnit u"
proof (induction bs)
  case (Cons b bs)
  have "unat b div 16 < 16" "unat b mod 16 < 16"
    using unat_byte_bound [of b] by linarith+
  then have "\<forall>u \<in> set (hexByte b). isHexUnit u"
    by (simp add: hexByte_def hexDigit_isHex)
  with Cons show ?case by (auto simp: toHex_def)
qed (simp add: toHex_def)

lemma toHex_eq_Nil [simp]: "toHex bs = [] \<longleftrightarrow> bs = []"
  by (cases bs) (simp_all add: toHex_def hexByte_def)

subsection \<open>Positions in a buffer\<close>

text \<open>\<open>slice\<close> is \<^verbatim>\<open>buf.subarray(pos, pos + len)\<close>.\<close>

definition slice :: "nat \<Rightarrow> nat \<Rightarrow> 'a list \<Rightarrow> 'a list" where
  "slice pos len buf = take len (drop pos buf)"

lemma slice_append [simp]: "slice (length pre) (length xs) (pre @ xs @ rest) = xs"
  by (simp add: slice_def)

lemma slice_skip: "slice (length pre + n) len (pre @ xs) = slice n len xs"
  by (simp add: slice_def)

end
