(* ===== verification/Utf8.thy ===== *)
theory Utf8
  imports Prelude
begin

section \<open>UTF-8: \<^verbatim>\<open>Buffer.from(s, "utf8")\<close> and \<^verbatim>\<open>buf.toString("utf8")\<close>\<close>

text \<open>
  The canonical op encoding writes strings with \<^verbatim>\<open>Buffer.from(value, "utf8")\<close> and reads
  them back with \<^verbatim>\<open>buf.toString("utf8", ...)\<close>. Both are total in JavaScript: a lone
  surrogate is written as U+FFFD, and a malformed byte sequence is read as U+FFFD, one
  for each maximal ill-formed part, as the Encoding standard's decoder does. The decoder
  below is that standard's state machine: the bytes still needed, the code point so far
  and the bounds of the next byte.

  The lemmas give the round trip on well-formed strings and that the decoder only ever
  produces well-formed strings, which is what makes the op encoding injective on ops
  that came off the wire.
\<close>

definition replacement :: nat where
  "replacement = 0xFFFD"

definition isHighSurrogate :: "16 word \<Rightarrow> bool" where
  "isHighSurrogate u \<longleftrightarrow> 0xD800 \<le> unat u \<and> unat u < 0xDC00"

definition isLowSurrogate :: "16 word \<Rightarrow> bool" where
  "isLowSurrogate u \<longleftrightarrow> 0xDC00 \<le> unat u \<and> unat u < 0xE000"

fun codePoints :: "jsstring \<Rightarrow> nat list" where
  "codePoints [] = []"
| "codePoints [u] =
     [if isHighSurrogate u \<or> isLowSurrogate u then replacement else unat u]"
| "codePoints (u # v # us) =
     (if isHighSurrogate u \<and> isLowSurrogate v
      then (0x10000 + (unat u - 0xD800) * 1024 + (unat v - 0xDC00)) # codePoints us
      else (if isHighSurrogate u \<or> isLowSurrogate u then replacement else unat u)
             # codePoints (v # us))"

definition utf8CodePoint :: "nat \<Rightarrow> bytes" where
  "utf8CodePoint n =
     (if n < 0x80 then [of_nat n]
      else if n < 0x800 then [of_nat (0xC0 + n div 64), of_nat (0x80 + n mod 64)]
      else if n < 0x10000 then
        [of_nat (0xE0 + n div 4096), of_nat (0x80 + (n div 64) mod 64), of_nat (0x80 + n mod 64)]
      else [of_nat (0xF0 + n div 262144), of_nat (0x80 + (n div 4096) mod 64),
            of_nat (0x80 + (n div 64) mod 64), of_nat (0x80 + n mod 64)])"

definition utf8Encode :: "jsstring \<Rightarrow> bytes" where
  "utf8Encode s = concat (map utf8CodePoint (codePoints s))"

fun utf8Scan :: "nat \<Rightarrow> nat \<Rightarrow> nat \<Rightarrow> nat \<Rightarrow> bytes \<Rightarrow> nat list" where
  "utf8Scan need cp lo up [] = (if need = 0 then [] else [replacement])"
| "utf8Scan need cp lo up (b # bs) =
     (let n = unat b in
      if need = 0 then
        (if n < 0x80 then n # utf8Scan 0 0 0x80 0xBF bs
         else if 0xC2 \<le> n \<and> n < 0xE0 then utf8Scan 1 (n - 0xC0) 0x80 0xBF bs
         else if 0xE0 \<le> n \<and> n < 0xF0 then
           utf8Scan 2 (n - 0xE0) (if n = 0xE0 then 0xA0 else 0x80) (if n = 0xED then 0x9F else 0xBF) bs
         else if 0xF0 \<le> n \<and> n < 0xF5 then
           utf8Scan 3 (n - 0xF0) (if n = 0xF0 then 0x90 else 0x80) (if n = 0xF4 then 0x8F else 0xBF) bs
         else replacement # utf8Scan 0 0 0x80 0xBF bs)
      else if n < lo \<or> up < n then replacement # utf8Scan 0 0 0x80 0xBF (b # bs)
      else if need = 1 then (cp * 64 + n mod 64) # utf8Scan 0 0 0x80 0xBF bs
      else utf8Scan (need - 1) (cp * 64 + n mod 64) 0x80 0xBF bs)"

definition utf16CodePoint :: "nat \<Rightarrow> jsstring" where
  "utf16CodePoint n =
     (if n < 0x10000 then [of_nat n]
      else [of_nat (0xD800 + (n - 0x10000) div 1024), of_nat (0xDC00 + (n - 0x10000) mod 1024)])"

definition utf8Decode :: "bytes \<Rightarrow> jsstring" where
  "utf8Decode bs = concat (map utf16CodePoint (utf8Scan 0 0 0x80 0xBF bs))"

text \<open>Well-formed strings: every surrogate is part of a high-low pair.\<close>

fun wfString :: "jsstring \<Rightarrow> bool" where
  "wfString [] = True"
| "wfString [u] = (\<not> isHighSurrogate u \<and> \<not> isLowSurrogate u)"
| "wfString (u # v # us) =
     (if isHighSurrogate u \<and> isLowSurrogate v then wfString us
      else \<not> isHighSurrogate u \<and> \<not> isLowSurrogate u \<and> wfString (v # us))"

subsection \<open>Encoding then decoding\<close>

definition scalar :: "nat \<Rightarrow> bool" where
  "scalar n \<longleftrightarrow> n < 0xD800 \<or> (0xE000 \<le> n \<and> n < 0x110000)"

lemma unat_unit_bound: "unat (u :: 16 word) < 65536"
  using unsigned_less [of u, where 'a = nat] by simp

lemma unat_of_nat_8: "n < 256 \<Longrightarrow> unat (of_nat n :: byte) = n"
  by (subst unat_of_nat) simp

lemma cont_mod: "k < 64 \<Longrightarrow> (0x80 + k) mod 64 = (k :: nat)"
  using mod_mult_self3 [of 2 64 k] by simp

lemma base64_digits:
  "n = (n div 4096 * 64 + (n div 64) mod 64) * 64 + (n :: nat) mod 64"
  "n = ((n div 262144 * 64 + (n div 4096) mod 64) * 64 + (n div 64) mod 64) * 64 + n mod 64"
proof -
  have a: "n div 4096 = n div 64 div 64" "n div 262144 = n div 4096 div 64"
    using div_mult2_eq [of n 64 64] div_mult2_eq [of n 4096 64] by simp_all
  then have b: "n div 4096 * 64 + (n div 64) mod 64 = n div 64"
    "n div 262144 * 64 + (n div 4096) mod 64 = n div 4096"
    by (simp_all only: div_mult_mod_eq)
  show "n = (n div 4096 * 64 + (n div 64) mod 64) * 64 + n mod 64"
    by (simp only: b div_mult_mod_eq)
  show "n = ((n div 262144 * 64 + (n div 4096) mod 64) * 64 + (n div 64) mod 64) * 64 + n mod 64"
    by (simp only: b div_mult_mod_eq)
qed

lemma codePoints_scalar: "n \<in> set (codePoints s) \<Longrightarrow> scalar n"
proof (induction s rule: codePoints.induct)
  case (2 u)
  then show ?case
    using unat_unit_bound [of u]
    by (auto simp: scalar_def replacement_def isHighSurrogate_def isLowSurrogate_def split: if_splits)
next
  case (3 u v us)
  show ?case
  proof (cases "isHighSurrogate u \<and> isLowSurrogate v")
    case True
    then have "scalar (0x10000 + (unat u - 0xD800) * 1024 + (unat v - 0xDC00))"
      by (auto simp: scalar_def isHighSurrogate_def isLowSurrogate_def)
    with True 3 show ?thesis by auto
  next
    case False
    have "scalar (if isHighSurrogate u \<or> isLowSurrogate u then replacement else unat u)"
      using unat_unit_bound [of u]
      by (auto simp: scalar_def replacement_def isHighSurrogate_def isLowSurrogate_def)
    moreover from False 3(3) have "n = (if isHighSurrogate u \<or> isLowSurrogate u then replacement else unat u)
        \<or> n \<in> set (codePoints (v # us))"
      by (auto split: if_splits)
    ultimately show ?thesis using 3(2) [OF False] by blast
  qed
qed simp

text \<open>One step of the decoder, outside and inside a multi-byte sequence.\<close>

lemma utf8Scan_start:
  "utf8Scan 0 cp lo up (b # bs) =
     (if unat b < 0x80 then unat b # utf8Scan 0 0 0x80 0xBF bs
      else if 0xC2 \<le> unat b \<and> unat b < 0xE0 then utf8Scan 1 (unat b - 0xC0) 0x80 0xBF bs
      else if 0xE0 \<le> unat b \<and> unat b < 0xF0 then
        utf8Scan 2 (unat b - 0xE0) (if unat b = 0xE0 then 0xA0 else 0x80)
          (if unat b = 0xED then 0x9F else 0xBF) bs
      else if 0xF0 \<le> unat b \<and> unat b < 0xF5 then
        utf8Scan 3 (unat b - 0xF0) (if unat b = 0xF0 then 0x90 else 0x80)
          (if unat b = 0xF4 then 0x8F else 0xBF) bs
      else replacement # utf8Scan 0 0 0x80 0xBF bs)"
  by (subst utf8Scan.simps) (simp add: Let_def)

lemma utf8Scan_cont:
  "0 < need \<Longrightarrow> lo \<le> unat b \<Longrightarrow> unat b \<le> up \<Longrightarrow> utf8Scan need cp lo up (b # bs) =
     (if need = 1 then (cp * 64 + unat b mod 64) # utf8Scan 0 0 0x80 0xBF bs
      else utf8Scan (need - 1) (cp * 64 + unat b mod 64) 0x80 0xBF bs)"
  by (subst utf8Scan.simps) (simp add: Let_def)

lemma utf8Scan_bad:
  "0 < need \<Longrightarrow> unat b < lo \<or> up < unat b \<Longrightarrow> utf8Scan need cp lo up (b # bs) =
     replacement # utf8Scan 0 0 0x80 0xBF (b # bs)"
  by (subst utf8Scan.simps) (simp add: Let_def)

declare utf8Scan.simps(2) [simp del]

lemma unat_cont: "k < 64 \<Longrightarrow> unat (of_nat (0x80 + k) :: byte) = 0x80 + k"
  by (intro unat_of_nat_8) linarith

lemma utf8Scan_tail:
  "k < 64 \<Longrightarrow> utf8Scan 1 cp 0x80 0xBF (of_nat (0x80 + k) # bs) = (cp * 64 + k) # utf8Scan 0 0 0x80 0xBF bs"
  "k < 64 \<Longrightarrow> utf8Scan 2 cp 0x80 0xBF (of_nat (0x80 + k) # bs) = utf8Scan 1 (cp * 64 + k) 0x80 0xBF bs"
  "k < 64 \<Longrightarrow> lo \<le> 0x80 + k \<Longrightarrow> 0x80 + k \<le> up \<Longrightarrow>
     utf8Scan 2 cp lo up (of_nat (0x80 + k) # bs) = utf8Scan 1 (cp * 64 + k) 0x80 0xBF bs"
  "k < 64 \<Longrightarrow> lo \<le> 0x80 + k \<Longrightarrow> 0x80 + k \<le> up \<Longrightarrow>
     utf8Scan 3 cp lo up (of_nat (0x80 + k) # bs) = utf8Scan 2 (cp * 64 + k) 0x80 0xBF bs"
  by (subst utf8Scan_cont; simp only: unat_cont cont_mod; simp)+

lemma utf8Scan_1:
  assumes "n < 0x80"
  shows "utf8Scan 0 0 0x80 0xBF (of_nat n # rest) = n # utf8Scan 0 0 0x80 0xBF rest"
proof -
  have "unat (of_nat n :: byte) = n"
    using assms by (intro unat_of_nat_8) linarith
  then show ?thesis using assms by (simp only: utf8Scan_start) simp
qed

lemma utf8Scan_2:
  assumes "0x80 \<le> n" "n < 0x800"
  shows "utf8Scan 0 0 0x80 0xBF (of_nat (0xC0 + n div 64) # of_nat (0x80 + n mod 64) # rest)
    = n # utf8Scan 0 0 0x80 0xBF rest"
proof -
  have a: "unat (of_nat (0xC0 + n div 64) :: byte) = 0xC0 + n div 64"
    using assms by (intro unat_of_nat_8) linarith
  have l: "2 \<le> n div 64" "n div 64 < 32" "n mod 64 < 64"
    using assms by linarith+
  have "utf8Scan 0 0 0x80 0xBF (of_nat (0xC0 + n div 64) # of_nat (0x80 + n mod 64) # rest)
      = utf8Scan 1 (n div 64) 0x80 0xBF (of_nat (0x80 + n mod 64) # rest)"
    using l by (subst utf8Scan_start) (simp only: a, simp)
  also have "\<dots> = (n div 64 * 64 + n mod 64) # utf8Scan 0 0 0x80 0xBF rest"
    using l by (simp only: utf8Scan_tail)
  finally show ?thesis by (simp only: div_mult_mod_eq)
qed

lemma utf8Scan_3:
  assumes "0x800 \<le> n" "n < 0x10000" "scalar n"
  shows "utf8Scan 0 0 0x80 0xBF (of_nat (0xE0 + n div 4096) # of_nat (0x80 + (n div 64) mod 64)
      # of_nat (0x80 + n mod 64) # rest) = n # utf8Scan 0 0 0x80 0xBF rest"
proof -
  define x y z where "x = n div 4096" and "y = (n div 64) mod 64" and "z = n mod 64"
  have n: "n = (x * 64 + y) * 64 + z"
    unfolding x_def y_def z_def by (rule base64_digits)
  have l: "x < 16" "y < 64" "z < 64"
    using assms unfolding x_def y_def z_def by linarith+
  have e1: "32 \<le> y" if "x = 0"
  proof -
    from assms(1) that have "2048 \<le> y * 64 + z" unfolding n by simp
    with l show ?thesis by linarith
  qed
  have e2: "y \<le> 31" if "x = 13"
  proof -
    from assms(3) that have "y * 64 + z < 2048 \<or> 4096 \<le> y * 64 + z" unfolding n scalar_def by auto
    with l show ?thesis by linarith
  qed
  let ?lo = "if x = 0 then 0xA0 else 0x80 :: nat" and ?up = "if x = 13 then 0x9F else 0xBF :: nat"
  have a: "unat (of_nat (0xE0 + x) :: byte) = 0xE0 + x"
    using l by (intro unat_of_nat_8) linarith
  have "utf8Scan 0 0 0x80 0xBF (of_nat (0xE0 + x) # of_nat (0x80 + y) # of_nat (0x80 + z) # rest)
      = utf8Scan 2 x ?lo ?up (of_nat (0x80 + y) # of_nat (0x80 + z) # rest)"
    using l by (subst utf8Scan_start) (simp only: a, simp)
  also have "\<dots> = utf8Scan 1 (x * 64 + y) 0x80 0xBF (of_nat (0x80 + z) # rest)"
    using l e1 e2 by (intro utf8Scan_tail) auto
  also have "\<dots> = ((x * 64 + y) * 64 + z) # utf8Scan 0 0 0x80 0xBF rest"
    using l by (simp only: utf8Scan_tail)
  finally show ?thesis unfolding n [symmetric] unfolding x_def y_def z_def .
qed

lemma utf8Scan_4:
  assumes "0x10000 \<le> n" "n < 0x110000"
  shows "utf8Scan 0 0 0x80 0xBF (of_nat (0xF0 + n div 262144) # of_nat (0x80 + (n div 4096) mod 64)
      # of_nat (0x80 + (n div 64) mod 64) # of_nat (0x80 + n mod 64) # rest)
    = n # utf8Scan 0 0 0x80 0xBF rest"
proof -
  define w x y z where "w = n div 262144" and "x = (n div 4096) mod 64"
    and "y = (n div 64) mod 64" and "z = n mod 64"
  have n: "n = ((w * 64 + x) * 64 + y) * 64 + z"
    unfolding w_def x_def y_def z_def by (rule base64_digits)
  have l: "w < 5" "x < 64" "y < 64" "z < 64"
    using assms unfolding w_def x_def y_def z_def by linarith+
  have e1: "16 \<le> x" if "w = 0"
  proof -
    from assms(1) that have "65536 \<le> x * 4096 + y * 64 + z" unfolding n by simp
    with l show ?thesis by linarith
  qed
  have e2: "x \<le> 15" if "w = 4"
  proof -
    from assms(2) that have "x * 4096 + y * 64 + z < 65536" unfolding n by simp
    with l show ?thesis by linarith
  qed
  let ?lo = "if w = 0 then 0x90 else 0x80 :: nat" and ?up = "if w = 4 then 0x8F else 0xBF :: nat"
  have a: "unat (of_nat (0xF0 + w) :: byte) = 0xF0 + w"
    using l by (intro unat_of_nat_8) linarith
  have "utf8Scan 0 0 0x80 0xBF (of_nat (0xF0 + w) # of_nat (0x80 + x) # of_nat (0x80 + y) #
        of_nat (0x80 + z) # rest)
      = utf8Scan 3 w ?lo ?up (of_nat (0x80 + x) # of_nat (0x80 + y) # of_nat (0x80 + z) # rest)"
    using l by (subst utf8Scan_start) (simp only: a, simp)
  also have "\<dots> = utf8Scan 2 (w * 64 + x) 0x80 0xBF (of_nat (0x80 + y) # of_nat (0x80 + z) # rest)"
    using l e1 e2 by (intro utf8Scan_tail) auto
  also have "\<dots> = (((w * 64 + x) * 64 + y) * 64 + z) # utf8Scan 0 0 0x80 0xBF rest"
    using l by (simp only: utf8Scan_tail)
  finally show ?thesis unfolding n [symmetric] unfolding w_def x_def y_def z_def .
qed

lemma utf8Scan_codePoint:
  assumes "scalar n"
  shows "utf8Scan 0 0 0x80 0xBF (utf8CodePoint n @ rest) = n # utf8Scan 0 0 0x80 0xBF rest"
proof -
  consider "n < 0x80" | "0x80 \<le> n" "n < 0x800" | "0x800 \<le> n" "n < 0x10000"
    | "0x10000 \<le> n" "n < 0x110000"
    using assms unfolding scalar_def by linarith
  then show ?thesis
  proof cases
    case 1
    then show ?thesis using utf8Scan_1 [OF 1] by (simp only: utf8CodePoint_def) simp
  next
    case 2
    then have "utf8CodePoint n = [of_nat (0xC0 + n div 64), of_nat (0x80 + n mod 64)]"
      by (simp only: utf8CodePoint_def) simp
    then show ?thesis using utf8Scan_2 [OF 2] by (simp only: append_Cons append_Nil)
  next
    case 3
    then have "utf8CodePoint n =
        [of_nat (0xE0 + n div 4096), of_nat (0x80 + (n div 64) mod 64), of_nat (0x80 + n mod 64)]"
      by (simp only: utf8CodePoint_def) simp
    then show ?thesis using utf8Scan_3 [OF 3 assms] by (simp only: append_Cons append_Nil)
  next
    case 4
    then have "utf8CodePoint n = [of_nat (0xF0 + n div 262144), of_nat (0x80 + (n div 4096) mod 64),
            of_nat (0x80 + (n div 64) mod 64), of_nat (0x80 + n mod 64)]"
      by (simp only: utf8CodePoint_def) simp
    then show ?thesis using utf8Scan_4 [OF 4] by (simp only: append_Cons append_Nil)
  qed
qed

lemma utf8Scan_concat:
  "(\<And>n. n \<in> set ns \<Longrightarrow> scalar n) \<Longrightarrow> utf8Scan 0 0 0x80 0xBF (concat (map utf8CodePoint ns)) = ns"
  by (induction ns) (simp_all add: utf8Scan_codePoint)

lemma utf16_codePoints: "wfString s \<Longrightarrow> concat (map utf16CodePoint (codePoints s)) = s"
proof (induction s rule: wfString.induct)
  case (2 u)
  then show ?case using unat_unit_bound [of u] by (simp add: utf16CodePoint_def)
next
  case (3 u v us)
  show ?case
  proof (cases "isHighSurrogate u \<and> isLowSurrogate v")
    case True
    then have bounds: "0xD800 \<le> unat u" "unat u < 0xDC00" "0xDC00 \<le> unat v" "unat v < 0xE000"
      by (auto simp: isHighSurrogate_def isLowSurrogate_def)
    let ?n = "0x10000 + (unat u - 0xD800) * 1024 + (unat v - 0xDC00)"
    have "unat v - 0xDC00 < 1024" using bounds by linarith
    then have "((unat u - 0xD800) * 1024 + (unat v - 0xDC00)) div 1024 = unat u - 0xD800"
      "((unat u - 0xD800) * 1024 + (unat v - 0xDC00)) mod 1024 = unat v - 0xDC00"
      by (metis div_mult_self3 add.commute add_0 div_less zero_neq_numeral, metis mod_mult_self3 mod_less)
    moreover have "?n - 0x10000 = (unat u - 0xD800) * 1024 + (unat v - 0xDC00)" by linarith
    ultimately have "(?n - 0x10000) div 1024 = unat u - 0xD800" "(?n - 0x10000) mod 1024 = unat v - 0xDC00"
      by (simp_all only:)
    then have "utf16CodePoint ?n = [of_nat (unat u), of_nat (unat v)]"
      using bounds unfolding utf16CodePoint_def by (simp only:) simp
    with True 3 show ?thesis by simp
  next
    case False
    with 3 show ?thesis using unat_unit_bound [of u] by (simp add: utf16CodePoint_def)
  qed
qed simp

lemma utf8_roundtrip: "wfString s \<Longrightarrow> utf8Decode (utf8Encode s) = s"
  by (simp add: utf8Decode_def utf8Encode_def utf8Scan_concat codePoints_scalar utf16_codePoints)

lemma utf8Encode_inj: "wfString s \<Longrightarrow> wfString t \<Longrightarrow> utf8Encode s = utf8Encode t \<longleftrightarrow> s = t"
  by (metis utf8_roundtrip)

subsection \<open>The decoder only produces well-formed strings\<close>

text \<open>What the state of the decoder promises about the code point it will emit.\<close>

definition scanOk :: "nat \<Rightarrow> nat \<Rightarrow> nat \<Rightarrow> nat \<Rightarrow> bool" where
  "scanOk need cp lo up \<longleftrightarrow>
     (0 < need \<longrightarrow> 0x80 \<le> lo \<and> up \<le> 0xBF) \<and> need \<le> 3 \<and>
     (need = 1 \<longrightarrow> cp < 864 \<or> (896 \<le> cp \<and> cp < 17408)) \<and>
     (need = 2 \<longrightarrow> (cp \<noteq> 13 \<or> up \<le> 0x9F) \<and> cp < 272) \<and>
     (need = 3 \<longrightarrow> (cp \<noteq> 0 \<or> 0x90 \<le> lo) \<and> (cp < 4 \<or> (cp = 4 \<and> up \<le> 0x8F)))"

lemma cont_byte: "0x80 \<le> n \<Longrightarrow> n \<le> 0xBF \<Longrightarrow> n mod 64 = n - (0x80 :: nat)"
  using cont_mod [of "n - 0x80"] by simp

lemma scanOk_next:
  assumes "scanOk need cp lo up" "1 < need" "lo \<le> n" "n \<le> up"
  shows "scanOk (need - 1) (cp * 64 + n mod 64) 0x80 0xBF"
proof -
  have n: "n mod 64 = n - 0x80" "0x80 \<le> n" "n \<le> 0xBF"
    using assms cont_byte [of n] by (auto simp: scanOk_def)
  consider "need = 2" | "need = 3"
    using assms unfolding scanOk_def by linarith
  then show ?thesis
  proof cases
    case 1
    then have "cp \<noteq> 13 \<or> n \<le> 0x9F" "cp < 272"
      using assms by (auto simp: scanOk_def)
    then have "(cp \<le> 12 \<or> cp = 13 \<and> n - 0x80 \<le> 31 \<or> 14 \<le> cp) \<and> cp \<le> 271 \<and> n - 0x80 \<le> 63"
      using n by linarith
    then have "cp * 64 + (n - 0x80) < 864 \<or> 896 \<le> cp * 64 + (n - 0x80)" "cp * 64 + (n - 0x80) < 17408"
      by auto
    with 1 n show ?thesis by (simp add: scanOk_def)
  next
    case 2
    then have "cp * 64 + (n - 0x80) \<noteq> 13" "cp * 64 + (n - 0x80) < 272"
      using assms n by (auto simp: scanOk_def)
    with 2 n show ?thesis by (simp add: scanOk_def)
  qed
qed

lemma scanOk_start: "scanOk 0 0 0x80 0xBF"
  by (simp add: scanOk_def)

lemma scanOk_lead:
  "0xC2 \<le> n \<Longrightarrow> n < 0xE0 \<Longrightarrow> scanOk 1 (n - 0xC0) 0x80 0xBF"
  "0xE0 \<le> n \<Longrightarrow> n < 0xF0 \<Longrightarrow> scanOk 2 (n - 0xE0) (if n = 0xE0 then 0xA0 else 0x80) (if n = 0xED then 0x9F else 0xBF)"
  "0xF0 \<le> n \<Longrightarrow> n < 0xF5 \<Longrightarrow> scanOk 3 (n - 0xF0) (if n = 0xF0 then 0x90 else 0x80) (if n = 0xF4 then 0x8F else 0xBF)"
  by (auto simp: scanOk_def)

lemma scanOk_last: "scanOk 1 cp lo up \<Longrightarrow> lo \<le> n \<Longrightarrow> n \<le> up \<Longrightarrow> scalar (cp * 64 + n mod 64)"
  using cont_byte [of n] by (auto simp: scanOk_def scalar_def)

lemma utf8Scan_scalar:
  "scanOk need cp lo up \<Longrightarrow> \<forall>n \<in> set (utf8Scan need cp lo up bs). scalar n"
proof (induction need cp lo up bs rule: utf8Scan.induct)
  case (2 need cp lo up b bs)
  note IH = 2(1-7) [OF refl]
  have r: "scalar replacement" by (simp add: scalar_def replacement_def)
  consider "need = 0" | "need \<noteq> 0" "unat b < lo \<or> up < unat b" | "need = 1" "\<not> (unat b < lo \<or> up < unat b)"
    | "need \<noteq> 0" "need \<noteq> 1" "\<not> (unat b < lo \<or> up < unat b)" by blast
  then show ?case
  proof cases
    case 1
    consider "unat b < 0x80" | "0xC2 \<le> unat b" "unat b < 0xE0" | "0xE0 \<le> unat b" "unat b < 0xF0"
      | "0xF0 \<le> unat b" "unat b < 0xF5" | "0x80 \<le> unat b" "unat b < 0xC2 \<or> 0xF5 \<le> unat b"
      by linarith
    then show ?thesis
      using scanOk_lead [of "unat b"]
      by cases (use 1 IH(1-5) scanOk_start r in \<open>auto simp: utf8Scan_start scalar_def\<close>)
  next
    case 2
    then show ?thesis using IH(6) [OF _ _ scanOk_start] r by (simp add: utf8Scan_bad)
  next
    case 3
    then have "scalar (cp * 64 + unat b mod 64)" using scanOk_last [of cp lo up "unat b"] 2(9) by auto
    with 3 show ?thesis using 2(7) [OF refl _ _ _ scanOk_start] by (simp add: utf8Scan_cont)
  next
    case 4
    then have "scanOk (need - 1) (cp * 64 + unat b mod 64) 0x80 0xBF"
      using scanOk_next [OF 2(9)] by auto
    with 4 show ?thesis using 2(8) [OF refl] by (simp add: utf8Scan_cont)
  qed
qed (simp add: scalar_def replacement_def)

lemma wfString_append: "wfString xs \<Longrightarrow> wfString ys \<Longrightarrow> wfString (xs @ ys)"
proof (induction xs rule: wfString.induct)
  case (2 u)
  then show ?case by (cases ys) auto
qed auto

lemma wfString_codePoint: "scalar n \<Longrightarrow> wfString (utf16CodePoint n)"
proof (cases "n < 0x10000")
  case True
  assume "scalar n"
  with True have "unat (of_nat n :: 16 word) = n" "n < 0xD800 \<or> 0xE000 \<le> n"
    using unat_of_nat_16 [of n] by (auto simp: scalar_def)
  with True show ?thesis
    by (auto simp: utf16CodePoint_def isHighSurrogate_def isLowSurrogate_def)
next
  case False
  assume "scalar n"
  with False have "(n - 0x10000) div 1024 < 1024"
    unfolding scalar_def by linarith
  then have "unat (of_nat (0xD800 + (n - 0x10000) div 1024) :: 16 word) = 0xD800 + (n - 0x10000) div 1024"
    "unat (of_nat (0xDC00 + (n - 0x10000) mod 1024) :: 16 word) = 0xDC00 + (n - 0x10000) mod 1024"
    by (intro unat_of_nat_16; linarith)+
  with \<open>(n - 0x10000) div 1024 < 1024\<close>
  have "isHighSurrogate (of_nat (0xD800 + (n - 0x10000) div 1024))"
    "isLowSurrogate (of_nat (0xDC00 + (n - 0x10000) mod 1024))"
    unfolding isHighSurrogate_def isLowSurrogate_def by linarith+
  with False show ?thesis
    unfolding utf16CodePoint_def by (simp only: if_False wfString.simps if_True simp_thms)
qed

lemma utf8Decode_wf: "wfString (utf8Decode bs)"
proof -
  have "\<forall>n \<in> set ns. scalar n \<Longrightarrow> wfString (concat (map utf16CodePoint ns))" for ns
    by (induction ns) (auto intro: wfString_append wfString_codePoint)
  moreover have "scanOk 0 0 0x80 0xBF" by (simp add: scanOk_def)
  ultimately show ?thesis by (simp add: utf8Decode_def utf8Scan_scalar)
qed

lemma wfString_js: "wfString (js s)"
proof -
  have small: "\<not> isHighSurrogate u \<and> \<not> isLowSurrogate u" if "u \<in> set (js s)" for u
  proof -
    from that obtain c where "u = of_nat (of_char c)" by (auto simp: js_def)
    moreover have c: "of_char c < (256 :: nat)" by simp
    then have "unat (of_nat (of_char c) :: 16 word) = of_char c"
      by (intro unat_of_nat_16) linarith
    ultimately have "unat u < 256" using c by (simp only:)
    then show ?thesis by (simp add: isHighSurrogate_def isLowSurrogate_def)
  qed
  have "(\<And>u. u \<in> set t \<Longrightarrow> \<not> isHighSurrogate u \<and> \<not> isLowSurrogate u) \<Longrightarrow> wfString t" for t
    by (induction t rule: wfString.induct) auto
  with small show ?thesis by blast
qed

lemma utf8Encode_Nil [simp]: "utf8Encode [] = []"
  by (simp add: utf8Encode_def)

subsection \<open>ASCII strings\<close>

lemma codePoints_ascii: "list_all (\<lambda>u. unat u < 128) s \<Longrightarrow> codePoints s = map unat s"
  by (induction s rule: codePoints.induct) (auto simp: isHighSurrogate_def isLowSurrogate_def)

lemma utf8Encode_ascii: "list_all (\<lambda>u. unat u < 128) s \<Longrightarrow> utf8Encode s = map (\<lambda>u. of_nat (unat u)) s"
  unfolding utf8Encode_def codePoints_ascii
  by (induction s) (auto simp: utf8CodePoint_def codePoints_ascii)

lemma length_utf8Encode_js:
  assumes "list_all (\<lambda>c. of_char c < (128 :: nat)) s"
  shows "length (utf8Encode (js s)) = length s"
proof -
  have "list_all (\<lambda>u. unat u < 128) (js s)"
    using assms by (auto simp: js_def list_all_iff unat_of_nat_16)
  then show ?thesis by (simp add: utf8Encode_ascii) (simp add: js_def)
qed

end
