(* ===== verification/Ops.thy ===== *)
theory Ops
  imports Utf8
begin

section \<open>Membership operations (\<^verbatim>\<open>membership/src/ops.ts\<close>)\<close>

text \<open>
  The signed, hash-chained membership operation. \<^verbatim>\<open>UnsignedOp\<close> is the record of the
  signed fields and \<^verbatim>\<open>MembershipOp\<close> extends it by the signature, as the TypeScript
  \<^verbatim>\<open>Omit<MembershipOp, "sig">\<close> does: an encoder that reads only the unsigned fields
  takes either. \<^verbatim>\<open>null\<close> is \<open>None\<close>. \<open>op_seq\<close> is an integer of any sign; the
  encoder checks it.

  What the package throws is one datatype, \<open>thrown\<close>: a \<^verbatim>\<open>CanonicalError\<close>, an
  \<^verbatim>\<open>IntegrityError\<close> with the reason its message states, the \<^verbatim>\<open>RangeError\<close> of a
  Node buffer writer whose value does not fit its width, or the \<^verbatim>\<open>TypeError\<close> of a method
  call on \<^verbatim>\<open>undefined\<close>.
\<close>

datatype OpType = Create | Invite | Remove | SetAiMode

record UnsignedOp =
  op_type :: OpType
  op_conversationId :: jsstring
  op_seq :: int
  op_prevHash :: bytes
  op_author :: jsstring
  op_subject :: "jsstring option"
  op_aiMode :: "bool option"
  op_initialMembers :: "jsstring list option"
  op_authorIdentityKey :: bytes

record MembershipOp = UnsignedOp +
  op_sig :: bytes

definition GENESIS_ZERO :: bytes where
  "GENESIS_ZERO = replicate 32 0"

datatype canonical_reason =
    NotUint | NoSignature | TruncatedHeader | TagMismatch | LengthExceedsBuffer
  | UintLength | UintUnsafe | BoolLength | BoolBody | ArrayMissingCount
  | ArrayElementLength | ArrayElementBody | ArrayTrailing | TrailingBytes
  | UnknownOpType | NoRoundTrip

datatype integrity_reason =
    MalformedOp | EmptyLog | GenesisNotCreate | GenesisSeq | GenesisPrevHash
  | ForeignConversation | SeqNotDense | BrokenHashChain | InvalidSignature
  | NonFounderAuthor | NonAuthorityKey
  | OpenEmptyChain | CandidateForeign | PinGenesisMismatch | PinHeadMissing
  | Regresses | Forks | NoVerifiedChain | Unpopulated | UnknownConversation
  | PinNotJson | PinNotObject | PinConversationId | PinGenesisHash | PinNoHead
  | PinSeq | PinHeadHash

datatype thrown =
    CanonicalError canonical_reason
  | IntegrityError integrity_reason
  | RangeError
  | TypeError

end
