(* ===== verification/Canonical.thy ===== *)
theory Canonical
  imports Ops
begin

section \<open>The canonical op encoding (\<^verbatim>\<open>membership/src/canonical.ts\<close>)\<close>

text \<open>
  Every field is a tag byte, a 32-bit big-endian length and a body, in a fixed order.
  A \<^verbatim>\<open>Writer\<close> method takes the bytes written so far and returns them extended, or throws;
  a \<^verbatim>\<open>Reader\<close> method takes the buffer and the position and returns the value and the
  new position, or throws.

  The locale \<open>field_codec\<close> is the contract one field's writer and reader keep; it is
  interpreted for every field type, and the whole op's round trip composes these
  interpretations field by field.
\<close>

definition TAG_ABSENT :: nat where "TAG_ABSENT = 0"
definition TAG_STRING :: nat where "TAG_STRING = 1"
definition TAG_UINT :: nat where "TAG_UINT = 2"
definition TAG_BOOL :: nat where "TAG_BOOL = 3"
definition TAG_ARRAY :: nat where "TAG_ARRAY = 4"
definition TAG_BYTES :: nat where "TAG_BYTES = 5"

lemmas tag_defs = TAG_ABSENT_def TAG_STRING_def TAG_UINT_def TAG_BOOL_def TAG_ARRAY_def TAG_BYTES_def

definition MAX_SAFE_INTEGER :: nat where
  "MAX_SAFE_INTEGER = 2 ^ 53 - 1"

subsection \<open>Writer\<close>

definition w_field :: "nat \<Rightarrow> bytes \<Rightarrow> bytes \<Rightarrow> thrown + bytes" where
  "w_field tag body w =
     (if length body < 2 ^ 32 then Inr (w @ of_nat tag # be_bytes 4 (length body) @ body)
      else Inl RangeError)"

definition w_absent :: "bytes \<Rightarrow> thrown + bytes" where
  "w_absent w = w_field TAG_ABSENT [] w"

definition w_str :: "jsstring \<Rightarrow> bytes \<Rightarrow> thrown + bytes" where
  "w_str s w = w_field TAG_STRING (utf8Encode s) w"

definition w_uint :: "int \<Rightarrow> bytes \<Rightarrow> thrown + bytes" where
  "w_uint v w =
     (if v < 0 then Inl (CanonicalError NotUint)
      else if v < 2 ^ 64 then w_field TAG_UINT (be_bytes 8 (nat v)) w
      else Inl RangeError)"

definition w_bool :: "bool \<Rightarrow> bytes \<Rightarrow> thrown + bytes" where
  "w_bool b w = w_field TAG_BOOL [if b then 1 else 0] w"

definition w_bytes :: "bytes \<Rightarrow> bytes \<Rightarrow> thrown + bytes" where
  "w_bytes b w = w_field TAG_BYTES b w"

fun w_items :: "jsstring list \<Rightarrow> thrown + bytes" where
  "w_items [] = Inr []"
| "w_items (item # items) =
     (let eb = utf8Encode item in
      if length eb < 2 ^ 32
      then rbind (w_items items) (\<lambda>parts. Inr (be_bytes 4 (length eb) @ eb @ parts))
      else Inl RangeError)"

definition w_arr :: "jsstring list \<Rightarrow> bytes \<Rightarrow> thrown + bytes" where
  "w_arr items w =
     (if length items < 2 ^ 32
      then rbind (w_items items) (\<lambda>parts. w_field TAG_ARRAY (be_bytes 4 (length items) @ parts) w)
      else Inl RangeError)"

subsection \<open>Reader\<close>

definition r_header :: "nat \<Rightarrow> bytes \<Rightarrow> nat \<Rightarrow> thrown + nat \<times> nat" where
  "r_header expected buf pos =
     (if pos + 5 > length buf then Inl (CanonicalError TruncatedHeader)
      else if unat (buf ! pos) \<noteq> expected then Inl (CanonicalError TagMismatch)
      else let len = be_value (slice (pos + 1) 4 buf) in
        if pos + 5 + len > length buf then Inl (CanonicalError LengthExceedsBuffer)
        else Inr (len, pos + 5))"

definition r_peekTag :: "bytes \<Rightarrow> nat \<Rightarrow> thrown + nat" where
  "r_peekTag buf pos =
     (if pos + 5 > length buf then Inl (CanonicalError TruncatedHeader)
      else Inr (unat (buf ! pos)))"

definition r_str :: "bytes \<Rightarrow> nat \<Rightarrow> thrown + jsstring \<times> nat" where
  "r_str buf pos = rbind (r_header TAG_STRING buf pos)
     (\<lambda>(len, p). Inr (utf8Decode (slice p len buf), p + len))"

definition r_uint :: "bytes \<Rightarrow> nat \<Rightarrow> thrown + int \<times> nat" where
  "r_uint buf pos = rbind (r_header TAG_UINT buf pos)
     (\<lambda>(len, p).
        if len \<noteq> 8 then Inl (CanonicalError UintLength)
        else let v = be_value (slice p 8 buf) in
          if v > MAX_SAFE_INTEGER then Inl (CanonicalError UintUnsafe)
          else Inr (int v, p + len))"

definition r_bytes :: "bytes \<Rightarrow> nat \<Rightarrow> thrown + bytes \<times> nat" where
  "r_bytes buf pos = rbind (r_header TAG_BYTES buf pos)
     (\<lambda>(len, p). Inr (slice p len buf, p + len))"

text \<open>
  A nullable field whose tag is \<^verbatim>\<open>TAG_ABSENT\<close> consumes the header only: the reader does
  not skip a body an absent field may claim to have. The round-trip check of \<open>decodeOp\<close>
  rejects such a buffer.
\<close>

definition r_nullableStr :: "bytes \<Rightarrow> nat \<Rightarrow> thrown + jsstring option \<times> nat" where
  "r_nullableStr buf pos = rbind (r_peekTag buf pos)
     (\<lambda>t. if t = TAG_ABSENT
        then rbind (r_header TAG_ABSENT buf pos) (\<lambda>(len, p). Inr (None, p))
        else rbind (r_str buf pos) (\<lambda>(s, p). Inr (Some s, p)))"

definition r_nullableBool :: "bytes \<Rightarrow> nat \<Rightarrow> thrown + bool option \<times> nat" where
  "r_nullableBool buf pos = rbind (r_peekTag buf pos)
     (\<lambda>t. if t = TAG_ABSENT
        then rbind (r_header TAG_ABSENT buf pos) (\<lambda>(len, p). Inr (None, p))
        else rbind (r_header TAG_BOOL buf pos)
          (\<lambda>(len, p).
             if len \<noteq> 1 then Inl (CanonicalError BoolLength)
             else let b = unat (buf ! p) in
               if b \<noteq> 0 \<and> b \<noteq> 1 then Inl (CanonicalError BoolBody)
               else Inr (Some (b = 1), p + 1)))"

fun r_items :: "bytes \<Rightarrow> nat \<Rightarrow> nat \<Rightarrow> nat \<Rightarrow> thrown + jsstring list \<times> nat" where
  "r_items buf end 0 pos = Inr ([], pos)"
| "r_items buf end (Suc n) pos =
     (if pos + 4 > end then Inl (CanonicalError ArrayElementLength)
      else let elen = be_value (slice pos 4 buf) in
        if pos + 4 + elen > end then Inl (CanonicalError ArrayElementBody)
        else rbind (r_items buf end n (pos + 4 + elen))
          (\<lambda>(items, p). Inr (utf8Decode (slice (pos + 4) elen buf) # items, p)))"

definition r_nullableArr :: "bytes \<Rightarrow> nat \<Rightarrow> thrown + jsstring list option \<times> nat" where
  "r_nullableArr buf pos = rbind (r_peekTag buf pos)
     (\<lambda>t. if t = TAG_ABSENT
        then rbind (r_header TAG_ABSENT buf pos) (\<lambda>(len, p). Inr (None, p))
        else rbind (r_header TAG_ARRAY buf pos)
          (\<lambda>(len, p).
             let end = p + len in
             if p + 4 > end then Inl (CanonicalError ArrayMissingCount)
             else let count = be_value (slice p 4 buf) in
               rbind (r_items buf end count (p + 4))
                 (\<lambda>(items, q).
                    if q \<noteq> end then Inl (CanonicalError ArrayTrailing)
                    else Inr (Some items, q))))"

subsection \<open>The op\<close>

definition opTypeName :: "OpType \<Rightarrow> jsstring" where
  "opTypeName t = (case t of Create \<Rightarrow> js ''create'' | Invite \<Rightarrow> js ''invite''
     | Remove \<Rightarrow> js ''remove'' | SetAiMode \<Rightarrow> js ''setAiMode'')"

definition opTypeOf :: "jsstring \<Rightarrow> OpType option" where
  "opTypeOf s =
     (if s = js ''create'' then Some Create
      else if s = js ''invite'' then Some Invite
      else if s = js ''remove'' then Some Remove
      else if s = js ''setAiMode'' then Some SetAiMode
      else None)"

definition encodeFields :: "'a UnsignedOp_scheme \<Rightarrow> bytes option \<Rightarrow> bool \<Rightarrow> thrown + bytes" where
  "encodeFields op sg includeSig =
     rbind (w_str (opTypeName (op_type op)) []) (\<lambda>w.
     rbind (w_str (op_conversationId op) w) (\<lambda>w.
     rbind (w_uint (op_seq op) w) (\<lambda>w.
     rbind (w_bytes (op_prevHash op) w) (\<lambda>w.
     rbind (w_str (op_author op) w) (\<lambda>w.
     rbind (case op_subject op of None \<Rightarrow> w_absent w | Some s \<Rightarrow> w_str s w) (\<lambda>w.
     rbind (case op_aiMode op of None \<Rightarrow> w_absent w | Some b \<Rightarrow> w_bool b w) (\<lambda>w.
     rbind (case op_initialMembers op of None \<Rightarrow> w_absent w | Some ms \<Rightarrow> w_arr ms w) (\<lambda>w.
     rbind (w_bytes (op_authorIdentityKey op) w) (\<lambda>w.
       if includeSig then
         (case sg of None \<Rightarrow> Inl (CanonicalError NoSignature) | Some s \<Rightarrow> w_bytes s w)
       else Inr w)))))))))"

definition encodeForSigning :: "'a UnsignedOp_scheme \<Rightarrow> thrown + bytes" where
  "encodeForSigning op = encodeFields op None False"

definition encodeForHashing :: "MembershipOp \<Rightarrow> thrown + bytes" where
  "encodeForHashing op = encodeFields op (Some (op_sig op)) True"

definition encodeOp :: "MembershipOp \<Rightarrow> thrown + bytes" where
  "encodeOp op = encodeForHashing op"

definition decodeOp :: "bytes \<Rightarrow> thrown + MembershipOp" where
  "decodeOp buf =
     rbind (r_str buf 0) (\<lambda>(ty, p).
     rbind (r_str buf p) (\<lambda>(conv, p).
     rbind (r_uint buf p) (\<lambda>(sq, p).
     rbind (r_bytes buf p) (\<lambda>(prev, p).
     rbind (r_str buf p) (\<lambda>(auth, p).
     rbind (r_nullableStr buf p) (\<lambda>(subj, p).
     rbind (r_nullableBool buf p) (\<lambda>(ai, p).
     rbind (r_nullableArr buf p) (\<lambda>(ms, p).
     rbind (r_bytes buf p) (\<lambda>(key, p).
     rbind (r_bytes buf p) (\<lambda>(sg, p).
       if p \<noteq> length buf then Inl (CanonicalError TrailingBytes)
       else case opTypeOf ty of
         None \<Rightarrow> Inl (CanonicalError UnknownOpType)
       | Some t \<Rightarrow>
           let op = \<lparr>op_type = t, op_conversationId = conv, op_seq = sq, op_prevHash = prev,
             op_author = auth, op_subject = subj, op_aiMode = ai, op_initialMembers = ms,
             op_authorIdentityKey = key, op_sig = sg\<rparr> in
           rbind (encodeForHashing op) (\<lambda>reencoded.
             if reencoded \<noteq> buf then Inl (CanonicalError NoRoundTrip) else Inr op)))))))))))"

subsection \<open>The contract of one field\<close>

text \<open>
  \<open>put x w\<close> writes \<open>x\<close> after \<open>w\<close>, \<open>get buf pos\<close> reads at \<open>pos\<close>, \<open>valid\<close> are the
  values the writer keeps apart. A written field is appended to what is there, and
  reading it back at its own position gives the value and the position after it,
  whatever follows.
\<close>

locale field_codec =
  fixes put :: "'v \<Rightarrow> bytes \<Rightarrow> thrown + bytes"
    and get :: "bytes \<Rightarrow> nat \<Rightarrow> thrown + 'v \<times> nat"
    and valid :: "'v \<Rightarrow> bool"
  assumes put_appends: "put x w = Inr w' \<Longrightarrow> prefix w w'"
    and get_put: "valid x \<Longrightarrow> put x w = Inr w' \<Longrightarrow> get (w' @ rest) (length w) = Inr (x, length w')"
begin

lemma get_put_prefix:
  "valid x \<Longrightarrow> put x w = Inr w' \<Longrightarrow> prefix w' buf \<Longrightarrow> get buf (length w) = Inr (x, length w')"
  by (auto simp: prefix_def get_put)

text \<open>Two fields written at the same place in the same buffer are the same field.\<close>

lemma put_determines:
  assumes "valid x" "valid y" "put x w = Inr w1" "put y w = Inr w2"
    and "prefix w1 buf" "prefix w2 buf"
  shows "x = y \<and> w1 = w2"
proof -
  have "Inr (x, length w1) = (Inr (y, length w2) :: thrown + 'v \<times> nat)"
    using get_put_prefix assms by metis
  then show ?thesis
    using assms(5,6) by (auto simp: prefix_def append_eq_append_conv)
qed

end

subsection \<open>Every field type keeps the contract\<close>

lemma w_field_Inr:
  "w_field tag body w = Inr w' \<longleftrightarrow>
     length body < 2 ^ 32 \<and> w' = w @ of_nat tag # be_bytes 4 (length body) @ body"
  by (auto simp: w_field_def)

lemma w_field_prefix: "w_field tag body w = Inr w' \<Longrightarrow> prefix w w'"
  by (auto simp: w_field_Inr)

lemma unat_tag: "tag < 256 \<Longrightarrow> unat (of_nat tag :: byte) = tag"
  by (rule unat_of_nat_8)

lemma r_header_field:
  assumes "tag < 256" "w_field tag body w = Inr w'"
  shows "r_header tag (w' @ rest) (length w) = Inr (length body, length w + 5)"
    and "r_peekTag (w' @ rest) (length w) = Inr tag"
    and "slice (length w + 5) (length body) (w' @ rest) = body"
proof -
  from assms(2) have len: "length body < 2 ^ 32"
    and w': "w' = w @ of_nat tag # be_bytes 4 (length body) @ body"
    by (auto simp: w_field_Inr)
  have val: "be_value (be_bytes 4 (length body)) = length body"
    using len by (intro be_value_be_bytes_id) simp
  have "slice (length w + 1) 4 (w' @ rest) = be_bytes 4 (length body)"
    unfolding w' by (simp add: slice_def)
  moreover have "(w' @ rest) ! length w = of_nat tag"
    unfolding w' by simp
  ultimately show "r_header tag (w' @ rest) (length w) = Inr (length body, length w + 5)"
    and "r_peekTag (w' @ rest) (length w) = Inr tag"
    using val assms(1) by (simp_all add: r_header_def r_peekTag_def unat_tag w' Let_def)
  show "slice (length w + 5) (length body) (w' @ rest) = body"
    unfolding w' by (simp add: slice_def)
qed

lemma w_field_length: "w_field tag body w = Inr w' \<Longrightarrow> length w' = length w + 5 + length body"
  by (auto simp: w_field_Inr)

lemma tag_bounds [simp]:
  "TAG_ABSENT < 256" "TAG_STRING < 256" "TAG_UINT < 256" "TAG_BOOL < 256"
  "TAG_ARRAY < 256" "TAG_BYTES < 256"
  by (simp_all add: tag_defs)

interpretation str_codec: field_codec w_str r_str wfString
proof
  show "prefix w w'" if "w_str x w = Inr w'" for x w w'
    using that by (auto simp: w_str_def intro: w_field_prefix)
next
  fix x w w' rest
  assume "wfString x" "w_str x w = Inr w'"
  then show "r_str (w' @ rest) (length w) = Inr (x, length w')"
    using r_header_field [of TAG_STRING "utf8Encode x" w w' rest]
    by (simp add: w_str_def r_str_def utf8_roundtrip w_field_length)
qed

interpretation uint_codec: field_codec w_uint r_uint "\<lambda>v. v \<le> int MAX_SAFE_INTEGER"
proof
  show "prefix w w'" if "w_uint x w = Inr w'" for x w w'
    using that by (auto simp: w_uint_def intro: w_field_prefix split: if_splits)
next
  fix x w w' rest
  assume ok: "x \<le> int MAX_SAFE_INTEGER" and w: "w_uint x w = Inr w'"
  then have x: "0 \<le> x" "x < 2 ^ 64" and f: "w_field TAG_UINT (be_bytes 8 (nat x)) w = Inr w'"
    by (auto simp: w_uint_def split: if_splits)
  have "be_value (be_bytes 8 (nat x)) = nat x"
    using x by (intro be_value_be_bytes_id) simp
  then show "r_uint (w' @ rest) (length w) = Inr (x, length w')"
    using r_header_field [OF _ f, of rest] ok x w_field_length [OF f]
    by (simp add: r_uint_def Let_def)
qed

interpretation bytes_codec: field_codec w_bytes r_bytes "\<lambda>_. True"
proof
  show "prefix w w'" if "w_bytes x w = Inr w'" for x w w'
    using that by (auto simp: w_bytes_def intro: w_field_prefix)
next
  fix x w w' rest
  assume "w_bytes x w = Inr w'"
  then show "r_bytes (w' @ rest) (length w) = Inr (x, length w')"
    using r_header_field [of TAG_BYTES x w w' rest] by (simp add: w_bytes_def r_bytes_def w_field_length)
qed

lemma r_absent:
  assumes "w_absent w = Inr w'"
  shows "r_peekTag (w' @ rest) (length w) = Inr TAG_ABSENT"
    and "r_header TAG_ABSENT (w' @ rest) (length w) = Inr (0, length w')"
    and "prefix w w'"
  using assms r_header_field [of TAG_ABSENT "[]" w w' rest]
  by (auto simp: w_absent_def w_field_length intro: w_field_prefix)

interpretation nullableStr_codec: field_codec
  "\<lambda>v w. case v of None \<Rightarrow> w_absent w | Some s \<Rightarrow> w_str s w" r_nullableStr "pred_option wfString"
proof
  show "prefix w w'" if "(case x of None \<Rightarrow> w_absent w | Some s \<Rightarrow> w_str s w) = Inr w'" for x w w'
    using that by (auto split: option.splits intro: r_absent(3) str_codec.put_appends)
next
  fix x w w' rest
  assume ok: "pred_option wfString x"
    and w: "(case x of None \<Rightarrow> w_absent w | Some s \<Rightarrow> w_str s w) = Inr w'"
  show "r_nullableStr (w' @ rest) (length w) = Inr (x, length w')"
  proof (cases x)
    case None
    with w show ?thesis by (simp add: r_nullableStr_def r_absent)
  next
    case (Some s)
    with w have f: "w_field TAG_STRING (utf8Encode s) w = Inr w'" by (simp add: w_str_def)
    from Some w ok have "r_str (w' @ rest) (length w) = Inr (s, length w')"
      by (intro str_codec.get_put) simp_all
    with Some show ?thesis
      using r_header_field(2) [OF _ f, of rest] by (simp add: r_nullableStr_def tag_defs)
  qed
qed

interpretation nullableBool_codec: field_codec
  "\<lambda>v w. case v of None \<Rightarrow> w_absent w | Some b \<Rightarrow> w_bool b w" r_nullableBool "\<lambda>_. True"
proof
  show "prefix w w'" if "(case x of None \<Rightarrow> w_absent w | Some b \<Rightarrow> w_bool b w) = Inr w'" for x w w'
    using that by (auto split: option.splits simp: w_bool_def intro: r_absent(3) w_field_prefix)
next
  fix x w w' rest
  assume w: "(case x of None \<Rightarrow> w_absent w | Some b \<Rightarrow> w_bool b w) = Inr w'"
  show "r_nullableBool (w' @ rest) (length w) = Inr (x, length w')"
  proof (cases x)
    case None
    with w show ?thesis by (simp add: r_nullableBool_def r_absent)
  next
    case (Some b)
    with w have f: "w_field TAG_BOOL [if b then 1 else 0] w = Inr w'" by (simp add: w_bool_def)
    then have "(w' @ rest) ! (length w + 5) = (if b then 1 else 0)"
      by (auto simp: w_field_Inr nth_append)
    with Some show ?thesis
      using r_header_field [OF _ f, of rest] w_field_length [OF f]
      by (simp add: r_nullableBool_def tag_defs Let_def)
  qed
qed

lemma r_items_w_items:
  assumes "w_items items = Inr parts" "list_all wfString items"
    and "length pre + length parts \<le> end"
  shows "r_items (pre @ parts @ rest) end (length items) (length pre)
    = Inr (items, length pre + length parts)"
  using assms
proof (induction items arbitrary: pre parts)
  case (Cons item items)
  let ?eb = "utf8Encode item"
  from Cons.prems(1) obtain parts' where len: "length ?eb < 2 ^ 32"
    and w: "w_items items = Inr parts'"
    and parts: "parts = be_bytes 4 (length ?eb) @ ?eb @ parts'"
    by (auto simp: Let_def rbind_Inr_iff split: if_splits)
  have val: "be_value (be_bytes 4 (length ?eb)) = length ?eb"
    using len by (intro be_value_be_bytes_id) simp
  let ?pre = "pre @ be_bytes 4 (length ?eb) @ ?eb"
  have buf: "pre @ parts @ rest = ?pre @ parts' @ rest"
    by (simp add: parts)
  have s1: "slice (length pre) 4 (pre @ parts @ rest) = be_bytes 4 (length ?eb)"
    by (simp add: parts slice_def)
  have s2: "slice (length pre + 4) (length ?eb) (pre @ parts @ rest) = ?eb"
    by (simp add: parts slice_def)
  have "r_items (?pre @ parts' @ rest) end (length items) (length ?pre)
      = Inr (items, length ?pre + length parts')"
    using Cons.prems by (intro Cons.IH w) (simp_all add: parts)
  moreover have "length ?pre = length pre + 4 + length ?eb" by simp
  ultimately show ?case
    using Cons.prems(2,3) unfolding list.size add_Suc_right add_0_right r_items.simps Let_def s1 s2 val
    unfolding buf by (simp add: parts utf8_roundtrip add.assoc)
qed simp

interpretation nullableArr_codec: field_codec
  "\<lambda>v w. case v of None \<Rightarrow> w_absent w | Some ms \<Rightarrow> w_arr ms w" r_nullableArr
  "pred_option (list_all wfString)"
proof
  show "prefix w w'" if "(case x of None \<Rightarrow> w_absent w | Some ms \<Rightarrow> w_arr ms w) = Inr w'" for x w w'
    using that
    by (auto simp: w_arr_def rbind_Inr_iff split: option.splits if_splits
        intro: r_absent(3) w_field_prefix)
next
  fix x w w' rest
  assume ok: "pred_option (list_all wfString) x"
    and w: "(case x of None \<Rightarrow> w_absent w | Some ms \<Rightarrow> w_arr ms w) = Inr w'"
  show "r_nullableArr (w' @ rest) (length w) = Inr (x, length w')"
  proof (cases x)
    case None
    with w show ?thesis by (simp add: r_nullableArr_def r_absent)
  next
    case (Some ms)
    with w obtain parts where n: "length ms < 2 ^ 32" and items: "w_items ms = Inr parts"
      and f: "w_field TAG_ARRAY (be_bytes 4 (length ms) @ parts) w = Inr w'"
      by (auto simp: w_arr_def rbind_Inr_iff split: if_splits)
    let ?pre = "w @ of_nat TAG_ARRAY # be_bytes 4 (4 + length parts) @ be_bytes 4 (length ms)"
    from f have w': "w' = ?pre @ parts" by (simp add: w_field_Inr)
    have val: "be_value (be_bytes 4 (length ms)) = length ms"
      using n by (intro be_value_be_bytes_id) simp
    have s: "slice (length w + 5) 4 (w' @ rest) = be_bytes 4 (length ms)"
      by (simp add: w' slice_def)
    have "r_items (?pre @ parts @ rest) (length w + 5 + (4 + length parts)) (length ms) (length ?pre)
        = Inr (ms, length ?pre + length parts)"
      using Some ok by (intro r_items_w_items items) simp_all
    then have "r_items (w' @ rest) (length w + 5 + (4 + length parts)) (length ms) (length w + 5 + 4)
        = Inr (ms, length w + 5 + (4 + length parts))"
      by (simp add: w' add_ac)
    with Some show ?thesis
      using r_header_field(1,2) [OF _ f, of rest] w_field_length [OF f]
      by (simp add: r_nullableArr_def tag_defs Let_def s val)
  qed
qed

subsection \<open>The whole op\<close>

text \<open>
  The ops the encoding keeps apart: their strings have no lone surrogate and their
  sequence number is a safe integer. Every op \<open>decodeOp\<close> returns is one.
\<close>

definition op_wf :: "'a UnsignedOp_scheme \<Rightarrow> bool" where
  "op_wf op \<longleftrightarrow> wfString (op_conversationId op) \<and> op_seq op \<le> int MAX_SAFE_INTEGER
     \<and> wfString (op_author op) \<and> pred_option wfString (op_subject op)
     \<and> pred_option (list_all wfString) (op_initialMembers op)"

lemma opTypeOf_opTypeName [simp]: "opTypeOf (opTypeName t) = Some t"
  by (cases t) (simp_all add: opTypeOf_def opTypeName_def js_def)

lemma wfString_opTypeName [simp]: "wfString (opTypeName t)"
  by (cases t) (simp_all add: opTypeName_def wfString_js)

lemma opTypeName_inj: "opTypeName s = opTypeName t \<longleftrightarrow> s = t"
  by (metis opTypeOf_opTypeName option.inject)

text \<open>The buffers a successful encoding passes through, one after each field.\<close>

lemma encodeFields_steps:
  assumes "encodeFields op sg inc = Inr b"
  obtains w1 w2 w3 w4 w5 w6 w7 w8 w9 where
    "w_str (opTypeName (op_type op)) [] = Inr w1"
    "w_str (op_conversationId op) w1 = Inr w2"
    "w_uint (op_seq op) w2 = Inr w3"
    "w_bytes (op_prevHash op) w3 = Inr w4"
    "w_str (op_author op) w4 = Inr w5"
    "(case op_subject op of None \<Rightarrow> w_absent w5 | Some s \<Rightarrow> w_str s w5) = Inr w6"
    "(case op_aiMode op of None \<Rightarrow> w_absent w6 | Some s \<Rightarrow> w_bool s w6) = Inr w7"
    "(case op_initialMembers op of None \<Rightarrow> w_absent w7 | Some s \<Rightarrow> w_arr s w7) = Inr w8"
    "w_bytes (op_authorIdentityKey op) w8 = Inr w9"
    "if inc then (\<exists>s. sg = Some s \<and> w_bytes s w9 = Inr b) else w9 = b"
proof -
  have last: "(if inc then (case sg of None \<Rightarrow> Inl (CanonicalError NoSignature) | Some s \<Rightarrow> w_bytes s w)
      else Inr w) = Inr b \<longleftrightarrow> (if inc then (\<exists>s. sg = Some s \<and> w_bytes s w = Inr b) else w = b)" for w
    by (auto split: option.splits)
  show thesis
    using assms that unfolding encodeFields_def rbind_Inr_iff last by blast
qed

text \<open>Each field is read back where it was written.\<close>

lemma encoded_fields_read:
  assumes wf: "wfString (op_conversationId op)" "op_seq op \<le> int MAX_SAFE_INTEGER" "wfString (op_author op)"
      "pred_option wfString (op_subject op)" "pred_option (list_all wfString) (op_initialMembers op)"
    and enc: "encodeFields op (Some (op_sig op)) True = Inr b"
  obtains n1 n2 n3 n4 n5 n6 n7 n8 n9 where
    "r_str b 0 = Inr (opTypeName (op_type op), n1)" "r_str b n1 = Inr (op_conversationId op, n2)"
    "r_uint b n2 = Inr (op_seq op, n3)" "r_bytes b n3 = Inr (op_prevHash op, n4)" "r_str b n4 = Inr (op_author op, n5)"
    "r_nullableStr b n5 = Inr (op_subject op, n6)" "r_nullableBool b n6 = Inr (op_aiMode op, n7)"
    "r_nullableArr b n7 = Inr (op_initialMembers op, n8)" "r_bytes b n8 = Inr (op_authorIdentityKey op, n9)"
    "r_bytes b n9 = Inr (op_sig op, length b)"
proof -
  obtain w1 w2 w3 w4 w5 w6 w7 w8 w9 where
    s: "w_str (opTypeName (op_type op)) [] = Inr w1" "w_str (op_conversationId op) w1 = Inr w2" "w_uint (op_seq op) w2 = Inr w3"
    "w_bytes (op_prevHash op) w3 = Inr w4" "w_str (op_author op) w4 = Inr w5"
    "(case op_subject op of None \<Rightarrow> w_absent w5 | Some s \<Rightarrow> w_str s w5) = Inr w6"
    "(case op_aiMode op of None \<Rightarrow> w_absent w6 | Some s \<Rightarrow> w_bool s w6) = Inr w7"
    "(case op_initialMembers op of None \<Rightarrow> w_absent w7 | Some s \<Rightarrow> w_arr s w7) = Inr w8"
    "w_bytes (op_authorIdentityKey op) w8 = Inr w9" "w_bytes (op_sig op) w9 = Inr b"
    using enc by (rule encodeFields_steps) auto
  note p9 = bytes_codec.put_appends [OF s(10)]
  note p8 = prefix_order.trans [OF bytes_codec.put_appends [OF s(9)] p9]
  note p7 = prefix_order.trans [OF nullableArr_codec.put_appends [OF s(8)] p8]
  note p6 = prefix_order.trans [OF nullableBool_codec.put_appends [OF s(7)] p7]
  note p5 = prefix_order.trans [OF nullableStr_codec.put_appends [OF s(6)] p6]
  note p4 = prefix_order.trans [OF str_codec.put_appends [OF s(5)] p5]
  note p3 = prefix_order.trans [OF bytes_codec.put_appends [OF s(4)] p4]
  note p2 = prefix_order.trans [OF uint_codec.put_appends [OF s(3)] p3]
  note p1 = prefix_order.trans [OF str_codec.put_appends [OF s(2)] p2]
  show ?thesis
    by (rule that [of "length w1" "length w2" "length w3" "length w4" "length w5" "length w6" "length w7" "length w8" "length w9"])
      (use str_codec.get_put_prefix [OF wfString_opTypeName s(1) p1] str_codec.get_put_prefix [OF wf(1) s(2) p2]
        uint_codec.get_put_prefix [OF wf(2) s(3) p3] bytes_codec.get_put_prefix [OF TrueI s(4) p4]
        str_codec.get_put_prefix [OF wf(3) s(5) p5] nullableStr_codec.get_put_prefix [OF wf(4) s(6) p6]
        nullableBool_codec.get_put_prefix [OF TrueI s(7) p7] nullableArr_codec.get_put_prefix [OF wf(5) s(8) p8]
        bytes_codec.get_put_prefix [OF TrueI s(9) p9] bytes_codec.get_put_prefix [OF TrueI s(10) prefix_order.refl]
       in simp_all)
qed

lemma encode_decode:
  assumes "op_wf op" "encodeForHashing op = Inr b"
  shows "decodeOp b = Inr op"
proof -
  have wf: "wfString (op_conversationId op)" "op_seq op \<le> int MAX_SAFE_INTEGER" "wfString (op_author op)"
    "pred_option wfString (op_subject op)" "pred_option (list_all wfString) (op_initialMembers op)"
    using assms(1) by (simp_all add: op_wf_def)
  have eta: "\<lparr>op_type = op_type op, op_conversationId = op_conversationId op, op_seq = op_seq op,
      op_prevHash = op_prevHash op, op_author = op_author op, op_subject = op_subject op,
      op_aiMode = op_aiMode op, op_initialMembers = op_initialMembers op,
      op_authorIdentityKey = op_authorIdentityKey op, op_sig = op_sig op\<rparr> = op"
    by simp
  show ?thesis
    by (rule encoded_fields_read [OF wf assms(2) [unfolded encodeForHashing_def]])
      (use assms(2) in \<open>simp add: decodeOp_def Let_def eta del: MembershipOp.surjective\<close>)
qed

lemma decode_canonical: "decodeOp b = Inr op \<Longrightarrow> encodeForHashing op = Inr b"
  unfolding decodeOp_def
  by (auto simp: rbind_Inr_iff Let_def split: option.splits if_splits)

text \<open>What a reader returns is well-formed, so a decoded op is.\<close>

lemma r_str_wf: "r_str b p = Inr (s, q) \<Longrightarrow> wfString s"
  by (auto simp: r_str_def rbind_Inr_iff utf8Decode_wf)

lemma r_nullableStr_wf: "r_nullableStr b p = Inr (s, q) \<Longrightarrow> pred_option wfString s"
  by (auto simp: r_nullableStr_def rbind_Inr_iff dest: r_str_wf split: if_splits)

lemma r_items_wf: "r_items b e n p = Inr (ms, q) \<Longrightarrow> list_all wfString ms"
  by (induction b e n p arbitrary: ms q rule: r_items.induct)
    (auto simp: rbind_Inr_iff Let_def utf8Decode_wf split: if_splits)

lemma r_nullableArr_wf: "r_nullableArr b p = Inr (ms, q) \<Longrightarrow> pred_option (list_all wfString) ms"
  by (auto simp: r_nullableArr_def rbind_Inr_iff Let_def dest: r_items_wf split: if_splits)

lemma r_uint_wf: "r_uint b p = Inr (v, q) \<Longrightarrow> 0 \<le> v \<and> v \<le> int MAX_SAFE_INTEGER"
  by (auto simp: r_uint_def rbind_Inr_iff Let_def split: if_splits)

lemma decode_wf: "decodeOp b = Inr op \<Longrightarrow> op_wf op"
  unfolding decodeOp_def op_wf_def
  by (auto simp: rbind_Inr_iff Let_def split: option.splits if_splits
      dest: r_str_wf r_nullableStr_wf r_nullableArr_wf r_uint_wf)

lemma encodeForHashing_inj:
  "op_wf op \<Longrightarrow> op_wf op' \<Longrightarrow> encodeForHashing op = Inr b \<Longrightarrow> encodeForHashing op' = Inr b \<Longrightarrow> op = op'"
  using encode_decode by (metis sum.inject(2))

lemma encodeForHashing_signing:
  "encodeForHashing op = rbind (encodeForSigning op) (w_bytes (op_sig op))"
  by (simp add: encodeForHashing_def encodeForSigning_def encodeFields_def rbind_assoc)

lemma encodeForSigning_sig [simp]: "encodeForSigning (op\<lparr>op_sig := s\<rparr>) = encodeForSigning op"
  by (simp add: encodeForSigning_def encodeFields_def)

lemma encodeForSigning_inj:
  fixes op op' :: MembershipOp
  assumes "op_wf op" "op_wf op'" "encodeForSigning op = Inr b" "encodeForSigning op' = Inr b"
  shows "op\<lparr>op_sig := []\<rparr> = op'\<lparr>op_sig := []\<rparr>"
proof -
  obtain b' where "w_bytes [] b = Inr b'"
    by (simp add: w_bytes_def w_field_def)
  then have "encodeForHashing (op\<lparr>op_sig := []\<rparr>) = Inr b'" "encodeForHashing (op'\<lparr>op_sig := []\<rparr>) = Inr b'"
    using assms(3,4) by (simp_all add: encodeForHashing_signing)
  moreover have "op_wf (op\<lparr>op_sig := []\<rparr>)" "op_wf (op'\<lparr>op_sig := []\<rparr>)"
    using assms(1,2) by (simp_all add: op_wf_def)
  ultimately show ?thesis by (metis encodeForHashing_inj)
qed

subsection \<open>When the encoder succeeds\<close>

text \<open>
  The encoder throws only for a sequence number outside the 64-bit unsigned range and
  for a field longer than a 32-bit length can say.
\<close>

definition items_fit :: "jsstring list \<Rightarrow> bool" where
  "items_fit ms \<longleftrightarrow> length ms < 2 ^ 32 \<and> list_all (\<lambda>m. length (utf8Encode m) < 2 ^ 32) ms
     \<and> 4 + sum_list (map (\<lambda>m. 4 + length (utf8Encode m)) ms) < 2 ^ 32"

definition op_fits :: "'a UnsignedOp_scheme \<Rightarrow> bool" where
  "op_fits op \<longleftrightarrow> length (utf8Encode (op_conversationId op)) < 2 ^ 32
     \<and> 0 \<le> op_seq op \<and> op_seq op < 2 ^ 64 \<and> length (op_prevHash op) < 2 ^ 32
     \<and> length (utf8Encode (op_author op)) < 2 ^ 32
     \<and> pred_option (\<lambda>s. length (utf8Encode s) < 2 ^ 32) (op_subject op)
     \<and> pred_option items_fit (op_initialMembers op)
     \<and> length (op_authorIdentityKey op) < 2 ^ 32"

lemma w_items_ok:
  "(\<exists>parts. w_items ms = Inr parts \<and> length parts = n) \<longleftrightarrow>
     list_all (\<lambda>m. length (utf8Encode m) < 2 ^ 32) ms
     \<and> n = sum_list (map (\<lambda>m. 4 + length (utf8Encode m)) ms)"
proof (induction ms arbitrary: n)
  case (Cons m ms)
  have "(\<exists>parts. w_items (m # ms) = Inr parts \<and> length parts = n) \<longleftrightarrow>
      length (utf8Encode m) < 2 ^ 32 \<and>
      (\<exists>k. (\<exists>parts. w_items ms = Inr parts \<and> length parts = k) \<and> n = 4 + length (utf8Encode m) + k)"
    by (auto simp: Let_def rbind_Inr_iff)
  then show ?case unfolding Cons.IH by auto
qed auto

lemma field_ok: "(\<exists>w'. w_field t b w = Inr w') \<longleftrightarrow> length b < 2 ^ 32"
  by (simp add: w_field_Inr)

lemma put_ok:
  "(\<exists>w'. w_str s w = Inr w') \<longleftrightarrow> length (utf8Encode s) < 2 ^ 32"
  "(\<exists>w'. w_bytes b w = Inr w') \<longleftrightarrow> length b < 2 ^ 32"
  "(\<exists>w'. w_uint v w = Inr w') \<longleftrightarrow> 0 \<le> v \<and> v < 2 ^ 64"
  "(\<exists>w'. w_absent w = Inr w')" "(\<exists>w'. w_bool x w = Inr w')"
  by (auto simp: w_str_def w_bytes_def w_uint_def w_absent_def w_bool_def w_field_Inr)

lemma w_arr_ok: "(\<exists>w'. w_arr ms w = Inr w') \<longleftrightarrow> items_fit ms"
proof -
  have "(\<exists>w'. w_arr ms w = Inr w') \<longleftrightarrow> length ms < 2 ^ 32 \<and>
      (\<exists>n. (\<exists>parts. w_items ms = Inr parts \<and> length parts = n) \<and> 4 + n < 2 ^ 32)"
    by (auto simp: w_arr_def rbind_Inr_iff w_field_Inr)
  then show ?thesis unfolding w_items_ok by (auto simp: items_fit_def)
qed

lemma rbind_ok: "(\<exists>y. rbind r f = Inr y) \<longleftrightarrow> (\<exists>x. r = Inr x \<and> (\<exists>y. f x = Inr y))"
  by (auto simp: rbind_Inr_iff)

lemma option_put_ok:
  "(\<exists>w'. (case s of None \<Rightarrow> w_absent w | Some s \<Rightarrow> w_str s w) = Inr w') \<longleftrightarrow>
     pred_option (\<lambda>s. length (utf8Encode s) < 2 ^ 32) s"
  "(\<exists>w'. (case ms of None \<Rightarrow> w_absent w | Some ms \<Rightarrow> w_arr ms w) = Inr w') \<longleftrightarrow> pred_option items_fit ms"
  "\<exists>w'. (case b of None \<Rightarrow> w_absent w | Some b \<Rightarrow> w_bool b w) = Inr w'"
  by (cases s, simp_all add: put_ok, cases ms, simp_all add: put_ok w_arr_ok, cases b, simp_all add: put_ok)

lemma opTypeName_short: "length (utf8Encode (opTypeName t)) < 2 ^ 32"
  by (cases t) (simp_all add: opTypeName_def js_def utf8Encode_def utf8CodePoint_def
    isHighSurrogate_def isLowSurrogate_def)

lemma encodeForSigning_ok: "(\<exists>b. encodeForSigning op = Inr b) \<longleftrightarrow> op_fits op"
  using opTypeName_short [of "op_type op"]
  by (simp add: encodeForSigning_def encodeFields_def rbind_ok put_ok option_put_ok op_fits_def
      conj_ac del: power_numeral)

text \<open>The length of an encoding.\<close>

definition encodedLength :: "'a UnsignedOp_scheme \<Rightarrow> nat" where
  "encodedLength op = 53 + length (utf8Encode (opTypeName (op_type op))) + length (utf8Encode (op_conversationId op))
     + length (op_prevHash op) + length (utf8Encode (op_author op))
     + (case op_subject op of None \<Rightarrow> 0 | Some s \<Rightarrow> length (utf8Encode s))
     + (case op_aiMode op of None \<Rightarrow> 0 | Some _ \<Rightarrow> 1)
     + (case op_initialMembers op of None \<Rightarrow> 0
        | Some ms \<Rightarrow> 4 + sum_list (map (\<lambda>m. 4 + length (utf8Encode m)) ms))
     + length (op_authorIdentityKey op)"

lemma put_length:
  "w_str s w = Inr w' \<Longrightarrow> length w' = length w + 5 + length (utf8Encode s)"
  "w_bytes b w = Inr w' \<Longrightarrow> length w' = length w + 5 + length b"
  "w_uint v w = Inr w' \<Longrightarrow> length w' = length w + 13"
  "w_absent w = Inr w' \<Longrightarrow> length w' = length w + 5"
  "w_bool x w = Inr w' \<Longrightarrow> length w' = length w + 6"
  by (auto simp: w_str_def w_bytes_def w_uint_def w_absent_def w_bool_def dest!: w_field_length split: if_splits)

lemma w_arr_length:
  assumes "w_arr ms w = Inr w'"
  shows "length w' = length w + 9 + sum_list (map (\<lambda>m. 4 + length (utf8Encode m)) ms)"
proof -
  obtain parts where parts: "w_items ms = Inr parts" "w_field TAG_ARRAY (be_bytes 4 (length ms) @ parts) w = Inr w'"
    using assms by (auto simp: w_arr_def rbind_Inr_iff split: if_splits)
  then have "length parts = sum_list (map (\<lambda>m. 4 + length (utf8Encode m)) ms)"
    using w_items_ok [of ms "length parts"] by blast
  with w_field_length [OF parts(2)] show ?thesis by simp
qed

lemma encodeForSigning_length:
  assumes "encodeForSigning op = Inr b"
  shows "length b = encodedLength op"
  using assms [unfolded encodeForSigning_def]
  by (rule encodeFields_steps)
    (auto simp: encodedLength_def dest!: put_length w_arr_length split: option.splits)

subsection \<open>Properties\<close>

definition sampleOp :: MembershipOp where
  "sampleOp = \<lparr>op_type = Create, op_conversationId = js ''c1'', op_seq = 0, op_prevHash = GENESIS_ZERO,
     op_author = js ''alice'', op_subject = None, op_aiMode = Some False,
     op_initialMembers = Some [js ''bob''], op_authorIdentityKey = [1, 2, 3], op_sig = [4, 5]\<rparr>"

lemma sampleOp_wf: "op_wf (sampleOp\<lparr>op_sig := s\<rparr>)"
  by (simp add: op_wf_def sampleOp_def wfString_js MAX_SAFE_INTEGER_def)

lemma sampleOp_fits: "op_fits (sampleOp\<lparr>op_sig := s\<rparr>)"
  by (simp add: op_fits_def items_fit_def sampleOp_def length_utf8Encode_js GENESIS_ZERO_def)

lemma encodeForHashing_ok:
  "(\<exists>b. encodeForHashing op = Inr b) \<longleftrightarrow> op_fits op \<and> length (op_sig op) < 2 ^ 32"
  using encodeForSigning_ok [of op]
  by (simp add: encodeForHashing_signing rbind_ok put_ok del: power_numeral)

text \<open>C12: \<^verbatim>\<open>decodeOp\<close> inverts \<^verbatim>\<open>encodeOp\<close>: a buffer is accepted and decoded to an op exactly when
  it is the one canonical encoding of that op and the op is well-formed (no lone surrogate in
  a string, a safe-integer sequence number). So no two buffers decode to the same op, every
  well-formed op survives the round trip, and nothing else is accepted.\<close>

theorem decodeOp_iff_encodeOp: "decodeOp b = Inr op \<longleftrightarrow> op_wf op \<and> encodeOp op = Inr b"
  unfolding encodeOp_def using encode_decode decode_canonical decode_wf by blast

text \<open>\<^verbatim>\<open>encodeOp\<close> returns exactly for the ops whose fields fit the widths of the format: a
  sequence number in the unsigned 64-bit range and every body shorter than 2^32 bytes;
  then the encoding has the length the layout says.\<close>

theorem encodeOp_total:
  "(\<exists>b. encodeOp op = Inr b \<and> length b = encodedLength op + 5 + length (op_sig op)) \<longleftrightarrow>
     op_fits op \<and> length (op_sig op) < 2 ^ 32"
proof -
  have "length b = encodedLength op + 5 + length (op_sig op)" if "encodeForHashing op = Inr b" for b
    using that by (auto simp: encodeForHashing_signing rbind_Inr_iff dest!: encodeForSigning_length put_length)
  then show ?thesis
    unfolding encodeForHashing_ok [symmetric] encodeOp_def by blast
qed

text \<open>The signed bytes bind every unsigned field: two well-formed ops with the same signing
  encoding differ at most in their signatures.\<close>

theorem encodeForSigning_binds:
  fixes op op' :: MembershipOp
  assumes "op_wf op" "op_wf op'" "encodeForSigning op = Inr b" "encodeForSigning op' = Inr b"
  shows "op' = op\<lparr>op_sig := op_sig op'\<rparr>"
proof -
  have "op\<lparr>op_sig := []\<rparr> = op'\<lparr>op_sig := []\<rparr>"
    by (rule encodeForSigning_inj [OF assms])
  then have "op\<lparr>op_sig := []\<rparr>\<lparr>op_sig := op_sig op'\<rparr> = op'\<lparr>op_sig := []\<rparr>\<lparr>op_sig := op_sig op'\<rparr>"
    by (rule arg_cong)
  then show ?thesis by simp
qed

theorem encodeForSigning_binds_witness:
  "\<exists>b. encodeForSigning sampleOp = Inr b \<and> sampleOp\<lparr>op_sig := [9]\<rparr> = sampleOp\<lparr>op_sig := op_sig (sampleOp\<lparr>op_sig := [9]\<rparr>)\<rparr>"
proof -
  obtain b where "encodeForSigning sampleOp = Inr b"
    using sampleOp_fits [of "op_sig sampleOp"] encodeForSigning_ok [of sampleOp] by auto
  then show ?thesis
    using encodeForSigning_binds [of sampleOp "sampleOp\<lparr>op_sig := [9]\<rparr>" b]
      sampleOp_wf [of "op_sig sampleOp"] sampleOp_wf [of "[9]"] by auto
qed

text \<open>C16: without well-formedness the encoding is not injective: a lone surrogate is written as
  U+FFFD, so two ops for different conversations have the same bytes, and decoding the
  first op's own encoding returns the second.\<close>

theorem lone_surrogate_collides:
  "\<exists>op op' b. op_conversationId op \<noteq> op_conversationId op' \<and> encodeOp op = Inr b \<and> encodeOp op' = Inr b
     \<and> decodeOp b = Inr op'"
proof -
  let ?op = "sampleOp\<lparr>op_conversationId := [0xD800]\<rparr>"
  let ?op' = "sampleOp\<lparr>op_conversationId := [0xFFFD]\<rparr>"
  have u: "utf8Encode [0xD800] = utf8Encode [0xFFFD]"
    by (simp add: utf8Encode_def isHighSurrogate_def isLowSurrogate_def replacement_def)
  have enc: "encodeOp ?op = encodeOp ?op'"
    by (simp add: encodeOp_def encodeForHashing_def encodeFields_def w_str_def u)
  have wf: "op_wf ?op'"
    by (simp add: op_wf_def sampleOp_def wfString_js MAX_SAFE_INTEGER_def isHighSurrogate_def isLowSurrogate_def)
  have "length (utf8Encode [0xFFFD]) < 2 ^ 32"
    by (simp add: utf8Encode_def utf8CodePoint_def isHighSurrogate_def isLowSurrogate_def)
  then have "op_fits ?op'" "length (op_sig ?op') < 2 ^ 32"
    by (simp_all add: op_fits_def items_fit_def sampleOp_def length_utf8Encode_js GENESIS_ZERO_def)
  then obtain b where b: "encodeForHashing ?op' = Inr b"
    using encodeForHashing_ok by blast
  then have "decodeOp b = Inr ?op'"
    using wf encode_decode by blast
  moreover have "op_conversationId ?op \<noteq> op_conversationId ?op'" by simp
  moreover have "encodeOp ?op' = Inr b" "encodeOp ?op = Inr b"
    using b enc by (simp_all add: encodeOp_def)
  ultimately show ?thesis by blast
qed

end
