(* ===== verification/Crypto.thy ===== *)
theory Crypto
  imports Canonical
begin

section \<open>Signatures and hashes of ops (\<^verbatim>\<open>membership/src/crypto.ts\<close>)\<close>

text \<open>
  SHA-256 and the libsignal identity keys are not part of the repository: they are the
  record \<open>crypto_lib\<close>, an argument of every definition that reaches them.
  \<open>pk_verify key msg sg\<close> is \<^verbatim>\<open>PublicKey.deserialize(key).verify(msg, sg)\<close>, \<open>None\<close> when it
  throws; \<open>sk_sign key entropy msg\<close> is \<^verbatim>\<open>privateKey.sign(msg)\<close>, whose randomness is an
  argument.

  What the code relies on of them are two named hypotheses: \<open>key_pair\<close>, a signature made
  with the private key verifies under its public key, and \<open>collision_free\<close>, no two of the
  finitely many buffers in play hash to the same digest.
\<close>

unbundle bit_operations_syntax

record crypto_lib =
  sha256 :: "bytes \<Rightarrow> bytes"
  pk_verify :: "bytes \<Rightarrow> bytes \<Rightarrow> bytes \<Rightarrow> bool option"
  sk_sign :: "bytes \<Rightarrow> bytes \<Rightarrow> bytes \<Rightarrow> bytes"

definition key_pair :: "crypto_lib \<Rightarrow> bytes \<Rightarrow> bytes \<Rightarrow> bool" where
  "key_pair K pub priv \<longleftrightarrow> (\<forall>entropy msg. pk_verify K pub msg (sk_sign K priv entropy msg) = Some True)"

definition SIGN_DOMAIN :: bytes where
  "SIGN_DOMAIN = utf8Encode (js ''signal-ai/membership-op/v1'')"

definition HASH_DOMAIN :: bytes where
  "HASH_DOMAIN = utf8Encode (js ''signal-ai/membership-hash/v1'')"

definition signingPreimage :: "'a UnsignedOp_scheme \<Rightarrow> thrown + bytes" where
  "signingPreimage op = rbind (encodeForSigning op) (\<lambda>b. Inr (SIGN_DOMAIN @ b))"

definition signOp :: "crypto_lib \<Rightarrow> UnsignedOp \<Rightarrow> bytes \<Rightarrow> bytes \<Rightarrow> thrown + bytes" where
  "signOp K op privateKey entropy =
     rbind (signingPreimage op) (\<lambda>m. Inr (sk_sign K privateKey entropy m))"

definition verifyOpSig :: "crypto_lib \<Rightarrow> MembershipOp \<Rightarrow> bool" where
  "verifyOpSig K op =
     (case signingPreimage op of
        Inl _ \<Rightarrow> False
      | Inr m \<Rightarrow> (case pk_verify K (op_authorIdentityKey op) m (op_sig op) of
          None \<Rightarrow> False
        | Some v \<Rightarrow> v))"

definition hashOp :: "crypto_lib \<Rightarrow> MembershipOp \<Rightarrow> thrown + bytes" where
  "hashOp K op = rbind (encodeForHashing op) (\<lambda>b. Inr (sha256 K (HASH_DOMAIN @ b)))"

definition bytesEqual :: "bytes \<Rightarrow> bytes \<Rightarrow> bool" where
  "bytesEqual a b =
     (if length a \<noteq> length b then False
      else foldl (\<lambda>diff (x, y). diff OR (x XOR y)) 0 (zip a b) = 0)"

text \<open>\<open>hashHex\<close> is \<^verbatim>\<open>toHex(hashOp(op))\<close>, the wire form of an op's hash.\<close>

definition hashHex :: "crypto_lib \<Rightarrow> MembershipOp \<Rightarrow> thrown + jsstring" where
  "hashHex K op = rbind (hashOp K op) (\<lambda>h. Inr (toHex h))"

subsection \<open>Constant-length comparison is equality\<close>

lemma xor_eq_0_iff: "(a :: 'a::len word) XOR b = 0 \<longleftrightarrow> a = b"
  by (metis xor.assoc xor.left_neutral xor_self_eq xor.right_neutral)

lemma diff_foldl:
  "length a = length b \<Longrightarrow>
   foldl (\<lambda>diff (x, y). diff OR (x XOR y)) d (zip a b) = (0 :: byte) \<longleftrightarrow> d = 0 \<and> a = b"
  by (induction a b arbitrary: d rule: list_induct2) (auto simp: or_eq_0_iff xor_eq_0_iff)

lemma bytesEqual_eq [simp]: "bytesEqual a b \<longleftrightarrow> a = b"
  by (auto simp: bytesEqual_def diff_foldl)

subsection \<open>What a hash and a signature bind\<close>

text \<open>
  \<open>hashPreimages\<close> lists the buffers that are hashed for the given ops; collision-freedom
  is only ever asked of such finite lists.
\<close>

definition hashPreimages :: "MembershipOp list \<Rightarrow> bytes list" where
  "hashPreimages ops =
     concat (map (\<lambda>op. case encodeForHashing op of Inl _ \<Rightarrow> [] | Inr b \<Rightarrow> [HASH_DOMAIN @ b]) ops)"

definition collision_free :: "crypto_lib \<Rightarrow> bytes list \<Rightarrow> bool" where
  "collision_free K bs \<longleftrightarrow> inj_on (sha256 K) (set bs)"

lemma hashPreimages_iff:
  "x \<in> set (hashPreimages ops) \<longleftrightarrow> (\<exists>op \<in> set ops. \<exists>b. encodeForHashing op = Inr b \<and> x = HASH_DOMAIN @ b)"
  unfolding hashPreimages_def by (induction ops) (auto split: sum.splits)

lemma hashPreimages_mem:
  "op \<in> set ops \<Longrightarrow> encodeForHashing op = Inr b \<Longrightarrow> HASH_DOMAIN @ b \<in> set (hashPreimages ops)"
  by (auto simp: hashPreimages_iff)

lemma set_hashPreimages_mono: "set ops \<subseteq> set ops' \<Longrightarrow> set (hashPreimages ops) \<subseteq> set (hashPreimages ops')"
  by (auto simp: hashPreimages_def)

lemma collision_free_mono:
  "collision_free K (hashPreimages ops') \<Longrightarrow> set ops \<subseteq> set ops' \<Longrightarrow> collision_free K (hashPreimages ops)"
  unfolding collision_free_def by (rule inj_on_subset, assumption, rule set_hashPreimages_mono)

lemma collision_freeI:
  assumes "\<And>op op'. op \<in> set ops \<Longrightarrow> op' \<in> set ops \<Longrightarrow> hashOp K op = hashOp K op' \<Longrightarrow> op = op'"
  shows "collision_free K (hashPreimages ops)"
  unfolding collision_free_def inj_on_def
proof (intro ballI impI)
  fix x y
  assume "x \<in> set (hashPreimages ops)" "y \<in> set (hashPreimages ops)" and sha: "sha256 K x = sha256 K y"
  then obtain op op' b b' where ops: "op \<in> set ops" "encodeForHashing op = Inr b" "x = HASH_DOMAIN @ b"
    "op' \<in> set ops" "encodeForHashing op' = Inr b'" "y = HASH_DOMAIN @ b'"
    unfolding hashPreimages_iff by blast
  then have "hashOp K op = hashOp K op'"
    using sha by (simp add: hashOp_def)
  with assms ops show "x = y" by fastforce
qed

lemma hashOp_inj:
  assumes "collision_free K (hashPreimages ops)" "op \<in> set ops" "op' \<in> set ops"
    and "op_wf op" "op_wf op'" "hashOp K op = Inr h" "hashOp K op' = Inr h"
  shows "op = op'"
proof -
  obtain b b' where b: "encodeForHashing op = Inr b" "encodeForHashing op' = Inr b'"
    and "sha256 K (HASH_DOMAIN @ b) = sha256 K (HASH_DOMAIN @ b')"
    using assms(6,7) by (auto simp: hashOp_def rbind_Inr_iff)
  then have "b = b'"
    using assms(1-3) hashPreimages_mem unfolding collision_free_def
    by (metis inj_onD same_append_eq)
  with b assms(4,5) show ?thesis by (metis encodeForHashing_inj)
qed

lemma hashHex_Inr: "hashHex K op = Inr x \<longleftrightarrow> (\<exists>h. hashOp K op = Inr h \<and> x = toHex h)"
  by (auto simp: hashHex_def rbind_Inr_iff)

lemma hashHex_inj:
  assumes "collision_free K (hashPreimages ops)" "op \<in> set ops" "op' \<in> set ops"
    and "op_wf op" "op_wf op'" "hashHex K op = Inr h" "hashHex K op' = Inr h"
  shows "op = op'"
  using assms hashOp_inj [OF assms(1-5)] by (auto simp: hashHex_Inr toHex_inj)

lemma verifyOpSig_fits: "verifyOpSig K op \<Longrightarrow> op_fits op"
  by (auto simp: verifyOpSig_def signingPreimage_def rbind_Inr_iff encodeForSigning_ok [symmetric]
      split: sum.splits)

lemma hashOp_ok: "(\<exists>h. hashOp K op = Inr h) \<longleftrightarrow> op_fits op \<and> length (op_sig op) < 2 ^ 32"
  unfolding encodeForHashing_ok [symmetric] by (auto simp: hashOp_def rbind_Inr_iff)

subsection \<open>A signed op verifies\<close>

text \<open>\<open>with_sig u s\<close> is the object literal \<^verbatim>\<open>{ ...unsigned, sig: s }\<close>.\<close>

definition with_sig :: "UnsignedOp \<Rightarrow> bytes \<Rightarrow> MembershipOp" where
  "with_sig u s = UnsignedOp.extend u \<lparr>op_sig = s\<rparr>"

lemma with_sig_simps [simp]:
  "op_type (with_sig u s) = op_type u" "op_conversationId (with_sig u s) = op_conversationId u"
  "op_seq (with_sig u s) = op_seq u" "op_prevHash (with_sig u s) = op_prevHash u"
  "op_author (with_sig u s) = op_author u" "op_subject (with_sig u s) = op_subject u"
  "op_aiMode (with_sig u s) = op_aiMode u" "op_initialMembers (with_sig u s) = op_initialMembers u"
  "op_authorIdentityKey (with_sig u s) = op_authorIdentityKey u" "op_sig (with_sig u s) = s"
  by (simp_all add: with_sig_def UnsignedOp.extend_def)

lemma with_sig_encode [simp]: "encodeForSigning (with_sig u s) = encodeForSigning u"
  by (simp add: encodeForSigning_def encodeFields_def)

lemma with_sig_wf [simp]:
  "op_wf (with_sig u s) = op_wf u" "op_fits (with_sig u s) = op_fits u" "encodedLength (with_sig u s) = encodedLength u"
  by (simp_all add: op_wf_def op_fits_def encodedLength_def)

lemma signOp_ok: "(\<exists>s. signOp K u priv e = Inr s) \<longleftrightarrow> op_fits u"
  unfolding encodeForSigning_ok [symmetric] by (auto simp: signOp_def signingPreimage_def rbind_Inr_iff)

lemma signOp_verifies:
  assumes "key_pair K pub priv" "op_authorIdentityKey u = pub" "signOp K u priv e = Inr s"
  shows "verifyOpSig K (with_sig u s)"
  using assms by (auto simp: signOp_def signingPreimage_def verifyOpSig_def key_pair_def rbind_Inr_iff)

subsection \<open>A concrete library\<close>

text \<open>
  An instance on which the hypotheses can be evaluated: the hash is the length of the
  input, a signature names the key and the length of the message.
\<close>

definition demoLib :: crypto_lib where
  "demoLib = \<lparr>sha256 = (\<lambda>b. be_bytes 32 (length b)),
     pk_verify = (\<lambda>k m s. Some (s = k @ be_bytes 4 (length m))),
     sk_sign = (\<lambda>k e m. k @ be_bytes 4 (length m))\<rparr>"

lemma demo_key_pair: "key_pair demoLib k k"
  by (simp add: key_pair_def demoLib_def)

lemma HASH_DOMAIN_length: "length HASH_DOMAIN = 28"
  by (simp add: HASH_DOMAIN_def length_utf8Encode_js)

lemma demo_hash:
  assumes "op_fits op" "length (op_sig op) < 2 ^ 32"
  shows "hashOp demoLib op = Inr (be_bytes 32 (33 + encodedLength op + length (op_sig op)))"
proof -
  obtain b b' where b: "encodeForHashing op = Inr b" "encodeForSigning op = Inr b'" "w_bytes (op_sig op) b' = Inr b"
    using assms encodeForHashing_ok [of op] by (auto simp: encodeForHashing_signing rbind_Inr_iff)
  then have "length b = 5 + encodedLength op + length (op_sig op)"
    using put_length(2) [OF b(3)] encodeForSigning_length [OF b(2)] by simp
  then show ?thesis
    using b by (simp add: hashOp_def demoLib_def HASH_DOMAIN_length ac_simps)
qed

lemma demo_sign_length: "signOp demoLib u k e = Inr s \<Longrightarrow> length s = length k + 4"
  by (auto simp: signOp_def demoLib_def rbind_Inr_iff)

subsection \<open>Properties\<close>

text \<open>The constant-length comparison of two byte strings, which accumulates the exclusive or
  of the bytes, is their equality.\<close>

theorem bytesEqual_is_equality: "bytesEqual a b \<longleftrightarrow> a = b"
  by simp

text \<open>A signing preimage is never a hashing preimage: the two domain prefixes differ before
  either ends.\<close>

theorem domains_separate:
  assumes "signingPreimage op = Inr m" "encodeForHashing op' = Inr b"
  shows "m \<noteq> HASH_DOMAIN @ b"
proof -
  have d: "take 22 SIGN_DOMAIN \<noteq> take 22 HASH_DOMAIN" "length SIGN_DOMAIN = 26"
    by (simp_all add: SIGN_DOMAIN_def HASH_DOMAIN_def js_def utf8Encode_ascii)
  have "take 22 m = take 22 SIGN_DOMAIN"
    using assms(1) d(2) by (auto simp: signingPreimage_def rbind_Inr_iff)
  moreover have "take 22 (HASH_DOMAIN @ b) = take 22 HASH_DOMAIN"
    by (simp add: HASH_DOMAIN_length)
  ultimately show ?thesis using d(1) by metis
qed

theorem domains_separate_witness:
  "\<exists>m b. signingPreimage sampleOp = Inr m \<and> encodeForHashing sampleOp = Inr b \<and> m \<noteq> HASH_DOMAIN @ b"
proof -
  have fits: "op_fits sampleOp" "length (op_sig sampleOp) < 2 ^ 32"
    using sampleOp_fits [of "op_sig sampleOp"] by (simp_all add: sampleOp_def)
  obtain m where m: "signingPreimage sampleOp = Inr m"
    using fits(1) encodeForSigning_ok [of sampleOp] by (auto simp: signingPreimage_def rbind_Inr_iff)
  obtain b where b: "encodeForHashing sampleOp = Inr b"
    using fits encodeForHashing_ok by blast
  show ?thesis using m b domains_separate [OF m b] by blast
qed

end
