(* ===== verification/Chain.thy ===== *)
theory Chain
  imports Crypto
begin

section \<open>Chains of ops (\<^verbatim>\<open>membership/src/chain.ts\<close>)\<close>

text \<open>
  \<open>verifyChain\<close> accepts a totally ordered chain or throws at the first violation, \<open>foldOps\<close>
  computes the member set (in the insertion order of the JavaScript \<^verbatim>\<open>Set\<close>) and the AI
  mode, \<open>headOf\<close> is the position and hash of the last op.

  The lemmas show that the loop is the conjunction of its per-position checks
  (\<open>link_ok\<close>), that a prefix of an accepted chain is accepted, that an accepted chain is
  extended exactly by an op that links to its last one, that the hash of an op determines
  every op before it, and what being a member means in terms of the last op that speaks
  about the user.
\<close>

record Head =
  head_seq :: int
  head_hash :: jsstring

definition validateOpShape :: "MembershipOp \<Rightarrow> thrown + unit" where
  "validateOpShape op =
     (let bad = Inl (IntegrityError MalformedOp) in
      case op_type op of
        Create \<Rightarrow>
          if op_subject op \<noteq> None then bad
          else if op_aiMode op = None then bad
          else if op_initialMembers op = None then bad
          else Inr ()
      | SetAiMode \<Rightarrow>
          if op_subject op \<noteq> None then bad
          else if op_aiMode op = None then bad
          else if op_initialMembers op \<noteq> None then bad
          else Inr ()
      | _ \<Rightarrow>
          if op_subject op = None then bad
          else if op_aiMode op \<noteq> None then bad
          else if op_initialMembers op \<noteq> None then bad
          else Inr ())"

text \<open>A loop whose body throws or goes on.\<close>

fun for_each :: "'a list \<Rightarrow> ('a \<Rightarrow> 'e + unit) \<Rightarrow> 'e + unit" where
  "for_each [] f = Inr ()"
| "for_each (x # xs) f = rbind (f x) (\<lambda>_. for_each xs f)"

text \<open>The loop body of \<^verbatim>\<open>verifyChain\<close> at index \<open>i\<close>.\<close>

definition verifyAt :: "crypto_lib \<Rightarrow> MembershipOp \<Rightarrow> MembershipOp list \<Rightarrow> nat \<Rightarrow> thrown + unit" where
  "verifyAt K genesis log i =
     (let op = log ! i in
      rbind (validateOpShape op) (\<lambda>_.
      if op_conversationId op \<noteq> op_conversationId genesis then Inl (IntegrityError ForeignConversation)
      else if op_seq op \<noteq> int i then Inl (IntegrityError SeqNotDense)
      else rbind
        (if i = 0 then
           (if \<not> bytesEqual (op_prevHash op) GENESIS_ZERO then Inl (IntegrityError GenesisPrevHash)
            else Inr ())
         else rbind (hashOp K (log ! (i - 1))) (\<lambda>h.
           if \<not> bytesEqual (op_prevHash op) h then Inl (IntegrityError BrokenHashChain) else Inr ()))
        (\<lambda>_.
         if \<not> verifyOpSig K op then Inl (IntegrityError InvalidSignature)
         else if i > 0 then
           (if op_author op \<noteq> op_author genesis then Inl (IntegrityError NonFounderAuthor)
            else if \<not> bytesEqual (op_authorIdentityKey op) (op_authorIdentityKey genesis)
            then Inl (IntegrityError NonAuthorityKey)
            else Inr ())
         else Inr ())))"

definition verifyChain :: "crypto_lib \<Rightarrow> MembershipOp list \<Rightarrow> thrown + unit" where
  "verifyChain K log =
     (case log of
        [] \<Rightarrow> Inl (IntegrityError EmptyLog)
      | genesis # _ \<Rightarrow>
          if op_type genesis \<noteq> Create then Inl (IntegrityError GenesisNotCreate)
          else if op_seq genesis \<noteq> 0 then Inl (IntegrityError GenesisSeq)
          else if \<not> bytesEqual (op_prevHash genesis) GENESIS_ZERO then Inl (IntegrityError GenesisPrevHash)
          else for_each [0..<length log] (verifyAt K genesis log))"

record view =
  members :: "jsstring list"
  aiMode :: bool

definition foldStep :: "MembershipOp \<Rightarrow> view \<Rightarrow> MembershipOp \<Rightarrow> view" where
  "foldStep genesis v op =
     (case op_type op of
        Create \<Rightarrow> \<lparr>members = js_set_of (op_author genesis # (case op_initialMembers op of None \<Rightarrow> [] | Some ms \<Rightarrow> ms)),
          aiMode = (case op_aiMode op of None \<Rightarrow> False | Some b \<Rightarrow> b)\<rparr>
      | Invite \<Rightarrow> (case op_subject op of None \<Rightarrow> v | Some s \<Rightarrow> v\<lparr>members := js_set_add (members v) s\<rparr>)
      | Remove \<Rightarrow> (case op_subject op of None \<Rightarrow> v | Some s \<Rightarrow> v\<lparr>members := js_set_del (members v) s\<rparr>)
      | SetAiMode \<Rightarrow> v\<lparr>aiMode := (case op_aiMode op of None \<Rightarrow> False | Some b \<Rightarrow> b)\<rparr>)"

definition foldOps :: "MembershipOp list \<Rightarrow> view" where
  "foldOps log =
     (case log of
        [] \<Rightarrow> \<lparr>members = [], aiMode = False\<rparr>
      | genesis # _ \<Rightarrow> foldl (foldStep genesis) \<lparr>members = [], aiMode = False\<rparr> log)"

definition applyOps :: "crypto_lib \<Rightarrow> MembershipOp list \<Rightarrow> thrown + view" where
  "applyOps K log = rbind (verifyChain K log) (\<lambda>_. Inr (foldOps log))"

text \<open>\<^verbatim>\<open>headOf\<close> is called on non-empty chains only.\<close>

definition headOf :: "crypto_lib \<Rightarrow> MembershipOp list \<Rightarrow> thrown + Head" where
  "headOf K log =
     rbind (hashHex K (last log)) (\<lambda>h. Inr \<lparr>head_seq = op_seq (last log), head_hash = h\<rparr>)"

subsection \<open>The loop is the conjunction of its checks\<close>

definition shape_ok :: "MembershipOp \<Rightarrow> bool" where
  "shape_ok op \<longleftrightarrow>
     (op_subject op \<noteq> None \<longleftrightarrow> op_type op \<in> {Invite, Remove})
     \<and> (op_aiMode op \<noteq> None \<longleftrightarrow> op_type op \<in> {Create, SetAiMode})
     \<and> (op_initialMembers op \<noteq> None \<longleftrightarrow> op_type op = Create)"

text \<open>\<open>link_ok K g prev i op\<close>: the op may stand at position \<open>i\<close> after \<open>prev\<close> in a chain of genesis \<open>g\<close>.\<close>

definition link_ok :: "crypto_lib \<Rightarrow> MembershipOp \<Rightarrow> MembershipOp option \<Rightarrow> nat \<Rightarrow> MembershipOp \<Rightarrow> bool" where
  "link_ok K g prev i op \<longleftrightarrow>
     shape_ok op \<and> op_conversationId op = op_conversationId g \<and> op_seq op = int i
     \<and> (case prev of None \<Rightarrow> op_prevHash op = GENESIS_ZERO | Some p \<Rightarrow> hashOp K p = Inr (op_prevHash op))
     \<and> verifyOpSig K op
     \<and> op_author op = op_author g \<and> op_authorIdentityKey op = op_authorIdentityKey g"

definition prev_op :: "MembershipOp list \<Rightarrow> nat \<Rightarrow> MembershipOp option" where
  "prev_op log i = (if i = 0 then None else Some (log ! (i - 1)))"

definition valid_chain :: "crypto_lib \<Rightarrow> MembershipOp list \<Rightarrow> bool" where
  "valid_chain K log \<longleftrightarrow> log \<noteq> [] \<and> op_type (hd log) = Create
     \<and> (\<forall>i < length log. link_ok K (hd log) (prev_op log i) i (log ! i))"

lemma for_each_Inr: "for_each xs f = Inr u \<longleftrightarrow> (\<forall>x \<in> set xs. f x = Inr ())"
  by (induction xs) (auto simp: rbind_Inr_iff)

lemma validateOpShape_Inr: "validateOpShape op = Inr u \<longleftrightarrow> shape_ok op"
  by (cases "op_type op") (auto simp: validateOpShape_def shape_ok_def Let_def)

lemma verifyAt_Inr:
  "verifyAt K (hd log) log i = Inr u \<longleftrightarrow> link_ok K (hd log) (prev_op log i) i (log ! i)"
  if "log \<noteq> []"
  using that
  by (cases "i = 0")
    (auto simp: verifyAt_def link_ok_def prev_op_def Let_def rbind_Inr_iff validateOpShape_Inr hd_conv_nth)

lemma verifyChain_iff: "verifyChain K log = Inr u \<longleftrightarrow> valid_chain K log"
proof (cases "log = []")
  case False
  then have "for_each [0..<length log] (verifyAt K (hd log) log) = Inr u \<longleftrightarrow>
      (\<forall>i < length log. link_ok K (hd log) (prev_op log i) i (log ! i))"
    by (auto simp: for_each_Inr verifyAt_Inr)
  moreover have "verifyChain K log = (if op_type (hd log) \<noteq> Create then Inl (IntegrityError GenesisNotCreate)
      else if op_seq (hd log) \<noteq> 0 then Inl (IntegrityError GenesisSeq)
      else if \<not> bytesEqual (op_prevHash (hd log)) GENESIS_ZERO then Inl (IntegrityError GenesisPrevHash)
      else for_each [0..<length log] (verifyAt K (hd log) log))"
    using False by (simp add: verifyChain_def split: list.split)
  ultimately show ?thesis
    using False by (auto simp: valid_chain_def link_ok_def prev_op_def hd_conv_nth)
qed (simp add: verifyChain_def valid_chain_def)

subsection \<open>Growing and cutting a valid chain\<close>

lemma valid_chain_nonempty: "valid_chain K log \<Longrightarrow> log \<noteq> []"
  by (simp add: valid_chain_def)

lemma valid_chain_link:
  "valid_chain K log \<Longrightarrow> i < length log \<Longrightarrow> link_ok K (hd log) (prev_op log i) i (log ! i)"
  by (simp add: valid_chain_def)

lemma valid_chain_seq: "valid_chain K log \<Longrightarrow> i < length log \<Longrightarrow> op_seq (log ! i) = int i"
  by (auto dest: valid_chain_link simp: link_ok_def)

lemma valid_chain_last_seq: "valid_chain K log \<Longrightarrow> op_seq (last log) = int (length log) - 1"
  using valid_chain_nonempty [of K log] valid_chain_seq [of K log "length log - 1"]
  by (simp add: last_conv_nth) (cases log; simp)

lemma valid_chain_hash:
  "valid_chain K log \<Longrightarrow> Suc i < length log \<Longrightarrow> hashOp K (log ! i) = Inr (op_prevHash (log ! Suc i))"
  using valid_chain_link [of K log "Suc i"] by (auto simp: link_ok_def prev_op_def)

lemma valid_chain_prefix:
  assumes "valid_chain K log" "prefix ys log" "ys \<noteq> []"
  shows "valid_chain K ys"
proof -
  obtain zs where log: "log = ys @ zs" using assms(2) by (auto simp: prefix_def)
  have "prev_op log i = prev_op ys i \<and> log ! i = ys ! i" if "i < length ys" for i
    using that by (auto simp: prev_op_def log nth_append)
  moreover have "hd log = hd ys" "length ys \<le> length log"
    using assms(3) by (simp_all add: log)
  ultimately show ?thesis
    using assms(1,3) unfolding valid_chain_def by (metis order_less_le_trans)
qed

lemma valid_chain_snoc:
  assumes "log \<noteq> []"
  shows "valid_chain K (log @ [op]) \<longleftrightarrow>
    valid_chain K log \<and> link_ok K (hd log) (Some (last log)) (length log) op"
proof -
  have same: "prev_op (log @ [op]) i = prev_op log i \<and> (log @ [op]) ! i = log ! i" if "i < length log" for i
    using that by (auto simp: prev_op_def nth_append)
  have "prev_op (log @ [op]) (length log) = Some (last log)"
    using assms by (simp add: prev_op_def nth_append last_conv_nth)
  then show ?thesis
    using assms same by (auto simp: valid_chain_def less_Suc_eq)
qed

lemma valid_chain_single:
  "valid_chain K [g] \<longleftrightarrow> op_type g = Create \<and> link_ok K g None 0 g"
  by (auto simp: valid_chain_def prev_op_def)

lemma headOf_valid:
  "valid_chain K log \<Longrightarrow> headOf K log = Inr h \<longleftrightarrow>
     head_seq h = int (length log) - 1 \<and> hashHex K (last log) = Inr (head_hash h)"
  by (cases h) (auto simp: headOf_def rbind_Inr_iff valid_chain_last_seq)

text \<open>The hash of an op pins every op up to it.\<close>

lemma hash_pins_prefix:
  assumes "valid_chain K c" "valid_chain K c'" "list_all op_wf c" "list_all op_wf c'"
    and cf: "collision_free K (hashPreimages (c @ c'))"
  shows "i < length c \<Longrightarrow> i < length c' \<Longrightarrow> hashOp K (c ! i) = Inr h \<Longrightarrow> hashOp K (c' ! i) = Inr h
    \<Longrightarrow> take (Suc i) c = take (Suc i) c'"
proof (induction i arbitrary: h)
  case (0 h)
  then have "c ! 0 = c' ! 0"
    using assms(3,4) by (intro hashOp_inj [OF cf]) (auto simp: list_all_length)
  with 0 show ?case by (simp add: take_Suc_conv_app_nth)
next
  case (Suc i h)
  then have eq: "c ! Suc i = c' ! Suc i"
    using assms(3,4) by (intro hashOp_inj [OF cf]) (auto simp: list_all_length)
  then have "take (Suc i) c = take (Suc i) c'"
    using Suc valid_chain_hash assms(1,2) by simp
  with eq Suc.prems show ?case by (simp add: take_Suc_conv_app_nth)
qed

lemma hex_pins_prefix:
  assumes "valid_chain K c" "valid_chain K c'" "list_all op_wf c" "list_all op_wf c'"
    and "collision_free K (hashPreimages (c @ c'))"
    and "i < length c" "i < length c'" "hashHex K (c ! i) = Inr h" "hashHex K (c' ! i) = Inr h"
  shows "take (Suc i) c = take (Suc i) c'"
proof -
  obtain d d' where "hashOp K (c ! i) = Inr d" "hashOp K (c' ! i) = Inr d'" "toHex d = toHex d'"
    using assms(8,9) by (auto simp: hashHex_Inr)
  then show ?thesis
    using hash_pins_prefix [OF assms(1-7), of d] by (simp add: toHex_inj)
qed

subsection \<open>What the fold computes\<close>

text \<open>
  An op grants a user membership or revokes it, or says nothing about the user. A user is
  a member iff some op grants and no later op revokes.
\<close>

definition grants :: "MembershipOp \<Rightarrow> jsstring \<Rightarrow> MembershipOp \<Rightarrow> bool" where
  "grants g u op \<longleftrightarrow>
     (op_type op = Create \<and> (u = op_author g \<or> (\<exists>ms. op_initialMembers op = Some ms \<and> u \<in> set ms)))
     \<or> (op_type op = Invite \<and> op_subject op = Some u)"

definition revokes :: "MembershipOp \<Rightarrow> jsstring \<Rightarrow> MembershipOp \<Rightarrow> bool" where
  "revokes g u op \<longleftrightarrow>
     (op_type op = Create \<and> \<not> grants g u op) \<or> (op_type op = Remove \<and> op_subject op = Some u)"

lemma foldOps_snoc: "log \<noteq> [] \<Longrightarrow> foldOps (log @ [op]) = foldStep (hd log) (foldOps log) op"
  by (cases log) (simp_all add: foldOps_def)

lemma foldStep_members:
  "u \<in> set (members (foldStep g v op)) \<longleftrightarrow> grants g u op \<or> (u \<in> set (members v) \<and> \<not> revokes g u op)"
  by (cases "op_type op") (auto simp: foldStep_def grants_def revokes_def split: option.splits)

lemma foldStep_distinct: "distinct (members v) \<Longrightarrow> distinct (members (foldStep g v op))"
  by (cases "op_type op") (auto simp: foldStep_def split: option.splits)

definition last_word :: "MembershipOp \<Rightarrow> jsstring \<Rightarrow> MembershipOp list \<Rightarrow> bool" where
  "last_word g u log \<longleftrightarrow>
     (\<exists>before op after. log = before @ op # after \<and> grants g u op \<and> (\<forall>x \<in> set after. \<not> revokes g u x))"

lemma last_word_Nil [simp]: "\<not> last_word g u []"
  by (simp add: last_word_def)

lemma last_word_snoc:
  "last_word g u (log @ [op]) \<longleftrightarrow> grants g u op \<or> (last_word g u log \<and> \<not> revokes g u op)"
proof
  assume "last_word g u (log @ [op])"
  then obtain before x after where x: "log @ [op] = before @ x # after" "grants g u x" "\<forall>y \<in> set after. \<not> revokes g u y"
    by (auto simp: last_word_def)
  then show "grants g u op \<or> (last_word g u log \<and> \<not> revokes g u op)"
    unfolding last_word_def by (cases after rule: rev_cases) (simp, metis append1_eq_conv append_Cons append_assoc
      in_set_conv_decomp Un_iff set_append)
next
  assume "grants g u op \<or> (last_word g u log \<and> \<not> revokes g u op)"
  then show "last_word g u (log @ [op])"
  proof (elim disjE conjE)
    assume "last_word g u log" "\<not> revokes g u op"
    then obtain before x after where
      "log @ [op] = before @ x # (after @ [op])" "grants g u x" "\<forall>y \<in> set (after @ [op]). \<not> revokes g u y"
      by (auto simp: last_word_def)
    then show ?thesis unfolding last_word_def by blast
  qed (force simp: last_word_def)
qed

lemma foldl_members:
  "u \<in> set (members (foldl (foldStep g) v log)) \<longleftrightarrow>
     last_word g u log \<or> (u \<in> set (members v) \<and> (\<forall>x \<in> set log. \<not> revokes g u x))"
  by (induction log rule: rev_induct) (auto simp: last_word_snoc foldStep_members)

lemma foldOps_members: "u \<in> set (members (foldOps log)) \<longleftrightarrow> last_word (hd log) u log"
  by (cases log) (simp_all add: foldOps_def foldl_members del: foldl_Cons)

lemma foldOps_distinct: "distinct (members (foldOps log))"
proof -
  have "distinct (members (foldl (foldStep g) v log))" if "distinct (members v)" for g v
    using that by (induction log arbitrary: v) (auto simp: foldStep_distinct)
  then show ?thesis by (cases log) (simp_all add: foldOps_def del: foldl_Cons)
qed

subsection \<open>A concrete conversation\<close>

text \<open>
  The conversation \<^verbatim>\<open>c1\<close>: alice founds it with bob, invites carol and removes bob.
\<close>

definition demoUnsigned ::
    "OpType \<Rightarrow> int \<Rightarrow> bytes \<Rightarrow> jsstring option \<Rightarrow> bool option \<Rightarrow> jsstring list option \<Rightarrow> UnsignedOp" where
  "demoUnsigned t sq prev subj ai ms =
     \<lparr>op_type = t, op_conversationId = js ''c1'', op_seq = sq, op_prevHash = prev,
      op_author = js ''alice'', op_subject = subj, op_aiMode = ai, op_initialMembers = ms,
      op_authorIdentityKey = [1, 2, 3]\<rparr>"

definition demoSign :: "UnsignedOp \<Rightarrow> MembershipOp" where
  "demoSign u = with_sig u (case signOp demoLib u [1, 2, 3] [] of Inl _ \<Rightarrow> [] | Inr s \<Rightarrow> s)"

definition demoCreate :: MembershipOp where
  "demoCreate = demoSign (demoUnsigned Create 0 GENESIS_ZERO None (Some False) (Some [js ''bob'']))"

definition demoInvite :: MembershipOp where
  "demoInvite = demoSign (demoUnsigned Invite 1 (be_bytes 32 153) (Some (js ''carol'')) None None)"

definition demoRemove :: MembershipOp where
  "demoRemove = demoSign (demoUnsigned Remove 2 (be_bytes 32 146) (Some (js ''bob'')) None None)"

definition demoChain :: "MembershipOp list" where
  "demoChain = [demoCreate, demoInvite, demoRemove]"

lemmas demo_op_defs = demoCreate_def demoInvite_def demoRemove_def

lemma demoSign_sig: "op_fits u \<Longrightarrow> \<exists>s. demoSign u = with_sig u s \<and> signOp demoLib u [1, 2, 3] [] = Inr s \<and> length s = 7"
  using signOp_ok [of demoLib u "[1, 2, 3]" "[]"] demo_sign_length [of u "[1, 2, 3]" "[]"] by (auto simp: demoSign_def)

lemma demoSign_verifies:
  assumes "op_fits u" "op_authorIdentityKey u = [1, 2, 3]"
  shows "verifyOpSig demoLib (demoSign u)"
  using demoSign_sig [OF assms(1)] signOp_verifies [OF demo_key_pair assms(2)] by auto

lemma demoSign_simps [simp]:
  "op_type (demoSign u) = op_type u" "op_conversationId (demoSign u) = op_conversationId u"
  "op_seq (demoSign u) = op_seq u" "op_prevHash (demoSign u) = op_prevHash u"
  "op_author (demoSign u) = op_author u" "op_subject (demoSign u) = op_subject u"
  "op_aiMode (demoSign u) = op_aiMode u" "op_initialMembers (demoSign u) = op_initialMembers u"
  "op_authorIdentityKey (demoSign u) = op_authorIdentityKey u"
  "op_wf (demoSign u) = op_wf u" "op_fits (demoSign u) = op_fits u" "encodedLength (demoSign u) = encodedLength u"
  by (simp_all add: demoSign_def)

lemma demoSign_hash:
  assumes "op_fits u"
  shows "hashOp demoLib (demoSign u) = Inr (be_bytes 32 (40 + encodedLength u))"
proof -
  obtain s where "demoSign u = with_sig u s" "length s = 7"
    using demoSign_sig [OF assms] by blast
  then show ?thesis using demo_hash [of "with_sig u s"] assms by simp
qed

lemma demoUnsigned_simps [simp]:
  "op_type (demoUnsigned t sq prev subj ai ms) = t" "op_conversationId (demoUnsigned t sq prev subj ai ms) = js ''c1''"
  "op_seq (demoUnsigned t sq prev subj ai ms) = sq" "op_prevHash (demoUnsigned t sq prev subj ai ms) = prev"
  "op_author (demoUnsigned t sq prev subj ai ms) = js ''alice''" "op_subject (demoUnsigned t sq prev subj ai ms) = subj"
  "op_aiMode (demoUnsigned t sq prev subj ai ms) = ai" "op_initialMembers (demoUnsigned t sq prev subj ai ms) = ms"
  "op_authorIdentityKey (demoUnsigned t sq prev subj ai ms) = [1, 2, 3]"
  by (simp_all add: demoUnsigned_def)

lemma demo_fits [simp]: "op_fits demoCreate" "op_fits demoInvite" "op_fits demoRemove"
  by (simp_all add: demo_op_defs op_fits_def items_fit_def length_utf8Encode_js GENESIS_ZERO_def)

lemma demo_wf [simp]: "op_wf demoCreate" "op_wf demoInvite" "op_wf demoRemove"
  by (simp_all add: demo_op_defs op_wf_def wfString_js MAX_SAFE_INTEGER_def)

lemma demo_hashes [simp]:
  "hashOp demoLib demoCreate = Inr (be_bytes 32 153)"
  "hashOp demoLib demoInvite = Inr (be_bytes 32 146)"
  "hashOp demoLib demoRemove = Inr (be_bytes 32 144)"
  using demo_fits
  by (simp_all add: demo_op_defs demoSign_hash encodedLength_def opTypeName_def length_utf8Encode_js GENESIS_ZERO_def)

lemma demo_verifies [simp]:
  "verifyOpSig demoLib demoCreate" "verifyOpSig demoLib demoInvite" "verifyOpSig demoLib demoRemove"
  using demo_fits unfolding demo_op_defs by (auto intro: demoSign_verifies)

lemma demo_links:
  "link_ok demoLib demoCreate None 0 demoCreate"
  "link_ok demoLib demoCreate (Some demoCreate) 1 demoInvite"
  "link_ok demoLib demoCreate (Some demoInvite) 2 demoRemove"
  by (simp_all add: link_ok_def) (simp_all add: demo_op_defs shape_ok_def)

lemma demo_valid: "valid_chain demoLib demoChain"
proof -
  have "valid_chain demoLib [demoCreate]"
    using demo_links(1) by (simp add: valid_chain_single demoCreate_def)
  then have "valid_chain demoLib ([demoCreate] @ [demoInvite])"
    using demo_links(2) by (subst valid_chain_snoc) simp_all
  then have "valid_chain demoLib (([demoCreate] @ [demoInvite]) @ [demoRemove])"
    using demo_links(3) by (subst valid_chain_snoc) (simp_all add: eval_nat_numeral)
  then show ?thesis by (simp add: demoChain_def)
qed

lemma demo_collision_free: "collision_free demoLib (hashPreimages (demoChain @ demoChain))"
proof (rule collision_freeI)
  fix op op'
  assume "op \<in> set (demoChain @ demoChain)" "op' \<in> set (demoChain @ demoChain)" "hashOp demoLib op = hashOp demoLib op'"
  then show "op = op'" by (auto simp: demoChain_def be_bytes_inj)
qed

lemma demo_prefix_valid: "valid_chain demoLib [demoCreate, demoInvite]"
  using demo_valid by (rule valid_chain_prefix) (simp_all add: demoChain_def)

lemma demo_head: "headOf demoLib demoChain = Inr \<lparr>head_seq = 2, head_hash = toHex (be_bytes 32 144)\<rparr>"
  by (simp add: headOf_def hashHex_def demoChain_def) (simp add: demoRemove_def)

subsection \<open>Properties\<close>

text \<open>C11: \<^verbatim>\<open>verifyChain\<close> returns exactly for the chains it documents: non-empty, a \<^verbatim>\<open>create\<close> first,
  and at every index a well-shaped op of the genesis conversation with that index as its
  sequence number, the hash of its predecessor (the zero hash at the genesis), a valid
  signature, and the genesis author and key.\<close>

theorem verifyChain_accepts_iff: "verifyChain K log = Inr () \<longleftrightarrow> valid_chain K log"
  by (rule verifyChain_iff)

text \<open>A verified chain is extended one op at a time: appending an op verifies exactly when the
  chain does and the op links to its last one, so every non-empty prefix of a verified chain
  verifies.\<close>

theorem verifyChain_append:
  assumes "log \<noteq> []"
  shows "verifyChain K (log @ [op]) = Inr () \<longleftrightarrow>
    verifyChain K log = Inr () \<and> link_ok K (hd log) (Some (last log)) (length log) op"
  unfolding verifyChain_iff by (rule valid_chain_snoc [OF assms])

theorem verifyChain_append_witness:
  "verifyChain demoLib [demoCreate] = Inr () \<and> verifyChain demoLib [demoCreate, demoInvite] = Inr ()"
  using verifyChain_append [of "[demoCreate]" demoLib demoInvite] demo_prefix_valid
  by (simp add: verifyChain_iff)

text \<open>C10: the head pins the whole history: two verified chains of decoded ops with the same head
  (position and hash) are the same chain, as long as no two of their ops collide under the
  hash.\<close>

theorem head_pins_history:
  assumes "verifyChain K c = Inr ()" "verifyChain K c' = Inr ()"
    and "list_all op_wf c" "list_all op_wf c'" "collision_free K (hashPreimages (c @ c'))"
    and "headOf K c = Inr h" "headOf K c' = Inr h"
  shows "c = c'"
proof -
  have v: "valid_chain K c" "valid_chain K c'"
    using assms(1,2) by (simp_all add: verifyChain_iff)
  have len: "int (length c) - 1 = int (length c') - 1" "hashHex K (last c) = hashHex K (last c')"
      "hashHex K (last c) = Inr (head_hash h)"
    using assms(6,7) by (simp_all add: headOf_valid [OF v(1)] headOf_valid [OF v(2)])
  obtain n where n: "length c = Suc n" "length c' = Suc n"
    using valid_chain_nonempty [OF v(1)] len(1) by (cases c) auto
  then have "last c = c ! n" "last c' = c' ! n"
    by (metis diff_Suc_1 last_conv_nth length_0_conv nat.distinct(1))+
  then have "take (Suc n) c = take (Suc n) c'"
    using len(2,3) n by (intro hex_pins_prefix [OF v assms(3-5), of n "head_hash h"]) simp_all
  with n show ?thesis by simp
qed

theorem head_pins_history_witness:
  "verifyChain demoLib demoChain = Inr () \<and> verifyChain demoLib [demoCreate, demoInvite] = Inr ()
   \<and> collision_free demoLib (hashPreimages (demoChain @ [demoCreate, demoInvite]))
   \<and> (\<exists>h h'. headOf demoLib demoChain = Inr h \<and> headOf demoLib [demoCreate, demoInvite] = Inr h' \<and> h \<noteq> h')"
proof -
  have v: "verifyChain demoLib demoChain = Inr ()" "verifyChain demoLib [demoCreate, demoInvite] = Inr ()"
    using demo_valid demo_prefix_valid by (simp_all add: verifyChain_iff)
  have cf: "collision_free demoLib (hashPreimages (demoChain @ [demoCreate, demoInvite]))"
    by (rule collision_free_mono [OF demo_collision_free]) (auto simp: demoChain_def)
  obtain h' where h': "headOf demoLib [demoCreate, demoInvite] = Inr h'"
    by (simp add: headOf_def hashHex_def)
  have "list_all op_wf demoChain" "list_all op_wf [demoCreate, demoInvite]" "demoChain \<noteq> [demoCreate, demoInvite]"
    by (simp_all add: demoChain_def)
  then have "h' \<noteq> \<lparr>head_seq = 2, head_hash = toHex (be_bytes 32 144)\<rparr>"
    using head_pins_history [OF v _ _ cf demo_head] h' by auto
  then show ?thesis using v cf demo_head h' by metis
qed

text \<open>C15: who is a member: a user is in the folded member set exactly when some op grants the user
  membership (a \<^verbatim>\<open>create\<close> that lists the user or is founded by the user, or an \<^verbatim>\<open>invite\<close>) and
  no later op revokes it; and the set holds each user once.\<close>

theorem fold_last_word:
  "(u \<in> set (members (foldOps log)) \<longleftrightarrow> last_word (hd log) u log) \<and> distinct (members (foldOps log))"
  by (simp add: foldOps_members foldOps_distinct)

end
