(* ===== verification/Json.thy ===== *)
theory Json
  imports Prelude
begin

section \<open>JSON values\<close>

text \<open>
  The values \<^verbatim>\<open>JSON.parse\<close> returns and \<^verbatim>\<open>JSON.stringify\<close> prints. Of a number the
  validators of the repository ask whether it is an integer and which one, so a number is
  \<open>JInt\<close> with its value or \<open>JFrac\<close>, any number that is not an integer.
  \<open>js_get\<close> is property access: \<open>None\<close> is \<^verbatim>\<open>undefined\<close>.
\<close>

datatype json =
    JNull
  | JBool bool
  | JInt int
  | JFrac
  | JStr jsstring
  | JArr "json list"
  | JObj "(jsstring \<times> json) list"

definition js_get :: "json \<Rightarrow> jsstring \<Rightarrow> json option" where
  "js_get v k = (case v of JObj kvs \<Rightarrow> map_of kvs k | _ \<Rightarrow> None)"

text \<open>\<^verbatim>\<open>typeof v === "object" && v !== null\<close>.\<close>

definition is_object :: "json \<Rightarrow> bool" where
  "is_object v = (case v of JObj _ \<Rightarrow> True | JArr _ \<Rightarrow> True | _ \<Rightarrow> False)"

lemma js_get_JObj [simp]: "js_get (JObj kvs) k = map_of kvs k"
  by (simp add: js_get_def)

lemma is_object_simps [simp]:
  "is_object (JObj kvs)" "is_object (JArr vs)" "\<not> is_object JNull" "\<not> is_object (JStr s)"
  "\<not> is_object (JInt i)" "\<not> is_object JFrac" "\<not> is_object (JBool b)"
  by (simp_all add: is_object_def)

end
