(* ===== verification/MemberLog.thy ===== *)
theory MemberLog
  imports Chain Json
begin

section \<open>A peer's view of a conversation (\<^verbatim>\<open>membership/src/log.ts\<close>)\<close>

text \<open>
  A \<^verbatim>\<open>MembershipLog\<close> holds the highest verified chain a peer adopted and a watermark, the
  highest head it authenticated; a joiner's log is created from an out-of-band invite pin.
  Methods that mutate the object return the new one; a method that throws leaves it alone,
  as the code only assigns after its last check.

  \<open>log_inv\<close> is the invariant every construction establishes and every ingest keeps; the
  view only ever grows (\<open>ingest_extends\<close>) and a joiner's view always contains its pin
  (\<open>ingest_pin\<close>).
\<close>

record InvitePin =
  pin_conversationId :: jsstring
  pin_genesisHash :: jsstring
  pin_pinnedHead :: Head

definition HEX_test :: "jsstring \<Rightarrow> bool" where
  "HEX_test s \<longleftrightarrow> s \<noteq> [] \<and> list_all isHexUnit s"

definition serializeInvitePin :: "InvitePin \<Rightarrow> json" where
  "serializeInvitePin pin = JObj
     [(js ''conversationId'', JStr (pin_conversationId pin)),
      (js ''genesisHash'', JStr (pin_genesisHash pin)),
      (js ''pinnedHead'', JObj
        [(js ''seq'', JInt (head_seq (pin_pinnedHead pin))),
         (js ''headHash'', JStr (head_hash (pin_pinnedHead pin)))])]"

text \<open>The argument is the result of \<^verbatim>\<open>JSON.parse\<close>, \<open>None\<close> when it throws.\<close>

definition parseInvitePin :: "json option \<Rightarrow> thrown + InvitePin" where
  "parseInvitePin serialized =
     (case serialized of
        None \<Rightarrow> Inl (IntegrityError PinNotJson)
      | Some raw \<Rightarrow>
          if \<not> is_object raw then Inl (IntegrityError PinNotObject)
          else case js_get raw (js ''conversationId'') of
            Some (JStr conv) \<Rightarrow>
              if conv = [] then Inl (IntegrityError PinConversationId)
              else (case js_get raw (js ''genesisHash'') of
                Some (JStr gh) \<Rightarrow>
                  if \<not> HEX_test gh then Inl (IntegrityError PinGenesisHash)
                  else (case js_get raw (js ''pinnedHead'') of
                    None \<Rightarrow> Inl (IntegrityError PinNoHead)
                  | Some head \<Rightarrow>
                      if \<not> is_object head then Inl (IntegrityError PinNoHead)
                      else (case js_get head (js ''seq'') of
                        Some (JInt sq) \<Rightarrow>
                          if sq < 0 then Inl (IntegrityError PinSeq)
                          else (case js_get head (js ''headHash'') of
                            Some (JStr hh) \<Rightarrow>
                              if \<not> HEX_test hh then Inl (IntegrityError PinHeadHash)
                              else Inr \<lparr>pin_conversationId = conv, pin_genesisHash = gh,
                                pin_pinnedHead = \<lparr>head_seq = sq, head_hash = hh\<rparr>\<rparr>
                          | _ \<Rightarrow> Inl (IntegrityError PinHeadHash))
                      | _ \<Rightarrow> Inl (IntegrityError PinSeq)))
              | _ \<Rightarrow> Inl (IntegrityError PinGenesisHash))
          | _ \<Rightarrow> Inl (IntegrityError PinConversationId))"

record MembershipLog =
  ml_conversationId :: jsstring
  ml_pin :: "InvitePin option"
  ml_ops :: "MembershipOp list"
  ml_watermark :: "Head option"

definition newLog :: "jsstring \<Rightarrow> InvitePin option \<Rightarrow> MembershipLog" where
  "newLog conv pin =
     \<lparr>ml_conversationId = conv, ml_pin = pin, ml_ops = [], ml_watermark = map_option pin_pinnedHead pin\<rparr>"

definition forJoiner :: "InvitePin \<Rightarrow> MembershipLog" where
  "forJoiner pin = newLog (pin_conversationId pin) (Some pin)"

text \<open>\<open>hashIs K log i h\<close>: the test \<^verbatim>\<open>op && toHex(hashOp(op)) === h\<close> on \<^verbatim>\<open>log[i]\<close>.\<close>

definition hashIs :: "crypto_lib \<Rightarrow> MembershipOp list \<Rightarrow> int \<Rightarrow> jsstring \<Rightarrow> thrown + bool" where
  "hashIs K log i h =
     (case js_nth log i of None \<Rightarrow> Inr False | Some op \<Rightarrow> rbind (hashHex K op) (\<lambda>x. Inr (x = h)))"

definition checkPin :: "crypto_lib \<Rightarrow> InvitePin option \<Rightarrow> MembershipOp list \<Rightarrow> thrown + unit" where
  "checkPin K pin candidate =
     (case pin of
        None \<Rightarrow> Inr ()
      | Some p \<Rightarrow>
          rbind (hashHex K (hd candidate)) (\<lambda>gh.
          if gh \<noteq> pin_genesisHash p then Inl (IntegrityError PinGenesisMismatch)
          else rbind (hashIs K candidate (head_seq (pin_pinnedHead p)) (head_hash (pin_pinnedHead p))) (\<lambda>ok.
            if \<not> ok then Inl (IntegrityError PinHeadMissing) else Inr ())))"

definition checkWatermark ::
    "crypto_lib \<Rightarrow> Head option \<Rightarrow> MembershipOp list \<Rightarrow> Head \<Rightarrow> thrown + unit" where
  "checkWatermark K watermark candidate candHead =
     (case watermark of
        None \<Rightarrow> Inr ()
      | Some wm \<Rightarrow>
          if head_seq candHead < head_seq wm then Inl (IntegrityError Regresses)
          else rbind (hashIs K candidate (head_seq wm) (head_hash wm)) (\<lambda>ok.
            if \<not> ok then Inl (IntegrityError Forks) else Inr ()))"

text \<open>The assignments at the end of \<^verbatim>\<open>ingestChain\<close>.\<close>

definition adopt :: "MembershipLog \<Rightarrow> MembershipOp list \<Rightarrow> Head \<Rightarrow> MembershipLog" where
  "adopt log candidate candHead =
     (let held = (if ml_ops log \<noteq> [] then op_seq (last (ml_ops log)) else -1);
        log1 = (if head_seq candHead \<ge> held then log\<lparr>ml_ops := candidate\<rparr> else log)
      in case ml_watermark log of
           None \<Rightarrow> log1\<lparr>ml_watermark := Some candHead\<rparr>
         | Some wm \<Rightarrow> if head_seq candHead > head_seq wm
             then log1\<lparr>ml_watermark := Some candHead\<rparr> else log1)"

definition ingestChain :: "crypto_lib \<Rightarrow> MembershipLog \<Rightarrow> MembershipOp list \<Rightarrow> thrown + MembershipLog" where
  "ingestChain K log candidate =
     rbind (verifyChain K candidate) (\<lambda>_.
     if op_conversationId (hd candidate) \<noteq> ml_conversationId log
     then Inl (IntegrityError CandidateForeign)
     else
       rbind (checkPin K (ml_pin log) candidate) (\<lambda>_.
       rbind (headOf K candidate) (\<lambda>candHead.
       rbind (checkWatermark K (ml_watermark log) candidate candHead) (\<lambda>_.
         Inr (adopt log candidate candHead)))))"

definition openLog :: "crypto_lib \<Rightarrow> MembershipOp list \<Rightarrow> thrown + MembershipLog" where
  "openLog K chain =
     (case chain of
        [] \<Rightarrow> Inl (IntegrityError OpenEmptyChain)
      | genesis # _ \<Rightarrow> ingestChain K (newLog (op_conversationId genesis) None) chain)"

definition logHead :: "crypto_lib \<Rightarrow> MembershipLog \<Rightarrow> thrown + Head" where
  "logHead K log =
     (if ml_ops log = [] then
        (case ml_watermark log of Some wm \<Rightarrow> Inr wm | None \<Rightarrow> Inl (IntegrityError NoVerifiedChain))
      else headOf K (ml_ops log))"

definition ready :: "MembershipLog \<Rightarrow> bool" where
  "ready log \<longleftrightarrow> ml_ops log \<noteq> []"

definition opAt :: "MembershipLog \<Rightarrow> int \<Rightarrow> MembershipOp option" where
  "opAt log sq = js_nth (ml_ops log) sq"

definition logMembers :: "MembershipLog \<Rightarrow> thrown + jsstring list" where
  "logMembers log =
     (if ml_ops log = [] then Inl (IntegrityError Unpopulated) else Inr (members (foldOps (ml_ops log))))"

definition logAiMode :: "MembershipLog \<Rightarrow> thrown + bool" where
  "logAiMode log =
     (if ml_ops log = [] then Inl (IntegrityError Unpopulated) else Inr (aiMode (foldOps (ml_ops log))))"

definition logChain :: "MembershipLog \<Rightarrow> MembershipOp list" where
  "logChain log = ml_ops log"

subsection \<open>The invariant\<close>

text \<open>\<open>contains K c h\<close>: the chain has the op of head \<open>h\<close>.\<close>

definition contains :: "crypto_lib \<Rightarrow> MembershipOp list \<Rightarrow> Head \<Rightarrow> bool" where
  "contains K c h \<longleftrightarrow> hashIs K c (head_seq h) (head_hash h) = Inr True"

lemma contains_iff:
  "contains K c h \<longleftrightarrow> 0 \<le> head_seq h \<and> nat (head_seq h) < length c
     \<and> hashHex K (c ! nat (head_seq h)) = Inr (head_hash h)"
  by (auto simp: contains_def hashIs_def rbind_Inr_iff js_nth_Some_iff split: option.splits)
    (auto simp: js_nth_def split: if_splits)

definition pin_ok :: "crypto_lib \<Rightarrow> InvitePin option \<Rightarrow> MembershipOp list \<Rightarrow> bool" where
  "pin_ok K pin c \<longleftrightarrow> pred_option (\<lambda>p. hashHex K (hd c) = Inr (pin_genesisHash p) \<and> contains K c (pin_pinnedHead p)) pin"

definition log_inv :: "crypto_lib \<Rightarrow> MembershipLog \<Rightarrow> bool" where
  "log_inv K log \<longleftrightarrow>
     (if ml_ops log = [] then ml_watermark log = map_option pin_pinnedHead (ml_pin log)
      else valid_chain K (ml_ops log) \<and> op_conversationId (hd (ml_ops log)) = ml_conversationId log
        \<and> pin_ok K (ml_pin log) (ml_ops log)
        \<and> (\<exists>h. headOf K (ml_ops log) = Inr h \<and> ml_watermark log = Some h))"

lemma checkPin_Inr: "checkPin K pin c = Inr u \<longleftrightarrow> pin_ok K pin c"
  by (cases pin) (auto simp: checkPin_def pin_ok_def contains_def rbind_Inr_iff)

lemma checkWatermark_Inr:
  "checkWatermark K wm c h = Inr u \<longleftrightarrow> pred_option (\<lambda>w. head_seq w \<le> head_seq h \<and> contains K c w) wm"
  by (cases wm) (auto simp: checkWatermark_def contains_def rbind_Inr_iff)

text \<open>When an ingest succeeds, and what it leaves.\<close>

definition covers :: "crypto_lib \<Rightarrow> Head option \<Rightarrow> MembershipOp list \<Rightarrow> Head \<Rightarrow> bool" where
  "covers K wm c h \<longleftrightarrow> pred_option (\<lambda>w. head_seq w \<le> head_seq h \<and> contains K c w) wm"

lemma head_unique:
  assumes "valid_chain K c" "headOf K c = Inr h" "contains K c w" "head_seq w = head_seq h"
  shows "w = h"
proof -
  have "head_seq w = int (length c - 1)" "c \<noteq> []"
    using assms headOf_valid [OF assms(1), of h] valid_chain_nonempty [OF assms(1)]
    by (auto simp: of_nat_diff Suc_leI)
  then have "hashHex K (last c) = Inr (head_hash w)"
    using assms(3) by (simp add: contains_iff last_conv_nth)
  then show ?thesis
    using assms headOf_valid [OF assms(1), of h] by (cases w; cases h) simp
qed

lemma adopt_eq:
  assumes "log_inv K log" "valid_chain K c" "headOf K c = Inr h" "covers K (ml_watermark log) c h"
  shows "adopt log c h = log\<lparr>ml_ops := c, ml_watermark := Some h\<rparr>"
proof -
  have "0 \<le> head_seq h"
    using assms(2,3) headOf_valid [of K c h] valid_chain_nonempty [of K c] by (cases c) auto
  then have held: "(if ml_ops log \<noteq> [] then op_seq (last (ml_ops log)) else -1) \<le> head_seq h"
    using assms(1,4) by (auto simp: log_inv_def covers_def headOf_def rbind_Inr_iff split: if_splits)
  show ?thesis
  proof (cases "ml_watermark log")
    case (Some w)
    then show ?thesis
      using assms(2-4) held head_unique [of K c h w] by (cases log) (auto simp: adopt_def covers_def Let_def)
  qed (use held in \<open>simp add: adopt_def Let_def\<close>)
qed

lemma ingestChain_Inr:
  assumes "log_inv K log"
  shows "ingestChain K log c = Inr log' \<longleftrightarrow>
    valid_chain K c \<and> op_conversationId (hd c) = ml_conversationId log \<and> pin_ok K (ml_pin log) c
    \<and> (\<exists>h. headOf K c = Inr h \<and> covers K (ml_watermark log) c h
        \<and> log' = log\<lparr>ml_ops := c, ml_watermark := Some h\<rparr>)"
proof -
  have "ingestChain K log c = Inr log' \<longleftrightarrow> valid_chain K c \<and> op_conversationId (hd c) = ml_conversationId log
      \<and> pin_ok K (ml_pin log) c
      \<and> (\<exists>h. headOf K c = Inr h \<and> covers K (ml_watermark log) c h \<and> log' = adopt log c h)"
    by (auto simp: ingestChain_def rbind_Inr_iff verifyChain_iff checkPin_Inr checkWatermark_Inr covers_def)
  then show ?thesis using adopt_eq [OF assms] by metis
qed

lemma log_inv_newLog [inv_intros]: "log_inv K (newLog conv pin)"
  by (simp add: log_inv_def newLog_def)

lemma log_inv_ingest [inv_intros]: "log_inv K log \<Longrightarrow> ingestChain K log c = Inr log' \<Longrightarrow> log_inv K log'"
  by (auto simp: ingestChain_Inr log_inv_def valid_chain_nonempty)

lemma log_inv_open [inv_intros]: "openLog K c = Inr log \<Longrightarrow> log_inv K log"
  by (auto simp: openLog_def intro: log_inv_ingest log_inv_newLog split: list.splits)

lemma ingest_fixed:
  "log_inv K log \<Longrightarrow> ingestChain K log c = Inr log' \<Longrightarrow>
     ml_pin log' = ml_pin log \<and> ml_conversationId log' = ml_conversationId log \<and> ml_ops log' = c"
  by (auto simp: ingestChain_Inr)

subsection \<open>The view only grows\<close>

text \<open>\<open>wf_chain\<close>: every op came out of the decoder.\<close>

abbreviation wf_chain :: "MembershipOp list \<Rightarrow> bool" where
  "wf_chain c \<equiv> list_all op_wf c"

lemma contains_shared_prefix:
  assumes "valid_chain K c" "valid_chain K c'" "wf_chain c" "wf_chain c'"
    and "collision_free K (hashPreimages (c @ c'))"
    and "contains K c h" "contains K c' h"
  shows "take (Suc (nat (head_seq h))) c = take (Suc (nat (head_seq h))) c'"
  using assms by (intro hex_pins_prefix [where K = K and h = "head_hash h"]) (auto simp: contains_iff)

lemma contains_headOf:
  assumes "valid_chain K c" "headOf K c = Inr h"
  shows "contains K c h"
proof -
  have ne: "c \<noteq> []" by (rule valid_chain_nonempty [OF assms(1)])
  have h: "head_seq h = int (length c) - 1" "hashHex K (last c) = Inr (head_hash h)"
    using assms(2) unfolding headOf_valid [OF assms(1)] by blast+
  from ne obtain n where n: "length c = Suc n" by (cases c) auto
  with h ne show ?thesis by (simp add: contains_iff last_conv_nth)
qed

lemma headOf_take:
  "valid_chain K c \<Longrightarrow> headOf K c = Inr h \<Longrightarrow> take (Suc (nat (head_seq h))) c = c"
  using valid_chain_nonempty [of K c] by (cases c) (auto simp: headOf_valid)

lemma ingest_extends:
  assumes inv: "log_inv K log" and ing: "ingestChain K log c = Inr log'"
    and "wf_chain (ml_ops log)" "wf_chain c" "collision_free K (hashPreimages (ml_ops log @ c))"
  shows "prefix (ml_ops log) (ml_ops log')"
proof (cases "ml_ops log = []")
  case False
  with inv obtain h where h: "valid_chain K (ml_ops log)" "headOf K (ml_ops log) = Inr h" "ml_watermark log = Some h"
    by (auto simp: log_inv_def)
  from ing have c: "valid_chain K c" "contains K c h" "ml_ops log' = c"
    using h(3) by (auto simp: ingestChain_Inr [OF inv] covers_def)
  have "ml_ops log = take (Suc (nat (head_seq h))) c"
    using contains_shared_prefix [OF h(1) c(1) assms(3-5) contains_headOf [OF h(1,2)] c(2)]
      headOf_take [OF h(1,2)] by simp
  then show ?thesis using c(3) take_is_prefix by metis
qed simp

subsection \<open>Logs that are fed chains\<close>

text \<open>
  A peer offers its log candidate after candidate; one that throws is dropped.
\<close>

fun ingestAll :: "crypto_lib \<Rightarrow> MembershipLog \<Rightarrow> MembershipOp list list \<Rightarrow> MembershipLog" where
  "ingestAll K log [] = log"
| "ingestAll K log (c # cs) =
     ingestAll K (case ingestChain K log c of Inl _ \<Rightarrow> log | Inr log' \<Rightarrow> log') cs"

lemma ingestAll_inv [inv_intros]: "log_inv K log \<Longrightarrow> log_inv K (ingestAll K log cs)"
  by (induction cs arbitrary: log) (auto intro: inv_intros split: sum.splits)

lemma ingestAll_fixed:
  "log_inv K log \<Longrightarrow> ml_pin (ingestAll K log cs) = ml_pin log
     \<and> ml_conversationId (ingestAll K log cs) = ml_conversationId log"
proof (induction cs arbitrary: log)
  case (Cons c cs)
  show ?case
  proof (cases "ingestChain K log c")
    case (Inr log')
    then show ?thesis
      using Cons.IH [OF log_inv_ingest [OF Cons.prems Inr]] ingest_fixed [OF Cons.prems Inr] by simp
  qed (simp add: Cons)
qed simp

lemma ingestAll_grows:
  assumes "log_inv K log" "wf_chain (ml_ops log)" "list_all wf_chain cs"
    and "collision_free K (hashPreimages (ml_ops log @ concat cs))"
  shows "prefix (ml_ops log) (ml_ops (ingestAll K log cs))"
  using assms
proof (induction cs arbitrary: log)
  case (Cons c cs)
  show ?case
  proof (cases "ingestChain K log c")
    case (Inl e)
    have "collision_free K (hashPreimages (ml_ops log @ concat cs))"
      by (rule collision_free_mono [OF Cons.prems(4)]) auto
    then show ?thesis using Cons Inl by simp
  next
    case (Inr log')
    have ops: "ml_ops log' = c"
      using ingest_fixed [OF Cons.prems(1) Inr] by simp
    have "prefix (ml_ops log) (ml_ops log')"
    proof (rule ingest_extends [OF Cons.prems(1) Inr])
      show "collision_free K (hashPreimages (ml_ops log @ c))"
        by (rule collision_free_mono [OF Cons.prems(4)]) auto
    qed (use Cons.prems in auto)
    also have "prefix (ml_ops log') (ml_ops (ingestAll K log' cs))"
    proof (rule Cons.IH [OF log_inv_ingest [OF Cons.prems(1) Inr]])
      show "collision_free K (hashPreimages (ml_ops log' @ concat cs))"
        by (rule collision_free_mono [OF Cons.prems(4)]) (auto simp: ops)
    qed (use Cons.prems ops in auto)
    finally show ?thesis by (simp add: Inr)
  qed
qed simp

lemma ingestAll_ops:
  assumes "log_inv K log"
  shows "ml_ops (ingestAll K log cs) = ml_ops log \<or> ml_ops (ingestAll K log cs) \<in> set cs"
  using assms
proof (induction cs arbitrary: log)
  case (Cons c cs)
  show ?case
  proof (cases "ingestChain K log c")
    case (Inr log')
    have "ml_ops log' = c" using ingest_fixed [OF Cons.prems Inr] by simp
    then show ?thesis
      using Cons.IH [OF log_inv_ingest [OF Cons.prems Inr]] by (auto simp: Inr)
  qed (use Cons in auto)
qed simp

lemma joiner_inv: "log_inv K (forJoiner pin)"
  by (simp add: forJoiner_def inv_intros)

text \<open>A joiner's populated log contains what its pin names.\<close>

lemma joiner_pin:
  assumes "ready (ingestAll K (forJoiner pin) cs)"
  shows "valid_chain K (ml_ops (ingestAll K (forJoiner pin) cs))"
    "hashHex K (hd (ml_ops (ingestAll K (forJoiner pin) cs))) = Inr (pin_genesisHash pin)"
    "contains K (ml_ops (ingestAll K (forJoiner pin) cs)) (pin_pinnedHead pin)"
proof -
  have "ml_pin (ingestAll K (forJoiner pin) cs) = Some pin"
    using ingestAll_fixed [OF joiner_inv] by (simp add: forJoiner_def newLog_def)
  then show "valid_chain K (ml_ops (ingestAll K (forJoiner pin) cs))"
    "hashHex K (hd (ml_ops (ingestAll K (forJoiner pin) cs))) = Inr (pin_genesisHash pin)"
    "contains K (ml_ops (ingestAll K (forJoiner pin) cs)) (pin_pinnedHead pin)"
    using ingestAll_inv [OF joiner_inv, of K pin cs] assms
    by (simp_all add: log_inv_def ready_def pin_ok_def)
qed

lemma joiner_ingest_ok:
  assumes "valid_chain K c" "headOf K c = Inr h" "op_conversationId (hd c) = pin_conversationId pin"
    and "hashHex K (hd c) = Inr (pin_genesisHash pin)" "contains K c (pin_pinnedHead pin)"
  shows "\<exists>log. ingestChain K (forJoiner pin) c = Inr log"
proof -
  have "head_seq (pin_pinnedHead pin) \<le> head_seq h"
    using assms(2,5) by (auto simp: headOf_valid [OF assms(1)] contains_iff)
  then show ?thesis
    unfolding ingestChain_Inr [OF joiner_inv]
    using assms by (simp add: forJoiner_def newLog_def pin_ok_def covers_def)
qed

lemma openLog_ok:
  assumes "valid_chain K c" "headOf K c = Inr h"
  shows "openLog K c = Inr \<lparr>ml_conversationId = op_conversationId (hd c), ml_pin = None, ml_ops = c, ml_watermark = Some h\<rparr>"
proof -
  obtain g c' where c: "c = g # c'" using valid_chain_nonempty [OF assms(1)] by (cases c) auto
  have "ingestChain K (newLog (op_conversationId (hd c)) None) c =
      Inr ((newLog (op_conversationId (hd c)) None)\<lparr>ml_ops := c, ml_watermark := Some h\<rparr>)"
    using assms by (simp add: ingestChain_Inr [OF log_inv_newLog]) (simp add: newLog_def pin_ok_def covers_def)
  then show ?thesis by (simp add: openLog_def c newLog_def)
qed

definition pin_wf :: "InvitePin \<Rightarrow> bool" where
  "pin_wf pin \<longleftrightarrow> pin_conversationId pin \<noteq> [] \<and> HEX_test (pin_genesisHash pin)
     \<and> 0 \<le> head_seq (pin_pinnedHead pin) \<and> HEX_test (head_hash (pin_pinnedHead pin))"

lemma parseInvitePin_wf: "parseInvitePin raw = Inr pin \<Longrightarrow> pin_wf pin"
  by (auto simp: parseInvitePin_def pin_wf_def split: option.splits json.splits if_splits)

lemma parse_serialize_pin:
  "parseInvitePin (Some (serializeInvitePin pin)) = Inr pin \<longleftrightarrow> pin_wf pin"
proof -
  have keys: "js ''genesisHash'' \<noteq> js ''conversationId''" "js ''pinnedHead'' \<noteq> js ''conversationId''"
    "js ''pinnedHead'' \<noteq> js ''genesisHash''" "js ''headHash'' \<noteq> js ''seq''"
    by (simp_all add: js_def)
  show ?thesis
    by (cases pin rule: InvitePin.cases)
      (simp add: parseInvitePin_def serializeInvitePin_def pin_wf_def keys keys [symmetric])
qed

subsection \<open>Properties\<close>

text \<open>C8: a peer's view never regresses: whatever sequence of candidate chains an opened log is
  fed, truncated, forked or forged ones included, the chain it holds at the end extends the
  one it held at the start; it always verifies, its head is its watermark.\<close>

theorem view_never_regresses:
  assumes "openLog K c = Inr log" "wf_chain c" "list_all wf_chain cs"
    and "collision_free K (hashPreimages (c @ concat cs))"
  shows "prefix c (ml_ops (ingestAll K log cs)) \<and> verifyChain K (ml_ops (ingestAll K log cs)) = Inr ()
    \<and> (\<exists>h. logHead K (ingestAll K log cs) = Inr h \<and> ml_watermark (ingestAll K log cs) = Some h)"
proof -
  have inv: "log_inv K log" by (rule log_inv_open [OF assms(1)])
  have ops: "ml_ops log = c" "c \<noteq> []"
    using assms(1) ingest_fixed [OF log_inv_newLog] by (auto simp: openLog_def split: list.splits)
  then have pre: "prefix c (ml_ops (ingestAll K log cs))"
    using ingestAll_grows [OF inv] assms(2-4) by simp
  moreover have "ml_ops (ingestAll K log cs) \<noteq> []"
    using pre ops(2) by auto
  ultimately show ?thesis
    using ingestAll_inv [OF inv, of cs] by (auto simp: log_inv_def verifyChain_iff logHead_def)
qed

theorem view_never_regresses_witness:
  "\<exists>log. openLog demoLib [demoCreate, demoInvite] = Inr log
     \<and> prefix [demoCreate, demoInvite] (ml_ops (ingestAll demoLib log [demoChain, [demoCreate]]))"
proof -
  have "headOf demoLib [demoCreate, demoInvite] = Inr \<lparr>head_seq = 1, head_hash = toHex (be_bytes 32 146)\<rparr>"
    by (simp add: headOf_def hashHex_def) (simp add: demoInvite_def)
  then obtain log where log: "openLog demoLib [demoCreate, demoInvite] = Inr log"
    using openLog_ok [OF demo_prefix_valid] by blast
  have "collision_free demoLib (hashPreimages ([demoCreate, demoInvite] @ concat [demoChain, [demoCreate]]))"
    by (rule collision_free_mono [OF demo_collision_free]) (auto simp: demoChain_def)
  then show ?thesis
    using view_never_regresses [OF log, of "[demoChain, [demoCreate]]"] log by (auto simp: demoChain_def)
qed

text \<open>C9: a joiner is never rewound below its invite: if the pin was cut from an honest chain, then
  whatever chains the joiner's log is fed, once it is populated it extends that honest
  chain.\<close>

theorem joiner_never_below_pin:
  assumes "verifyChain K honest = Inr ()" "headOf K honest = Inr (pin_pinnedHead pin)"
    and "ready (ingestAll K (forJoiner pin) cs)"
    and "wf_chain honest" "list_all wf_chain cs"
    and "collision_free K (hashPreimages (honest @ concat cs))"
  shows "prefix honest (ml_ops (ingestAll K (forJoiner pin) cs))"
proof -
  let ?ops = "ml_ops (ingestAll K (forJoiner pin) cs)"
  have "?ops \<in> set cs"
    using ingestAll_ops [OF joiner_inv, of K pin cs] assms(3) by (auto simp: forJoiner_def newLog_def ready_def)
  then have wf: "wf_chain ?ops" and sub: "set (honest @ ?ops) \<subseteq> set (honest @ concat cs)"
    using assms(5) by (auto simp: list_all_iff)
  note cf = collision_free_mono [OF assms(6) sub]
  have v: "valid_chain K honest" using assms(1) by (simp add: verifyChain_iff)
  have "honest = take (Suc (nat (head_seq (pin_pinnedHead pin)))) ?ops"
    using contains_shared_prefix [OF v joiner_pin(1) [OF assms(3)] assms(4) wf cf
        contains_headOf [OF v assms(2)] joiner_pin(3) [OF assms(3)]]
      headOf_take [OF v assms(2)] by simp
  then show ?thesis by (metis take_is_prefix)
qed

theorem joiner_never_below_pin_witness:
  "\<exists>pin. headOf demoLib [demoCreate, demoInvite] = Inr (pin_pinnedHead pin)
     \<and> prefix [demoCreate, demoInvite] (ml_ops (ingestAll demoLib (forJoiner pin) [[demoCreate], demoChain]))"
proof -
  define pin where "pin = \<lparr>pin_conversationId = js ''c1'', pin_genesisHash = toHex (be_bytes 32 153),
    pin_pinnedHead = \<lparr>head_seq = 1, head_hash = toHex (be_bytes 32 146)\<rparr>\<rparr>"
  have hd: "headOf demoLib [demoCreate, demoInvite] = Inr (pin_pinnedHead pin)"
    by (simp add: headOf_def hashHex_def pin_def) (simp add: demoInvite_def)
  have c2: "contains demoLib demoChain (pin_pinnedHead pin)"
    by (simp add: contains_iff demoChain_def pin_def hashHex_def)
  have one: "\<not> contains demoLib [demoCreate] (pin_pinnedHead pin)"
    by (simp add: contains_iff pin_def)
  have "ingestChain demoLib (forJoiner pin) [demoCreate] \<noteq> Inr x" for x
    using one by (simp add: ingestChain_Inr [OF joiner_inv]) (simp add: forJoiner_def newLog_def pin_ok_def)
  then obtain e where "ingestChain demoLib (forJoiner pin) [demoCreate] = Inl e"
    by (cases "ingestChain demoLib (forJoiner pin) [demoCreate]") auto
  moreover have "\<exists>log. ingestChain demoLib (forJoiner pin) demoChain = Inr log"
    by (rule joiner_ingest_ok [OF demo_valid demo_head _ _ c2])
      (simp_all add: demoChain_def pin_def hashHex_def, simp add: demoCreate_def)
  ultimately have "ready (ingestAll demoLib (forJoiner pin) [[demoCreate], demoChain])"
    using ingest_fixed [OF joiner_inv] by (auto simp: ready_def demoChain_def)
  moreover have "collision_free demoLib (hashPreimages ([demoCreate, demoInvite] @ concat [[demoCreate], demoChain]))"
    by (rule collision_free_mono [OF demo_collision_free]) (auto simp: demoChain_def)
  ultimately show ?thesis
    using joiner_never_below_pin [OF _ hd, of "[[demoCreate], demoChain]"] hd demo_prefix_valid
    by (auto simp: demoChain_def verifyChain_iff)
qed

text \<open>An invite pin survives its out-of-band trip exactly when it is well-formed (a non-empty
  conversation, a non-negative position, lowercase-hex hashes), and \<^verbatim>\<open>parseInvitePin\<close> returns
  no other pins.\<close>

theorem invite_pin_roundtrip:
  "(parseInvitePin (Some (serializeInvitePin pin)) = Inr pin \<longleftrightarrow> pin_wf pin)
   \<and> {p. \<exists>raw. parseInvitePin raw = Inr p} = {p. pin_wf p}"
  using parse_serialize_pin parseInvitePin_wf by blast

end
