(* ===== verification/Gate.thy ===== *)
theory Gate
  imports MemberLog
begin

section \<open>The inbound gate (\<^verbatim>\<open>membership/src/gate.ts\<close>)\<close>

text \<open>
  \<open>enforceInbound\<close> decides whether a decrypted message of a sender is shown, from the
  receiver's own log. It may first catch up on the log from a chain provider, so it returns
  the log it leaves beside the verdict; the outer sum is what it would throw, and
  \<open>enforceInbound_total\<close> shows that it does not.
\<close>

datatype gate_reason =
    NoMembershipHead
  | NoChainNoSource
  | BeyondNoSource
  | CatchUpFailed thrown
  | StillBehind
  | CitedSeqAbsent
  | CitedHashMismatch
  | NotMember

datatype GateResult = Accepted | Rejected gate_reason

type_synonym ChainProvider = "Head \<Rightarrow> MembershipOp list option"

text \<open>One catch-up: ask the provider, ingest what it gives.\<close>

definition catchUp ::
    "crypto_lib \<Rightarrow> MembershipLog \<Rightarrow> Head \<Rightarrow> ChainProvider option \<Rightarrow> gate_reason \<Rightarrow> gate_reason + MembershipLog" where
  "catchUp K log cited provider noSource =
     (case Option.bind provider (\<lambda>p. p cited) of
        None \<Rightarrow> Inl noSource
      | Some fuller \<Rightarrow>
          (case ingestChain K log fuller of
             Inl e \<Rightarrow> Inl (CatchUpFailed e)
           | Inr log' \<Rightarrow> Inr log'))"

text \<open>From the comparison with the cited op on.\<close>

definition authorize ::
    "crypto_lib \<Rightarrow> MembershipLog \<Rightarrow> jsstring \<Rightarrow> Head \<Rightarrow> thrown + GateResult \<times> MembershipLog" where
  "authorize K log senderUserId cited =
     (case opAt log (head_seq cited) of
        None \<Rightarrow> Inr (Rejected CitedSeqAbsent, log)
      | Some op \<Rightarrow>
          rbind (hashHex K op) (\<lambda>h.
          if h \<noteq> head_hash cited then Inr (Rejected CitedHashMismatch, log)
          else rbind (logMembers log) (\<lambda>ms.
            if senderUserId \<notin> set ms then Inr (Rejected NotMember, log)
            else Inr (Accepted, log))))"

definition enforceInbound ::
    "crypto_lib \<Rightarrow> MembershipLog \<Rightarrow> jsstring \<Rightarrow> Head option \<Rightarrow> ChainProvider option
       \<Rightarrow> thrown + GateResult \<times> MembershipLog" where
  "enforceInbound K log senderUserId citedHead chainProvider =
     (case citedHead of
        None \<Rightarrow> Inr (Rejected NoMembershipHead, log)
      | Some cited \<Rightarrow>
          (case (if ready log then Inr log else catchUp K log cited chainProvider NoChainNoSource) of
             Inl r \<Rightarrow> Inr (Rejected r, log)
           | Inr log1 \<Rightarrow>
               rbind (logHead K log1) (\<lambda>h.
               if head_seq cited > head_seq h then
                 (case catchUp K log1 cited chainProvider BeyondNoSource of
                    Inl r \<Rightarrow> Inr (Rejected r, log1)
                  | Inr log2 \<Rightarrow>
                      rbind (logHead K log2) (\<lambda>h2.
                      if head_seq cited > head_seq h2 then Inr (Rejected StillBehind, log2)
                      else authorize K log2 senderUserId cited))
               else authorize K log1 senderUserId cited)))"

subsection \<open>The gate keeps the log sound\<close>

lemma catchUp_cases:
  assumes "log_inv K log" "catchUp K log cited provider r = Inr log'"
  obtains p c where "provider = Some p" "p cited = Some c" "ingestChain K log c = Inr log'"
  using assms by (auto simp: catchUp_def bind_eq_Some_conv split: option.splits sum.splits)

lemma catchUp_inv [inv_intros]:
  assumes "log_inv K log" "catchUp K log cited provider r = Inr log'"
  shows "log_inv K log' \<and> ready log'"
proof -
  obtain p c where "ingestChain K log c = Inr log'"
    using catchUp_cases [OF assms] by metis
  then show ?thesis
    using assms(1) log_inv_ingest [OF assms(1)]
    by (auto simp: ready_def ingestChain_Inr dest: valid_chain_nonempty)
qed

lemma logHead_total: "log_inv K log \<Longrightarrow> ready log \<Longrightarrow> \<exists>h. logHead K log = Inr h \<and> contains K (ml_ops log) h"
  by (auto simp: log_inv_def ready_def logHead_def contains_headOf)

lemma valid_hashHex:
  assumes "valid_chain K c" "headOf K c = Inr h" "i < length c"
  shows "\<exists>x. hashHex K (c ! i) = Inr x"
proof (cases "Suc i < length c")
  case True
  then show ?thesis using valid_chain_hash [OF assms(1)] by (auto simp: hashHex_Inr)
next
  case False
  with assms(3) have "c ! i = last c"
    by (metis Suc_lessI diff_Suc_1 last_conv_nth length_0_conv less_nat_zero_code)
  then show ?thesis using assms(1,2) by (auto simp: headOf_valid)
qed

lemma authorize_spec:
  assumes "log_inv K log" "ready log"
  shows "authorize K log u cited =
    Inr (if \<not> (0 \<le> head_seq cited \<and> head_seq cited < int (length (ml_ops log))) then Rejected CitedSeqAbsent
         else if \<not> contains K (ml_ops log) cited then Rejected CitedHashMismatch
         else if u \<notin> set (members (foldOps (ml_ops log))) then Rejected NotMember
         else Accepted, log)"
proof (cases "opAt log (head_seq cited)")
  case None
  then show ?thesis by (auto simp: authorize_def opAt_def js_nth_def split: if_splits)
next
  case (Some op)
  then have i: "0 \<le> head_seq cited" "nat (head_seq cited) < length (ml_ops log)"
      "op = ml_ops log ! nat (head_seq cited)"
    by (auto simp: opAt_def js_nth_Some_iff)
  obtain h where "valid_chain K (ml_ops log)" "headOf K (ml_ops log) = Inr h"
    using assms by (auto simp: log_inv_def ready_def)
  then obtain x where "hashHex K op = Inr x"
    using valid_hashHex i by blast
  then show ?thesis
    using Some i assms(2) by (auto simp: authorize_def contains_iff logMembers_def ready_def)
qed

text \<open>
  The log the gate leaves is the one it was given, fed with chains the provider gave for
  the cited head.
\<close>

definition fed :: "crypto_lib \<Rightarrow> ChainProvider option \<Rightarrow> Head option \<Rightarrow> MembershipLog \<Rightarrow> MembershipLog \<Rightarrow> bool" where
  "fed K provider cited log log' \<longleftrightarrow>
     (\<exists>cs. log' = ingestAll K log cs \<and> (\<forall>c \<in> set cs. \<exists>p h. provider = Some p \<and> cited = Some h \<and> p h = Some c))"

lemma ingestAll_append: "ingestAll K log (cs @ ds) = ingestAll K (ingestAll K log cs) ds"
  by (induction cs arbitrary: log) simp_all

lemma fed_refl [simp]: "fed K provider cited log log"
  by (auto simp: fed_def intro: exI [of _ "[]"])

lemma fed_trans: "fed K provider cited a b \<Longrightarrow> fed K provider cited b c \<Longrightarrow> fed K provider cited a c"
proof (unfold fed_def, elim exE conjE)
  fix cs ds
  assume "b = ingestAll K a cs" "c = ingestAll K b ds"
    and "\<forall>c \<in> set cs. \<exists>p h. provider = Some p \<and> cited = Some h \<and> p h = Some c"
    and "\<forall>c \<in> set ds. \<exists>p h. provider = Some p \<and> cited = Some h \<and> p h = Some c"
  then show "\<exists>es. c = ingestAll K a es \<and> (\<forall>c \<in> set es. \<exists>p h. provider = Some p \<and> cited = Some h \<and> p h = Some c)"
    by (intro exI [of _ "cs @ ds"]) (auto simp: ingestAll_append)
qed

lemma catchUp_fed: "catchUp K log h provider r = Inr log' \<Longrightarrow> fed K provider (Some h) log log'"
  by (auto simp: catchUp_def fed_def bind_eq_Some_conv split: option.splits sum.splits
      intro!: exI [of _ "[the (the provider h)]"])

lemma authorize_log: "log_inv K log \<Longrightarrow> ready log \<Longrightarrow> \<exists>v. authorize K log u c = Inr (v, log)"
  by (simp add: authorize_spec)

lemma enforceInbound_path:
  assumes inv: "log_inv K log"
  shows "\<exists>v log'. enforceInbound K log u cited provider = Inr (v, log') \<and> log_inv K log' \<and> fed K provider cited log log'
    \<and> (v = Accepted \<longrightarrow> ready log' \<and> (\<exists>c. cited = Some c \<and> authorize K log' u c = Inr (Accepted, log')))"
proof (cases cited)
  case None
  then show ?thesis using inv by (simp add: enforceInbound_def)
next
  case (Some c)
  show ?thesis
  proof (cases "if ready log then Inr log else catchUp K log c provider NoChainNoSource")
    case (Inl r)
    then show ?thesis using inv Some by (simp add: enforceInbound_def)
  next
    case (Inr log1)
    then have l1: "log_inv K log1" "ready log1" "fed K provider cited log log1"
      using inv Some catchUp_inv catchUp_fed by (auto split: if_splits)
    then obtain h where h: "logHead K log1 = Inr h"
      using logHead_total by blast
    obtain v1 where v1: "authorize K log1 u c = Inr (v1, log1)"
      using authorize_log l1 by blast
    show ?thesis
    proof (cases "head_seq c > head_seq h")
      case False
      then show ?thesis using l1 h v1 Inr Some by (auto simp: enforceInbound_def)
    next
      case True
      show ?thesis
      proof (cases "catchUp K log1 c provider BeyondNoSource")
        case (Inl r)
        then show ?thesis using l1 h True Inr Some by (simp add: enforceInbound_def)
      next
        case two: (Inr log2)
        then have l2: "log_inv K log2" "ready log2" "fed K provider cited log log2"
          using l1 Some catchUp_inv catchUp_fed fed_trans by blast+
        then obtain h2 v2 where "logHead K log2 = Inr h2" "authorize K log2 u c = Inr (v2, log2)"
          using logHead_total authorize_log by meson
        then show ?thesis using l2 h True Inr two Some by (auto simp: enforceInbound_def)
      qed
    qed
  qed
qed

subsection \<open>What an accepted message implies\<close>

lemma gate_accepted:
  assumes "log_inv K log" "enforceInbound K log u cited provider = Inr (Accepted, log')"
  shows "\<exists>c. cited = Some c \<and> contains K (ml_ops log') c \<and> u \<in> set (members (foldOps (ml_ops log')))
    \<and> log_inv K log' \<and> fed K provider cited log log'"
  using enforceInbound_path [OF assms(1), of u cited provider] assms(2)
  by (auto simp: authorize_spec split: if_splits)

lemma fed_no_provider: "fed K None cited log log' \<longleftrightarrow> log' = log"
proof -
  have "log' = ingestAll K log cs \<and> (\<forall>c \<in> set cs. False) \<longleftrightarrow> log' = log \<and> cs = []" for cs
    by (cases cs) auto
  then show ?thesis by (auto simp: fed_def)
qed

text \<open>The wire never makes the receiver's view smaller.\<close>

definition provider_ops :: "ChainProvider option \<Rightarrow> Head option \<Rightarrow> MembershipOp list" where
  "provider_ops provider cited =
     (case (provider, cited) of (Some p, Some h) \<Rightarrow> (case p h of None \<Rightarrow> [] | Some c \<Rightarrow> c) | _ \<Rightarrow> [])"

lemma fed_grows:
  assumes "log_inv K log" "fed K provider cited log log'" "wf_chain (ml_ops log)" "wf_chain (provider_ops provider cited)"
    and cf: "collision_free K (hashPreimages (ml_ops log @ provider_ops provider cited))"
  shows "prefix (ml_ops log) (ml_ops log')"
proof -
  obtain cs where cs: "log' = ingestAll K log cs" "\<forall>c \<in> set cs. c = provider_ops provider cited"
    using assms(2) by (auto simp: fed_def provider_ops_def) (metis option.simps(5))
  have "collision_free K (hashPreimages (ml_ops log @ concat cs))"
    by (rule collision_free_mono [OF cf]) (use cs(2) in auto)
  moreover have "list_all wf_chain cs"
    using cs(2) assms(4) by (auto simp: list_all_iff)
  ultimately show ?thesis
    using ingestAll_grows assms(1,3) cs(1) by blast
qed

subsection \<open>Properties\<close>

text \<open>
  \<open>own_log K log\<close>: the log is one the package builds, opened on a chain or created for a
  joiner, after any candidates.
\<close>

inductive own_log :: "crypto_lib \<Rightarrow> MembershipLog \<Rightarrow> bool" for K where
  opened: "openLog K c = Inr log \<Longrightarrow> own_log K log"
| joiner: "own_log K (forJoiner pin)"
| ingested: "own_log K log \<Longrightarrow> ingestChain K log c = Inr log' \<Longrightarrow> own_log K log'"

lemma own_log_inv: "own_log K log \<Longrightarrow> log_inv K log"
  by (induction rule: own_log.induct) (auto intro: inv_intros joiner_inv)

lemma own_log_ingestAll: "own_log K log \<Longrightarrow> own_log K (ingestAll K log cs)"
  by (induction cs arbitrary: log) (auto intro: own_log.ingested split: sum.splits)

lemma demo_log:
  "openLog demoLib demoChain = Inr \<lparr>ml_conversationId = js ''c1'', ml_pin = None, ml_ops = demoChain,
     ml_watermark = Some \<lparr>head_seq = 2, head_hash = toHex (be_bytes 32 144)\<rparr>\<rparr>"
  using openLog_ok [OF demo_valid demo_head] by (simp add: demoChain_def) (simp add: demoCreate_def)

definition demoLog :: MembershipLog where
  "demoLog = \<lparr>ml_conversationId = js ''c1'', ml_pin = None, ml_ops = demoChain,
     ml_watermark = Some \<lparr>head_seq = 2, head_hash = toHex (be_bytes 32 144)\<rparr>\<rparr>"

lemma demo_own: "own_log demoLib demoLog"
  using demo_log own_log.opened by (simp add: demoLog_def)

lemma demo_members: "set (members (foldOps demoChain)) = {js ''alice'', js ''carol''}"
  by (simp add: foldOps_def foldStep_def demoChain_def demo_op_defs js_set_of_def js_set_add_def js_set_del_def js_def)

text \<open>C2: an accepted message is authorised at the receiver's own head: the sender is a member of
  the fold of the chain the receiver holds when the gate returns, that chain verifies and
  contains the cited head, whatever the provider offered.\<close>

theorem gate_authorises_at_own_head:
  assumes "own_log K log" "enforceInbound K log u cited provider = Inr (Accepted, log')"
  shows "\<exists>c. cited = Some c \<and> verifyChain K (ml_ops log') = Inr () \<and> contains K (ml_ops log') c
    \<and> u \<in> set (members (foldOps (ml_ops log')))"
  using gate_accepted [OF own_log_inv [OF assms(1)] assms(2)]
  by (auto simp: log_inv_def verifyChain_iff contains_iff split: if_splits)

theorem gate_authorises_at_own_head_witness:
  "\<exists>c. enforceInbound demoLib demoLog (js ''carol'') (Some c) None = Inr (Accepted, demoLog)
     \<and> js ''carol'' \<in> set (members (foldOps (ml_ops demoLog)))"
proof -
  let ?c = "\<lparr>head_seq = 1, head_hash = toHex (be_bytes 32 146)\<rparr>"
  have "enforceInbound demoLib demoLog (js ''carol'') (Some ?c) None = Inr (Accepted, demoLog)"
    using demo_members demo_head
    by (simp add: enforceInbound_def ready_def logHead_def authorize_def opAt_def js_nth_def logMembers_def
        hashHex_def demoLog_def) (simp add: demoChain_def logMembers_def)
  then show ?thesis using gate_authorises_at_own_head [OF demo_own] by blast
qed

text \<open>C1: a removed sender is rejected whichever head it cites: when the sender is not in the fold of
  the receiver's chain, the gate accepts a message of the sender only after adopting, from
  the provider, a longer verified chain that extends the receiver's and in which the sender
  is a member again; with no provider it never does.\<close>

theorem removed_sender_rejected:
  assumes "own_log K log" "ready log" "u \<notin> set (members (foldOps (ml_ops log)))"
    and "wf_chain (ml_ops log)" "wf_chain (provider_ops provider cited)"
    and "collision_free K (hashPreimages (ml_ops log @ provider_ops provider cited))"
    and "enforceInbound K log u cited provider = Inr (v, log')"
  shows "v = Accepted \<longrightarrow> provider \<noteq> None \<and> strict_prefix (ml_ops log) (ml_ops log')
    \<and> verifyChain K (ml_ops log') = Inr () \<and> u \<in> set (members (foldOps (ml_ops log')))"
proof
  assume "v = Accepted"
  then obtain c where acc: "u \<in> set (members (foldOps (ml_ops log')))" "log_inv K log'" "fed K provider cited log log'"
    "contains K (ml_ops log') c"
    using gate_accepted [OF own_log_inv [OF assms(1)]] assms(7) by blast
  then have "prefix (ml_ops log) (ml_ops log')" "ml_ops log \<noteq> ml_ops log'"
    using fed_grows [OF own_log_inv [OF assms(1)] acc(3) assms(4-6)] assms(3) by auto
  moreover have "provider \<noteq> None"
    using acc(1,3) assms(3) by (cases provider) (auto simp: fed_no_provider)
  moreover have "verifyChain K (ml_ops log') = Inr ()"
    using acc(2,4) by (auto simp: log_inv_def verifyChain_iff contains_iff split: if_splits)
  ultimately show "provider \<noteq> None \<and> strict_prefix (ml_ops log) (ml_ops log')
    \<and> verifyChain K (ml_ops log') = Inr () \<and> u \<in> set (members (foldOps (ml_ops log')))"
    using acc(1) by (simp add: strict_prefix_def)
qed

theorem removed_sender_rejected_witness:
  "\<exists>r. enforceInbound demoLib demoLog (js ''bob'') (Some \<lparr>head_seq = 1, head_hash = toHex (be_bytes 32 146)\<rparr>)
     (Some (\<lambda>_. Some demoChain)) = Inr (Rejected r, demoLog)"
proof -
  let ?c = "\<lparr>head_seq = 1, head_hash = toHex (be_bytes 32 146)\<rparr>"
  have inv: "log_inv demoLib demoLog" by (rule own_log_inv [OF demo_own])
  have rdy: "ready demoLog" by (simp add: ready_def demoLog_def demoChain_def)
  have ops: "ml_ops demoLog = demoChain" by (simp add: demoLog_def)
  have "logHead demoLib demoLog = Inr \<lparr>head_seq = 2, head_hash = toHex (be_bytes 32 144)\<rparr>"
    using demo_head rdy by (simp add: logHead_def ops ready_def)
  then have e: "enforceInbound demoLib demoLog (js ''bob'') (Some ?c) (Some (\<lambda>_. Some demoChain))
      = authorize demoLib demoLog (js ''bob'') ?c"
    using rdy by (simp add: enforceInbound_def)
  obtain v where v: "authorize demoLib demoLog (js ''bob'') ?c = Inr (v, demoLog)"
    using authorize_log [OF inv rdy] by blast
  have bob: "js ''bob'' \<notin> set (members (foldOps (ml_ops demoLog)))"
    unfolding ops demo_members by (simp add: js_def)
  have "v \<noteq> Accepted"
    using removed_sender_rejected [OF demo_own rdy bob, of "Some (\<lambda>_. Some demoChain)" "Some ?c" v demoLog]
      bob e v demo_collision_free by (auto simp: provider_ops_def ops demoChain_def)
  then show ?thesis using e v by (cases v) auto
qed

lemma member_accepted:
  assumes "own_log K log" "contains K (ml_ops log) c" "u \<in> set (members (foldOps (ml_ops log)))"
  shows "enforceInbound K log u (Some c) provider = Inr (Accepted, log)"
proof -
  note inv = own_log_inv [OF assms(1)]
  have rdy: "ready log" using assms(2) by (auto simp: ready_def contains_iff)
  then obtain h where h: "logHead K log = Inr h" "head_seq h = int (length (ml_ops log)) - 1"
    using inv by (auto simp: log_inv_def logHead_def ready_def headOf_valid)
  then have "\<not> head_seq c > head_seq h" using assms(2) by (auto simp: contains_iff)
  then show ?thesis
    using assms(2,3) rdy h authorize_spec [OF inv rdy, of u c] by (auto simp: enforceInbound_def contains_iff)
qed

text \<open>C14: the gate never throws, a message without a head is always rejected, and a member that
  cites a head of the receiver's chain is always accepted, with the log untouched.\<close>

theorem gate_total:
  assumes "own_log K log"
  shows "(\<exists>v log'. enforceInbound K log u cited provider = Inr (v, log') \<and> own_log K log')
    \<and> (cited = None \<longrightarrow> enforceInbound K log u cited provider = Inr (Rejected NoMembershipHead, log))
    \<and> (cited = Some c \<and> contains K (ml_ops log) c \<and> u \<in> set (members (foldOps (ml_ops log)))
        \<longrightarrow> enforceInbound K log u cited provider = Inr (Accepted, log))"
proof (intro conjI impI)
  note inv = own_log_inv [OF assms]
  obtain v log' where "enforceInbound K log u cited provider = Inr (v, log')" "fed K provider cited log log'"
    using enforceInbound_path [OF inv] by blast
  moreover from this(2) have "own_log K log'"
    using own_log_ingestAll [OF assms] by (auto simp: fed_def)
  ultimately show "\<exists>v log'. enforceInbound K log u cited provider = Inr (v, log') \<and> own_log K log'"
    by blast
  show "enforceInbound K log u cited provider = Inr (Rejected NoMembershipHead, log)" if "cited = None"
    using that by (simp add: enforceInbound_def)
  show "enforceInbound K log u cited provider = Inr (Accepted, log)"
    if "cited = Some c \<and> contains K (ml_ops log) c \<and> u \<in> set (members (foldOps (ml_ops log)))"
    using that member_accepted [OF assms] by blast
qed

theorem gate_total_witness:
  "enforceInbound demoLib demoLog (js ''carol'') (Some \<lparr>head_seq = 2, head_hash = toHex (be_bytes 32 144)\<rparr>) None
     = Inr (Accepted, demoLog)"
proof -
  have "contains demoLib (ml_ops demoLog) \<lparr>head_seq = 2, head_hash = toHex (be_bytes 32 144)\<rparr>"
    using contains_headOf [OF demo_valid demo_head] by (simp add: demoLog_def)
  moreover have "js ''carol'' \<in> set (members (foldOps (ml_ops demoLog)))"
    using demo_members by (simp add: demoLog_def)
  ultimately show ?thesis using gate_total [OF demo_own] by blast
qed

end
