(* ===== verification/Authority.thy ===== *)
theory Authority
  imports Prelude
begin

section \<open>The membership seam (\<^verbatim>\<open>MembershipService\<close> of \<^verbatim>\<open>client-sdk/src/transport.ts\<close>)\<close>

text \<open>
  The client drives whoever keeps the membership of a conversation through three commands:
  invite a user, remove a user, set the AI mode. \<open>membership_authority\<close> is the contract:
  a command on a conversation with room for it succeeds, has the effect
  \<open>cmd_members\<close> and \<open>cmd_mode\<close> say and touches no other conversation. \<open>room n\<close> says that
  \<open>n\<close> more commands fit, \<open>admits\<close> which commands the authority takes at all.

  Proved once from the contract: a sequence of commands succeeds and computes the
  specification (\<open>run_spec\<close>), so that any two authorities given the same sequence agree.
\<close>

datatype member_cmd = AddUser jsstring | DropUser jsstring | SetMode bool

definition cmd_members :: "member_cmd \<Rightarrow> jsstring set \<Rightarrow> jsstring set" where
  "cmd_members m S = (case m of AddUser u \<Rightarrow> insert u S | DropUser u \<Rightarrow> S - {u} | SetMode _ \<Rightarrow> S)"

definition cmd_mode :: "member_cmd \<Rightarrow> bool \<Rightarrow> bool" where
  "cmd_mode m b = (case m of SetMode b' \<Rightarrow> b' | _ \<Rightarrow> b)"

fun run_cmds :: "('s \<Rightarrow> jsstring \<Rightarrow> member_cmd \<Rightarrow> 's option) \<Rightarrow> 's \<Rightarrow> jsstring \<Rightarrow> member_cmd list \<Rightarrow> 's option" where
  "run_cmds exec s c [] = Some s"
| "run_cmds exec s c (m # ms) = (case exec s c m of None \<Rightarrow> None | Some s' \<Rightarrow> run_cmds exec s' c ms)"

locale membership_authority =
  fixes exec :: "'s \<Rightarrow> jsstring \<Rightarrow> member_cmd \<Rightarrow> 's option"
    and room :: "nat \<Rightarrow> 's \<Rightarrow> jsstring \<Rightarrow> bool"
    and admits :: "'s \<Rightarrow> member_cmd \<Rightarrow> bool"
    and mem :: "'s \<Rightarrow> jsstring \<Rightarrow> jsstring set"
    and mode :: "'s \<Rightarrow> jsstring \<Rightarrow> bool"
  assumes exec_ok: "room (Suc n) s c \<Longrightarrow> admits s m \<Longrightarrow>
      \<exists>s'. exec s c m = Some s' \<and> room n s' c \<and> mem s' c = cmd_members m (mem s c)
        \<and> mode s' c = cmd_mode m (mode s c)"
    and exec_admits: "room (Suc n) s c \<Longrightarrow> exec s c m = Some s' \<Longrightarrow> admits s m' \<Longrightarrow> admits s' m'"
    and exec_frame: "room (Suc n) s c \<Longrightarrow> exec s c m = Some s' \<Longrightarrow> c' \<noteq> c \<Longrightarrow>
      mem s' c' = mem s c' \<and> mode s' c' = mode s c'"
begin

lemma run_spec:
  assumes "room (length ms) s c" "\<forall>m \<in> set ms. admits s m"
  shows "\<exists>s'. run_cmds exec s c ms = Some s' \<and> mem s' c = foldl (\<lambda>S m. cmd_members m S) (mem s c) ms
    \<and> mode s' c = foldl (\<lambda>b m. cmd_mode m b) (mode s c) ms
    \<and> (\<forall>c'. c' \<noteq> c \<longrightarrow> mem s' c' = mem s c' \<and> mode s' c' = mode s c')"
  using assms
proof (induction ms arbitrary: s)
  case (Cons m ms)
  then have room: "room (Suc (length ms)) s c" by simp
  obtain s' where s': "exec s c m = Some s'" "room (length ms) s' c" "mem s' c = cmd_members m (mem s c)"
    "mode s' c = cmd_mode m (mode s c)"
    using exec_ok [OF room, of m] Cons.prems(2) by auto
  moreover have "\<forall>m \<in> set ms. admits s' m"
    using Cons.prems(2) exec_admits [OF room s'(1)] by simp
  ultimately show ?case using Cons.IH [of s'] exec_frame [OF room s'(1)] by auto
qed simp

end

end
