(* ===== verification/Proto.thy ===== *)
theory Proto
  imports Json Chain "HOL-Library.Monad_Syntax"
begin

section \<open>Wire schemas (\<^verbatim>\<open>proto/src/index.ts\<close>)\<close>

text \<open>
  Every schema of the package is the record of its parsed value and a parser from JSON
  values, \<open>None\<close> when validation fails. The primitives read the schema combinators by their
  documented meaning: \<open>z_str1\<close> is \<^verbatim>\<open>z.string().min(1)\<close>, \<open>z_uint\<close> is
  \<^verbatim>\<open>z.number().int().nonnegative()\<close>, \<open>z_object\<close> accepts a plain object, whose unknown keys are
  dropped. \<open>js_of_frame\<close> is the object a sender stringifies.

  The frames a peer builds are exactly the ones the other side parses back
  (\<open>ws_frame_roundtrip\<close>).
\<close>

definition z_str :: "json option \<Rightarrow> jsstring option" where
  "z_str v = (case v of Some (JStr s) \<Rightarrow> Some s | _ \<Rightarrow> None)"

definition z_str1 :: "json option \<Rightarrow> jsstring option" where
  "z_str1 v = (case v of Some (JStr s) \<Rightarrow> if s = [] then None else Some s | _ \<Rightarrow> None)"

definition z_uint :: "json option \<Rightarrow> int option" where
  "z_uint v = (case v of Some (JInt i) \<Rightarrow> if i < 0 then None else Some i | _ \<Rightarrow> None)"

definition z_bool :: "json option \<Rightarrow> bool option" where
  "z_bool v = (case v of Some (JBool b) \<Rightarrow> Some b | _ \<Rightarrow> None)"

definition z_object :: "json \<Rightarrow> json option" where
  "z_object v = (case v of JObj _ \<Rightarrow> Some v | _ \<Rightarrow> None)"

definition z_optional :: "(json option \<Rightarrow> 'a option) \<Rightarrow> json option \<Rightarrow> 'a option option" where
  "z_optional f v = (case v of None \<Rightarrow> Some None | Some x \<Rightarrow> map_option Some (f (Some x)))"

definition z_literal :: "jsstring \<Rightarrow> json option \<Rightarrow> unit option" where
  "z_literal s v = (if v = Some (JStr s) then Some () else None)"

fun z_items :: "(json option \<Rightarrow> 'a option) \<Rightarrow> json list \<Rightarrow> 'a list option" where
  "z_items f [] = Some []"
| "z_items f (v # vs) = do { x \<leftarrow> f (Some v); xs \<leftarrow> z_items f vs; Some (x # xs) }"

definition z_array :: "(json option \<Rightarrow> 'a option) \<Rightarrow> json option \<Rightarrow> 'a list option" where
  "z_array f v = (case v of Some (JArr vs) \<Rightarrow> z_items f vs | _ \<Rightarrow> None)"

subsection \<open>Envelopes and plaintext\<close>

definition CiphertextTypeSchema :: "json option \<Rightarrow> int option" where
  "CiphertextTypeSchema v = (case v of Some (JInt i) \<Rightarrow> if i = 2 \<or> i = 3 then Some i else None | _ \<Rightarrow> None)"

record Envelope =
  env_conversationId :: jsstring
  env_senderUserId :: jsstring
  env_senderDeviceId :: int
  env_recipientDeviceId :: int
  env_seq :: int
  env_ciphertext :: jsstring
  env_type :: int

definition EnvelopeSchema :: "json option \<Rightarrow> Envelope option" where
  "EnvelopeSchema v = do {
     v \<leftarrow> v; o' \<leftarrow> z_object v;
     conv \<leftarrow> z_str1 (js_get o' (js ''conversationId''));
     su \<leftarrow> z_str1 (js_get o' (js ''senderUserId''));
     sd \<leftarrow> z_uint (js_get o' (js ''senderDeviceId''));
     rd \<leftarrow> z_uint (js_get o' (js ''recipientDeviceId''));
     sq \<leftarrow> z_uint (js_get o' (js ''seq''));
     ct \<leftarrow> z_str1 (js_get o' (js ''ciphertext''));
     ty \<leftarrow> CiphertextTypeSchema (js_get o' (js ''type''));
     Some \<lparr>env_conversationId = conv, env_senderUserId = su, env_senderDeviceId = sd,
       env_recipientDeviceId = rd, env_seq = sq, env_ciphertext = ct, env_type = ty\<rparr> }"

definition parseEnvelope :: "json \<Rightarrow> Envelope option" where
  "parseEnvelope data = EnvelopeSchema (Some data)"

definition MembershipHeadSchema :: "json option \<Rightarrow> Head option" where
  "MembershipHeadSchema v = do {
     v \<leftarrow> v; o' \<leftarrow> z_object v;
     sq \<leftarrow> z_uint (js_get o' (js ''seq''));
     hh \<leftarrow> z_str1 (js_get o' (js ''headHash''));
     Some \<lparr>head_seq = sq, head_hash = hh\<rparr> }"

record PlaintextMessage =
  pm_msgId :: jsstring
  pm_text :: jsstring
  pm_mentions :: "jsstring list"
  pm_sentAt :: int
  pm_membershipHead :: "Head option"

definition PlaintextMessageSchema :: "json option \<Rightarrow> PlaintextMessage option" where
  "PlaintextMessageSchema v = do {
     v \<leftarrow> v; o' \<leftarrow> z_object v;
     i \<leftarrow> z_str1 (js_get o' (js ''msgId''));
     t \<leftarrow> z_str (js_get o' (js ''text''));
     ms \<leftarrow> z_array z_str (js_get o' (js ''mentions''));
     at \<leftarrow> z_uint (js_get o' (js ''sentAt''));
     h \<leftarrow> z_optional MembershipHeadSchema (js_get o' (js ''membershipHead''));
     Some \<lparr>pm_msgId = i, pm_text = t, pm_mentions = ms, pm_sentAt = at, pm_membershipHead = h\<rparr> }"

definition parsePlaintextMessage :: "json \<Rightarrow> PlaintextMessage option" where
  "parsePlaintextMessage data = PlaintextMessageSchema (Some data)"

subsection \<open>WebSocket frames\<close>

datatype WsFrame =
    WsDeliver Envelope
  | WsReady
  | WsAck jsstring int
  | WsSubscribe jsstring "int option"
  | WsSend jsstring Envelope
  | WsOpSend jsstring int jsstring
  | WsOpDeliver jsstring int jsstring

definition WsDeliverFrameSchema :: "json \<Rightarrow> WsFrame option" where
  "WsDeliverFrameSchema v = do {
     o' \<leftarrow> z_object v; z_literal (js ''deliver'') (js_get o' (js ''type''));
     e \<leftarrow> EnvelopeSchema (js_get o' (js ''envelope''));
     Some (WsDeliver e) }"

definition WsReadyFrameSchema :: "json \<Rightarrow> WsFrame option" where
  "WsReadyFrameSchema v = do {
     o' \<leftarrow> z_object v; z_literal (js ''ready'') (js_get o' (js ''type'')); Some WsReady }"

definition WsAckFrameSchema :: "json \<Rightarrow> WsFrame option" where
  "WsAckFrameSchema v = do {
     o' \<leftarrow> z_object v; z_literal (js ''ack'') (js_get o' (js ''type''));
     c \<leftarrow> z_str1 (js_get o' (js ''conversationId''));
     sq \<leftarrow> z_uint (js_get o' (js ''seq''));
     Some (WsAck c sq) }"

definition WsSubscribeFrameSchema :: "json \<Rightarrow> WsFrame option" where
  "WsSubscribeFrameSchema v = do {
     o' \<leftarrow> z_object v; z_literal (js ''subscribe'') (js_get o' (js ''type''));
     c \<leftarrow> z_str1 (js_get o' (js ''conversationId''));
     since \<leftarrow> z_optional z_uint (js_get o' (js ''sinceSeq''));
     Some (WsSubscribe c since) }"

definition WsSendFrameSchema :: "json \<Rightarrow> WsFrame option" where
  "WsSendFrameSchema v = do {
     o' \<leftarrow> z_object v; z_literal (js ''send'') (js_get o' (js ''type''));
     r \<leftarrow> z_str1 (js_get o' (js ''recipientUserId''));
     e \<leftarrow> EnvelopeSchema (js_get o' (js ''envelope''));
     Some (WsSend r e) }"

definition WsOpSendFrameSchema :: "json \<Rightarrow> WsFrame option" where
  "WsOpSendFrameSchema v = do {
     o' \<leftarrow> z_object v; z_literal (js ''op-send'') (js_get o' (js ''type''));
     c \<leftarrow> z_str1 (js_get o' (js ''conversationId''));
     sq \<leftarrow> z_uint (js_get o' (js ''seq''));
     op \<leftarrow> z_str1 (js_get o' (js ''op''));
     Some (WsOpSend c sq op) }"

definition WsOpDeliverFrameSchema :: "json \<Rightarrow> WsFrame option" where
  "WsOpDeliverFrameSchema v = do {
     o' \<leftarrow> z_object v; z_literal (js ''op-deliver'') (js_get o' (js ''type''));
     c \<leftarrow> z_str1 (js_get o' (js ''conversationId''));
     sq \<leftarrow> z_uint (js_get o' (js ''seq''));
     op \<leftarrow> z_str1 (js_get o' (js ''op''));
     Some (WsOpDeliver c sq op) }"

text \<open>The discriminated union picks the schema by the value of \<^verbatim>\<open>type\<close>.\<close>

definition WsFrameSchema :: "json \<Rightarrow> WsFrame option" where
  "WsFrameSchema v = do {
     o' \<leftarrow> z_object v;
     t \<leftarrow> js_get o' (js ''type'');
     if t = JStr (js ''deliver'') then WsDeliverFrameSchema v
     else if t = JStr (js ''ready'') then WsReadyFrameSchema v
     else if t = JStr (js ''ack'') then WsAckFrameSchema v
     else if t = JStr (js ''subscribe'') then WsSubscribeFrameSchema v
     else if t = JStr (js ''send'') then WsSendFrameSchema v
     else if t = JStr (js ''op-send'') then WsOpSendFrameSchema v
     else if t = JStr (js ''op-deliver'') then WsOpDeliverFrameSchema v
     else None }"

definition parseWsFrame :: "json \<Rightarrow> WsFrame option" where
  "parseWsFrame data = WsFrameSchema data"

subsection \<open>Prekey bundles and REST bodies\<close>

record PreKeyBundlePublic =
  pb_userId :: jsstring
  pb_deviceId :: int
  pb_registrationId :: int
  pb_identityKey :: jsstring
  pb_signedPreKeyId :: int
  pb_signedPreKeyPublic :: jsstring
  pb_signedPreKeySignature :: jsstring
  pb_preKeyId :: "int option"
  pb_preKeyPublic :: "jsstring option"
  pb_kyberPreKeyId :: int
  pb_kyberPreKeyPublic :: jsstring
  pb_kyberPreKeySignature :: jsstring

definition PreKeyBundlePublicSchema :: "json option \<Rightarrow> PreKeyBundlePublic option" where
  "PreKeyBundlePublicSchema v = do {
     v \<leftarrow> v; o' \<leftarrow> z_object v;
     u \<leftarrow> z_str1 (js_get o' (js ''userId''));
     d \<leftarrow> z_uint (js_get o' (js ''deviceId''));
     r \<leftarrow> z_uint (js_get o' (js ''registrationId''));
     ik \<leftarrow> z_str1 (js_get o' (js ''identityKey''));
     si \<leftarrow> z_uint (js_get o' (js ''signedPreKeyId''));
     sp \<leftarrow> z_str1 (js_get o' (js ''signedPreKeyPublic''));
     ss \<leftarrow> z_str1 (js_get o' (js ''signedPreKeySignature''));
     pi' \<leftarrow> z_optional z_uint (js_get o' (js ''preKeyId''));
     pp \<leftarrow> z_optional z_str1 (js_get o' (js ''preKeyPublic''));
     ki \<leftarrow> z_uint (js_get o' (js ''kyberPreKeyId''));
     kp \<leftarrow> z_str1 (js_get o' (js ''kyberPreKeyPublic''));
     ks \<leftarrow> z_str1 (js_get o' (js ''kyberPreKeySignature''));
     Some \<lparr>pb_userId = u, pb_deviceId = d, pb_registrationId = r, pb_identityKey = ik,
       pb_signedPreKeyId = si, pb_signedPreKeyPublic = sp, pb_signedPreKeySignature = ss,
       pb_preKeyId = pi', pb_preKeyPublic = pp, pb_kyberPreKeyId = ki, pb_kyberPreKeyPublic = kp,
       pb_kyberPreKeySignature = ks\<rparr> }"

definition SignupRequestSchema :: "json \<Rightarrow> jsstring option" where
  "SignupRequestSchema v = do { o' \<leftarrow> z_object v; z_str1 (js_get o' (js ''username'')) }"

definition PublishDeviceRequestSchema :: "json \<Rightarrow> (jsstring \<times> PreKeyBundlePublic) option" where
  "PublishDeviceRequestSchema v = do {
     o' \<leftarrow> z_object v;
     u \<leftarrow> z_str1 (js_get o' (js ''userId''));
     b \<leftarrow> PreKeyBundlePublicSchema (js_get o' (js ''bundle''));
     Some (u, b) }"

record CreateConversationRequest =
  ccr_creatorUserId :: jsstring
  ccr_memberUserIds :: "jsstring list"
  ccr_aiMode :: bool

definition CreateConversationRequestSchema :: "json \<Rightarrow> CreateConversationRequest option" where
  "CreateConversationRequestSchema v = do {
     o' \<leftarrow> z_object v;
     c \<leftarrow> z_str1 (js_get o' (js ''creatorUserId''));
     ms \<leftarrow> z_array z_str1 (js_get o' (js ''memberUserIds''));
     ai \<leftarrow> (case js_get o' (js ''aiMode'') of None \<Rightarrow> Some False | Some b \<Rightarrow> z_bool (Some b));
     Some \<lparr>ccr_creatorUserId = c, ccr_memberUserIds = ms, ccr_aiMode = ai\<rparr> }"

text \<open>\<^verbatim>\<open>InviteMemberRequestSchema\<close> and \<^verbatim>\<open>RemoveMemberRequestSchema\<close> have the same shape.\<close>

definition MemberRequestSchema :: "json \<Rightarrow> (jsstring \<times> jsstring) option" where
  "MemberRequestSchema v = do {
     o' \<leftarrow> z_object v;
     c \<leftarrow> z_str1 (js_get o' (js ''conversationId''));
     u \<leftarrow> z_str1 (js_get o' (js ''userId''));
     Some (c, u) }"

definition SetAiModeRequestSchema :: "json \<Rightarrow> (jsstring \<times> bool) option" where
  "SetAiModeRequestSchema v = do {
     o' \<leftarrow> z_object v;
     c \<leftarrow> z_str1 (js_get o' (js ''conversationId''));
     b \<leftarrow> z_bool (js_get o' (js ''enabled''));
     Some (c, b) }"

record ConversationMember =
  cm_userId :: jsstring
  cm_deviceIds :: "int list"

definition ConversationMemberSchema :: "json option \<Rightarrow> ConversationMember option" where
  "ConversationMemberSchema v = do {
     v \<leftarrow> v; o' \<leftarrow> z_object v;
     u \<leftarrow> z_str1 (js_get o' (js ''userId''));
     ds \<leftarrow> z_array z_uint (js_get o' (js ''deviceIds''));
     Some \<lparr>cm_userId = u, cm_deviceIds = ds\<rparr> }"

definition ListMembersResponseSchema :: "json \<Rightarrow> (ConversationMember list \<times> bool) option" where
  "ListMembersResponseSchema v = do {
     o' \<leftarrow> z_object v;
     ms \<leftarrow> z_array ConversationMemberSchema (js_get o' (js ''members''));
     ai \<leftarrow> z_bool (js_get o' (js ''aiMode''));
     Some (ms, ai) }"

subsection \<open>What a sender stringifies\<close>

definition js_of_envelope :: "Envelope \<Rightarrow> json" where
  "js_of_envelope e = JObj
     [(js ''conversationId'', JStr (env_conversationId e)), (js ''senderUserId'', JStr (env_senderUserId e)),
      (js ''senderDeviceId'', JInt (env_senderDeviceId e)), (js ''recipientDeviceId'', JInt (env_recipientDeviceId e)),
      (js ''seq'', JInt (env_seq e)), (js ''ciphertext'', JStr (env_ciphertext e)), (js ''type'', JInt (env_type e))]"

definition js_of_frame :: "WsFrame \<Rightarrow> json" where
  "js_of_frame f = (case f of
     WsDeliver e \<Rightarrow> JObj [(js ''type'', JStr (js ''deliver'')), (js ''envelope'', js_of_envelope e)]
   | WsReady \<Rightarrow> JObj [(js ''type'', JStr (js ''ready''))]
   | WsAck c sq \<Rightarrow> JObj [(js ''type'', JStr (js ''ack'')), (js ''conversationId'', JStr c), (js ''seq'', JInt sq)]
   | WsSubscribe c since \<Rightarrow> JObj ([(js ''type'', JStr (js ''subscribe'')), (js ''conversationId'', JStr c)]
       @ (case since of None \<Rightarrow> [] | Some sq \<Rightarrow> [(js ''sinceSeq'', JInt sq)]))
   | WsSend r e \<Rightarrow> JObj [(js ''type'', JStr (js ''send'')), (js ''recipientUserId'', JStr r), (js ''envelope'', js_of_envelope e)]
   | WsOpSend c sq op \<Rightarrow> JObj [(js ''type'', JStr (js ''op-send'')), (js ''conversationId'', JStr c), (js ''seq'', JInt sq), (js ''op'', JStr op)]
   | WsOpDeliver c sq op \<Rightarrow> JObj [(js ''type'', JStr (js ''op-deliver'')), (js ''conversationId'', JStr c), (js ''seq'', JInt sq), (js ''op'', JStr op)])"

definition js_of_plaintext :: "PlaintextMessage \<Rightarrow> json" where
  "js_of_plaintext m = JObj
     ([(js ''msgId'', JStr (pm_msgId m)), (js ''text'', JStr (pm_text m)),
       (js ''mentions'', JArr (map JStr (pm_mentions m))), (js ''sentAt'', JInt (pm_sentAt m))]
      @ (case pm_membershipHead m of None \<Rightarrow> [] | Some h \<Rightarrow>
          [(js ''membershipHead'', JObj [(js ''seq'', JInt (head_seq h)), (js ''headHash'', JStr (head_hash h))])]))"

text \<open>The values the schemas admit.\<close>

definition envelope_ok :: "Envelope \<Rightarrow> bool" where
  "envelope_ok e \<longleftrightarrow> env_conversationId e \<noteq> [] \<and> env_senderUserId e \<noteq> [] \<and> 0 \<le> env_senderDeviceId e
     \<and> 0 \<le> env_recipientDeviceId e \<and> 0 \<le> env_seq e \<and> env_ciphertext e \<noteq> [] \<and> (env_type e = 2 \<or> env_type e = 3)"

definition frame_ok :: "WsFrame \<Rightarrow> bool" where
  "frame_ok f = (case f of
     WsDeliver e \<Rightarrow> envelope_ok e
   | WsReady \<Rightarrow> True
   | WsAck c sq \<Rightarrow> c \<noteq> [] \<and> 0 \<le> sq
   | WsSubscribe c since \<Rightarrow> c \<noteq> [] \<and> pred_option (\<lambda>sq. 0 \<le> sq) since
   | WsSend r e \<Rightarrow> r \<noteq> [] \<and> envelope_ok e
   | WsOpSend c sq op \<Rightarrow> c \<noteq> [] \<and> 0 \<le> sq \<and> op \<noteq> []
   | WsOpDeliver c sq op \<Rightarrow> c \<noteq> [] \<and> 0 \<le> sq \<and> op \<noteq> [])"

definition head_ok :: "Head \<Rightarrow> bool" where
  "head_ok h \<longleftrightarrow> 0 \<le> head_seq h \<and> head_hash h \<noteq> []"

definition plaintext_ok :: "PlaintextMessage \<Rightarrow> bool" where
  "plaintext_ok m \<longleftrightarrow> pm_msgId m \<noteq> [] \<and> 0 \<le> pm_sentAt m \<and> pred_option head_ok (pm_membershipHead m)"

lemma z_simps [simp]:
  "z_str (Some (JStr s)) = Some s" "z_str1 (Some (JStr s)) = (if s = [] then None else Some s)"
  "z_uint (Some (JInt i)) = (if i < 0 then None else Some i)" "z_bool (Some (JBool b)) = Some b"
  "z_object (JObj kvs) = Some (JObj kvs)" "z_literal s (Some (JStr t)) = (if t = s then Some () else None)"
  "CiphertextTypeSchema (Some (JInt i)) = (if i = 2 \<or> i = 3 then Some i else None)"
  "z_optional f None = Some None" "z_optional f (Some v) = map_option Some (f (Some v))"
  "z_array f (Some (JArr vs)) = z_items f vs"
  by (auto simp: z_str_def z_str1_def z_uint_def z_bool_def z_object_def z_literal_def
      CiphertextTypeSchema_def z_optional_def z_array_def)

lemma z_Some:
  "z_str1 v = Some s \<longleftrightarrow> v = Some (JStr s) \<and> s \<noteq> []" "z_uint v = Some i \<longleftrightarrow> v = Some (JInt i) \<and> 0 \<le> i"
  "CiphertextTypeSchema v = Some i \<longleftrightarrow> v = Some (JInt i) \<and> (i = 2 \<or> i = 3)"
  by (auto simp: z_str1_def z_uint_def CiphertextTypeSchema_def split: option.splits json.splits if_splits)

lemma z_items_map: "(\<And>x. x \<in> set xs \<Longrightarrow> f (Some (g x)) = Some x) \<Longrightarrow> z_items f (map g xs) = Some xs"
  by (induction xs) simp_all

lemma envelope_roundtrip: "EnvelopeSchema (Some (js_of_envelope e)) = (if envelope_ok e then Some e else None)"
  by (cases e) (auto simp: EnvelopeSchema_def js_of_envelope_def envelope_ok_def)

lemma EnvelopeSchema_ok: "EnvelopeSchema v = Some e \<Longrightarrow> envelope_ok e"
  by (auto simp: EnvelopeSchema_def envelope_ok_def bind_eq_Some_conv z_Some)

lemmas frame_schemas = WsDeliverFrameSchema_def WsReadyFrameSchema_def WsAckFrameSchema_def
  WsSubscribeFrameSchema_def WsSendFrameSchema_def WsOpSendFrameSchema_def WsOpDeliverFrameSchema_def

lemma frame_schema_ok:
  "WsDeliverFrameSchema v = Some f \<Longrightarrow> frame_ok f" "WsReadyFrameSchema v = Some f \<Longrightarrow> frame_ok f"
  "WsAckFrameSchema v = Some f \<Longrightarrow> frame_ok f" "WsSubscribeFrameSchema v = Some f \<Longrightarrow> frame_ok f"
  "WsSendFrameSchema v = Some f \<Longrightarrow> frame_ok f" "WsOpSendFrameSchema v = Some f \<Longrightarrow> frame_ok f"
  "WsOpDeliverFrameSchema v = Some f \<Longrightarrow> frame_ok f"
  by (auto simp: frame_schemas frame_ok_def bind_eq_Some_conv z_Some z_optional_def dest: EnvelopeSchema_ok
      split: option.splits)

lemma WsFrameSchema_ok: "WsFrameSchema v = Some f \<Longrightarrow> frame_ok f"
  by (auto simp: WsFrameSchema_def bind_eq_Some_conv dest: frame_schema_ok split: if_splits)

lemma js_of_frame_parse: "WsFrameSchema (js_of_frame f) = (if frame_ok f then Some f else None)"
  by (cases f) (auto simp: WsFrameSchema_def js_of_frame_def frame_schemas frame_ok_def envelope_roundtrip
      split: option.splits)

lemma plaintext_parse: "PlaintextMessageSchema (Some (js_of_plaintext m)) = (if plaintext_ok m then Some m else None)"
proof -
  have ms: "z_items z_str (map JStr (pm_mentions m)) = Some (pm_mentions m)"
    by (rule z_items_map) simp
  show ?thesis
    by (cases m) (use ms in \<open>auto simp: PlaintextMessageSchema_def js_of_plaintext_def plaintext_ok_def
        MembershipHeadSchema_def head_ok_def split: option.splits\<close>)
qed

subsection \<open>Properties\<close>

text \<open>C22: every frame survives the wire: the object a sender stringifies for a frame is parsed back
  to that frame when its fields are admissible and rejected otherwise, whatever the frame
  kind, and \<^verbatim>\<open>parseWsFrame\<close> returns admissible frames only.\<close>

theorem ws_frame_roundtrip:
  "parseWsFrame (js_of_frame f) = (if frame_ok f then Some f else None)
   \<and> {g. \<exists>v. parseWsFrame v = Some g} = {g. frame_ok g}"
proof
  show "parseWsFrame (js_of_frame f) = (if frame_ok f then Some f else None)"
    by (simp add: parseWsFrame_def js_of_frame_parse)
  have "parseWsFrame (js_of_frame g) = Some g" if "frame_ok g" for g
    using that by (simp add: parseWsFrame_def js_of_frame_parse)
  moreover have "frame_ok g" if "parseWsFrame v = Some g" for v g
    using that by (simp add: parseWsFrame_def WsFrameSchema_ok)
  ultimately show "{g. \<exists>v. parseWsFrame v = Some g} = {g. frame_ok g}" by blast
qed

text \<open>A plaintext message with or without a membership head is parsed back from what the sender
  encrypts exactly when its id is not empty, its time not negative and its head, if any,
  well-formed.\<close>

theorem plaintext_roundtrip:
  "parsePlaintextMessage (js_of_plaintext m) = (if plaintext_ok m then Some m else None)"
  by (simp add: parsePlaintextMessage_def plaintext_parse)

end
