(* ===== verification/OpService.thy ===== *)
theory OpService
  imports Gate Authority Proto
begin

section \<open>The founder's membership authority (\<^verbatim>\<open>membership/src/service.ts\<close>)\<close>

text \<open>
  \<^verbatim>\<open>OpLogMembershipService\<close> signs and appends ops to the chains of the conversations it
  founded. Its state is the record \<open>Service\<close>: the identity's key pair, the two maps and, for
  the injected broadcaster, the calls it has received. A method returns what it throws or
  its result, and the state it leaves; the statements before a throw have taken effect. The
  id of a new conversation and the randomness of a signature are arguments.

  The interface \<open>membership_authority\<close> is what the client expects of whoever keeps the
  membership of a conversation; it is interpreted here for the op-log service and in the
  relay's theory for its database.
\<close>

record Service =
  sv_publicKey :: bytes
  sv_privateKey :: bytes
  sv_selfUserId :: jsstring
  sv_broadcaster :: bool
  sv_chains :: "(jsstring \<times> MembershipOp list) list"
  sv_logs :: "(jsstring \<times> MembershipLog) list"
  sv_broadcasts :: "(jsstring \<times> bytes) list"

definition svSign :: "crypto_lib \<Rightarrow> Service \<Rightarrow> bytes \<Rightarrow> UnsignedOp \<Rightarrow> thrown + MembershipOp" where
  "svSign K sv entropy u = rbind (signOp K u (sv_privateKey sv) entropy) (\<lambda>s. Inr (with_sig u s))"

text \<open>\<^verbatim>\<open>await this.broadcaster?.broadcastOp(conversationId, encodeOp(op))\<close>.\<close>

definition broadcast :: "Service \<Rightarrow> jsstring \<Rightarrow> MembershipOp \<Rightarrow> (thrown + unit) \<times> Service" where
  "broadcast sv conv op =
     (if sv_broadcaster sv then
        (case encodeOp op of
           Inl e \<Rightarrow> (Inl e, sv)
         | Inr b \<Rightarrow> (Inr (), sv\<lparr>sv_broadcasts := sv_broadcasts sv @ [(conv, b)]\<rparr>))
      else (Inr (), sv))"

definition svCreateConversation ::
    "crypto_lib \<Rightarrow> bytes \<Rightarrow> Service \<Rightarrow> jsstring \<Rightarrow> jsstring list \<Rightarrow> bool \<Rightarrow> jsstring \<Rightarrow> (thrown + jsstring) \<times> Service" where
  "svCreateConversation K entropy sv creatorUserId memberUserIds mode conversationId =
     (case svSign K sv entropy \<lparr>op_type = Create, op_conversationId = conversationId, op_seq = 0,
          op_prevHash = GENESIS_ZERO, op_author = creatorUserId, op_subject = None, op_aiMode = Some mode,
          op_initialMembers = Some memberUserIds, op_authorIdentityKey = sv_publicKey sv\<rparr> of
        Inl e \<Rightarrow> (Inl e, sv)
      | Inr op \<Rightarrow>
          let sv1 = sv\<lparr>sv_chains := amap_set (sv_chains sv) conversationId [op]\<rparr> in
          (case openLog K [op] of
             Inl e \<Rightarrow> (Inl e, sv1)
           | Inr log \<Rightarrow>
               let sv2 = sv1\<lparr>sv_logs := amap_set (sv_logs sv1) conversationId log\<rparr> in
               (case broadcast sv2 conversationId op of
                  (Inl e, sv3) \<Rightarrow> (Inl e, sv3)
                | (Inr _, sv3) \<Rightarrow> (Inr conversationId, sv3))))"

text \<open>The op \<^verbatim>\<open>append\<close> signs, from the last op of the chain.\<close>

definition nextOp ::
    "crypto_lib \<Rightarrow> bytes \<Rightarrow> Service \<Rightarrow> jsstring \<Rightarrow> MembershipOp \<Rightarrow> OpType \<Rightarrow> jsstring option \<Rightarrow> bool option
       \<Rightarrow> jsstring list option \<Rightarrow> thrown + MembershipOp" where
  "nextOp K entropy sv conversationId prev t subj ai ms =
     rbind (hashOp K prev) (\<lambda>h.
     svSign K sv entropy \<lparr>op_type = t, op_conversationId = conversationId, op_seq = op_seq prev + 1,
       op_prevHash = h, op_author = sv_selfUserId sv, op_subject = subj, op_aiMode = ai,
       op_initialMembers = ms, op_authorIdentityKey = sv_publicKey sv\<rparr>)"

definition svAppend ::
    "crypto_lib \<Rightarrow> bytes \<Rightarrow> Service \<Rightarrow> jsstring \<Rightarrow> OpType \<Rightarrow> jsstring option \<Rightarrow> bool option
       \<Rightarrow> jsstring list option \<Rightarrow> (thrown + unit) \<times> Service" where
  "svAppend K entropy sv conversationId t subj ai ms =
     (case map_of (sv_chains sv) conversationId of
        None \<Rightarrow> (Inl (IntegrityError UnknownConversation), sv)
      | Some chain \<Rightarrow>
          if chain = [] then (Inl (IntegrityError UnknownConversation), sv)
          else (case nextOp K entropy sv conversationId (last chain) t subj ai ms of
            Inl e \<Rightarrow> (Inl e, sv)
          | Inr op \<Rightarrow>
              (case map_of (sv_logs sv) conversationId of
                 None \<Rightarrow> (Inl TypeError, sv)
               | Some log \<Rightarrow>
                   (case ingestChain K log (chain @ [op]) of
                      Inl e \<Rightarrow> (Inl e, sv)
                    | Inr log' \<Rightarrow>
                        broadcast (sv\<lparr>sv_logs := amap_set (sv_logs sv) conversationId log',
                          sv_chains := amap_set (sv_chains sv) conversationId (chain @ [op])\<rparr>)
                          conversationId op))))"

definition svInvite :: "crypto_lib \<Rightarrow> bytes \<Rightarrow> Service \<Rightarrow> jsstring \<Rightarrow> jsstring \<Rightarrow> (thrown + unit) \<times> Service" where
  "svInvite K entropy sv conversationId userId = svAppend K entropy sv conversationId Invite (Some userId) None None"

definition svRemoveMember :: "crypto_lib \<Rightarrow> bytes \<Rightarrow> Service \<Rightarrow> jsstring \<Rightarrow> jsstring \<Rightarrow> (thrown + unit) \<times> Service" where
  "svRemoveMember K entropy sv conversationId userId = svAppend K entropy sv conversationId Remove (Some userId) None None"

definition svSetAiMode :: "crypto_lib \<Rightarrow> bytes \<Rightarrow> Service \<Rightarrow> jsstring \<Rightarrow> bool \<Rightarrow> (thrown + unit) \<times> Service" where
  "svSetAiMode K entropy sv conversationId enabled = svAppend K entropy sv conversationId SetAiMode None (Some enabled) None"

definition svListMembers :: "Service \<Rightarrow> jsstring \<Rightarrow> thrown + ConversationMember list \<times> bool" where
  "svListMembers sv conversationId =
     (case map_of (sv_logs sv) conversationId of
        None \<Rightarrow> Inl (IntegrityError UnknownConversation)
      | Some log \<Rightarrow>
          rbind (logMembers log) (\<lambda>ms.
          rbind (logAiMode log) (\<lambda>ai.
            Inr (map (\<lambda>u. \<lparr>cm_userId = u, cm_deviceIds = []\<rparr>) ms, ai))))"

definition chainFor :: "Service \<Rightarrow> jsstring \<Rightarrow> thrown + MembershipOp list" where
  "chainFor sv conversationId =
     (case map_of (sv_chains sv) conversationId of
        None \<Rightarrow> Inl (IntegrityError UnknownConversation)
      | Some chain \<Rightarrow> Inr chain)"

definition headFor :: "crypto_lib \<Rightarrow> Service \<Rightarrow> jsstring \<Rightarrow> thrown + Head" where
  "headFor K sv conversationId =
     (case map_of (sv_chains sv) conversationId of
        None \<Rightarrow> Inl (IntegrityError UnknownConversation)
      | Some chain \<Rightarrow> if chain = [] then Inl (IntegrityError UnknownConversation) else headOf K chain)"

definition inviteFor :: "crypto_lib \<Rightarrow> Service \<Rightarrow> jsstring \<Rightarrow> thrown + InvitePin" where
  "inviteFor K sv conversationId =
     (case map_of (sv_chains sv) conversationId of
        None \<Rightarrow> Inl (IntegrityError UnknownConversation)
      | Some chain \<Rightarrow>
          if chain = [] then Inl (IntegrityError UnknownConversation)
          else rbind (hashHex K (hd chain)) (\<lambda>gh.
            rbind (headOf K chain) (\<lambda>h.
              Inr \<lparr>pin_conversationId = conversationId, pin_genesisHash = gh, pin_pinnedHead = h\<rparr>)))"

subsection \<open>What the library promises\<close>

text \<open>\<open>lib_sizes\<close>: digests are 32 bytes and signatures shorter than 2^32 bytes.\<close>

definition lib_sizes :: "crypto_lib \<Rightarrow> bytes \<Rightarrow> bool" where
  "lib_sizes K priv \<longleftrightarrow>
     (\<forall>b. length (sha256 K b) = 32) \<and> (\<forall>entropy msg. length (sk_sign K priv entropy msg) < 2 ^ 32)"

lemma demo_sizes: "length k < 100 \<Longrightarrow> lib_sizes demoLib k"
  by (simp add: lib_sizes_def demoLib_def)

lemma hashOp_length: "lib_sizes K priv \<Longrightarrow> hashOp K op = Inr h \<Longrightarrow> length h = 32"
  by (auto simp: lib_sizes_def hashOp_def rbind_Inr_iff)

lemma svSign_Inr:
  assumes "lib_sizes K (sv_privateKey sv)" "op_fits u"
  obtains s where "svSign K sv e u = Inr (with_sig u s)" "length s < 2 ^ 32" "signOp K u (sv_privateKey sv) e = Inr s"
proof -
  obtain s where s: "signOp K u (sv_privateKey sv) e = Inr s"
    using signOp_ok assms(2) by blast
  then have "length s < 2 ^ 32"
    using assms(1) by (auto simp: signOp_def lib_sizes_def rbind_Inr_iff)
  with s that show thesis by (simp add: svSign_def)
qed

subsection \<open>The invariant of a founded conversation\<close>

text \<open>
  \<open>founded K sv conv c\<close>: the service holds the verified chain \<open>c\<close> of a conversation it
  founded, and its log has adopted it.
\<close>

definition held :: "crypto_lib \<Rightarrow> Service \<Rightarrow> jsstring \<Rightarrow> MembershipOp list \<Rightarrow> bool" where
  "held K sv conv c \<longleftrightarrow> map_of (sv_chains sv) conv = Some c \<and> valid_chain K c
     \<and> op_conversationId (hd c) = conv
     \<and> (\<exists>h. headOf K c = Inr h \<and> map_of (sv_logs sv) conv =
          Some \<lparr>ml_conversationId = conv, ml_pin = None, ml_ops = c, ml_watermark = Some h\<rparr>)"

definition founded :: "crypto_lib \<Rightarrow> Service \<Rightarrow> jsstring \<Rightarrow> MembershipOp list \<Rightarrow> bool" where
  "founded K sv conv c \<longleftrightarrow> held K sv conv c
     \<and> op_author (hd c) = sv_selfUserId sv \<and> op_authorIdentityKey (hd c) = sv_publicKey sv"

lemma held_log_inv:
  "valid_chain K c \<Longrightarrow> op_conversationId (hd c) = conv \<Longrightarrow> headOf K c = Inr h \<Longrightarrow>
     log_inv K \<lparr>ml_conversationId = conv, ml_pin = None, ml_ops = c, ml_watermark = Some h\<rparr>"
  by (auto simp: log_inv_def valid_chain_nonempty pin_ok_def)

lemma broadcast_ok:
  assumes "encodeOp op = Inr b"
  shows "broadcast sv conv op =
    (Inr (), sv\<lparr>sv_broadcasts := sv_broadcasts sv @ (if sv_broadcaster sv then [(conv, b)] else [])\<rparr>)"
  using assms by (simp add: broadcast_def)

lemma link_encodes:
  assumes "verifyOpSig K op" "length (op_sig op) < 2 ^ 32"
  shows "\<exists>b. encodeOp op = Inr b" "\<exists>h. hashOp K op = Inr h" "\<exists>x. hashHex K op = Inr x"
  using assms verifyOpSig_fits encodeForHashing_ok [of op] hashOp_ok [of K op]
  by (auto simp: encodeOp_def hashHex_Inr)

text \<open>Adopting one more op that links to the last.\<close>

lemma ingest_snoc:
  assumes "valid_chain K c" "op_conversationId (hd c) = conv" "headOf K c = Inr h"
    and "link_ok K (hd c) (Some (last c)) (length c) op" "length (op_sig op) < 2 ^ 32"
  shows "\<exists>h'. headOf K (c @ [op]) = Inr h' \<and>
    ingestChain K \<lparr>ml_conversationId = conv, ml_pin = None, ml_ops = c, ml_watermark = Some h\<rparr> (c @ [op]) =
    Inr \<lparr>ml_conversationId = conv, ml_pin = None, ml_ops = c @ [op], ml_watermark = Some h'\<rparr>"
proof -
  have ne: "c \<noteq> []" by (rule valid_chain_nonempty [OF assms(1)])
  have v: "valid_chain K (c @ [op])"
    using assms(1,4) by (simp add: valid_chain_snoc [OF ne])
  have "verifyOpSig K op" using assms(4) by (simp add: link_ok_def)
  then obtain x where x: "hashHex K op = Inr x"
    using link_encodes(3) assms(5) by blast
  define h' where "h' = \<lparr>head_seq = int (length c), head_hash = x\<rparr>"
  have h': "headOf K (c @ [op]) = Inr h'"
    using x by (simp add: headOf_valid [OF v] h'_def)
  have "contains K c h" by (rule contains_headOf [OF assms(1,3)])
  then have "contains K (c @ [op]) h" "head_seq h \<le> head_seq h'"
    by (auto simp: contains_iff nth_append h'_def)
  then show ?thesis
    using v h' ne assms(2) unfolding ingestChain_Inr [OF held_log_inv [OF assms(1-3)]]
    by (simp add: pin_ok_def covers_def)
qed

text \<open>The fields an op of a type carries, and that they fit the encoding.\<close>

definition fields_ok :: "OpType \<Rightarrow> jsstring option \<Rightarrow> bool option \<Rightarrow> jsstring list option \<Rightarrow> bool" where
  "fields_ok t subj ai ms \<longleftrightarrow> t \<noteq> Create
     \<and> (subj \<noteq> None \<longleftrightarrow> t \<in> {Invite, Remove}) \<and> (ai \<noteq> None \<longleftrightarrow> t = SetAiMode) \<and> ms = None
     \<and> pred_option (\<lambda>s. length (utf8Encode s) < 2 ^ 32) subj"

lemma nextOp_ok:
  assumes c: "valid_chain K c" "op_conversationId (hd c) = conv" "headOf K c = Inr h"
    and lib: "key_pair K (sv_publicKey sv) (sv_privateKey sv)" "lib_sizes K (sv_privateKey sv)"
    and self: "length (utf8Encode (sv_selfUserId sv)) < 2 ^ 32" "length (sv_publicKey sv) < 2 ^ 32"
    and f: "fields_ok t subj ai ms" "length c < 2 ^ 64"
  shows "\<exists>op. nextOp K e sv conv (last c) t subj ai ms = Inr op \<and> op_type op = t \<and> op_subject op = subj
    \<and> op_aiMode op = ai \<and> op_initialMembers op = ms \<and> op_author op = sv_selfUserId sv
    \<and> op_authorIdentityKey op = sv_publicKey sv \<and> op_conversationId op = conv \<and> op_seq op = int (length c)
    \<and> hashOp K (last c) = Inr (op_prevHash op) \<and> shape_ok op \<and> verifyOpSig K op \<and> length (op_sig op) < 2 ^ 32"
proof -
  obtain d where d: "hashOp K (last c) = Inr d"
    using c(3) by (auto simp: headOf_def hashHex_Inr rbind_Inr_iff)
  define u where "u = \<lparr>op_type = t, op_conversationId = conv, op_seq = op_seq (last c) + 1, op_prevHash = d,
    op_author = sv_selfUserId sv, op_subject = subj, op_aiMode = ai, op_initialMembers = ms,
    op_authorIdentityKey = sv_publicKey sv\<rparr>"
  have sq: "op_seq (last c) + 1 = int (length c)"
    by (simp add: valid_chain_last_seq [OF c(1)])
  have "op_fits (hd c)"
    using valid_chain_link [OF c(1), of 0] valid_chain_nonempty [OF c(1)]
    by (auto simp: link_ok_def hd_conv_nth intro: verifyOpSig_fits)
  then have "length (utf8Encode conv) < 2 ^ 32"
    using c(2) by (simp add: op_fits_def)
  moreover have "int (length c) < 2 ^ 64"
    using f(2) by simp
  ultimately have fits: "op_fits u"
    using self f(1) hashOp_length [OF lib(2) d] sq by (simp add: op_fits_def u_def fields_ok_def)
  obtain s where s: "svSign K sv e u = Inr (with_sig u s)" "length s < 2 ^ 32" "signOp K u (sv_privateKey sv) e = Inr s"
    using svSign_Inr [OF lib(2) fits] by metis
  have "verifyOpSig K (with_sig u s)"
    using signOp_verifies [OF lib(1) _ s(3)] by (simp add: u_def)
  moreover have "shape_ok (with_sig u s)"
    using f(1) by (cases t) (auto simp: shape_ok_def u_def fields_ok_def)
  moreover have "nextOp K e sv conv (last c) t subj ai ms = Inr (with_sig u s)"
    using s(1) d by (simp add: nextOp_def u_def)
  ultimately show ?thesis
    using s(2) d sq by (auto simp: u_def)
qed

lemma svAppend_founded:
  assumes fo: "founded K sv conv c"
    and lib: "key_pair K (sv_publicKey sv) (sv_privateKey sv)" "lib_sizes K (sv_privateKey sv)"
    and f: "fields_ok t subj ai ms" "length c < 2 ^ 64"
  shows "\<exists>op sv'. svAppend K e sv conv t subj ai ms = (Inr (), sv') \<and> founded K sv' conv (c @ [op])
    \<and> op_type op = t \<and> op_subject op = subj \<and> op_aiMode op = ai \<and> op_initialMembers op = ms
    \<and> (\<exists>b. encodeOp op = Inr b \<and> sv_broadcasts sv' = sv_broadcasts sv @ (if sv_broadcaster sv then [(conv, b)] else []))
    \<and> sv_publicKey sv' = sv_publicKey sv \<and> sv_privateKey sv' = sv_privateKey sv
    \<and> (\<forall>conv'. conv' \<noteq> conv \<longrightarrow> map_of (sv_chains sv') conv' = map_of (sv_chains sv) conv'
          \<and> map_of (sv_logs sv') conv' = map_of (sv_logs sv) conv')"
proof -
  from fo obtain h where h: "map_of (sv_chains sv) conv = Some c" "valid_chain K c" "op_conversationId (hd c) = conv"
    "headOf K c = Inr h"
    "map_of (sv_logs sv) conv = Some \<lparr>ml_conversationId = conv, ml_pin = None, ml_ops = c, ml_watermark = Some h\<rparr>"
    "op_author (hd c) = sv_selfUserId sv" "op_authorIdentityKey (hd c) = sv_publicKey sv"
    by (auto simp: founded_def held_def)
  note ne = valid_chain_nonempty [OF h(2)]
  have "op_fits (hd c)"
    using valid_chain_link [OF h(2), of 0] ne by (auto simp: link_ok_def hd_conv_nth intro: verifyOpSig_fits)
  then have sz: "length (utf8Encode (sv_selfUserId sv)) < 2 ^ 32" "length (sv_publicKey sv) < 2 ^ 32"
    using h(6,7) by (simp_all add: op_fits_def)
  from nextOp_ok [OF h(2-4) lib sz f, of e] obtain op where
    op: "nextOp K e sv conv (last c) t subj ai ms = Inr op" "op_type op = t" "op_subject op = subj"
    "op_aiMode op = ai" "op_initialMembers op = ms" "op_author op = sv_selfUserId sv"
    "op_authorIdentityKey op = sv_publicKey sv" "op_conversationId op = conv" "op_seq op = int (length c)"
    "hashOp K (last c) = Inr (op_prevHash op)" "shape_ok op" "verifyOpSig K op" "length (op_sig op) < 2 ^ 32"
    by blast
  then have link: "link_ok K (hd c) (Some (last c)) (length c) op"
    using h(3,6,7) by (simp add: link_ok_def)
  obtain b where b: "encodeOp op = Inr b" using link_encodes(1) op(12,13) by blast
  obtain h' where h': "headOf K (c @ [op]) = Inr h'"
    "ingestChain K \<lparr>ml_conversationId = conv, ml_pin = None, ml_ops = c, ml_watermark = Some h\<rparr> (c @ [op]) =
      Inr \<lparr>ml_conversationId = conv, ml_pin = None, ml_ops = c @ [op], ml_watermark = Some h'\<rparr>"
    using ingest_snoc [OF h(2-4) link op(13)] by blast
  have "valid_chain K (c @ [op])" using h(2) link by (simp add: valid_chain_snoc [OF ne])
  then show ?thesis
    using h h' op b ne by (simp add: svAppend_def broadcast_ok founded_def held_def map_of_amap_set)
qed

subsection \<open>The service is a membership authority\<close>

definition svExec :: "crypto_lib \<Rightarrow> bytes \<Rightarrow> Service \<Rightarrow> jsstring \<Rightarrow> member_cmd \<Rightarrow> Service option" where
  "svExec K e sv conv m =
     (case (case m of AddUser u \<Rightarrow> svInvite K e sv conv u
            | DropUser u \<Rightarrow> svRemoveMember K e sv conv u
            | SetMode b \<Rightarrow> svSetAiMode K e sv conv b) of
        (Inl _, _) \<Rightarrow> None
      | (Inr _, sv') \<Rightarrow> Some sv')"

definition svRoom :: "crypto_lib \<Rightarrow> nat \<Rightarrow> Service \<Rightarrow> jsstring \<Rightarrow> bool" where
  "svRoom K n sv conv \<longleftrightarrow> key_pair K (sv_publicKey sv) (sv_privateKey sv) \<and> lib_sizes K (sv_privateKey sv)
     \<and> (\<exists>c. founded K sv conv c \<and> length c + n \<le> 2 ^ 64)"

definition svAdmits :: "Service \<Rightarrow> member_cmd \<Rightarrow> bool" where
  "svAdmits sv m \<longleftrightarrow> (case m of AddUser u \<Rightarrow> length (utf8Encode u) < 2 ^ 32
     | DropUser u \<Rightarrow> length (utf8Encode u) < 2 ^ 32 | SetMode _ \<Rightarrow> True)"

definition svMem :: "Service \<Rightarrow> jsstring \<Rightarrow> jsstring set" where
  "svMem sv conv = (case svListMembers sv conv of Inl _ \<Rightarrow> {} | Inr (ms, _) \<Rightarrow> cm_userId ` set ms)"

definition svMode :: "Service \<Rightarrow> jsstring \<Rightarrow> bool" where
  "svMode sv conv = (case svListMembers sv conv of Inl _ \<Rightarrow> False | Inr (_, b) \<Rightarrow> b)"

lemma svListMembers_held:
  "held K sv conv c \<Longrightarrow> svListMembers sv conv =
     Inr (map (\<lambda>u. \<lparr>cm_userId = u, cm_deviceIds = []\<rparr>) (members (foldOps c)), aiMode (foldOps c))"
  by (auto simp: held_def svListMembers_def logMembers_def logAiMode_def valid_chain_nonempty)

lemma svMem_held:
  assumes "held K sv conv c"
  shows "svMem sv conv = set (members (foldOps c))" "svMode sv conv = aiMode (foldOps c)"
  using svListMembers_held [OF assms] by (auto simp: svMem_def svMode_def image_image)

lemma svMem_frame:
  "map_of (sv_logs sv') conv = map_of (sv_logs sv) conv \<Longrightarrow> svMem sv' conv = svMem sv conv \<and> svMode sv' conv = svMode sv conv"
  by (simp add: svMem_def svMode_def svListMembers_def)

definition cmd_type :: "member_cmd \<Rightarrow> OpType" where
  "cmd_type m = (case m of AddUser _ \<Rightarrow> Invite | DropUser _ \<Rightarrow> Remove | SetMode _ \<Rightarrow> SetAiMode)"

definition cmd_subject :: "member_cmd \<Rightarrow> jsstring option" where
  "cmd_subject m = (case m of AddUser u \<Rightarrow> Some u | DropUser u \<Rightarrow> Some u | SetMode _ \<Rightarrow> None)"

definition cmd_ai :: "member_cmd \<Rightarrow> bool option" where
  "cmd_ai m = (case m of SetMode b \<Rightarrow> Some b | _ \<Rightarrow> None)"

lemma svExec_append:
  "svExec K e sv conv m =
     (case svAppend K e sv conv (cmd_type m) (cmd_subject m) (cmd_ai m) None of (Inl _, _) \<Rightarrow> None | (Inr _, sv') \<Rightarrow> Some sv')"
  by (cases m) (simp_all add: svExec_def svInvite_def svRemoveMember_def svSetAiMode_def cmd_type_def cmd_subject_def cmd_ai_def)

lemma cmd_fields: "svAdmits sv m \<Longrightarrow> fields_ok (cmd_type m) (cmd_subject m) (cmd_ai m) None"
  by (cases m) (simp_all add: fields_ok_def svAdmits_def cmd_type_def cmd_subject_def cmd_ai_def)

lemma foldStep_cmd:
  assumes "op_type op = cmd_type m" "op_subject op = cmd_subject m" "op_aiMode op = cmd_ai m"
  shows "set (members (foldStep g v op)) = cmd_members m (set (members v)) \<and> aiMode (foldStep g v op) = cmd_mode m (aiMode v)"
  using assms by (cases m) (simp_all add: foldStep_def cmd_type_def cmd_subject_def cmd_ai_def cmd_members_def cmd_mode_def)

lemma svAppend_frame:
  assumes "svAppend K e sv conv t subj ai ms = (Inr (), sv')" "conv' \<noteq> conv"
  shows "map_of (sv_logs sv') conv' = map_of (sv_logs sv) conv'"
  using assms
  by (auto simp: svAppend_def broadcast_def map_of_amap_set split: option.splits sum.splits if_splits)

interpretation svc: membership_authority "svExec K e" "svRoom K" svAdmits svMem svMode for K e
proof
  fix n sv conv m
  assume room: "svRoom K (Suc n) sv conv" and adm: "svAdmits sv m"
  then obtain c where c: "founded K sv conv c" "length c < 2 ^ 64" "length c + Suc n \<le> 2 ^ 64"
    and lib: "key_pair K (sv_publicKey sv) (sv_privateKey sv)" "lib_sizes K (sv_privateKey sv)"
    by (auto simp: svRoom_def)
  from svAppend_founded [OF c(1) lib cmd_fields [OF adm] c(2), of e] obtain op sv' where
    op: "svAppend K e sv conv (cmd_type m) (cmd_subject m) (cmd_ai m) None = (Inr (), sv')" "founded K sv' conv (c @ [op])"
    "op_type op = cmd_type m" "op_subject op = cmd_subject m" "op_aiMode op = cmd_ai m"
    "sv_publicKey sv' = sv_publicKey sv" "sv_privateKey sv' = sv_privateKey sv"
    by blast
  have held: "held K sv conv c" "held K sv' conv (c @ [op])"
    using c(1) op(2) by (simp_all add: founded_def)
  have "c \<noteq> []" using held(1) valid_chain_nonempty by (auto simp: held_def)
  then have "svMem sv' conv = cmd_members m (svMem sv conv) \<and> svMode sv' conv = cmd_mode m (svMode sv conv)"
    using foldStep_cmd [OF op(3-5)] by (simp add: svMem_held [OF held(1)] svMem_held [OF held(2)] foldOps_snoc)
  moreover have "svRoom K n sv' conv"
    unfolding svRoom_def op(6,7) using lib op(2) c(3) by (intro conjI exI [of _ "c @ [op]"]) auto
  ultimately show "\<exists>s'. svExec K e sv conv m = Some s' \<and> svRoom K n s' conv \<and> svMem s' conv = cmd_members m (svMem sv conv)
      \<and> svMode s' conv = cmd_mode m (svMode sv conv)"
    by (simp add: svExec_append op(1))
next
  fix n sv conv m sv' conv'
  assume "svExec K e sv conv m = Some sv'" "conv' \<noteq> conv"
  then show "svMem sv' conv' = svMem sv conv' \<and> svMode sv' conv' = svMode sv conv'"
    by (intro svMem_frame svAppend_frame [of K e sv conv]) (auto simp: svExec_append split: prod.splits sum.splits)
qed (simp add: svAdmits_def)

subsection \<open>Founding a conversation\<close>

definition create_fits :: "Service \<Rightarrow> jsstring \<Rightarrow> jsstring list \<Rightarrow> jsstring \<Rightarrow> bool" where
  "create_fits sv creator ms conv \<longleftrightarrow> length (utf8Encode conv) < 2 ^ 32 \<and> length (utf8Encode creator) < 2 ^ 32
     \<and> items_fit ms \<and> length (sv_publicKey sv) < 2 ^ 32"

lemma svCreate_held:
  assumes lib: "key_pair K (sv_publicKey sv) (sv_privateKey sv)" "lib_sizes K (sv_privateKey sv)"
    and fits: "create_fits sv creator ms conv"
  shows "\<exists>op sv'. svCreateConversation K e sv creator ms mode conv = (Inr conv, sv') \<and> held K sv' conv [op]
    \<and> op_author op = creator \<and> op_authorIdentityKey op = sv_publicKey sv \<and> sv_selfUserId sv' = sv_selfUserId sv
    \<and> sv_publicKey sv' = sv_publicKey sv \<and> sv_privateKey sv' = sv_privateKey sv
    \<and> set (members (foldOps [op])) = insert creator (set ms) \<and> aiMode (foldOps [op]) = mode"
proof -
  define u where "u = \<lparr>op_type = Create, op_conversationId = conv, op_seq = 0,
    op_prevHash = GENESIS_ZERO, op_author = creator, op_subject = None, op_aiMode = Some mode,
    op_initialMembers = Some ms, op_authorIdentityKey = sv_publicKey sv\<rparr>"
  have "op_fits u"
    using fits by (simp add: op_fits_def u_def create_fits_def GENESIS_ZERO_def)
  then obtain s where s: "svSign K sv e u = Inr (with_sig u s)" "length s < 2 ^ 32" "signOp K u (sv_privateKey sv) e = Inr s"
    using svSign_Inr [OF lib(2)] by metis
  define op where "op = with_sig u s"
  have ver: "verifyOpSig K op"
    using signOp_verifies [OF lib(1) _ s(3)] by (simp add: u_def op_def)
  then have v: "valid_chain K [op]"
    by (simp add: valid_chain_single link_ok_def shape_ok_def) (simp add: op_def u_def)
  obtain b x where b: "encodeOp op = Inr b" "hashHex K op = Inr x"
    using link_encodes [OF ver] s(2) by (auto simp: op_def)
  have h: "headOf K [op] = Inr \<lparr>head_seq = 0, head_hash = x\<rparr>"
    using b(2) by (simp add: headOf_valid [OF v])
  have "foldOps [op] = \<lparr>members = js_set_of (creator # ms), aiMode = mode\<rparr>"
    by (simp add: foldOps_def foldStep_def op_def u_def)
  moreover have "op_conversationId op = conv" "op_author op = creator" "op_authorIdentityKey op = sv_publicKey sv"
    by (simp_all add: op_def u_def)
  moreover have "svSign K sv e u = Inr op" using s(1) by (simp add: op_def)
  ultimately show ?thesis
    using v h b(1) openLog_ok [OF v h]
    by (simp add: svCreateConversation_def u_def [symmetric] broadcast_ok held_def map_of_amap_set)
qed

subsection \<open>Errors\<close>

lemma for_each_append: "for_each (xs @ ys) f = rbind (for_each xs f) (\<lambda>_. for_each ys f)"
  by (induction xs) (simp_all add: rbind_assoc)

text \<open>Every check passes but the author's.\<close>

lemma verifyChain_snoc_author:
  assumes "valid_chain K c" "shape_ok op" "op_conversationId op = op_conversationId (hd c)" "op_seq op = int (length c)"
    "hashOp K (last c) = Inr (op_prevHash op)" "verifyOpSig K op" "op_author op \<noteq> op_author (hd c)"
  shows "verifyChain K (c @ [op]) = Inl (IntegrityError NonFounderAuthor)"
proof -
  have ne: "c \<noteq> []" by (rule valid_chain_nonempty [OF assms(1)])
  have "verifyAt K (hd c) (c @ [op]) i = Inr ()" if "i < length c" for i
  proof -
    have "link_ok K (hd (c @ [op])) (prev_op (c @ [op]) i) i ((c @ [op]) ! i)"
      using valid_chain_link [OF assms(1) that] that ne by (auto simp: prev_op_def nth_append)
    then show ?thesis using verifyAt_Inr [of "c @ [op]" K i "()"] ne by simp
  qed
  then have "for_each [0..<length c] (verifyAt K (hd c) (c @ [op])) = Inr ()"
    by (simp add: for_each_Inr)
  moreover have "verifyAt K (hd c) (c @ [op]) (length c) = Inl (IntegrityError NonFounderAuthor)"
  proof -
    have "(c @ [op]) ! (length c - 1) = last c" "0 < length c"
      using ne by (simp_all add: nth_append last_conv_nth)
    moreover have "validateOpShape op = Inr ()" using assms(2) by (simp add: validateOpShape_Inr)
    ultimately show ?thesis using assms(3-7) by (simp add: verifyAt_def Let_def)
  qed
  ultimately have "for_each [0..<length (c @ [op])] (verifyAt K (hd c) (c @ [op])) = Inl (IntegrityError NonFounderAuthor)"
    by (simp add: for_each_append)
  moreover have "op_type (hd c) = Create" "op_seq (hd c) = 0" "op_prevHash (hd c) = GENESIS_ZERO"
    using assms(1) valid_chain_link [OF assms(1), of 0] ne unfolding valid_chain_def
    by (cases c; simp add: link_ok_def prev_op_def)+
  ultimately show ?thesis
    using ne by (cases c) (simp_all add: verifyChain_def)
qed

lemma svAppend_nonfounder:
  assumes held: "held K sv conv c"
    and lib: "key_pair K (sv_publicKey sv) (sv_privateKey sv)" "lib_sizes K (sv_privateKey sv)"
    and sz: "length (utf8Encode (sv_selfUserId sv)) < 2 ^ 32" "length (sv_publicKey sv) < 2 ^ 32"
    and f: "fields_ok t subj ai ms" "length c < 2 ^ 64" and other: "op_author (hd c) \<noteq> sv_selfUserId sv"
  shows "svAppend K e sv conv t subj ai ms = (Inl (IntegrityError NonFounderAuthor), sv)"
proof -
  from held obtain h where h: "map_of (sv_chains sv) conv = Some c" "valid_chain K c" "op_conversationId (hd c) = conv"
    "headOf K c = Inr h"
    "map_of (sv_logs sv) conv = Some \<lparr>ml_conversationId = conv, ml_pin = None, ml_ops = c, ml_watermark = Some h\<rparr>"
    by (auto simp: held_def)
  from nextOp_ok [OF h(2-4) lib sz f, of e] obtain op where
    op: "nextOp K e sv conv (last c) t subj ai ms = Inr op" "op_author op = sv_selfUserId sv"
    "op_conversationId op = conv" "op_seq op = int (length c)"
    "hashOp K (last c) = Inr (op_prevHash op)" "shape_ok op" "verifyOpSig K op"
    by blast
  have "verifyChain K (c @ [op]) = Inl (IntegrityError NonFounderAuthor)"
    using op h(3) other by (intro verifyChain_snoc_author [OF h(2)]) auto
  then show ?thesis
    using h(1,5) op(1) valid_chain_nonempty [OF h(2)] by (simp add: svAppend_def ingestChain_def)
qed

subsection \<open>Properties\<close>

definition demoService :: "jsstring \<Rightarrow> Service" where
  "demoService self = \<lparr>sv_publicKey = [1, 2, 3], sv_privateKey = [1, 2, 3], sv_selfUserId = self,
     sv_broadcaster = True, sv_chains = [], sv_logs = [], sv_broadcasts = []\<rparr>"

lemma demoService_lib:
  "key_pair demoLib (sv_publicKey (demoService self)) (sv_privateKey (demoService self))"
  "lib_sizes demoLib (sv_privateKey (demoService self))"
  "create_fits (demoService self) (js ''alice'') [js ''bob''] (js ''c1'')"
  by (simp_all add: demoService_def demo_key_pair demo_sizes create_fits_def items_fit_def length_utf8Encode_js)

lemma svCreate_room:
  assumes "key_pair K (sv_publicKey sv) (sv_privateKey sv)" "lib_sizes K (sv_privateKey sv)"
    and "create_fits sv (sv_selfUserId sv) ms conv" "n < 2 ^ 64"
  shows "\<exists>sv'. svCreateConversation K e sv (sv_selfUserId sv) ms mode conv = (Inr conv, sv') \<and> svRoom K n sv' conv
    \<and> svMem sv' conv = insert (sv_selfUserId sv) (set ms) \<and> svMode sv' conv = mode"
proof -
  obtain op sv' where op: "svCreateConversation K e sv (sv_selfUserId sv) ms mode conv = (Inr conv, sv')"
    "held K sv' conv [op]" "op_author op = sv_selfUserId sv" "op_authorIdentityKey op = sv_publicKey sv"
    "sv_selfUserId sv' = sv_selfUserId sv" "sv_publicKey sv' = sv_publicKey sv" "sv_privateKey sv' = sv_privateKey sv"
    "set (members (foldOps [op])) = insert (sv_selfUserId sv) (set ms)" "aiMode (foldOps [op]) = mode"
    using svCreate_held [OF assms(1-3), of e mode] by blast
  have "founded K sv' conv [op]"
    using op(2-6) by (simp add: founded_def)
  moreover have "length [op] + n \<le> 2 ^ 64" using assms(4) by simp
  ultimately have "svRoom K n sv' conv"
    unfolding svRoom_def op(6,7) using assms(1,2) by blast
  then show ?thesis using op(1,8,9) by (simp add: svMem_held [OF op(2)])
qed

text \<open>Single writer: in a conversation founded under another user id, every command of the
  service fails with the non-founder error and leaves the service exactly as it was,
  nothing broadcast.\<close>

theorem non_founder_commands_fail:
  assumes "held K sv conv c" "op_author (hd c) \<noteq> sv_selfUserId sv"
    and "key_pair K (sv_publicKey sv) (sv_privateKey sv)" "lib_sizes K (sv_privateKey sv)"
    and "length (utf8Encode (sv_selfUserId sv)) < 2 ^ 32" "length (sv_publicKey sv) < 2 ^ 32" "length c < 2 ^ 64"
    and "length (utf8Encode u) < 2 ^ 32"
  shows "svInvite K e sv conv u = (Inl (IntegrityError NonFounderAuthor), sv)
    \<and> svRemoveMember K e sv conv u = (Inl (IntegrityError NonFounderAuthor), sv)
    \<and> svSetAiMode K e sv conv b = (Inl (IntegrityError NonFounderAuthor), sv)"
  using assms svAppend_nonfounder [OF assms(1,3-6) _ assms(7,2)]
  by (simp add: svInvite_def svRemoveMember_def svSetAiMode_def fields_ok_def)

theorem non_founder_commands_fail_witness:
  "\<exists>sv. svCreateConversation demoLib [] (demoService (js ''bob'')) (js ''alice'') [js ''bob''] False (js ''c1'')
      = (Inr (js ''c1''), sv)
    \<and> svInvite demoLib [] sv (js ''c1'') (js ''carol'') = (Inl (IntegrityError NonFounderAuthor), sv)"
proof -
  obtain op sv' where op: "svCreateConversation demoLib [] (demoService (js ''bob'')) (js ''alice'') [js ''bob''] False (js ''c1'')
      = (Inr (js ''c1''), sv')" "held demoLib sv' (js ''c1'') [op]" "op_author op = js ''alice''"
    "sv_selfUserId sv' = js ''bob''" "sv_publicKey sv' = [1, 2, 3]" "sv_privateKey sv' = [1, 2, 3]"
    using svCreate_held [OF demoService_lib [of "js ''bob''"], of "[]" False] by (auto simp: demoService_def)
  have "js ''alice'' \<noteq> js ''bob''" by (simp add: js_def)
  then have "svInvite demoLib [] sv' (js ''c1'') (js ''carol'') = (Inl (IntegrityError NonFounderAuthor), sv')"
    using non_founder_commands_fail [OF op(2), of "js ''carol''" "[]"] op(3-6)
    by (simp add: demo_key_pair demo_sizes length_utf8Encode_js)
  with op(1) show ?thesis by blast
qed

text \<open>The invite pin the founder hands out opens the door it is meant for: \<^verbatim>\<open>inviteFor\<close>
  succeeds, the pin is well-formed whenever the conversation id is not empty, and a joiner
  created from it adopts the founder's chain whole.\<close>

theorem invite_pin_accepted:
  assumes "held K sv conv c" "lib_sizes K (sv_privateKey sv)" "conv \<noteq> []"
  shows "\<exists>pin log. inviteFor K sv conv = Inr pin \<and> chainFor sv conv = Inr c \<and> pin_wf pin
    \<and> ingestChain K (forJoiner pin) c = Inr log \<and> ml_ops log = c"
proof -
  from assms(1) obtain h where h: "map_of (sv_chains sv) conv = Some c" "valid_chain K c"
    "op_conversationId (hd c) = conv" "headOf K c = Inr h"
    by (auto simp: held_def)
  have ne: "c \<noteq> []" by (rule valid_chain_nonempty [OF h(2)])
  obtain x where x: "hashHex K (hd c) = Inr x"
    using valid_hashHex [OF h(2,4), of 0] ne by (auto simp: hd_conv_nth)
  define pin where "pin = \<lparr>pin_conversationId = conv, pin_genesisHash = x, pin_pinnedHead = h\<rparr>"
  have pin: "inviteFor K sv conv = Inr pin"
    using h(1,4) ne x by (simp add: inviteFor_def pin_def)
  obtain log where log: "ingestChain K (forJoiner pin) c = Inr log"
    using joiner_ingest_ok [OF h(2,4), of pin] h(3) x contains_headOf [OF h(2,4)] by (auto simp: pin_def)
  have "HEX_test (toHex d)" if "hashOp K op = Inr d" for op d
    using hashOp_length [OF assms(2) that] toHex_isHex [of d] by (auto simp: HEX_test_def list_all_iff)
  then have "HEX_test x" "HEX_test (head_hash h)" "0 \<le> head_seq h"
    using x h(4) ne by (auto simp: headOf_valid [OF h(2)] hashHex_Inr Suc_leI)
  then have "pin_wf pin"
    using assms(3) by (simp add: pin_wf_def pin_def)
  moreover have "chainFor sv conv = Inr c" using h(1) by (simp add: chainFor_def)
  ultimately show ?thesis using pin log ingest_fixed [OF joiner_inv log] by blast
qed

theorem invite_pin_accepted_witness:
  "\<exists>sv pin log c. svCreateConversation demoLib [] (demoService (js ''alice'')) (js ''alice'') [js ''bob''] False (js ''c1'')
      = (Inr (js ''c1''), sv)
    \<and> inviteFor demoLib sv (js ''c1'') = Inr pin \<and> ingestChain demoLib (forJoiner pin) c = Inr log \<and> ml_ops log = c"
proof -
  obtain op sv' where op: "svCreateConversation demoLib [] (demoService (js ''alice'')) (js ''alice'') [js ''bob''] False (js ''c1'')
      = (Inr (js ''c1''), sv')" "held demoLib sv' (js ''c1'') [op]" "sv_privateKey sv' = [1, 2, 3]"
    using svCreate_held [OF demoService_lib [of "js ''alice''"], of "[]" False] by (auto simp: demoService_def)
  have "lib_sizes demoLib (sv_privateKey sv')" "js ''c1'' \<noteq> []"
    by (simp_all add: op(3) demo_sizes js_def)
  then show ?thesis
    using invite_pin_accepted [OF op(2)] op(1) by blast
qed

end
