(* ===== verification/Base64.thy ===== *)
theory Base64
  imports Prelude
begin

section \<open>Base64 (\<^verbatim>\<open>Buffer.toString("base64")\<close> and \<^verbatim>\<open>Buffer.from(s, "base64")\<close>)\<close>

text \<open>
  The printer writes the standard alphabet with padding. The reader takes both alphabets,
  skips every other character and drops an incomplete last byte. What the components rely
  on is that a printed string reads back to its bytes (\<open>base64_roundtrip\<close>) and that printing
  is injective and never empty on a non-empty buffer.
\<close>

definition b64char :: "nat \<Rightarrow> 16 word" where
  "b64char n = of_nat (if n < 26 then 65 + n else if n < 52 then 71 + n else if n < 62 then n - 4
     else if n = 62 then 43 else 47)"

definition b64val :: "16 word \<Rightarrow> nat option" where
  "b64val u = (let n = unat u in
     if 65 \<le> n \<and> n \<le> 90 then Some (n - 65) else if 97 \<le> n \<and> n \<le> 122 then Some (n - 71)
     else if 48 \<le> n \<and> n \<le> 57 then Some (n + 4) else if n = 43 \<or> n = 45 then Some 62
     else if n = 47 \<or> n = 95 then Some 63 else None)"

definition b64pad :: "16 word" where
  "b64pad = 61"

fun base64Encode :: "bytes \<Rightarrow> jsstring" where
  "base64Encode [] = []"
| "base64Encode [a] = [b64char (unat a div 4), b64char (unat a mod 4 * 16), b64pad, b64pad]"
| "base64Encode [a, b] = [b64char (unat a div 4), b64char (unat a mod 4 * 16 + unat b div 16),
     b64char (unat b mod 16 * 4), b64pad]"
| "base64Encode (a # b # c # rest) =
     b64char (unat a div 4) # b64char (unat a mod 4 * 16 + unat b div 16)
     # b64char (unat b mod 16 * 4 + unat c div 64) # b64char (unat c mod 64) # base64Encode rest"

fun b64bytes :: "nat list \<Rightarrow> bytes" where
  "b64bytes (p # q # r # s # rest) =
     of_nat (p * 4 + q div 16) # of_nat (q mod 16 * 16 + r div 4) # of_nat (r mod 4 * 64 + s) # b64bytes rest"
| "b64bytes [p, q, r] = [of_nat (p * 4 + q div 16), of_nat (q mod 16 * 16 + r div 4)]"
| "b64bytes [p, q] = [of_nat (p * 4 + q div 16)]"
| "b64bytes _ = []"

definition base64Decode :: "jsstring \<Rightarrow> bytes" where
  "base64Decode s = b64bytes (List.map_filter b64val s)"

lemma unat_b64char: "n < 64 \<Longrightarrow> unat (b64char n) = (if n < 26 then 65 + n else if n < 52 then 71 + n
     else if n < 62 then n - 4 else if n = 62 then 43 else 47)"
  unfolding b64char_def by (rule unat_of_nat_16) auto

lemma b64val_b64char: "n < 64 \<Longrightarrow> b64val (b64char n) = Some n"
  unfolding b64val_def Let_def unat_b64char by auto

lemma b64val_pad [simp]: "b64val b64pad = None"
  by (simp add: b64val_def b64pad_def)

lemma b64_parts:
  "unat (a :: byte) div 4 < 64" "unat a div 16 < 16" "unat a div 64 < 4"
  using unat_byte_bound [of a] by linarith+

lemma b64_bounds:
  "unat (a :: byte) div 4 < 64" "unat (a :: byte) mod 4 * 16 + unat (b :: byte) div 16 < 64"
  "unat (b :: byte) mod 16 * 4 + unat (c :: byte) div 64 < 64" "unat (c :: byte) mod 64 < 64"
  "unat (a :: byte) mod 4 * 16 < 64" "unat (b :: byte) mod 16 * 4 < 64"
proof -
  have "unat a mod 4 < 4" "unat b mod 16 < 16" by simp_all
  then show "unat a mod 4 * 16 + unat b div 16 < 64" "unat b mod 16 * 4 + unat c div 64 < 64"
    "unat a mod 4 * 16 < 64" "unat b mod 16 * 4 < 64"
    using b64_parts(2) [of b] b64_parts(3) [of c] by linarith+
qed (simp_all add: b64_parts)

lemma split_digit: "k < m \<Longrightarrow> (j * m + k) div m = (j :: nat)" "k < m \<Longrightarrow> (j * m + k) mod m = (k :: nat)"
  by simp_all

lemma map_filter_Cons [simp]:
  "List.map_filter f (x # xs) = (case f x of None \<Rightarrow> List.map_filter f xs | Some y \<Rightarrow> y # List.map_filter f xs)"
  by (cases "f x") (simp_all add: List.map_filter_def)

lemma map_filter_Nil [simp]: "List.map_filter f [] = []"
  by (simp add: List.map_filter_def)

lemma of_nat_unat_byte: "n = unat (a :: byte) \<Longrightarrow> (of_nat n :: byte) = a"
  by simp

lemma base64_roundtrip: "base64Decode (base64Encode b) = b"
proof (induction b rule: base64Encode.induct)
  case (4 a b c rest)
  have "unat a div 4 * 4 + (unat a mod 4 * 16 + unat b div 16) div 16 = unat a"
    "(unat a mod 4 * 16 + unat b div 16) mod 16 * 16 + (unat b mod 16 * 4 + unat c div 64) div 4 = unat b"
    "(unat b mod 16 * 4 + unat c div 64) mod 4 * 64 + unat c mod 64 = unat c"
    using b64_parts by (simp_all add: split_digit)
  then show ?case
    using 4 by (simp add: base64Decode_def b64val_b64char b64_bounds of_nat_unat_byte del: of_nat_add of_nat_mult)
next
  case (3 a b)
  have "unat a div 4 * 4 + (unat a mod 4 * 16 + unat b div 16) div 16 = unat a"
    "(unat a mod 4 * 16 + unat b div 16) mod 16 * 16 + unat b mod 16 * 4 div 4 = unat b"
    using b64_parts by (simp_all add: split_digit)
  then show ?case
    by (simp add: base64Decode_def b64val_b64char b64_bounds of_nat_unat_byte del: of_nat_add of_nat_mult)
next
  case (2 a)
  have "unat a div 4 * 4 + unat a mod 4 * 16 div 16 = unat a" by simp
  then show ?case
    by (simp add: base64Decode_def b64val_b64char b64_bounds of_nat_unat_byte del: of_nat_add of_nat_mult)
qed (simp add: base64Decode_def)

lemma base64Encode_inj: "base64Encode a = base64Encode b \<longleftrightarrow> a = b"
  by (metis base64_roundtrip)

lemma base64Encode_Nil [simp]: "base64Encode b = [] \<longleftrightarrow> b = []"
  by (cases b rule: base64Encode.cases) simp_all

end
