(* ===== verification/RelayDb.thy ===== *)
theory RelayDb
  imports Proto Base64 Authority
begin

section \<open>The relay's tables (\<^verbatim>\<open>apps/node/src/db.ts\<close>, \<^verbatim>\<open>mailbox.ts\<close>)\<close>

text \<open>
  The database is the record \<open>Db\<close> of its tables, a list of rows each; a query or a
  transaction is one step on it, and a transaction that fails returns the error alone, so
  nothing of it is kept. Ids that clients see (users, conversations) are arguments; the ids
  of other rows come from the counter \<open>db_next\<close>, the envelope sequence from \<open>db_seq\<close>.
  SQL leaves open which row a query without an order returns: the parameter \<open>pick\<close> chooses
  among the candidates. The range of a 32-bit integer column is not modelled: numbers the
  schemas admit are stored as they are.
\<close>

record UserRow =
  us_id :: jsstring
  us_username :: jsstring
  us_tokenHash :: jsstring

record DeviceRow =
  dv_id :: nat
  dv_userId :: jsstring
  dv_deviceId :: int
  dv_identityKey :: bytes
  dv_registrationId :: int
  dv_replacedAt :: "int option"

record KeyRow =
  ky_deviceId :: nat
  ky_keyId :: int
  ky_publicKey :: bytes
  ky_signature :: bytes
  ky_createdAt :: int

record OneTimePreKeyRow =
  ot_id :: nat
  ot_deviceId :: nat
  ot_keyId :: int
  ot_publicKey :: bytes

record ConversationRow =
  cv_id :: jsstring
  cv_active :: bool
  cv_createdBy :: jsstring

record MembershipRow =
  mb_id :: nat
  mb_conversationId :: jsstring
  mb_userId :: jsstring
  mb_admin :: bool
  mb_removedAt :: "int option"

record StoredEnvelope =
  se_conversationId :: jsstring
  se_recipientUserId :: jsstring
  se_recipientDeviceId :: int
  se_senderUserId :: jsstring
  se_senderDeviceId :: int
  se_seq :: int
  se_type :: int
  se_ciphertext :: bytes

record Db =
  db_users :: "UserRow list"
  db_devices :: "DeviceRow list"
  db_signed :: "KeyRow list"
  db_kyber :: "KeyRow list"
  db_otps :: "OneTimePreKeyRow list"
  db_conversations :: "ConversationRow list"
  db_memberships :: "MembershipRow list"
  db_envelopes :: "StoredEnvelope list"
  db_next :: nat
  db_seq :: int

datatype db_error = ForeignKey | RecordNotFound | UniqueViolation

type_synonym picker = "nat \<Rightarrow> nat"

definition pick_of :: "picker \<Rightarrow> 'a list \<Rightarrow> 'a option" where
  "pick_of pick xs = (if xs = [] then None else Some (xs ! (pick (length xs) mod length xs)))"

definition findFirst :: "picker \<Rightarrow> ('a \<Rightarrow> bool) \<Rightarrow> 'a list \<Rightarrow> 'a option" where
  "findFirst pick P rows = pick_of pick (filter P rows)"

definition user_exists :: "Db \<Rightarrow> jsstring \<Rightarrow> bool" where
  "user_exists db u \<longleftrightarrow> u \<in> us_id ` set (db_users db)"

definition conversation_exists :: "Db \<Rightarrow> jsstring \<Rightarrow> bool" where
  "conversation_exists db c \<longleftrightarrow> c \<in> cv_id ` set (db_conversations db)"

subsection \<open>Devices and prekeys\<close>

definition createDevice :: "Db \<Rightarrow> jsstring \<Rightarrow> PreKeyBundlePublic \<Rightarrow> db_error + nat \<times> Db" where
  "createDevice db userId bundle =
     (if user_exists db userId then
        Inr (db_next db, db\<lparr>db_devices := db_devices db @
          [\<lparr>dv_id = db_next db, dv_userId = userId, dv_deviceId = pb_deviceId bundle,
            dv_identityKey = base64Decode (pb_identityKey bundle),
            dv_registrationId = pb_registrationId bundle, dv_replacedAt = None\<rparr>],
          db_next := Suc (db_next db)\<rparr>)
      else Inl ForeignKey)"

text \<open>The choice of the device row: a new one, a replacement, or a refresh in place.\<close>

definition upsertDevice :: "picker \<Rightarrow> int \<Rightarrow> Db \<Rightarrow> jsstring \<Rightarrow> PreKeyBundlePublic \<Rightarrow> db_error + nat \<times> Db" where
  "upsertDevice pick now db userId bundle =
     (case findFirst pick (\<lambda>d. dv_userId d = userId \<and> dv_deviceId d = pb_deviceId bundle \<and> dv_replacedAt d = None)
          (db_devices db) of
        None \<Rightarrow> createDevice db userId bundle
      | Some current \<Rightarrow>
          if dv_identityKey current \<noteq> base64Decode (pb_identityKey bundle) then
            createDevice (db\<lparr>db_devices := map (\<lambda>d. if dv_id d = dv_id current
              then d\<lparr>dv_replacedAt := Some now\<rparr> else d) (db_devices db)\<rparr>) userId bundle
          else Inr (dv_id current, db\<lparr>db_devices := map (\<lambda>d. if dv_id d = dv_id current
              then d\<lparr>dv_registrationId := pb_registrationId bundle\<rparr> else d) (db_devices db)\<rparr>))"

definition registerDevice :: "picker \<Rightarrow> int \<Rightarrow> Db \<Rightarrow> jsstring \<Rightarrow> PreKeyBundlePublic \<Rightarrow> db_error + Db" where
  "registerDevice pick now db userId bundle =
     rbind (upsertDevice pick now db userId bundle) (\<lambda>(device, db1).
     let db2 = db1\<lparr>db_signed := db_signed db1 @ [\<lparr>ky_deviceId = device, ky_keyId = pb_signedPreKeyId bundle,
             ky_publicKey = base64Decode (pb_signedPreKeyPublic bundle),
             ky_signature = base64Decode (pb_signedPreKeySignature bundle), ky_createdAt = now\<rparr>]\<rparr>;
         db3 = db2\<lparr>db_kyber := db_kyber db2 @ [\<lparr>ky_deviceId = device, ky_keyId = pb_kyberPreKeyId bundle,
             ky_publicKey = base64Decode (pb_kyberPreKeyPublic bundle),
             ky_signature = base64Decode (pb_kyberPreKeySignature bundle), ky_createdAt = now\<rparr>]\<rparr>
     in Inr (case (pb_preKeyId bundle, pb_preKeyPublic bundle) of
          (Some k, Some pub) \<Rightarrow> db3\<lparr>db_otps := db_otps db3 @ [\<lparr>ot_id = db_next db3, ot_deviceId = device,
             ot_keyId = k, ot_publicKey = base64Decode pub\<rparr>], db_next := Suc (db_next db3)\<rparr>
        | _ \<Rightarrow> db3))"

definition consumeOneTimePreKey :: "picker \<Rightarrow> Db \<Rightarrow> nat \<Rightarrow> OneTimePreKeyRow option \<times> Db" where
  "consumeOneTimePreKey pick db device =
     (case findFirst pick (\<lambda>k. ot_deviceId k = device) (db_otps db) of
        None \<Rightarrow> (None, db)
      | Some k \<Rightarrow> (Some k, db\<lparr>db_otps := filter (\<lambda>k'. ot_id k' \<noteq> ot_id k) (db_otps db)\<rparr>))"

text \<open>\<^verbatim>\<open>findFirst\<close> with \<^verbatim>\<open>orderBy: { createdAt: "desc" }\<close>.\<close>

definition latestKey :: "picker \<Rightarrow> nat \<Rightarrow> KeyRow list \<Rightarrow> KeyRow option" where
  "latestKey pick device rows =
     (let own = filter (\<lambda>k. ky_deviceId k = device) rows in
      findFirst pick (\<lambda>k. \<forall>k' \<in> set own. ky_createdAt k' \<le> ky_createdAt k) own)"

definition buildBundleForDevice :: "picker \<Rightarrow> Db \<Rightarrow> DeviceRow \<Rightarrow> PreKeyBundlePublic option \<times> Db" where
  "buildBundleForDevice pick db device =
     (case (latestKey pick (dv_id device) (db_signed db), latestKey pick (dv_id device) (db_kyber db)) of
        (Some spk, Some kpk) \<Rightarrow>
          (let (otp, db1) = consumeOneTimePreKey pick db (dv_id device) in
           (Some \<lparr>pb_userId = dv_userId device, pb_deviceId = dv_deviceId device,
              pb_registrationId = dv_registrationId device, pb_identityKey = base64Encode (dv_identityKey device),
              pb_signedPreKeyId = ky_keyId spk, pb_signedPreKeyPublic = base64Encode (ky_publicKey spk),
              pb_signedPreKeySignature = base64Encode (ky_signature spk),
              pb_preKeyId = map_option ot_keyId otp, pb_preKeyPublic = map_option (\<lambda>k. base64Encode (ot_publicKey k)) otp,
              pb_kyberPreKeyId = ky_keyId kpk, pb_kyberPreKeyPublic = base64Encode (ky_publicKey kpk),
              pb_kyberPreKeySignature = base64Encode (ky_signature kpk)\<rparr>, db1))
      | _ \<Rightarrow> (None, db))"

fun buildBundles :: "picker \<Rightarrow> Db \<Rightarrow> DeviceRow list \<Rightarrow> PreKeyBundlePublic list \<times> Db" where
  "buildBundles pick db [] = ([], db)"
| "buildBundles pick db (d # ds) =
     (let (b, db1) = buildBundleForDevice pick db d; (bs, db2) = buildBundles pick db1 ds
      in ((case b of None \<Rightarrow> bs | Some x \<Rightarrow> x # bs), db2))"

definition fetchPreKeyBundles :: "picker \<Rightarrow> Db \<Rightarrow> jsstring \<Rightarrow> int option \<Rightarrow> PreKeyBundlePublic list \<times> Db" where
  "fetchPreKeyBundles pick db userId deviceId =
     buildBundles pick db (filter (\<lambda>d. dv_userId d = userId \<and> dv_replacedAt d = None
       \<and> (case deviceId of None \<Rightarrow> True | Some i \<Rightarrow> dv_deviceId d = i)) (db_devices db))"

definition listActiveDeviceIds :: "Db \<Rightarrow> jsstring \<Rightarrow> int list" where
  "listActiveDeviceIds db userId =
     map dv_deviceId (filter (\<lambda>d. dv_userId d = userId \<and> dv_replacedAt d = None) (db_devices db))"

subsection \<open>Conversations and membership\<close>

definition createMembership :: "Db \<Rightarrow> jsstring \<Rightarrow> jsstring \<Rightarrow> bool \<Rightarrow> db_error + Db" where
  "createMembership db conv userId admin =
     (if conversation_exists db conv \<and> user_exists db userId then
        Inr (db\<lparr>db_memberships := db_memberships db @
          [\<lparr>mb_id = db_next db, mb_conversationId = conv, mb_userId = userId, mb_admin = admin, mb_removedAt = None\<rparr>],
          db_next := Suc (db_next db)\<rparr>)
      else Inl ForeignKey)"

fun createMemberships :: "Db \<Rightarrow> jsstring \<Rightarrow> jsstring list \<Rightarrow> db_error + Db" where
  "createMemberships db conv [] = Inr db"
| "createMemberships db conv (u # us) = rbind (createMembership db conv u False) (\<lambda>db1. createMemberships db1 conv us)"

definition dbCreateConversation ::
    "Db \<Rightarrow> jsstring \<Rightarrow> jsstring \<Rightarrow> jsstring list \<Rightarrow> bool \<Rightarrow> db_error + Db" where
  "dbCreateConversation db newId creatorUserId memberUserIds mode =
     (let memberIds = js_set_of (filter (\<lambda>i. i \<noteq> creatorUserId) memberUserIds) in
      if \<not> user_exists db creatorUserId then Inl ForeignKey
      else rbind (createMembership (db\<lparr>db_conversations := db_conversations db @
             [\<lparr>cv_id = newId, cv_active = mode, cv_createdBy = creatorUserId\<rparr>]\<rparr>) newId creatorUserId True)
        (\<lambda>db1. createMemberships db1 newId memberIds))"

definition isActiveMember :: "picker \<Rightarrow> Db \<Rightarrow> jsstring \<Rightarrow> jsstring \<Rightarrow> bool" where
  "isActiveMember pick db conv userId \<longleftrightarrow>
     findFirst pick (\<lambda>m. mb_conversationId m = conv \<and> mb_userId m = userId \<and> mb_removedAt m = None)
       (db_memberships db) \<noteq> None"

definition findConversation :: "Db \<Rightarrow> jsstring \<Rightarrow> ConversationRow option" where
  "findConversation db conv = List.find (\<lambda>c. cv_id c = conv) (db_conversations db)"

definition canManageMembership :: "picker \<Rightarrow> Db \<Rightarrow> jsstring \<Rightarrow> jsstring \<Rightarrow> bool" where
  "canManageMembership pick db conv userId =
     (case findConversation db conv of
        None \<Rightarrow> False
      | Some c \<Rightarrow>
          if cv_createdBy c = userId then True
          else findFirst pick (\<lambda>m. mb_conversationId m = conv \<and> mb_userId m = userId
              \<and> mb_removedAt m = None \<and> mb_admin m) (db_memberships db) \<noteq> None)"

definition inviteMember :: "picker \<Rightarrow> Db \<Rightarrow> jsstring \<Rightarrow> jsstring \<Rightarrow> db_error + Db" where
  "inviteMember pick db conv userId =
     (case findFirst pick (\<lambda>m. mb_conversationId m = conv \<and> mb_userId m = userId) (db_memberships db) of
        Some existing \<Rightarrow>
          Inr (db\<lparr>db_memberships := map (\<lambda>m. if mb_id m = mb_id existing
            then m\<lparr>mb_removedAt := None, mb_admin := mb_admin existing\<rparr> else m) (db_memberships db)\<rparr>)
      | None \<Rightarrow> createMembership db conv userId False)"

definition removeMember :: "int \<Rightarrow> Db \<Rightarrow> jsstring \<Rightarrow> jsstring \<Rightarrow> Db" where
  "removeMember now db conv userId =
     db\<lparr>db_memberships := map (\<lambda>m. if mb_conversationId m = conv \<and> mb_userId m = userId \<and> mb_removedAt m = None
       then m\<lparr>mb_removedAt := Some now\<rparr> else m) (db_memberships db)\<rparr>"

definition setAiMode :: "Db \<Rightarrow> jsstring \<Rightarrow> bool \<Rightarrow> db_error + Db" where
  "setAiMode db conv enabled =
     (if conversation_exists db conv then
        Inr (db\<lparr>db_conversations := map (\<lambda>c. if cv_id c = conv then c\<lparr>cv_active := enabled\<rparr> else c) (db_conversations db)\<rparr>)
      else Inl RecordNotFound)"

definition getAiMode :: "Db \<Rightarrow> jsstring \<Rightarrow> bool" where
  "getAiMode db conv = (case findConversation db conv of None \<Rightarrow> False | Some c \<Rightarrow> cv_active c)"

definition listMembers :: "Db \<Rightarrow> jsstring \<Rightarrow> ConversationMember list" where
  "listMembers db conv =
     map (\<lambda>m. \<lparr>cm_userId = mb_userId m, cm_deviceIds = listActiveDeviceIds db (mb_userId m)\<rparr>)
       (filter (\<lambda>m. mb_conversationId m = conv \<and> mb_removedAt m = None) (db_memberships db))"

definition listActiveConversationIds :: "Db \<Rightarrow> jsstring \<Rightarrow> jsstring list" where
  "listActiveConversationIds db userId =
     map mb_conversationId (filter (\<lambda>m. mb_userId m = userId \<and> mb_removedAt m = None) (db_memberships db))"

subsection \<open>Envelopes\<close>

definition enqueueEnvelope ::
    "Db \<Rightarrow> jsstring \<Rightarrow> jsstring \<Rightarrow> int \<Rightarrow> jsstring \<Rightarrow> int \<Rightarrow> int \<Rightarrow> jsstring \<Rightarrow> db_error + StoredEnvelope \<times> Db" where
  "enqueueEnvelope db conv rcptUser rcptDevice sndUser sndDevice ty ciphertext =
     (if conversation_exists db conv then
        (let row = \<lparr>se_conversationId = conv, se_recipientUserId = rcptUser, se_recipientDeviceId = rcptDevice,
               se_senderUserId = sndUser, se_senderDeviceId = sndDevice, se_seq = db_seq db, se_type = ty,
               se_ciphertext = base64Decode ciphertext\<rparr>
         in Inr (row, db\<lparr>db_envelopes := db_envelopes db @ [row], db_seq := db_seq db + 1\<rparr>))
      else Inl ForeignKey)"

definition drainPendingEnvelopes :: "Db \<Rightarrow> jsstring \<Rightarrow> int \<Rightarrow> jsstring list \<Rightarrow> int option \<Rightarrow> StoredEnvelope list" where
  "drainPendingEnvelopes db rcptUser rcptDevice convs sinceSeq =
     (if convs = [] then []
      else sort_key se_seq (filter (\<lambda>e. se_recipientUserId e = rcptUser \<and> se_recipientDeviceId e = rcptDevice
        \<and> se_conversationId e \<in> set convs
        \<and> (case sinceSeq of None \<Rightarrow> True | Some s \<Rightarrow> s < se_seq e)) (db_envelopes db)))"

definition ackEnvelopes :: "Db \<Rightarrow> jsstring \<Rightarrow> int \<Rightarrow> jsstring \<Rightarrow> int \<Rightarrow> nat \<times> Db" where
  "ackEnvelopes db rcptUser rcptDevice conv sq =
     (let hit = (\<lambda>e. se_recipientUserId e = rcptUser \<and> se_recipientDeviceId e = rcptDevice
            \<and> se_conversationId e = conv \<and> se_seq e = sq)
      in (length (filter hit (db_envelopes db)), db\<lparr>db_envelopes := filter (\<lambda>e. \<not> hit e) (db_envelopes db)\<rparr>))"

subsection \<open>Queries\<close>

lemma pick_of_Some: "pick_of pick xs = Some x \<Longrightarrow> x \<in> set xs"
  by (auto simp: pick_of_def split: if_splits)

lemma pick_of_None [simp]: "pick_of pick xs = None \<longleftrightarrow> xs = []"
  by (simp add: pick_of_def)

lemma findFirst_Some: "findFirst pick P rows = Some x \<Longrightarrow> x \<in> set rows \<and> P x"
  by (auto simp: findFirst_def dest: pick_of_Some)

lemma findFirst_None: "findFirst pick P rows = None \<longleftrightarrow> (\<forall>x \<in> set rows. \<not> P x)"
  by (simp add: findFirst_def filter_empty_conv)

lemma findFirst_ex: "findFirst pick P rows \<noteq> None \<longleftrightarrow> (\<exists>x \<in> set rows. P x)"
  by (auto simp: findFirst_None)

text \<open>A query that at most one row satisfies returns it, whatever the picker.\<close>

lemma findFirst_unique:
  assumes "x \<in> set rows" "P x" "\<And>y. y \<in> set rows \<Longrightarrow> P y \<Longrightarrow> y = x"
  shows "findFirst pick P rows = Some x"
proof -
  obtain y where "findFirst pick P rows = Some y"
    using assms(1,2) findFirst_None [of pick P rows] by (cases "findFirst pick P rows") auto
  then show ?thesis using assms(3) findFirst_Some by fastforce
qed

subsection \<open>Membership rows\<close>

definition memberships_inv :: "Db \<Rightarrow> bool" where
  "memberships_inv db \<longleftrightarrow> distinct (map mb_id (db_memberships db)) \<and> (\<forall>m \<in> set (db_memberships db). mb_id m < db_next db)
     \<and> distinct (map (\<lambda>m. (mb_conversationId m, mb_userId m)) (db_memberships db))
     \<and> distinct (map cv_id (db_conversations db))
     \<and> (\<forall>m \<in> set (db_memberships db). mb_conversationId m \<in> cv_id ` set (db_conversations db))"

definition active_members :: "Db \<Rightarrow> jsstring \<Rightarrow> jsstring set" where
  "active_members db conv = mb_userId ` {m \<in> set (db_memberships db). mb_conversationId m = conv \<and> mb_removedAt m = None}"

lemma active_members_iff:
  "u \<in> active_members db c \<longleftrightarrow>
     (\<exists>m \<in> set (db_memberships db). mb_userId m = u \<and> mb_conversationId m = c \<and> mb_removedAt m = None)"
  by (auto simp: active_members_def)

lemma active_conversation_exists: "memberships_inv db \<Longrightarrow> p \<in> active_members db conv \<Longrightarrow> conversation_exists db conv"
  by (auto simp: memberships_inv_def active_members_def conversation_exists_def)

lemma isActiveMember_iff: "isActiveMember pick db conv u \<longleftrightarrow> u \<in> active_members db conv"
  unfolding isActiveMember_def findFirst_ex active_members_def by auto

lemma listMembers_users: "cm_userId ` set (listMembers db conv) = active_members db conv"
  by (simp add: listMembers_def active_members_def image_image)

lemma listActiveConversationIds_iff:
  "conv \<in> set (listActiveConversationIds db u) \<longleftrightarrow> u \<in> active_members db conv"
  by (auto simp: listActiveConversationIds_def active_members_def)

lemma createMembership_inv:
  assumes "memberships_inv db" "createMembership db conv u a = Inr db'"
    and "(conv, u) \<notin> (\<lambda>m. (mb_conversationId m, mb_userId m)) ` set (db_memberships db)"
  shows "memberships_inv db'"
proof -
  have "db_next db \<notin> mb_id ` set (db_memberships db)" "\<forall>m \<in> set (db_memberships db). mb_id m < Suc (db_next db)"
    using assms(1) by (auto simp: memberships_inv_def less_Suc_eq)
  then show ?thesis
    using assms unfolding memberships_inv_def createMembership_def conversation_exists_def
    by (auto split: if_splits)
qed

lemma map_row_keys:
  assumes "\<And>x. f (g x) = f x"
  shows "map f (map (\<lambda>x. if P x then g x else x) xs) = map f xs"
  using assms by simp

lemma memberships_inv_map:
  assumes "memberships_inv db" "\<And>m. mb_id (g m) = mb_id m" "\<And>m. mb_conversationId (g m) = mb_conversationId m"
    "\<And>m. mb_userId (g m) = mb_userId m"
  shows "memberships_inv (db\<lparr>db_memberships := map (\<lambda>m. if P m then g m else m) (db_memberships db)\<rparr>)"
proof -
  let ?ms = "map (\<lambda>m. if P m then g m else m) (db_memberships db)"
  have "map mb_id ?ms = map mb_id (db_memberships db)"
    "map (\<lambda>m. (mb_conversationId m, mb_userId m)) ?ms = map (\<lambda>m. (mb_conversationId m, mb_userId m)) (db_memberships db)"
    using assms(2-4) by simp_all
  then show ?thesis using assms unfolding memberships_inv_def by (auto simp del: map_map)
qed

lemma inviteMember_inv [inv_intros]:
  assumes "memberships_inv db" "inviteMember pick db conv u = Inr db'"
  shows "memberships_inv db'"
proof (cases "findFirst pick (\<lambda>m. mb_conversationId m = conv \<and> mb_userId m = u) (db_memberships db)")
  case None
  then have "(conv, u) \<notin> (\<lambda>m. (mb_conversationId m, mb_userId m)) ` set (db_memberships db)"
    unfolding findFirst_None by auto
  then show ?thesis using None assms createMembership_inv [OF assms(1), of conv u False]
    by (simp add: inviteMember_def)
next
  case (Some m)
  then show ?thesis using assms by (auto simp: inviteMember_def intro!: memberships_inv_map)
qed

lemma removeMember_inv [inv_intros]: "memberships_inv db \<Longrightarrow> memberships_inv (removeMember now db conv u)"
  by (auto simp: removeMember_def intro!: memberships_inv_map)

lemma setAiMode_inv [inv_intros]:
  assumes "memberships_inv db" "setAiMode db conv b = Inr db'"
  shows "memberships_inv db'"
proof -
  have "map cv_id (map (\<lambda>c. if cv_id c = conv then c\<lparr>cv_active := b\<rparr> else c) (db_conversations db)) = map cv_id (db_conversations db)"
    by simp
  then show ?thesis
    using assms unfolding memberships_inv_def setAiMode_def
    by (auto simp del: map_map split: if_splits simp flip: set_map)
qed

text \<open>The effect of the commands on the active members.\<close>

lemma row_unique:
  "distinct (map f xs) \<Longrightarrow> x \<in> set xs \<Longrightarrow> y \<in> set xs \<Longrightarrow> f x = f y \<Longrightarrow> x = y"
  by (auto simp: distinct_map dest: inj_onD)

lemma inviteMember_members:
  assumes inv: "memberships_inv db" and r: "inviteMember pick db conv u = Inr db'"
  shows "active_members db' c = (if c = conv then insert u (active_members db c) else active_members db c)"
proof (cases "findFirst pick (\<lambda>m. mb_conversationId m = conv \<and> mb_userId m = u) (db_memberships db)")
  case None
  then have "db_memberships db' = db_memberships db @ [\<lparr>mb_id = db_next db, mb_conversationId = conv,
      mb_userId = u, mb_admin = False, mb_removedAt = None\<rparr>]"
    using r by (auto simp: inviteMember_def createMembership_def split: if_splits)
  then show ?thesis
    by (auto simp: set_eq_iff active_members_iff)
next
  case (Some x)
  then have x: "x \<in> set (db_memberships db)" "mb_conversationId x = conv" "mb_userId x = u"
    using findFirst_Some by fastforce+
  have same: "m = x" if "m \<in> set (db_memberships db)" "mb_id m = mb_id x" for m
    using inv that x(1) row_unique [of mb_id] by (auto simp: memberships_inv_def)
  define g :: "MembershipRow \<Rightarrow> MembershipRow" where "g m = (if mb_id m = mb_id x then m\<lparr>mb_removedAt := None, mb_admin := mb_admin x\<rparr> else m)" for m
  have ms: "db_memberships db' = map g (db_memberships db)"
    using r Some by (auto simp: inviteMember_def g_def)
  have gx: "mb_userId (g m) = mb_userId m" "mb_conversationId (g m) = mb_conversationId m"
    "mb_removedAt (g m) = (if mb_id m = mb_id x then None else mb_removedAt m)" for m
    by (simp_all add: g_def)
  have "v \<in> active_members db' c \<longleftrightarrow> v \<in> active_members db c \<or> (v = u \<and> c = conv)" for v
    unfolding active_members_iff ms using x same by (auto simp: gx split: if_splits)
  then show ?thesis by auto
qed

lemma removeMember_members:
  "active_members (removeMember now db conv u) c =
     (if c = conv then active_members db c - {u} else active_members db c)"
proof -
  have "v \<in> active_members (removeMember now db conv u) c \<longleftrightarrow> v \<in> active_members db c \<and> \<not> (v = u \<and> c = conv)" for v
    unfolding active_members_iff removeMember_def by auto
  then show ?thesis by auto
qed

lemma setAiMode_members: "setAiMode db conv b = Inr db' \<Longrightarrow> active_members db' c = active_members db c"
  by (auto simp: setAiMode_def active_members_def split: if_splits)

lemma find_map_row:
  "List.find (\<lambda>c. cv_id c = i) (map (\<lambda>c. if cv_id c = conv then c\<lparr>cv_active := b\<rparr> else c) cs) =
     map_option (\<lambda>c. if cv_id c = conv then c\<lparr>cv_active := b\<rparr> else c) (List.find (\<lambda>c. cv_id c = i) cs)"
  by (induction cs) auto

lemma find_conversation:
  assumes "conversation_exists db c"
  shows "\<exists>row. findConversation db c = Some row \<and> cv_id row = c"
proof (cases "findConversation db c")
  case None
  then show ?thesis
    using assms unfolding findConversation_def conversation_exists_def find_None_iff by auto
next
  case (Some row)
  then show ?thesis unfolding findConversation_def find_Some_iff by auto
qed

lemma setAiMode_mode:
  assumes "setAiMode db conv b = Inr db'"
  shows "getAiMode db' c = (if c = conv then b else getAiMode db c)"
proof -
  from assms obtain row where row: "findConversation db conv = Some row" "cv_id row = conv"
    using find_conversation [of db conv] by (auto simp: setAiMode_def split: if_splits)
  have "findConversation db' c = map_option (\<lambda>r. if cv_id r = conv then r\<lparr>cv_active := b\<rparr> else r) (findConversation db c)" for c
    using assms by (auto simp: setAiMode_def findConversation_def find_map_row split: if_splits)
  moreover have "cv_id r = c" if "findConversation db c = Some r" for r
    using that by (auto simp: findConversation_def find_Some_iff)
  ultimately show ?thesis
    using row by (auto simp: getAiMode_def split: option.splits)
qed

subsection \<open>The database is a membership authority\<close>

definition dbExec :: "picker \<Rightarrow> int \<Rightarrow> Db \<Rightarrow> jsstring \<Rightarrow> member_cmd \<Rightarrow> Db option" where
  "dbExec pick now db conv m =
     (case m of
        AddUser u \<Rightarrow> (case inviteMember pick db conv u of Inl _ \<Rightarrow> None | Inr db' \<Rightarrow> Some db')
      | DropUser u \<Rightarrow> Some (removeMember now db conv u)
      | SetMode b \<Rightarrow> (case setAiMode db conv b of Inl _ \<Rightarrow> None | Inr db' \<Rightarrow> Some db'))"

definition dbRoom :: "nat \<Rightarrow> Db \<Rightarrow> jsstring \<Rightarrow> bool" where
  "dbRoom n db conv \<longleftrightarrow> memberships_inv db \<and> conversation_exists db conv"

definition dbAdmits :: "Db \<Rightarrow> member_cmd \<Rightarrow> bool" where
  "dbAdmits db m \<longleftrightarrow> (case m of AddUser u \<Rightarrow> user_exists db u | _ \<Rightarrow> True)"

lemma command_fixed:
  "inviteMember pick db conv u = Inr db' \<Longrightarrow> db_users db' = db_users db \<and> db_conversations db' = db_conversations db"
  "db_users (removeMember now db conv u) = db_users db" "db_conversations (removeMember now db conv u) = db_conversations db"
  "setAiMode db conv b = Inr db' \<Longrightarrow> db_users db' = db_users db \<and> map cv_id (db_conversations db') = map cv_id (db_conversations db)"
  by (auto simp: inviteMember_def createMembership_def removeMember_def setAiMode_def split: option.splits if_splits)

lemma conversation_exists_cong:
  "map cv_id (db_conversations db') = map cv_id (db_conversations db) \<Longrightarrow> conversation_exists db' c = conversation_exists db c"
  unfolding conversation_exists_def by (metis set_map)

lemma inviteMember_ok:
  "user_exists db u \<Longrightarrow> conversation_exists db conv \<Longrightarrow> \<exists>db'. inviteMember pick db conv u = Inr db'"
  by (auto simp: inviteMember_def createMembership_def split: option.splits)

lemma getAiMode_cong: "db_conversations db' = db_conversations db \<Longrightarrow> getAiMode db' c = getAiMode db c"
  by (simp add: getAiMode_def findConversation_def)

text \<open>One command, seen on every conversation.\<close>

lemma dbExec_effect:
  assumes "memberships_inv db" "conversation_exists db conv" "dbExec pick now db conv m = Some db'"
  shows "memberships_inv db' \<and> conversation_exists db' conv \<and> db_users db' = db_users db
    \<and> active_members db' c = (if c = conv then cmd_members m (active_members db c) else active_members db c)
    \<and> getAiMode db' c = (if c = conv then cmd_mode m (getAiMode db c) else getAiMode db c)"
proof (cases m)
  case (AddUser u)
  then have r: "inviteMember pick db conv u = Inr db'"
    using assms(3) by (auto simp: dbExec_def split: sum.splits)
  show ?thesis
    using inviteMember_inv [OF assms(1) r] inviteMember_members [OF assms(1) r] command_fixed(1) [OF r] assms(2)
      conversation_exists_cong [of db' db conv] getAiMode_cong [of db' db]
    by (simp add: AddUser cmd_members_def cmd_mode_def)
next
  case (DropUser u)
  then have "db' = removeMember now db conv u"
    using assms(3) by (simp add: dbExec_def)
  then show ?thesis
    using removeMember_inv [OF assms(1), of now conv u] assms(2)
      conversation_exists_cong [of "removeMember now db conv u" db conv]
      getAiMode_cong [of "removeMember now db conv u" db]
    by (simp add: DropUser removeMember_members command_fixed(2,3) cmd_members_def cmd_mode_def)
next
  case (SetMode b)
  then have r: "setAiMode db conv b = Inr db'"
    using assms(3) by (auto simp: dbExec_def split: sum.splits)
  show ?thesis
    using setAiMode_inv [OF assms(1) r] command_fixed(4) [OF r] assms(2) conversation_exists_cong [of db' db conv]
    by (simp add: SetMode setAiMode_members [OF r] setAiMode_mode [OF r] cmd_members_def cmd_mode_def)
qed

interpretation rdb: membership_authority "dbExec pick now" dbRoom dbAdmits active_members getAiMode for pick now
proof
  fix n db conv m
  assume room: "dbRoom (Suc n) db conv" and adm: "dbAdmits db m"
  have "\<exists>db'. dbExec pick now db conv m = Some db'"
  proof (cases m)
    case (AddUser u)
    then show ?thesis
      using room adm inviteMember_ok [of db u conv pick] by (auto simp: dbExec_def dbAdmits_def dbRoom_def)
  qed (use room in \<open>simp_all add: dbExec_def dbRoom_def setAiMode_def\<close>)
  then obtain db' where db': "dbExec pick now db conv m = Some db'" ..
  show "\<exists>s'. dbExec pick now db conv m = Some s' \<and> dbRoom n s' conv
      \<and> active_members s' conv = cmd_members m (active_members db conv)
      \<and> getAiMode s' conv = cmd_mode m (getAiMode db conv)"
    using room dbExec_effect [of db conv pick now m db' conv] db' by (simp add: dbRoom_def)
next
  fix n db conv m db' m'
  assume "dbRoom (Suc n) db conv" "dbExec pick now db conv m = Some db'" "dbAdmits db m'"
  then show "dbAdmits db' m'"
    using dbExec_effect [of db conv pick now m db'] by (auto simp: dbRoom_def dbAdmits_def user_exists_def split: member_cmd.splits)
next
  fix n db conv m db' c'
  assume "dbRoom (Suc n) db conv" "dbExec pick now db conv m = Some db'" "c' \<noteq> conv"
  then show "active_members db' c' = active_members db c' \<and> getAiMode db' c' = getAiMode db c'"
    using dbExec_effect [of db conv pick now m db' c'] by (auto simp: dbRoom_def)
qed

end
