(* ===== verification/Mailbox.thy ===== *)
theory Mailbox
  imports RelayDb
begin

section \<open>The mailbox (\<^verbatim>\<open>apps/node/src/mailbox.ts\<close>)\<close>

text \<open>
  \<^verbatim>\<open>MailboxService\<close> passes through to the envelope queries. The interface \<open>device_mailbox\<close> is what
  the WebSocket handler relies on: storing appends to the pending list of the boxes the
  envelope is for, an ack removes exactly the envelopes it names, and nothing else changes
  a pending list. From it follow, for any interleaving of stores and acks of any devices,
  at-least-once delivery in order (\<open>unacked_stays\<close>, \<open>pending_order\<close>).
\<close>

record StoreParams =
  sp_conversationId :: jsstring
  sp_recipientUserId :: jsstring
  sp_recipientDeviceId :: int
  sp_senderUserId :: jsstring
  sp_senderDeviceId :: int
  sp_type :: int
  sp_ciphertext :: jsstring

record AckParams =
  ak_recipientUserId :: jsstring
  ak_recipientDeviceId :: int
  ak_conversationId :: jsstring
  ak_seq :: int

record DrainParams =
  dr_recipientUserId :: jsstring
  dr_recipientDeviceId :: int
  dr_conversationIds :: "jsstring list"

definition mbStore :: "Db \<Rightarrow> StoreParams \<Rightarrow> db_error + StoredEnvelope \<times> Db" where
  "mbStore db p = enqueueEnvelope db (sp_conversationId p) (sp_recipientUserId p) (sp_recipientDeviceId p)
     (sp_senderUserId p) (sp_senderDeviceId p) (sp_type p) (sp_ciphertext p)"

definition mbDrain :: "Db \<Rightarrow> DrainParams \<Rightarrow> StoredEnvelope list" where
  "mbDrain db p = drainPendingEnvelopes db (dr_recipientUserId p) (dr_recipientDeviceId p) (dr_conversationIds p) None"

definition mbAck :: "Db \<Rightarrow> AckParams \<Rightarrow> nat \<times> Db" where
  "mbAck db p = ackEnvelopes db (ak_recipientUserId p) (ak_recipientDeviceId p) (ak_conversationId p) (ak_seq p)"

subsection \<open>The interface\<close>

datatype ('m, 'a) mail_event = Stored 'm | Acked 'a

fun run_mail :: "('s \<Rightarrow> 'm \<Rightarrow> ('e \<times> 's) option) \<Rightarrow> ('s \<Rightarrow> 'a \<Rightarrow> 's) \<Rightarrow> 's \<Rightarrow> ('m, 'a) mail_event list \<Rightarrow> 's" where
  "run_mail store ack s [] = s"
| "run_mail store ack s (Stored m # evs) =
     run_mail store ack (case store s m of None \<Rightarrow> s | Some (_, s') \<Rightarrow> s') evs"
| "run_mail store ack s (Acked a # evs) = run_mail store ack (ack s a) evs"

locale device_mailbox =
  fixes inv :: "'s \<Rightarrow> bool"
    and store :: "'s \<Rightarrow> 'm \<Rightarrow> ('e \<times> 's) option"
    and ack :: "'s \<Rightarrow> 'a \<Rightarrow> 's"
    and pending :: "'s \<Rightarrow> 'b \<Rightarrow> 'e list"
    and addressed :: "'b \<Rightarrow> 'e \<Rightarrow> bool"
    and hits :: "'a \<Rightarrow> 'e \<Rightarrow> bool"
  assumes store_inv: "inv s \<Longrightarrow> store s m = Some (e, s') \<Longrightarrow> inv s'"
    and store_pending: "inv s \<Longrightarrow> store s m = Some (e, s') \<Longrightarrow>
      pending s' b = pending s b @ (if addressed b e then [e] else [])"
    and ack_inv: "inv s \<Longrightarrow> inv (ack s a)"
    and ack_pending: "inv s \<Longrightarrow> pending (ack s a) b = filter (\<lambda>e. \<not> hits a e) (pending s b)"
begin

lemma run_inv: "inv s \<Longrightarrow> inv (run_mail store ack s evs)"
proof (induction evs arbitrary: s)
  case (Cons ev evs)
  then show ?case by (cases ev) (auto simp: store_inv ack_inv split: option.splits)
qed simp

text \<open>What was pending and is hit by no ack stays, in its order, before everything newer.\<close>

lemma pending_run:
  assumes "inv s"
  shows "\<exists>newer. pending (run_mail store ack s evs) b =
    filter (\<lambda>e. \<forall>a. Acked a \<in> set evs \<longrightarrow> \<not> hits a e) (pending s b) @ newer"
  using assms
proof (induction evs arbitrary: s)
  case (Cons ev evs)
  show ?case
  proof (cases ev)
    case (Acked a)
    obtain newer where "pending (run_mail store ack (ack s a) evs) b =
        filter (\<lambda>e. \<forall>a. Acked a \<in> set evs \<longrightarrow> \<not> hits a e) (pending (ack s a) b) @ newer"
      using Cons.IH [OF ack_inv [OF Cons.prems]] by blast
    moreover have "filter (\<lambda>e. \<forall>a. Acked a \<in> set evs \<longrightarrow> \<not> hits a e) (pending (ack s a) b) =
        filter (\<lambda>e. \<forall>a. Acked a \<in> set (ev # evs) \<longrightarrow> \<not> hits a e) (pending s b)"
      unfolding ack_pending [OF Cons.prems] Acked filter_filter by (rule filter_cong) auto
    ultimately show ?thesis by (auto simp: Acked)
  next
    case (Stored m)
    show ?thesis
    proof (cases "store s m")
      case None
      then show ?thesis using Cons Stored by simp
    next
      case (Some es)
      then obtain e s' where es: "store s m = Some (e, s')" by (cases es) auto
      obtain newer where "pending (run_mail store ack s' evs) b =
          filter (\<lambda>e. \<forall>a. Acked a \<in> set evs \<longrightarrow> \<not> hits a e) (pending s' b) @ newer"
        using Cons.IH [OF store_inv [OF Cons.prems es]] by blast
      then show ?thesis by (simp add: Stored es store_pending [OF Cons.prems es])
    qed
  qed
qed simp

lemma unacked_stays:
  assumes "inv s" "store s m = Some (e, s')" "addressed b e" "\<forall>a. Acked a \<in> set evs \<longrightarrow> \<not> hits a e"
  shows "e \<in> set (pending (run_mail store ack s' evs) b)"
proof -
  have "e \<in> set (pending s' b)"
    using store_pending [OF assms(1,2)] assms(3) by simp
  then show ?thesis
    using pending_run [OF store_inv [OF assms(1,2)], of evs b] assms(4) by auto
qed

lemma acked_gone: "inv s \<Longrightarrow> hits a e \<Longrightarrow> e \<notin> set (pending (ack s a) b)"
  by (simp add: ack_pending)

end

subsection \<open>The envelope table is a mailbox\<close>

definition mail_inv :: "Db \<Rightarrow> bool" where
  "mail_inv db \<longleftrightarrow> sorted_wrt (\<lambda>e f. se_seq e < se_seq f) (db_envelopes db)
     \<and> (\<forall>e \<in> set (db_envelopes db). se_seq e < db_seq db)"

definition mbAddressed :: "DrainParams \<Rightarrow> StoredEnvelope \<Rightarrow> bool" where
  "mbAddressed b e \<longleftrightarrow> se_recipientUserId e = dr_recipientUserId b \<and> se_recipientDeviceId e = dr_recipientDeviceId b
     \<and> se_conversationId e \<in> set (dr_conversationIds b)"

definition mbHits :: "AckParams \<Rightarrow> StoredEnvelope \<Rightarrow> bool" where
  "mbHits a e \<longleftrightarrow> se_recipientUserId e = ak_recipientUserId a \<and> se_recipientDeviceId e = ak_recipientDeviceId a
     \<and> se_conversationId e = ak_conversationId a \<and> se_seq e = ak_seq a"

definition mbStoreOpt :: "Db \<Rightarrow> StoreParams \<Rightarrow> (StoredEnvelope \<times> Db) option" where
  "mbStoreOpt db p = (case mbStore db p of Inl _ \<Rightarrow> None | Inr r \<Rightarrow> Some r)"

definition mbAckDb :: "Db \<Rightarrow> AckParams \<Rightarrow> Db" where
  "mbAckDb db p = snd (mbAck db p)"

lemma mbDrain_filter:
  assumes "mail_inv db"
  shows "mbDrain db b = filter (mbAddressed b) (db_envelopes db)"
proof (cases "dr_conversationIds b = []")
  case True
  then have "\<not> mbAddressed b e" for e by (simp add: mbAddressed_def)
  then show ?thesis using True by (simp add: mbDrain_def drainPendingEnvelopes_def filter_empty_conv)
next
  case False
  have "sorted_wrt (\<lambda>e f. se_seq e < se_seq f) (filter (mbAddressed b) (db_envelopes db))"
    using assms by (simp add: mail_inv_def sorted_wrt_filter)
  then have "sorted (map se_seq (filter (mbAddressed b) (db_envelopes db)))"
    by (auto simp: sorted_map elim: sorted_wrt_mono_rel [rotated])
  moreover have "filter (mbAddressed b) (db_envelopes db) = filter (\<lambda>e. se_recipientUserId e = dr_recipientUserId b
      \<and> se_recipientDeviceId e = dr_recipientDeviceId b \<and> se_conversationId e \<in> set (dr_conversationIds b)) (db_envelopes db)"
    by (rule filter_cong) (auto simp: mbAddressed_def)
  ultimately show ?thesis
    using False by (simp add: mbDrain_def drainPendingEnvelopes_def sort_key_id_if_sorted)
qed

lemma mbStore_Some:
  assumes "mbStoreOpt db p = Some (e, db')"
  shows "db' = db\<lparr>db_envelopes := db_envelopes db @ [e], db_seq := db_seq db + 1\<rparr> \<and> se_seq e = db_seq db"
  using assms by (auto simp: mbStoreOpt_def mbStore_def enqueueEnvelope_def Let_def split: if_splits)

interpretation box: device_mailbox mail_inv mbStoreOpt mbAckDb mbDrain mbAddressed mbHits
proof
  fix db p e db'
  assume inv: "mail_inv db" and st: "mbStoreOpt db p = Some (e, db')"
  show inv': "mail_inv db'"
    using inv mbStore_Some [OF st] by (auto simp: mail_inv_def sorted_wrt_append)
  fix b show "mbDrain db' b = mbDrain db b @ (if mbAddressed b e then [e] else [])"
    unfolding mbDrain_filter [OF inv] mbDrain_filter [OF inv'] using mbStore_Some [OF st] by simp
next
  fix db a
  assume inv: "mail_inv db"
  have env: "db_envelopes (mbAckDb db a) = filter (\<lambda>e. \<not> mbHits a e) (db_envelopes db)" "db_seq (mbAckDb db a) = db_seq db"
    by (simp_all add: mbAckDb_def mbAck_def ackEnvelopes_def mbHits_def Let_def)
  show inv': "mail_inv (mbAckDb db a)"
    using inv by (auto simp: mail_inv_def env sorted_wrt_filter)
  fix b show "mbDrain (mbAckDb db a) b = filter (\<lambda>e. \<not> mbHits a e) (mbDrain db b)"
    unfolding mbDrain_filter [OF inv] mbDrain_filter [OF inv'] env filter_filter by (rule filter_cong) auto
qed

subsection \<open>Properties\<close>

definition demoUser :: "jsstring \<Rightarrow> UserRow" where
  "demoUser u = \<lparr>us_id = u, us_username = u, us_tokenHash = u\<rparr>"

definition demoDb :: Db where
  "demoDb = \<lparr>db_users = [demoUser (js ''alice''), demoUser (js ''bob''), demoUser (js ''carol'')], db_devices = [],
     db_signed = [], db_kyber = [], db_otps = [],
     db_conversations = [\<lparr>cv_id = js ''c1'', cv_active = False, cv_createdBy = js ''alice''\<rparr>],
     db_memberships = [\<lparr>mb_id = 0, mb_conversationId = js ''c1'', mb_userId = js ''alice'', mb_admin = True, mb_removedAt = None\<rparr>,
       \<lparr>mb_id = 1, mb_conversationId = js ''c1'', mb_userId = js ''bob'', mb_admin = False, mb_removedAt = None\<rparr>],
     db_envelopes = [], db_next = 2, db_seq = 1\<rparr>"

definition demoSend :: "jsstring \<Rightarrow> StoreParams" where
  "demoSend u = \<lparr>sp_conversationId = js ''c1'', sp_recipientUserId = u, sp_recipientDeviceId = 1,
     sp_senderUserId = js ''alice'', sp_senderDeviceId = 1, sp_type = 2, sp_ciphertext = base64Encode [7, 8, 9]\<rparr>"

lemma demo_mail_inv: "mail_inv demoDb"
  by (simp add: mail_inv_def demoDb_def)

text \<open>C20: at-least-once delivery, per envelope: an envelope stored for a device is in every later
  drain of that device that covers its conversation, whatever other envelopes are stored and
  acked in between by anyone, as long as no ack names its own device, conversation and
  sequence number; acks of neighbouring sequence numbers do not touch it.\<close>

theorem unacked_envelope_redelivered:
  assumes "mail_inv db" "mbStore db p = Inr (e, db')"
    and "dr_recipientUserId b = sp_recipientUserId p" "dr_recipientDeviceId b = sp_recipientDeviceId p"
    and "sp_conversationId p \<in> set (dr_conversationIds b)"
    and "\<forall>a. Acked a \<in> set evs \<longrightarrow> \<not> (ak_recipientUserId a = sp_recipientUserId p
      \<and> ak_recipientDeviceId a = sp_recipientDeviceId p \<and> ak_conversationId a = sp_conversationId p \<and> ak_seq a = se_seq e)"
  shows "e \<in> set (mbDrain (run_mail mbStoreOpt mbAckDb db' evs) b) \<and> se_ciphertext e = base64Decode (sp_ciphertext p)"
proof -
  have e: "se_conversationId e = sp_conversationId p" "se_recipientUserId e = sp_recipientUserId p"
    "se_recipientDeviceId e = sp_recipientDeviceId p" "se_ciphertext e = base64Decode (sp_ciphertext p)"
    using assms(2) by (auto simp: mbStore_def enqueueEnvelope_def Let_def split: if_splits)
  have "\<forall>a. Acked a \<in> set evs \<longrightarrow> \<not> mbHits a e"
    using assms(6) by (auto simp: mbHits_def e)
  moreover have "mbStoreOpt db p = Some (e, db')" "mbAddressed b e"
    using assms(2-5) by (simp_all add: mbStoreOpt_def mbAddressed_def e)
  ultimately show ?thesis
    using box.unacked_stays [OF assms(1)] e(4) by blast
qed

theorem unacked_envelope_redelivered_witness:
  "\<exists>e db'. mbStore demoDb (demoSend (js ''bob'')) = Inr (e, db')
     \<and> e \<in> set (mbDrain (run_mail mbStoreOpt mbAckDb db'
          [Stored (demoSend (js ''bob'')), Acked \<lparr>ak_recipientUserId = js ''bob'', ak_recipientDeviceId = 1,
             ak_conversationId = js ''c1'', ak_seq = 2\<rparr>])
          \<lparr>dr_recipientUserId = js ''bob'', dr_recipientDeviceId = 1, dr_conversationIds = [js ''c1'']\<rparr>)"
proof -
  obtain e db' where e: "mbStore demoDb (demoSend (js ''bob'')) = Inr (e, db')" "se_seq e = 1"
    by (simp add: mbStore_def enqueueEnvelope_def conversation_exists_def demoDb_def demoSend_def Let_def)
  let ?evs = "[Stored (demoSend (js ''bob'')), Acked \<lparr>ak_recipientUserId = js ''bob'', ak_recipientDeviceId = 1,
             ak_conversationId = js ''c1'', ak_seq = 2\<rparr>]"
  let ?b = "\<lparr>dr_recipientUserId = js ''bob'', dr_recipientDeviceId = 1, dr_conversationIds = [js ''c1'']\<rparr>"
  have "e \<in> set (mbDrain (run_mail mbStoreOpt mbAckDb db' ?evs) ?b)
      \<and> se_ciphertext e = base64Decode (sp_ciphertext (demoSend (js ''bob'')))"
    by (rule unacked_envelope_redelivered [OF demo_mail_inv e(1)]) (simp_all add: demoSend_def e(2))
  then show ?thesis using e(1) by blast
qed

text \<open>A drain returns a device's pending envelopes in strictly increasing sequence
  order, and only envelopes for that device and of the conversations the caller names.\<close>

theorem drain_in_order:
  assumes "mail_inv db"
  shows "sorted_wrt (\<lambda>e f. se_seq e < se_seq f) (mbDrain db b)
    \<and> (\<forall>e \<in> set (mbDrain db b). se_recipientUserId e = dr_recipientUserId b
        \<and> se_recipientDeviceId e = dr_recipientDeviceId b \<and> se_conversationId e \<in> set (dr_conversationIds b))"
  using assms by (auto simp: mbDrain_filter [OF assms] mail_inv_def mbAddressed_def sorted_wrt_filter)

theorem drain_in_order_witness:
  "sorted_wrt (\<lambda>e f. se_seq e < se_seq f) (mbDrain (run_mail mbStoreOpt mbAckDb demoDb
     [Stored (demoSend (js ''bob'')), Stored (demoSend (js ''alice'')), Stored (demoSend (js ''bob''))])
     \<lparr>dr_recipientUserId = js ''bob'', dr_recipientDeviceId = 1, dr_conversationIds = [js ''c1'']\<rparr>)"
  using drain_in_order [OF box.run_inv [OF demo_mail_inv]] by blast

end
