(* ===== verification/Devices.thy ===== *)
theory Devices
  imports Mailbox
begin

section \<open>Device registration and prekey bundles\<close>

text \<open>
  What \<^verbatim>\<open>registerDevice\<close> and the bundle queries of \<open>RelayDb\<close> guarantee: at most one
  active row per user and device, no identity key ever overwritten in the history, a
  one-time prekey handed out once, and a published bundle fetched back as published.
\<close>

definition devices_inv :: "Db \<Rightarrow> bool" where
  "devices_inv db \<longleftrightarrow> distinct (map dv_id (db_devices db)) \<and> (\<forall>d \<in> set (db_devices db). dv_id d < db_next db)
     \<and> distinct (map ot_id (db_otps db)) \<and> (\<forall>k \<in> set (db_otps db). ot_id k < db_next db)
     \<and> (\<forall>k \<in> set (db_signed db) \<union> set (db_kyber db). ky_deviceId k < db_next db)
     \<and> (\<forall>d \<in> set (db_devices db). \<forall>d' \<in> set (db_devices db). dv_replacedAt d = None \<and> dv_replacedAt d' = None
          \<and> dv_userId d = dv_userId d' \<and> dv_deviceId d = dv_deviceId d' \<longrightarrow> d = d')"

text \<open>\<open>history db db'\<close>: every device row of \<open>db\<close> is in \<open>db'\<close> with its owner and identity key.\<close>

definition history :: "Db \<Rightarrow> Db \<Rightarrow> bool" where
  "history db db' \<longleftrightarrow> (\<forall>d \<in> set (db_devices db). \<exists>d' \<in> set (db_devices db').
     dv_id d' = dv_id d \<and> dv_userId d' = dv_userId d \<and> dv_deviceId d' = dv_deviceId d \<and> dv_identityKey d' = dv_identityKey d)"

text \<open>\<open>current db u i d\<close>: \<open>d\<close> is the active row of device \<open>i\<close> of user \<open>u\<close>.\<close>

definition current :: "Db \<Rightarrow> jsstring \<Rightarrow> int \<Rightarrow> DeviceRow \<Rightarrow> bool" where
  "current db u i d \<longleftrightarrow> d \<in> set (db_devices db) \<and> dv_userId d = u \<and> dv_deviceId d = i \<and> dv_replacedAt d = None"

lemma current_unique: "devices_inv db \<Longrightarrow> current db u i d \<Longrightarrow> current db u i d' \<Longrightarrow> d = d'"
  by (auto simp: devices_inv_def current_def)

lemma findFirst_current:
  assumes "devices_inv db"
  shows "findFirst pick (\<lambda>d. dv_userId d = u \<and> dv_deviceId d = i \<and> dv_replacedAt d = None) (db_devices db) = Some d
    \<longleftrightarrow> current db u i d"
proof
  assume "current db u i d"
  then show "findFirst pick (\<lambda>d. dv_userId d = u \<and> dv_deviceId d = i \<and> dv_replacedAt d = None) (db_devices db) = Some d"
    by (intro findFirst_unique) (auto simp: current_def intro: current_unique [OF assms, unfolded current_def])
qed (auto simp: current_def dest: findFirst_Some)

lemma dv_row:
  "devices_inv db \<Longrightarrow> d \<in> set (db_devices db) \<Longrightarrow> d' \<in> set (db_devices db) \<Longrightarrow> dv_id d = dv_id d' \<Longrightarrow> d = d'"
  using row_unique [of dv_id "db_devices db"] by (auto simp: devices_inv_def)

text \<open>A new row for a device that has no active one.\<close>

lemma createDevice_spec:
  assumes inv: "devices_inv db" and none: "\<nexists>d. current db u (pb_deviceId b) d" and r: "createDevice db u b = Inr (i, db')"
  shows "devices_inv db' \<and> history db db' \<and> i < db_next db' \<and> db_next db \<le> i
    \<and> db_signed db' = db_signed db \<and> db_kyber db' = db_kyber db \<and> db_otps db' = db_otps db
    \<and> (\<exists>d. current db' u (pb_deviceId b) d \<and> dv_id d = i \<and> dv_identityKey d = base64Decode (pb_identityKey b)
        \<and> dv_registrationId d = pb_registrationId b)"
proof -
  define d where "d = \<lparr>dv_id = db_next db, dv_userId = u, dv_deviceId = pb_deviceId b,
    dv_identityKey = base64Decode (pb_identityKey b), dv_registrationId = pb_registrationId b, dv_replacedAt = None\<rparr>"
  have db': "db' = db\<lparr>db_devices := db_devices db @ [d], db_next := Suc (db_next db)\<rparr>" "i = db_next db"
    using r by (auto simp: createDevice_def d_def split: if_splits)
  have "devices_inv db'"
    using inv none unfolding devices_inv_def db' current_def
    by (auto simp: d_def less_Suc_eq)
  moreover have "current db' u (pb_deviceId b) d" by (simp add: current_def db' d_def)
  ultimately show ?thesis by (auto simp: history_def db' d_def)
qed

text \<open>Updating one row in place, neither its owner nor its key.\<close>

lemma update_row:
  assumes inv: "devices_inv db"
    and g: "\<And>d. dv_id (g d) = dv_id d \<and> dv_userId (g d) = dv_userId d \<and> dv_deviceId (g d) = dv_deviceId d
      \<and> dv_identityKey (g d) = dv_identityKey d \<and> (dv_replacedAt (g d) = None \<longrightarrow> dv_replacedAt d = None)"
  shows "devices_inv (db\<lparr>db_devices := map (\<lambda>d. if dv_id d = i then g d else d) (db_devices db)\<rparr>)"
    "history db (db\<lparr>db_devices := map (\<lambda>d. if dv_id d = i then g d else d) (db_devices db)\<rparr>)"
proof -
  define h where "h d = (if dv_id d = i then g d else d)" for d
  have h: "dv_id (h d) = dv_id d" "dv_userId (h d) = dv_userId d" "dv_deviceId (h d) = dv_deviceId d"
    "dv_identityKey (h d) = dv_identityKey d" "dv_replacedAt (h d) = None \<Longrightarrow> dv_replacedAt d = None" for d
    using g by (auto simp: h_def split: if_splits)
  have ids: "map dv_id (map h (db_devices db)) = map dv_id (db_devices db)"
    by (simp add: h)
  have uniq: "d = d'" if "d \<in> set (db_devices db)" "d' \<in> set (db_devices db)" "dv_replacedAt (h d) = None"
      "dv_replacedAt (h d') = None" "dv_userId d = dv_userId d'" "dv_deviceId d = dv_deviceId d'" for d d'
    using inv that h(5) unfolding devices_inv_def by blast
  show "devices_inv (db\<lparr>db_devices := map (\<lambda>d. if dv_id d = i then g d else d) (db_devices db)\<rparr>)"
    using inv uniq ids unfolding devices_inv_def h_def [symmetric] by (auto simp: h simp del: map_map)
  show "history db (db\<lparr>db_devices := map (\<lambda>d. if dv_id d = i then g d else d) (db_devices db)\<rparr>)"
    unfolding history_def h_def [symmetric] by (auto simp: h)
qed

lemma history_trans: "history a b \<Longrightarrow> history b c \<Longrightarrow> history a c"
  unfolding history_def by metis

definition registered :: "Db \<Rightarrow> nat \<Rightarrow> jsstring \<Rightarrow> PreKeyBundlePublic \<Rightarrow> bool" where
  "registered db i u b \<longleftrightarrow> (\<exists>d. current db u (pb_deviceId b) d \<and> dv_id d = i
     \<and> dv_identityKey d = base64Decode (pb_identityKey b) \<and> dv_registrationId d = pb_registrationId b)"

lemma upsertDevice_same_identity:
  assumes inv: "devices_inv db" and cur: "current db u (pb_deviceId b) cur" "dv_identityKey cur = base64Decode (pb_identityKey b)"
    and db': "db' = db\<lparr>db_devices := map (\<lambda>d. if dv_id d = dv_id cur then d\<lparr>dv_registrationId := pb_registrationId b\<rparr> else d) (db_devices db)\<rparr>"
  shows "devices_inv db' \<and> history db db' \<and> dv_id cur < db_next db' \<and> registered db' (dv_id cur) u b"
proof -
  let ?g = "\<lambda>d :: DeviceRow. d\<lparr>dv_registrationId := pb_registrationId b\<rparr>"
  have "current db' u (pb_deviceId b) (?g cur)"
    using cur by (auto simp: db' current_def image_iff intro!: bexI [of _ cur])
  then have "registered db' (dv_id cur) u b" using cur(2) by (auto simp: registered_def)
  moreover have "dv_id cur < db_next db" using inv cur by (auto simp: devices_inv_def current_def)
  ultimately show ?thesis using update_row [OF inv, of ?g "dv_id cur"] by (simp add: db')
qed

lemma upsertDevice_spec:
  assumes inv: "devices_inv db" and r: "upsertDevice pick now db u b = Inr (i, db')"
  shows "devices_inv db' \<and> history db db' \<and> i < db_next db' \<and> registered db' i u b
    \<and> db_signed db' = db_signed db \<and> db_kyber db' = db_kyber db \<and> db_otps db' = db_otps db"
proof (cases "findFirst pick (\<lambda>d. dv_userId d = u \<and> dv_deviceId d = pb_deviceId b \<and> dv_replacedAt d = None) (db_devices db)")
  case None
  then have "\<not> current db u (pb_deviceId b) d" for d
    using findFirst_current [OF inv, of pick u "pb_deviceId b" d] by simp
  moreover have "createDevice db u b = Inr (i, db')"
    using r None by (simp add: upsertDevice_def)
  ultimately have "\<nexists>d. current db u (pb_deviceId b) d" "createDevice db u b = Inr (i, db')"
    by blast+
  then show ?thesis using createDevice_spec [OF inv] by (auto simp: registered_def)
next
  case (Some cur)
  then have cur: "current db u (pb_deviceId b) cur"
    by (simp add: findFirst_current [OF inv])
  show ?thesis
  proof (cases "dv_identityKey cur = base64Decode (pb_identityKey b)")
    case True
    then show ?thesis
      using upsertDevice_same_identity [OF inv cur True, of db'] r Some by (auto simp: upsertDevice_def)
  next
    case False
    let ?g = "\<lambda>d :: DeviceRow. d\<lparr>dv_replacedAt := Some now\<rparr>"
    let ?db = "db\<lparr>db_devices := map (\<lambda>d. if dv_id d = dv_id cur then ?g d else d) (db_devices db)\<rparr>"
    have r': "createDevice ?db u b = Inr (i, db')"
      using r Some False by (auto simp: upsertDevice_def)
    have upd: "devices_inv ?db" "history db ?db"
      using update_row [OF inv, of ?g "dv_id cur"] by simp_all
    have "\<not> current ?db u (pb_deviceId b) d" for d
      using current_unique [OF inv cur] by (auto simp: current_def split: if_splits)
    then show ?thesis
      using createDevice_spec [OF upd(1) _ r'] history_trans [OF upd(2)] by (auto simp: registered_def)
  qed
qed

lemma registerDevice_cases:
  assumes "registerDevice pick now db u b = Inr db'"
  obtains i db1 where "upsertDevice pick now db u b = Inr (i, db1)"
    "db_devices db' = db_devices db1" "db_next db1 \<le> db_next db'"
    "db_signed db' = db_signed db1 @ [\<lparr>ky_deviceId = i, ky_keyId = pb_signedPreKeyId b,
       ky_publicKey = base64Decode (pb_signedPreKeyPublic b), ky_signature = base64Decode (pb_signedPreKeySignature b), ky_createdAt = now\<rparr>]"
    "db_kyber db' = db_kyber db1 @ [\<lparr>ky_deviceId = i, ky_keyId = pb_kyberPreKeyId b,
       ky_publicKey = base64Decode (pb_kyberPreKeyPublic b), ky_signature = base64Decode (pb_kyberPreKeySignature b), ky_createdAt = now\<rparr>]"
    "db_otps db' = db_otps db1 \<and> db_next db' = db_next db1
     \<or> (\<exists>k. db_otps db' = db_otps db1 @ [k] \<and> ot_id k = db_next db1 \<and> ot_deviceId k = i \<and> db_next db' = Suc (db_next db1))"
proof -
  obtain i db1 where up: "upsertDevice pick now db u b = Inr (i, db1)"
    using assms by (auto simp: registerDevice_def rbind_Inr_iff)
  show thesis
    using assms that [OF up] up
    by (cases "pb_preKeyId b"; cases "pb_preKeyPublic b") (auto simp: registerDevice_def Let_def)
qed

lemma registerDevice_inv [inv_intros]:
  assumes inv: "devices_inv db" and r: "registerDevice pick now db u b = Inr db'"
  shows "devices_inv db' \<and> history db db' \<and> (\<exists>i. registered db' i u b)"
proof -
  obtain i db1 where 1: "upsertDevice pick now db u b = Inr (i, db1)"
    "db_devices db' = db_devices db1" "db_next db1 \<le> db_next db'"
    "db_signed db' = db_signed db1 @ [\<lparr>ky_deviceId = i, ky_keyId = pb_signedPreKeyId b,
       ky_publicKey = base64Decode (pb_signedPreKeyPublic b), ky_signature = base64Decode (pb_signedPreKeySignature b), ky_createdAt = now\<rparr>]"
    "db_kyber db' = db_kyber db1 @ [\<lparr>ky_deviceId = i, ky_keyId = pb_kyberPreKeyId b,
       ky_publicKey = base64Decode (pb_kyberPreKeyPublic b), ky_signature = base64Decode (pb_kyberPreKeySignature b), ky_createdAt = now\<rparr>]"
    "db_otps db' = db_otps db1 \<and> db_next db' = db_next db1
     \<or> (\<exists>k. db_otps db' = db_otps db1 @ [k] \<and> ot_id k = db_next db1 \<and> ot_deviceId k = i \<and> db_next db' = Suc (db_next db1))"
    using registerDevice_cases [OF r] by metis
  note up = upsertDevice_spec [OF inv 1(1)]
  have "db_next db1 \<notin> ot_id ` set (db_otps db1)"
    using up unfolding devices_inv_def by auto
  then have "devices_inv db'"
    using up 1(2-6) unfolding devices_inv_def by (auto simp: less_Suc_eq)
  moreover have "history db db'" "registered db' i u b"
    using up 1(2) by (auto simp: history_def registered_def current_def)
  ultimately show ?thesis by blast
qed

subsection \<open>One-time prekeys\<close>

text \<open>A sequence of bundle builds, each with the device and the choice it makes.\<close>

fun consumeAll :: "Db \<Rightarrow> (picker \<times> nat) list \<Rightarrow> OneTimePreKeyRow list \<times> Db" where
  "consumeAll db [] = ([], db)"
| "consumeAll db ((pick, d) # rs) =
     (let (k, db1) = consumeOneTimePreKey pick db d; (ks, db2) = consumeAll db1 rs
      in (case k of None \<Rightarrow> ks | Some x \<Rightarrow> x # ks, db2))"

lemma consume_Some:
  assumes "consumeOneTimePreKey pick db d = (Some k, db1)"
  shows "k \<in> set (db_otps db) \<and> ot_deviceId k = d \<and> db_otps db1 = filter (\<lambda>k'. ot_id k' \<noteq> ot_id k) (db_otps db)"
  using assms by (auto simp: consumeOneTimePreKey_def dest!: findFirst_Some split: option.splits)

lemma consume_None: "consumeOneTimePreKey pick db d = (None, db1) \<Longrightarrow> db1 = db"
  by (auto simp: consumeOneTimePreKey_def split: option.splits)

lemma consumeAll_pool:
  "consumeAll db rs = (ks, db') \<Longrightarrow>
     set ks \<subseteq> set (db_otps db) \<and> distinct (map ot_id ks)
     \<and> db_otps db' = filter (\<lambda>k. ot_id k \<notin> ot_id ` set ks) (db_otps db)"
proof (induction db rs arbitrary: ks db' rule: consumeAll.induct)
  case (2 db pick d rs)
  obtain k db1 where k: "consumeOneTimePreKey pick db d = (k, db1)" by force
  obtain ks1 where ks1: "consumeAll db1 rs = (ks1, db')" "ks = (case k of None \<Rightarrow> ks1 | Some x \<Rightarrow> x # ks1)"
    using 2(2) k by (auto simp: Let_def split: prod.splits)
  have ih: "set ks1 \<subseteq> set (db_otps db1) \<and> distinct (map ot_id ks1)
      \<and> db_otps db' = filter (\<lambda>k. ot_id k \<notin> ot_id ` set ks1) (db_otps db1)"
    using 2(1) [OF k [symmetric] refl ks1(1)] by simp
  show ?case
  proof (cases k)
    case None
    then have "db1 = db" using consume_None k by blast
    then show ?thesis using ih ks1(2) None by simp
  next
    case (Some x)
    note x = consume_Some [OF k [unfolded Some]]
    have "filter (\<lambda>k. ot_id k \<notin> ot_id ` set ks1) (filter (\<lambda>k'. ot_id k' \<noteq> ot_id x) (db_otps db)) =
        filter (\<lambda>k. ot_id k \<notin> ot_id ` set ks) (db_otps db)"
      unfolding filter_filter ks1(2) Some by (rule filter_cong) auto
    then show ?thesis using ih x ks1(2) Some by auto
  qed
qed simp

subsection \<open>Fetching what was published\<close>

lemma latestKey_unique:
  assumes "\<And>k. k \<in> set rows \<Longrightarrow> ky_deviceId k = i \<Longrightarrow> ky_createdAt k < ky_createdAt new" "ky_deviceId new = i"
  shows "latestKey pick i (rows @ [new]) = Some new"
  unfolding latestKey_def Let_def using assms by (intro findFirst_unique) force+

lemma buildBundles_single: "buildBundles pick db [d] = (case buildBundleForDevice pick db d of (None, db1) \<Rightarrow> ([], db1) | (Some b, db1) \<Rightarrow> ([b], db1))"
  by (auto split: prod.splits option.splits)

lemma filter_single:
  assumes "distinct xs" "x \<in> set xs" "\<And>y. y \<in> set xs \<Longrightarrow> P y \<longleftrightarrow> y = x"
  shows "filter P xs = [x]"
proof -
  have "filter P xs = filter (\<lambda>y. y = x) xs" using assms(3) by (rule filter_cong [OF refl])
  also have "\<dots> = [x]" using assms(1,2) by (induction xs) (auto simp: filter_empty_conv)
  finally show ?thesis .
qed

lemma fetch_current:
  assumes inv: "devices_inv db" and cur: "current db u i d"
  shows "fetchPreKeyBundles pick db u (Some i) =
    (case buildBundleForDevice pick db d of (None, db1) \<Rightarrow> ([], db1) | (Some b, db1) \<Rightarrow> ([b], db1))"
proof -
  have "distinct (db_devices db)"
    using inv by (simp add: devices_inv_def distinct_map)
  then have "filter (\<lambda>d. dv_userId d = u \<and> dv_replacedAt d = None \<and> dv_deviceId d = i) (db_devices db) = [d]"
  proof (rule filter_single)
    show "d \<in> set (db_devices db)" using cur by (simp add: current_def)
    fix y
    assume "y \<in> set (db_devices db)"
    then show "dv_userId y = u \<and> dv_replacedAt y = None \<and> dv_deviceId y = i \<longleftrightarrow> y = d"
      using current_unique [OF inv cur, of y] cur unfolding current_def by metis
  qed
  then show ?thesis
    by (simp add: fetchPreKeyBundles_def buildBundles_single del: buildBundles.simps)
qed

subsection \<open>Properties\<close>

text \<open>An identity key is never overwritten: registering a device keeps the table sound, keeps
  every earlier row with its owner and key (at most closing it), and leaves exactly one
  active row for the device, with the key just published.\<close>

theorem registerDevice_keeps_history:
  assumes "devices_inv db" "registerDevice pick now db u b = Inr db'"
  shows "devices_inv db' \<and> history db db' \<and> (\<exists>!d. current db' u (pb_deviceId b) d)
    \<and> (\<forall>d. current db' u (pb_deviceId b) d \<longrightarrow> dv_identityKey d = base64Decode (pb_identityKey b))"
  using registerDevice_inv [OF assms] current_unique [of db' u "pb_deviceId b"]
  by (auto simp: registered_def)

definition demoBundle :: "jsstring \<Rightarrow> bytes \<Rightarrow> PreKeyBundlePublic" where
  "demoBundle u k = \<lparr>pb_userId = u, pb_deviceId = 1, pb_registrationId = 5, pb_identityKey = base64Encode k,
     pb_signedPreKeyId = 1, pb_signedPreKeyPublic = base64Encode [2], pb_signedPreKeySignature = base64Encode [3],
     pb_preKeyId = Some 9, pb_preKeyPublic = Some (base64Encode [4]), pb_kyberPreKeyId = 1,
     pb_kyberPreKeyPublic = base64Encode [5], pb_kyberPreKeySignature = base64Encode [6]\<rparr>"

lemma demo_devices_inv: "devices_inv demoDb"
  by (simp add: devices_inv_def demoDb_def)

lemma registerDevice_ok: "user_exists db u \<Longrightarrow> \<exists>db'. registerDevice pick now db u b = Inr db'"
proof -
  assume "user_exists db u"
  then have "\<exists>r. upsertDevice pick now db u b = Inr r"
    by (auto simp: upsertDevice_def createDevice_def user_exists_def split: option.splits)
  then show ?thesis by (auto simp: registerDevice_def rbind_Inr_iff Let_def)
qed

lemma demo_user: "user_exists demoDb (js ''bob'')"
  by (simp add: user_exists_def demoDb_def demoUser_def)

theorem registerDevice_keeps_history_witness:
  "\<exists>db' db''. registerDevice (\<lambda>_. 0) 10 demoDb (js ''bob'') (demoBundle (js ''bob'') [1]) = Inr db'
     \<and> registerDevice (\<lambda>_. 0) 20 db' (js ''bob'') (demoBundle (js ''bob'') [2]) = Inr db''
     \<and> history db' db'' \<and> (\<exists>!d. current db'' (js ''bob'') 1 d)"
proof -
  obtain db' where 1: "registerDevice (\<lambda>_. 0) 10 demoDb (js ''bob'') (demoBundle (js ''bob'') [1]) = Inr db'"
    using registerDevice_ok [OF demo_user] by blast
  have inv: "devices_inv db'" "\<exists>!d. current db' (js ''bob'') 1 d"
    using registerDevice_keeps_history [OF demo_devices_inv 1] by (simp_all add: demoBundle_def)
  then obtain d where d: "findFirst (\<lambda>_. 0) (\<lambda>d. dv_userId d = js ''bob'' \<and> dv_deviceId d = 1 \<and> dv_replacedAt d = None) (db_devices db') = Some d"
    using findFirst_current [OF inv(1)] by blast
  have "user_exists db' (js ''bob'')"
    using 1 by (simp add: registerDevice_def upsertDevice_def createDevice_def user_exists_def demoDb_def findFirst_def
        pick_of_def demoUser_def Let_def demoBundle_def) auto
  then obtain db'' where 2: "registerDevice (\<lambda>_. 0) 20 db' (js ''bob'') (demoBundle (js ''bob'') [2]) = Inr db''"
    using registerDevice_ok by blast
  then show ?thesis
    using 1 registerDevice_keeps_history [OF inv(1) 2] by (auto simp: demoBundle_def)
qed

text \<open>C21: a one-time prekey is handed out at most once: in any sequence of bundle builds, for any
  devices and whichever row each build takes, the keys given out are different rows of the
  pool, and exactly those have left the pool.\<close>

theorem one_time_prekeys_used_once:
  assumes "consumeAll db rs = (ks, db')"
  shows "distinct (map ot_id ks) \<and> set ks \<subseteq> set (db_otps db)
    \<and> db_otps db' = filter (\<lambda>k. ot_id k \<notin> ot_id ` set ks) (db_otps db)"
  using consumeAll_pool [OF assms] by blast

theorem one_time_prekeys_used_once_witness:
  "\<exists>k db'. consumeAll (demoDb\<lparr>db_otps := [\<lparr>ot_id = 3, ot_deviceId = 0, ot_keyId = 9, ot_publicKey = [4]\<rparr>]\<rparr>)
      [(\<lambda>_. 0, 0), (\<lambda>_. 7, 0)] = ([k], db') \<and> db_otps db' = []"
proof -
  let ?db = "demoDb\<lparr>db_otps := [\<lparr>ot_id = 3, ot_deviceId = 0, ot_keyId = 9, ot_publicKey = [4]\<rparr>]\<rparr>"
  obtain k db' where r: "consumeAll ?db [(\<lambda>_. 0, 0), (\<lambda>_. 7, 0)] = ([k], db')"
    by (simp add: consumeOneTimePreKey_def findFirst_def pick_of_def)
  then show ?thesis using one_time_prekeys_used_once [OF r] by auto
qed

text \<open>What a device published last is what a peer fetches: after \<^verbatim>\<open>registerDevice\<close> at a time
  later than the device's earlier keys, fetching that device returns one bundle with the
  published registration id, identity key, signed and Kyber prekeys.\<close>

theorem fetch_returns_published:
  assumes "devices_inv db" "registerDevice pick now db u b = Inr db'"
    and "\<forall>k \<in> set (db_signed db) \<union> set (db_kyber db). ky_createdAt k < now"
  shows "\<exists>f db''. fetchPreKeyBundles pick' db' u (Some (pb_deviceId b)) = ([f], db'')
    \<and> pb_userId f = u \<and> pb_deviceId f = pb_deviceId b \<and> pb_registrationId f = pb_registrationId b
    \<and> base64Decode (pb_identityKey f) = base64Decode (pb_identityKey b)
    \<and> pb_signedPreKeyId f = pb_signedPreKeyId b
    \<and> base64Decode (pb_signedPreKeyPublic f) = base64Decode (pb_signedPreKeyPublic b)
    \<and> base64Decode (pb_signedPreKeySignature f) = base64Decode (pb_signedPreKeySignature b)
    \<and> pb_kyberPreKeyId f = pb_kyberPreKeyId b
    \<and> base64Decode (pb_kyberPreKeyPublic f) = base64Decode (pb_kyberPreKeyPublic b)
    \<and> base64Decode (pb_kyberPreKeySignature f) = base64Decode (pb_kyberPreKeySignature b)"
proof -
  obtain i db1 where 1: "upsertDevice pick now db u b = Inr (i, db1)" "db_devices db' = db_devices db1"
    "db_signed db' = db_signed db1 @ [\<lparr>ky_deviceId = i, ky_keyId = pb_signedPreKeyId b,
       ky_publicKey = base64Decode (pb_signedPreKeyPublic b), ky_signature = base64Decode (pb_signedPreKeySignature b), ky_createdAt = now\<rparr>]"
    "db_kyber db' = db_kyber db1 @ [\<lparr>ky_deviceId = i, ky_keyId = pb_kyberPreKeyId b,
       ky_publicKey = base64Decode (pb_kyberPreKeyPublic b), ky_signature = base64Decode (pb_kyberPreKeySignature b), ky_createdAt = now\<rparr>]"
    using registerDevice_cases [OF assms(2)] by metis
  note up = upsertDevice_spec [OF assms(1) 1(1)]
  have inv: "devices_inv db'" using registerDevice_inv [OF assms(1,2)] by blast
  obtain d where d: "current db' u (pb_deviceId b) d" "dv_id d = i" "dv_identityKey d = base64Decode (pb_identityKey b)"
    "dv_registrationId d = pb_registrationId b"
    using up 1(2) by (auto simp: registered_def current_def)
  have keys: "latestKey pick' i (db_signed db') = Some (last (db_signed db'))"
    "latestKey pick' i (db_kyber db') = Some (last (db_kyber db'))"
    unfolding 1(3,4) using assms(3) up by (auto intro!: latestKey_unique)
  obtain otp db2 where "consumeOneTimePreKey pick' db' i = (otp, db2)" by force
  then show ?thesis
    using d keys 1(3,4)
    by (simp add: fetch_current [OF inv d(1)] buildBundleForDevice_def base64_roundtrip) (simp add: current_def)
qed

theorem fetch_returns_published_witness:
  "\<exists>db' f db''. registerDevice (\<lambda>_. 0) 10 demoDb (js ''bob'') (demoBundle (js ''bob'') [1]) = Inr db'
     \<and> fetchPreKeyBundles (\<lambda>_. 0) db' (js ''bob'') (Some 1) = ([f], db'') \<and> base64Decode (pb_identityKey f) = [1]"
proof -
  obtain db' where r: "registerDevice (\<lambda>_. 0) 10 demoDb (js ''bob'') (demoBundle (js ''bob'') [1]) = Inr db'"
    using registerDevice_ok [OF demo_user] by blast
  then show ?thesis
    using fetch_returns_published [OF demo_devices_inv r, of "\<lambda>_. 0"]
    by (auto simp: demoBundle_def base64_roundtrip demoDb_def simp del: base64Encode.simps)
qed

end
