(* ===== verification/Auth.thy ===== *)
theory Auth
  imports RelayDb
begin

section \<open>Relay authentication (\<^verbatim>\<open>apps/node/src/auth.ts\<close>)\<close>

text \<open>
  Bearer tokens and the lockout of the invite-code guard. \<open>Date.now()\<close> is an argument, the
  hash of a token is SHA-256 of its UTF-8 bytes from the library record.
\<close>

definition hashToken :: "crypto_lib \<Rightarrow> jsstring \<Rightarrow> jsstring" where
  "hashToken K token = toHex (sha256 K (utf8Encode token))"

definition authenticateToken :: "crypto_lib \<Rightarrow> Db \<Rightarrow> jsstring \<Rightarrow> jsstring option" where
  "authenticateToken K db token =
     (let tokenHash = hashToken K token in
      case List.find (\<lambda>u. us_tokenHash u = tokenHash) (db_users db) of
        None \<Rightarrow> None
      | Some user \<Rightarrow>
          (let a = utf8Encode tokenHash; b = utf8Encode (us_tokenHash user) in
           if length a \<noteq> length b \<or> \<not> a = b then None else Some (us_id user)))"

text \<open>The characters \<^verbatim>\<open>\s\<close> matches and \<^verbatim>\<open>trim\<close> removes.\<close>

definition isSpace :: "16 word \<Rightarrow> bool" where
  "isSpace u \<longleftrightarrow> (let n = unat u in (9 \<le> n \<and> n \<le> 13) \<or> n = 32 \<or> n = 160 \<or> n = 0x1680 \<or> (0x2000 \<le> n \<and> n \<le> 0x200A)
     \<or> n = 0x2028 \<or> n = 0x2029 \<or> n = 0x202F \<or> n = 0x205F \<or> n = 0x3000 \<or> n = 0xFEFF)"

definition js_trim :: "jsstring \<Rightarrow> jsstring" where
  "js_trim s = rev (dropWhile isSpace (rev (dropWhile isSpace s)))"

definition asciiLower :: "16 word \<Rightarrow> 16 word" where
  "asciiLower u = (if 65 \<le> unat u \<and> unat u \<le> 90 then u + 32 else u)"

text \<open>\<^verbatim>\<open>/^Bearer\s+(\S+)$/i\<close> on the trimmed header.\<close>

definition extractBearerToken :: "jsstring option \<Rightarrow> jsstring option" where
  "extractBearerToken header =
     (case header of
        None \<Rightarrow> None
      | Some h \<Rightarrow>
          if h = [] then None
          else (let s = js_trim h; rest = drop 6 s; token = dropWhile isSpace rest in
            if map asciiLower (take 6 s) = js ''bearer'' \<and> rest \<noteq> token \<and> token \<noteq> [] \<and> list_all (\<lambda>u. \<not> isSpace u) token
            then Some token else None))"

definition authenticate :: "crypto_lib \<Rightarrow> Db \<Rightarrow> jsstring option \<Rightarrow> jsstring option" where
  "authenticate K db header =
     (case extractBearerToken header of None \<Rightarrow> None | Some token \<Rightarrow> authenticateToken K db token)"

subsection \<open>The invite-code lockout\<close>

record LockEntry =
  le_count :: nat
  le_lockedUntil :: int

record InviteCodeLockout =
  lo_maxFailures :: nat
  lo_lockoutMs :: int
  lo_failures :: "(jsstring \<times> LockEntry) list"

definition newLockout :: InviteCodeLockout where
  "newLockout = \<lparr>lo_maxFailures = 5, lo_lockoutMs = 15 * 60000, lo_failures = []\<rparr>"

definition isLocked :: "int \<Rightarrow> InviteCodeLockout \<Rightarrow> jsstring \<Rightarrow> bool \<times> InviteCodeLockout" where
  "isLocked now lo ip =
     (case map_of (lo_failures lo) ip of
        None \<Rightarrow> (False, lo)
      | Some entry \<Rightarrow>
          if le_lockedUntil entry \<noteq> 0 \<and> le_lockedUntil entry \<le> now
          then (False, lo\<lparr>lo_failures := amap_del (lo_failures lo) ip\<rparr>)
          else (le_lockedUntil entry \<noteq> 0, lo))"

definition recordFailure :: "int \<Rightarrow> InviteCodeLockout \<Rightarrow> jsstring \<Rightarrow> InviteCodeLockout" where
  "recordFailure now lo ip =
     (let entry = (case map_of (lo_failures lo) ip of None \<Rightarrow> \<lparr>le_count = 0, le_lockedUntil = 0\<rparr> | Some e \<Rightarrow> e);
          entry1 = entry\<lparr>le_count := le_count entry + 1\<rparr>;
          entry2 = (if le_count entry1 \<ge> lo_maxFailures lo then entry1\<lparr>le_lockedUntil := now + lo_lockoutMs lo\<rparr> else entry1)
      in lo\<lparr>lo_failures := amap_set (lo_failures lo) ip entry2\<rparr>)"

definition recordSuccess :: "InviteCodeLockout \<Rightarrow> jsstring \<Rightarrow> InviteCodeLockout" where
  "recordSuccess lo ip = lo\<lparr>lo_failures := amap_del (lo_failures lo) ip\<rparr>"

subsection \<open>What the lockout counts\<close>

text \<open>\<open>attempts\<close>: wrong codes at the given times, each after the lock test, as the sign-up route makes them.\<close>

fun attempts :: "InviteCodeLockout \<Rightarrow> jsstring \<Rightarrow> int list \<Rightarrow> InviteCodeLockout" where
  "attempts lo ip [] = lo"
| "attempts lo ip (t # ts) =
     (case isLocked t lo ip of
        (True, lo') \<Rightarrow> attempts lo' ip ts
      | (False, lo') \<Rightarrow> attempts (recordFailure t lo' ip) ip ts)"

definition failuresOf :: "InviteCodeLockout \<Rightarrow> jsstring \<Rightarrow> nat" where
  "failuresOf lo ip = (case map_of (lo_failures lo) ip of None \<Rightarrow> 0 | Some e \<Rightarrow> le_count e)"

definition unlocked :: "InviteCodeLockout \<Rightarrow> jsstring \<Rightarrow> bool" where
  "unlocked lo ip \<longleftrightarrow> pred_option (\<lambda>e. le_lockedUntil e = 0) (map_of (lo_failures lo) ip)"

lemma recordFailure_below:
  assumes "unlocked lo ip" "failuresOf lo ip + 1 < lo_maxFailures lo"
  shows "unlocked (recordFailure t lo ip) ip" "failuresOf (recordFailure t lo ip) ip = failuresOf lo ip + 1"
    "lo_maxFailures (recordFailure t lo ip) = lo_maxFailures lo" "lo_lockoutMs (recordFailure t lo ip) = lo_lockoutMs lo"
  using assms by (auto simp: recordFailure_def unlocked_def failuresOf_def map_of_amap_set Let_def split: option.splits)

lemma recordFailure_last:
  assumes "failuresOf lo ip + 1 \<ge> lo_maxFailures lo"
  shows "\<exists>e. map_of (lo_failures (recordFailure t lo ip)) ip = Some e \<and> le_lockedUntil e = t + lo_lockoutMs lo"
  using assms by (auto simp: recordFailure_def failuresOf_def map_of_amap_set Let_def split: option.splits)

lemma isLocked_unlocked: "unlocked lo ip \<Longrightarrow> isLocked t lo ip = (False, lo)"
  by (auto simp: isLocked_def unlocked_def split: option.splits)

lemma attempts_below:
  "unlocked lo ip \<Longrightarrow> failuresOf lo ip + length ts < lo_maxFailures lo \<Longrightarrow>
     unlocked (attempts lo ip ts) ip \<and> failuresOf (attempts lo ip ts) ip = failuresOf lo ip + length ts
     \<and> lo_maxFailures (attempts lo ip ts) = lo_maxFailures lo \<and> lo_lockoutMs (attempts lo ip ts) = lo_lockoutMs lo"
proof (induction ts arbitrary: lo)
  case (Cons t ts)
  note rf = recordFailure_below [OF Cons.prems(1), of t]
  show ?case
    using Cons.IH [of "recordFailure t lo ip"] Cons.prems rf by (simp add: isLocked_unlocked)
qed simp

lemma attempts_snoc: "attempts lo ip (ts @ [t]) = attempts (attempts lo ip ts) ip [t]"
  by (induction lo ip ts rule: attempts.induct) (auto split: prod.splits bool.splits)

lemma lockout_spec:
  assumes "unlocked lo ip" "failuresOf lo ip = 0" "length ts + 1 = lo_maxFailures lo" "0 \<le> t" "0 < lo_lockoutMs lo"
  shows "(t \<le> now \<and> now < t + lo_lockoutMs lo \<longrightarrow>
      isLocked now (attempts lo ip (ts @ [t])) ip = (True, attempts lo ip (ts @ [t])))
    \<and> (t + lo_lockoutMs lo \<le> now \<longrightarrow> (\<exists>lo'. isLocked now (attempts lo ip (ts @ [t])) ip = (False, lo') \<and> failuresOf lo' ip = 0))"
proof -
  let ?lo = "attempts lo ip ts"
  have b: "unlocked ?lo ip" "failuresOf ?lo ip = length ts" "lo_maxFailures ?lo = lo_maxFailures lo" "lo_lockoutMs ?lo = lo_lockoutMs lo"
    using attempts_below [OF assms(1), of ts] assms(2,3) by auto
  have "attempts lo ip (ts @ [t]) = recordFailure t ?lo ip"
    using b(1) by (simp add: attempts_snoc isLocked_unlocked)
  moreover obtain e where "map_of (lo_failures (recordFailure t ?lo ip)) ip = Some e" "le_lockedUntil e = t + lo_lockoutMs lo"
    using recordFailure_last [of ?lo ip t] b assms(3) by auto
  ultimately show ?thesis
    using assms(4,5) by (auto simp: isLocked_def failuresOf_def map_of_amap_del)
qed

subsection \<open>Properties\<close>

text \<open>The wrong invite code that fills the quota locks the source out: after that many failures
  of an unlocked source, at any later time before the lockout period is over the source is
  locked, and the lock test itself changes nothing; when the period is over the source starts
  afresh.\<close>

theorem lockout_after_max_failures:
  assumes "unlocked lo ip" "failuresOf lo ip = 0" "length ts + 1 = lo_maxFailures lo" "0 \<le> t" "0 < lo_lockoutMs lo"
  shows "(t \<le> now \<and> now < t + lo_lockoutMs lo \<longrightarrow>
      isLocked now (attempts lo ip (ts @ [t])) ip = (True, attempts lo ip (ts @ [t])))
    \<and> (t + lo_lockoutMs lo \<le> now \<longrightarrow> (\<exists>lo'. isLocked now (attempts lo ip (ts @ [t])) ip = (False, lo') \<and> failuresOf lo' ip = 0))"
  using lockout_spec [OF assms] .

theorem lockout_after_max_failures_witness:
  "fst (isLocked 500000 (attempts newLockout (js ''ip'') [1, 2, 3, 4, 5]) (js ''ip''))"
  using lockout_after_max_failures [of newLockout "js ''ip''" "[1, 2, 3, 4]" 5 500000]
  by (simp add: newLockout_def unlocked_def failuresOf_def)

text \<open>Failures never age: the same number of wrong codes locks the source however far apart in
  time they are; no window limits which failures count together.\<close>

theorem lockout_counts_without_window:
  "fst (isLocked (5 * (int gap + 1)) (attempts newLockout ip (map (\<lambda>n. int n * (int gap + 1)) [1, 2, 3, 4, 5])) ip)"
  using lockout_spec [of newLockout ip "map (\<lambda>n. int n * (int gap + 1)) [1, 2, 3, 4]" "5 * (int gap + 1)" "5 * (int gap + 1)"]
  by (simp add: newLockout_def unlocked_def failuresOf_def)

end
