(* ===== verification/DenseLog.thy ===== *)
theory DenseLog
  imports Prelude
begin

section \<open>Dense append-only logs\<close>

text \<open>
  The relay's op store and the client's cached op chain follow one rule: an entry is
  appended when its position is the length of the log, and ignored otherwise, as a duplicate
  or a gap. \<open>dense_log\<close> is that contract. Proved once from it: entries are never
  changed once stored, a log fed only with entries of one sequence, in any order and with
  any repetitions, is always a prefix of it, and a run through the sequence in order
  completes it.
\<close>

fun put_all :: "('s \<Rightarrow> 'k \<Rightarrow> int \<Rightarrow> 'v \<Rightarrow> bool \<times> 's) \<Rightarrow> 's \<Rightarrow> ('k \<times> int \<times> 'v) list \<Rightarrow> 's" where
  "put_all put s [] = s"
| "put_all put s ((k, n, v) # ps) = put_all put (snd (put s k n v)) ps"

locale dense_log =
  fixes entries :: "'s \<Rightarrow> 'k \<Rightarrow> 'v list"
    and put :: "'s \<Rightarrow> 'k \<Rightarrow> int \<Rightarrow> 'v \<Rightarrow> bool \<times> 's"
    and avail :: "'s \<Rightarrow> 'k \<Rightarrow> bool"
  assumes put_stored: "avail s k \<Longrightarrow> fst (put s k n v) \<longleftrightarrow> n = int (length (entries s k))"
    and put_entries: "avail s k \<Longrightarrow> entries (snd (put s k n v)) k' =
      (if k' = k \<and> n = int (length (entries s k)) then entries s k @ [v] else entries s k')"
    and put_avail: "avail s k' \<Longrightarrow> avail (snd (put s k n v)) k'"
begin

lemma put_all_avail: "avail s k \<Longrightarrow> avail (put_all put s ps) k"
proof (induction ps arbitrary: s)
  case (Cons p ps)
  then show ?case by (cases p) (simp add: put_avail)
qed simp

lemma put_all_grows:
  "\<forall>p \<in> set ps. avail s (fst p) \<Longrightarrow> avail s k \<Longrightarrow> prefix (entries s k) (entries (put_all put s ps) k)"
proof (induction ps arbitrary: s)
  case (Cons p ps)
  obtain k' n v where p: "p = (k', n, v)" by (cases p) auto
  have "prefix (entries s k) (entries (snd (put s k' n v)) k)"
    using Cons.prems(1) p by (auto simp: put_entries)
  also have "prefix (entries (snd (put s k' n v)) k) (entries (put_all put (snd (put s k' n v)) ps) k)"
    using Cons.prems p by (intro Cons.IH) (auto simp: put_avail)
  finally show ?case by (simp add: p)
qed simp

text \<open>Entries of one sequence, in any order.\<close>

lemma put_all_prefix:
  assumes "\<forall>p \<in> set ps. avail s (fst p)" "avail s k" "prefix (entries s k) c"
    and "\<forall>(k', n, v) \<in> set ps. k' = k \<longrightarrow> js_nth c n = Some v"
  shows "prefix (entries (put_all put s ps) k) c"
  using assms
proof (induction ps arbitrary: s)
  case (Cons p ps)
  obtain k' n v where p: "p = (k', n, v)" by (cases p) auto
  have av: "avail s k'" using Cons.prems(1) p by simp
  have "prefix (entries (snd (put s k' n v)) k) c"
  proof (cases "k' = k \<and> n = int (length (entries s k))")
    case True
    then have "js_nth c (int (length (entries s k))) = Some v"
      using Cons.prems(4) p by auto
    then have "c ! length (entries s k) = v" "length (entries s k) < length c"
      by (auto simp: js_nth_Some_iff)
    moreover have "entries s k = take (length (entries s k)) c"
      using Cons.prems(3) by (auto simp: prefix_def)
    ultimately have "entries s k @ [v] = take (Suc (length (entries s k))) c"
      by (metis take_Suc_conv_app_nth)
    then show ?thesis using True av by (simp add: put_entries take_is_prefix)
  next
    case False
    then show ?thesis using Cons.prems(3) av by (auto simp: put_entries)
  qed
  then show ?case
    using Cons.prems p by (simp add: p, intro Cons.IH) (auto simp: put_avail)
qed simp

text \<open>The whole sequence in order, from any prefix.\<close>

lemma put_all_complete:
  assumes "avail s k" "entries s k = take m c" "m \<le> length c"
  shows "entries (put_all put s (map (\<lambda>i. (k, int i, c ! i)) [0..<length c])) k = c"
proof -
  have "entries (put_all put s (map (\<lambda>i. (k, int i, c ! i)) [0..<n])) k = take (max m n) c" if "n \<le> length c" for n
    using that
  proof (induction n)
    case (Suc n)
    let ?s = "put_all put s (map (\<lambda>i. (k, int i, c ! i)) [0..<n])"
    have app: "put_all put s (ps @ [(k, i, v)]) = snd (put (put_all put s ps) k i v)" for ps i v
      by (induction put s ps rule: put_all.induct) auto
    have e: "entries ?s k = take (max m n) c" using Suc by simp
    have av: "avail ?s k" by (rule put_all_avail [OF assms(1)])
    show ?case
      using Suc.prems assms(3)
      by (cases "m = Suc n") (auto simp: app put_entries [OF av] e max_def take_Suc_conv_app_nth)
  qed (use assms in simp)
  then show ?thesis using assms(3) by (simp add: max_def)
qed

end

end
