(* ===== verification/Relay.thy ===== *)
theory Relay
  imports Mailbox Devices Auth DenseLog
begin

section \<open>The relay application (\<^verbatim>\<open>apps/node/src/index.ts\<close>)\<close>

text \<open>
  The state of the relay is its database, the in-memory op store, the lockout, the
  connections and the registry of live connections. A REST route takes the state, the
  principal the auth hook resolved and the parsed request, and returns the status code, the
  body and the state; a query that throws gives status 500.

  A WebSocket connection is the record \<open>Conn\<close>; \<open>handleFrame\<close> is the handler of one frame.
  Frames are sent by appending to \<open>cn_out\<close> while the socket is open. An exception in the
  handler is swallowed by the caller, so what was done before it stays: the sending loops
  return whether they threw.
\<close>

definition MAX_ENVELOPE_BYTES :: nat where "MAX_ENVELOPE_BYTES = 64 * 1024"
definition MAX_FRAMES_PER_WINDOW :: nat where "MAX_FRAMES_PER_WINDOW = 200"
definition RATE_WINDOW_MS :: int where "RATE_WINDOW_MS = 10000"

definition WsAuthFrameSchema :: "json \<Rightarrow> (jsstring \<times> int) option" where
  "WsAuthFrameSchema v = do {
     o' \<leftarrow> z_object v; z_literal (js ''auth'') (js_get o' (js ''type''));
     t \<leftarrow> z_str1 (js_get o' (js ''token''));
     d \<leftarrow> z_uint (js_get o' (js ''deviceId''));
     Some (t, d) }"

definition WsHelloFrameSchema :: "json \<Rightarrow> int option" where
  "WsHelloFrameSchema v = do {
     o' \<leftarrow> z_object v; z_literal (js ''hello'') (js_get o' (js ''type''));
     z_uint (js_get o' (js ''deviceId'')) }"

text \<open>\<open>None\<close>: the schema rejects the row and \<^verbatim>\<open>parse\<close> throws.\<close>

definition buildDeliverFrame :: "StoredEnvelope \<Rightarrow> WsFrame option" where
  "buildDeliverFrame env = WsDeliverFrameSchema (js_of_frame (WsDeliver
     \<lparr>env_conversationId = se_conversationId env, env_senderUserId = se_senderUserId env,
      env_senderDeviceId = se_senderDeviceId env, env_recipientDeviceId = se_recipientDeviceId env,
      env_seq = se_seq env, env_ciphertext = base64Encode (se_ciphertext env), env_type = se_type env\<rparr>))"

definition buildOpDeliverFrame :: "jsstring \<Rightarrow> int \<Rightarrow> jsstring \<Rightarrow> WsFrame option" where
  "buildOpDeliverFrame conv sq op = WsOpDeliverFrameSchema (js_of_frame (WsOpDeliver conv sq op))"

subsection \<open>The op store\<close>

type_synonym OpStore = "(jsstring \<times> jsstring list) list"

definition opsOf :: "OpStore \<Rightarrow> jsstring \<Rightarrow> jsstring list" where
  "opsOf store conv = (case map_of store conv of None \<Rightarrow> [] | Some arr \<Rightarrow> arr)"

definition storeOp :: "OpStore \<Rightarrow> jsstring \<Rightarrow> int \<Rightarrow> jsstring \<Rightarrow> bool \<times> OpStore" where
  "storeOp store conv sq op =
     (let arr = opsOf store conv;
          stored = (sq = int (length arr));
          arr1 = (if stored then arr @ [op] else arr)
      in (stored, amap_set store conv arr1))"

definition drainOps :: "OpStore \<Rightarrow> jsstring \<Rightarrow> (int \<times> jsstring) list" where
  "drainOps store conv = map (\<lambda>(i, op). (int i, op)) (enumerate 0 (opsOf store conv))"

subsection \<open>Connections\<close>

record Conn =
  cn_userId :: "jsstring option"
  cn_deviceId :: "int option"
  cn_open :: bool
  cn_listening :: bool
  cn_draining :: bool
  cn_liveBuffer :: "StoredEnvelope list"
  cn_windowStart :: int
  cn_framesInWindow :: nat
  cn_out :: "WsFrame list"
  cn_closeCode :: "nat option"

record Relay =
  rl_db :: Db
  rl_ops :: OpStore
  rl_lockout :: InviteCodeLockout
  rl_conns :: "(nat \<times> Conn) list"
  rl_live :: "((jsstring \<times> int) \<times> nat) list"

definition authenticated :: "Conn \<Rightarrow> bool" where
  "authenticated c \<longleftrightarrow> cn_userId c \<noteq> None \<and> cn_deviceId c \<noteq> None"

definition closeConn :: "nat \<Rightarrow> Conn \<Rightarrow> Conn" where
  "closeConn code c = (if cn_open c then c\<lparr>cn_open := False, cn_closeCode := Some code\<rparr> else c)"

definition setConn :: "Relay \<Rightarrow> nat \<Rightarrow> Conn \<Rightarrow> Relay" where
  "setConn r i c = r\<lparr>rl_conns := amap_set (rl_conns r) i c\<rparr>"

text \<open>\<^verbatim>\<open>if (socket.readyState === socket.OPEN) socket.send(build(x))\<close> over a list; \<open>True\<close> when a build threw.\<close>

fun pushAll :: "WsFrame option list \<Rightarrow> Conn \<Rightarrow> bool \<times> Conn" where
  "pushAll [] c = (False, c)"
| "pushAll (f # fs) c =
     (if \<not> cn_open c then pushAll fs c
      else case f of None \<Rightarrow> (True, c) | Some x \<Rightarrow> pushAll fs (c\<lparr>cn_out := cn_out c @ [x]\<rparr>))"

definition deliver :: "StoredEnvelope \<Rightarrow> Conn \<Rightarrow> Conn" where
  "deliver env c =
     (if cn_draining c then c\<lparr>cn_liveBuffer := cn_liveBuffer c @ [env]\<rparr>
      else snd (pushAll [buildDeliverFrame env] c))"

definition deliverOp :: "jsstring \<Rightarrow> int \<Rightarrow> jsstring \<Rightarrow> Conn \<Rightarrow> Conn" where
  "deliverOp conv sq op c = snd (pushAll [buildOpDeliverFrame conv sq op] c)"

text \<open>
  A new connection: the query-token refusal, the header token. The listener is attached
  except after the refusal.
\<close>

definition openConn :: "crypto_lib \<Rightarrow> Db \<Rightarrow> int \<Rightarrow> bool \<Rightarrow> jsstring option \<Rightarrow> Conn" where
  "openConn K db now queryToken headerToken =
     (let c = \<lparr>cn_userId = None, cn_deviceId = None, cn_open = True, cn_listening = True, cn_draining = False,
            cn_liveBuffer = [], cn_windowStart = now, cn_framesInWindow = 0, cn_out = [], cn_closeCode = None\<rparr>
      in if queryToken then closeConn 4001 (c\<lparr>cn_listening := False\<rparr>)
         else case headerToken of
           None \<Rightarrow> c
         | Some t \<Rightarrow> (case authenticateToken K db t of
             None \<Rightarrow> closeConn 4003 c
           | Some u \<Rightarrow> c\<lparr>cn_userId := Some u\<rparr>))"

definition onFirstFrames :: "crypto_lib \<Rightarrow> Db \<Rightarrow> json \<Rightarrow> Conn \<Rightarrow> bool \<times> Conn" where
  "onFirstFrames K db raw c =
     (case (WsHelloFrameSchema raw, cn_userId c) of
        (Some d, Some _) \<Rightarrow> (True, c\<lparr>cn_deviceId := Some d\<rparr>)
      | _ \<Rightarrow>
          (case WsAuthFrameSchema raw of
             Some (token, d) \<Rightarrow>
               (case authenticateToken K db token of
                  None \<Rightarrow> (False, closeConn 4003 c)
                | Some u \<Rightarrow> (True, c\<lparr>cn_userId := Some u, cn_deviceId := Some d\<rparr>))
           | None \<Rightarrow> (False, closeConn 4002 c)))"

definition drainAndPush :: "Db \<Rightarrow> OpStore \<Rightarrow> Conn \<Rightarrow> bool \<times> Conn" where
  "drainAndPush db ops c =
     (case (cn_userId c, cn_deviceId c) of
        (Some u, Some d) \<Rightarrow>
          (let convs = listActiveConversationIds db u;
               pending = mbDrain db \<lparr>dr_recipientUserId = u, dr_recipientDeviceId = d, dr_conversationIds = convs\<rparr>
           in case pushAll (map buildDeliverFrame pending) c of
                (True, c1) \<Rightarrow> (True, c1)
              | (False, c1) \<Rightarrow> pushAll (concat (map (\<lambda>conv. map (\<lambda>(sq, op). buildOpDeliverFrame conv sq op) (drainOps ops conv)) convs)) c1)
      | _ \<Rightarrow> (False, c))"

definition registerLive :: "Relay \<Rightarrow> nat \<Rightarrow> Conn \<Rightarrow> Relay" where
  "registerLive r i c =
     (case (cn_userId c, cn_deviceId c) of
        (Some u, Some d) \<Rightarrow> r\<lparr>rl_live := amap_set (rl_live r) (u, d) i\<rparr>
      | _ \<Rightarrow> r)"

text \<open>The tail after the drain: leave the buffered window and flush.\<close>

definition flushLive :: "Conn \<Rightarrow> Conn" where
  "flushLive c = snd (pushAll (map buildDeliverFrame (cn_liveBuffer c)) (c\<lparr>cn_liveBuffer := [], cn_draining := False\<rparr>))"

definition onClose :: "Relay \<Rightarrow> nat \<Rightarrow> Relay" where
  "onClose r i =
     (case map_of (rl_conns r) i of
        None \<Rightarrow> r
      | Some c \<Rightarrow> (case (cn_userId c, cn_deviceId c) of
          (Some u, Some d) \<Rightarrow>
            if map_of (rl_live r) (u, d) = Some i then r\<lparr>rl_live := amap_del (rl_live r) (u, d)\<rparr> else r
        | _ \<Rightarrow> r))"

subsection \<open>One frame\<close>

text \<open>The first frame of a connection that is not authenticated yet.\<close>

definition handleFirst :: "crypto_lib \<Rightarrow> Relay \<Rightarrow> nat \<Rightarrow> Conn \<Rightarrow> json \<Rightarrow> Relay" where
  "handleFirst K r i c parsed =
     (case onFirstFrames K (rl_db r) parsed c of
        (ok, c1) \<Rightarrow>
          if ok \<and> authenticated c1 then
            (let c2 = (snd (pushAll [Some WsReady] c1))\<lparr>cn_draining := True\<rparr>;
                 r1 = registerLive r i c2
             in case drainAndPush (rl_db r) (rl_ops r) c2 of
                  (True, c3) \<Rightarrow> setConn r1 i c3
                | (False, c3) \<Rightarrow> setConn r1 i (flushLive c3))
          else setConn r i c1)"

definition handleSend :: "picker \<Rightarrow> Relay \<Rightarrow> nat \<Rightarrow> Conn \<Rightarrow> jsstring \<Rightarrow> Envelope \<Rightarrow> Relay" where
  "handleSend pick r i c rcpt e =
     (if Some (env_senderUserId e) \<noteq> cn_userId c \<or> Some (env_senderDeviceId e) \<noteq> cn_deviceId c
      then setConn r i (closeConn 4003 c)
      else if \<not> isActiveMember pick (rl_db r) (env_conversationId e) (env_senderUserId e)
      then setConn r i (closeConn 4003 c)
      else case mbStore (rl_db r) \<lparr>sp_conversationId = env_conversationId e, sp_recipientUserId = rcpt,
             sp_recipientDeviceId = env_recipientDeviceId e, sp_senderUserId = env_senderUserId e,
             sp_senderDeviceId = env_senderDeviceId e, sp_type = env_type e, sp_ciphertext = env_ciphertext e\<rparr> of
        Inl _ \<Rightarrow> setConn r i c
      | Inr (stored, db1) \<Rightarrow>
          (let r1 = setConn (r\<lparr>rl_db := db1\<rparr>) i c in
           case map_of (rl_live r1) (rcpt, env_recipientDeviceId e) of
             None \<Rightarrow> r1
           | Some j \<Rightarrow>
               (case map_of (rl_conns r1) j of
                  None \<Rightarrow> r1
                | Some target \<Rightarrow>
                    if isActiveMember pick db1 (env_conversationId e) rcpt
                    then setConn r1 j (deliver stored target) else r1)))"

fun fanOutOp :: "picker \<Rightarrow> Relay \<Rightarrow> (jsstring \<times> int) \<Rightarrow> jsstring \<Rightarrow> int \<Rightarrow> jsstring \<Rightarrow> ((jsstring \<times> int) \<times> nat) list \<Rightarrow> Relay" where
  "fanOutOp pick r self conv sq op [] = r"
| "fanOutOp pick r self conv sq op ((key, j) # live) =
     (let r1 = (if key = self then r
        else case map_of (rl_conns r) j of
          None \<Rightarrow> r
        | Some target \<Rightarrow>
            if isActiveMember pick (rl_db r) conv (fst key) then setConn r j (deliverOp conv sq op target) else r)
      in fanOutOp pick r1 self conv sq op live)"

definition handleOpSend :: "picker \<Rightarrow> Relay \<Rightarrow> nat \<Rightarrow> Conn \<Rightarrow> jsstring \<Rightarrow> int \<Rightarrow> jsstring \<Rightarrow> Relay" where
  "handleOpSend pick r i c conv sq op =
     (let r1 = setConn (r\<lparr>rl_ops := snd (storeOp (rl_ops r) conv sq op)\<rparr>) i c
      in case (cn_userId c, cn_deviceId c) of
           (Some u, Some d) \<Rightarrow> fanOutOp pick r1 (u, d) conv sq op (rl_live r1)
         | _ \<Rightarrow> r1)"

definition handleOther :: "picker \<Rightarrow> Relay \<Rightarrow> nat \<Rightarrow> Conn \<Rightarrow> json \<Rightarrow> Relay" where
  "handleOther pick r i c parsed =
     (case WsFrameSchema parsed of
        None \<Rightarrow> setConn r i (closeConn 4000 c)
      | Some (WsAck conv sq) \<Rightarrow>
          (case (cn_userId c, cn_deviceId c) of
             (Some u, Some d) \<Rightarrow>
               setConn (r\<lparr>rl_db := mbAckDb (rl_db r) \<lparr>ak_recipientUserId = u, ak_recipientDeviceId = d,
                 ak_conversationId = conv, ak_seq = sq\<rparr>\<rparr>) i c
           | _ \<Rightarrow> setConn r i c)
      | Some (WsSubscribe conv _) \<Rightarrow>
          (case cn_userId c of
             None \<Rightarrow> setConn r i c
           | Some u \<Rightarrow>
               if \<not> isActiveMember pick (rl_db r) conv u then setConn r i (closeConn 4003 c)
               else setConn r i (snd (drainAndPush (rl_db r) (rl_ops r) c)))
      | Some _ \<Rightarrow> setConn r i c)"

text \<open>
  The guards before the dispatch: the rate window, the size, the JSON parse (\<open>None\<close> when it
  throws).
\<close>

definition tick :: "int \<Rightarrow> Conn \<Rightarrow> Conn" where
  "tick now c =
     (let c1 = (if now - cn_windowStart c > RATE_WINDOW_MS then c\<lparr>cn_windowStart := now, cn_framesInWindow := 0\<rparr> else c)
      in c1\<lparr>cn_framesInWindow := cn_framesInWindow c1 + 1\<rparr>)"

definition handleFrame :: "crypto_lib \<Rightarrow> picker \<Rightarrow> int \<Rightarrow> Relay \<Rightarrow> nat \<Rightarrow> nat \<Rightarrow> json option \<Rightarrow> Relay" where
  "handleFrame K pick now r i byteLength json =
     (case map_of (rl_conns r) i of
        None \<Rightarrow> r
      | Some c0 \<Rightarrow>
          if \<not> cn_listening c0 then r
          else (let c = tick now c0 in
            if cn_framesInWindow c > MAX_FRAMES_PER_WINDOW then setConn r i (closeConn 1008 c)
            else if byteLength > MAX_ENVELOPE_BYTES then setConn r i (closeConn 1009 c)
            else case json of
              None \<Rightarrow> setConn r i (closeConn 4000 c)
            | Some parsed \<Rightarrow>
                if \<not> authenticated c then handleFirst K r i c parsed
                else case WsSendFrameSchema parsed of
                  Some (WsSend rcpt e) \<Rightarrow> handleSend pick r i c rcpt e
                | _ \<Rightarrow>
                    (case WsOpSendFrameSchema parsed of
                       Some (WsOpSend conv sq op) \<Rightarrow> handleOpSend pick r i c conv sq op
                     | _ \<Rightarrow> handleOther pick r i c parsed)))"

end
