(* ===== verification/RestProps.thy ===== *)
theory RestProps
  imports RestApi
begin

section \<open>What the REST routes may do\<close>

text \<open>
  \<open>rest_effect\<close> is the abstract specification of the REST interface: the changes of the
  database a request may make, each with the right of the principal it needs. \<open>serve\<close> refines
  it (\<open>serve_effect\<close>), and the invariant of the database is kept by every such change.
\<close>

subsection \<open>The specification\<close>

inductive rest_effect :: "picker \<Rightarrow> Fresh \<Rightarrow> jsstring option \<Rightarrow> Db \<Rightarrow> Db \<Rightarrow> bool"
  for pick :: picker and fr :: Fresh where
  effect_none: "rest_effect pick fr p db db"
| effect_user: "createUser db (fr_id fr) username h = Inr db' \<Longrightarrow> rest_effect pick fr p db db'"
| effect_device: "registerDevice pick (fr_now fr) db u b = Inr db' \<Longrightarrow> rest_effect pick fr (Some u) db db'"
| effect_fetch: "fetchPreKeyBundles pick db u d = (bs, db') \<Longrightarrow> rest_effect pick fr (Some p) db db'"
| effect_create: "dbCreateConversation db (fr_id fr) u us mode = Inr db' \<Longrightarrow> rest_effect pick fr (Some u) db db'"
| effect_invite: "canManageMembership pick db c u \<Longrightarrow> inviteMember pick db c v = Inr db' \<Longrightarrow> rest_effect pick fr (Some u) db db'"
| effect_remove: "canManageMembership pick db c u \<Longrightarrow> rest_effect pick fr (Some u) db (removeMember now db c v)"
| effect_mode: "isActiveMember pick db c u \<Longrightarrow> setAiMode db c b = Inr db' \<Longrightarrow> rest_effect pick fr (Some u) db db'"

text \<open>Without a principal an effect adds at most one user.\<close>

inductive_simps rest_effect_None: "rest_effect pick fr None db db'"

lemma anonymous_effect: "rest_effect pick fr None db db' \<longleftrightarrow> db' = db \<or> (\<exists>n h. createUser db (fr_id fr) n h = Inr db')"
  unfolding rest_effect_None by auto

text \<open>What the router guarantees: a request reaches a route only with a path under it.\<close>

definition routePrefix :: "Route \<Rightarrow> jsstring" where
  "routePrefix route = js (case route of Health \<Rightarrow> ''/health'' | Signup \<Rightarrow> ''/signup'' | PublishDevice \<Rightarrow> ''/devices''
     | BundleByName _ \<Rightarrow> ''/users/'' | BundleById _ \<Rightarrow> ''/users/by-id/'' | _ \<Rightarrow> ''/conversations'')"

definition routed :: "Route \<Rightarrow> Request \<Rightarrow> bool" where
  "routed route rq \<longleftrightarrow> (\<exists>rest. rq_url rq = routePrefix route @ rest)"

subsection \<open>The routes one by one\<close>

definition rest_ok :: "picker \<Rightarrow> Fresh \<Rightarrow> jsstring option \<Rightarrow> Relay \<Rightarrow> Relay \<Rightarrow> bool" where
  "rest_ok pick fr p r r' \<longleftrightarrow> rest_effect pick fr p (rl_db r) (rl_db r') \<and> rl_ops r' = rl_ops r
     \<and> rl_conns r' = rl_conns r \<and> rl_live r' = rl_live r"

lemma rest_ok_refl [simp]: "rest_ok pick fr p r r"
  by (simp add: rest_ok_def effect_none)

lemma rest_ok_lockout [simp]: "rest_ok pick fr p r (r\<lparr>rl_lockout := lo\<rparr>)"
  by (simp add: rest_ok_def effect_none)

lemma rest_ok_db: "rest_effect pick fr p (rl_db r) db \<Longrightarrow> rest_ok pick fr p r (r\<lparr>rl_db := db\<rparr>)"
  by (simp add: rest_ok_def)

lemma routeSignup_ok: "routeSignup K cfg fr rq r = (rep, r') \<Longrightarrow> rest_ok pick fr p r r'"
  by (auto simp: routeSignup_def Let_def rest_ok_def intro: effect_none effect_user
      split: option.splits prod.splits if_splits sum.splits)

lemma routeDevices_ok: "routeDevices pick fr p rq r = (rep, r') \<Longrightarrow> rest_ok pick fr p r r'"
  by (auto simp: routeDevices_def intro!: rest_ok_db effect_device split: option.splits if_splits sum.splits)

lemma sendBundles_ok: "sendBundles pick u rq r = (rep, r') \<Longrightarrow> rest_ok pick fr (Some p) r r'"
  by (auto simp: sendBundles_def intro!: rest_ok_db effect_fetch split: prod.splits)

lemma routeBundle_ok:
  "routeBundleByName pick n rq r = (rep, r') \<Longrightarrow> rest_ok pick fr (Some p) r r'"
  "routeBundleById pick u rq r = (rep, r') \<Longrightarrow> rest_ok pick fr (Some p) r r'"
  by (auto simp: routeBundleByName_def routeBundleById_def intro: sendBundles_ok split: option.splits if_splits)

lemma routeConversations_ok: "routeConversations fr p rq r = (rep, r') \<Longrightarrow> rest_ok pick fr p r r'"
  by (auto simp: routeConversations_def intro!: rest_ok_db effect_create split: option.splits if_splits sum.splits)

lemma routeInvite_ok: "routeInvite pick p i rq r = (rep, r') \<Longrightarrow> rest_ok pick fr p r r'"
  by (auto simp: routeInvite_def intro!: rest_ok_db effect_invite split: option.splits if_splits sum.splits)

lemma routeRemove_ok: "routeRemove pick fr p i rq r = (rep, r') \<Longrightarrow> rest_ok pick fr p r r'"
  by (auto simp: routeRemove_def intro!: rest_ok_db effect_remove split: option.splits if_splits)

lemma routeAiMode_ok: "routeAiMode pick p i rq r = (rep, r') \<Longrightarrow> rest_ok pick fr p r r'"
  by (auto simp: routeAiMode_def intro!: rest_ok_db effect_mode split: option.splits if_splits sum.splits)

lemmas routes_ok = routeSignup_ok routeDevices_ok routeBundle_ok routeConversations_ok routeInvite_ok
  routeRemove_ok routeAiMode_ok

lemma dispatch_ok:
  assumes "dispatch K cfg dbUp pick fr p route rq r = (rep, r')"
    and "p = None \<Longrightarrow> (\<forall>n. route \<noteq> BundleByName n) \<and> (\<forall>u. route \<noteq> BundleById u)"
  shows "rest_ok pick fr p r r'"
  using assms by (cases route; cases p) (auto simp: dispatch_def intro: routes_ok)

lemma public_route:
  assumes "routed route rq" "isPublic (rq_url rq)"
  shows "route = Health \<or> route = Signup"
  using assms by (cases route) (auto simp: routed_def isPublic_def routePrefix_def js_def)

lemma public_dispatch:
  assumes "dispatch K cfg dbUp pick fr None route rq r = (rep, r')" "route = Health \<or> route = Signup"
  shows "rest_ok pick fr p r r'"
  using assms by (auto simp: dispatch_def intro: routeSignup_ok)

lemma serve_effect:
  assumes "routed route rq" "serve K cfg dbUp pick fr route rq r = (rep, r')"
  shows "rest_ok pick fr (authenticate K (rl_db r) (rq_authorization rq)) r r'
    \<and> (authenticate K (rl_db r) (rq_authorization rq) = None \<longrightarrow> r' = r \<or> route = Signup)"
proof (cases "isPublic (rq_url rq)")
  case True
  then show ?thesis
    using assms(2) public_route [OF assms(1) True] public_dispatch [of K cfg dbUp pick fr route rq r rep r']
    by (auto simp: serve_def dispatch_def)
next
  case False
  then show ?thesis
    using assms(2) by (auto simp: serve_def intro!: dispatch_ok split: option.splits)
qed

subsection \<open>The invariant of the database\<close>

definition db_inv :: "Db \<Rightarrow> bool" where
  "db_inv db \<longleftrightarrow> memberships_inv db \<and> mail_inv db \<and> devices_inv db"

text \<open>A change outside the tables an invariant reads keeps it; ids only grow.\<close>

lemma memberships_inv_frame:
  "memberships_inv db \<Longrightarrow> db_memberships db' = db_memberships db \<Longrightarrow> db_conversations db' = db_conversations db
     \<Longrightarrow> db_next db \<le> db_next db' \<Longrightarrow> memberships_inv db'"
  unfolding memberships_inv_def by auto

lemma mail_inv_frame:
  "mail_inv db \<Longrightarrow> db_envelopes db' = db_envelopes db \<Longrightarrow> db_seq db' = db_seq db \<Longrightarrow> mail_inv db'"
  by (simp add: mail_inv_def)

lemma devices_inv_frame:
  "devices_inv db \<Longrightarrow> db_devices db' = db_devices db \<Longrightarrow> db_otps db' = db_otps db \<Longrightarrow> db_signed db' = db_signed db
     \<Longrightarrow> db_kyber db' = db_kyber db \<Longrightarrow> db_next db \<le> db_next db' \<Longrightarrow> devices_inv db'"
  unfolding devices_inv_def by (auto intro: less_le_trans)

lemmas inv_frames = memberships_inv_frame mail_inv_frame devices_inv_frame

text \<open>Which tables an operation leaves alone.\<close>

definition same_members :: "Db \<Rightarrow> Db \<Rightarrow> bool" where
  "same_members db db' \<longleftrightarrow> db_memberships db' = db_memberships db \<and> db_conversations db' = db_conversations db
     \<and> db_envelopes db' = db_envelopes db \<and> db_seq db' = db_seq db \<and> db_next db \<le> db_next db'"

lemma createUser_frame:
  assumes "createUser db i n h = Inr db'"
  shows "same_members db db' \<and> db_devices db' = db_devices db \<and> db_otps db' = db_otps db \<and> db_signed db' = db_signed db
    \<and> db_kyber db' = db_kyber db \<and> db_users db' = db_users db @ [\<lparr>us_id = i, us_username = n, us_tokenHash = h\<rparr>]"
  using assms by (auto simp: createUser_def same_members_def split: if_splits)

lemma createDevice_frame:
  "createDevice db u b = Inr (i, db') \<Longrightarrow> same_members db db' \<and> db_users db' = db_users db"
  by (auto simp: createDevice_def same_members_def split: if_splits)

lemma upsertDevice_frame:
  assumes "upsertDevice pick now db u b = Inr (i, db')"
  shows "same_members db db' \<and> db_users db' = db_users db"
proof -
  define close where "close = (\<lambda>current::DeviceRow. db\<lparr>db_devices := map (\<lambda>d. if dv_id d = dv_id current
    then d\<lparr>dv_replacedAt := Some now\<rparr> else d) (db_devices db)\<rparr>)"
  have "same_members db (close c) \<and> db_users (close c) = db_users db" for c
    by (simp add: close_def same_members_def)
  moreover have "createDevice db u b = Inr (i, db') \<or> (\<exists>c. createDevice (close c) u b = Inr (i, db'))
      \<or> same_members db db' \<and> db_users db' = db_users db"
    using assms by (auto simp: upsertDevice_def close_def same_members_def split: option.splits if_splits)
  ultimately show ?thesis
    using createDevice_frame by (metis (no_types, lifting) same_members_def order_trans)
qed

lemma registerDevice_frame:
  assumes "registerDevice pick now db u b = Inr db'"
  shows "same_members db db' \<and> db_users db' = db_users db"
proof -
  obtain i db1 where 1: "upsertDevice pick now db u b = Inr (i, db1)"
    using assms by (auto simp: registerDevice_def elim!: rbind_InrE)
  then have "same_members db1 db' \<and> db_users db' = db_users db1"
    using assms by (cases "pb_preKeyId b"; cases "pb_preKeyPublic b") (auto simp: registerDevice_def Let_def same_members_def)
  then show ?thesis using upsertDevice_frame [OF 1] by (auto simp: same_members_def)
qed

lemma buildBundles_frame:
  "buildBundles pick db ds = (bs, db') \<Longrightarrow> devices_inv db \<Longrightarrow> same_members db db' \<and> devices_inv db' \<and> db_users db' = db_users db"
proof (induction pick db ds arbitrary: bs db' rule: buildBundles.induct)
  case (2 pick db d ds)
  obtain b db1 where b: "buildBundleForDevice pick db d = (b, db1)" by force
  obtain bs1 where rest: "buildBundles pick db1 ds = (bs1, db')" using 2(2) b by (auto split: prod.splits)
  have "db1 = db \<or> (\<exists>k. db1 = db\<lparr>db_otps := filter (\<lambda>k'. ot_id k' \<noteq> k) (db_otps db)\<rparr>)"
    using b by (auto simp: buildBundleForDevice_def consumeOneTimePreKey_def split: option.splits prod.splits)
  then have "same_members db db1 \<and> devices_inv db1 \<and> db_users db1 = db_users db"
    using 2(3) by (auto simp: same_members_def devices_inv_def distinct_map_filter)
  then show ?case using 2(1) [OF b [symmetric] refl rest] by (auto simp: same_members_def)
qed (simp add: same_members_def)

lemma fetch_frame:
  "fetchPreKeyBundles pick db u d = (bs, db') \<Longrightarrow> devices_inv db \<Longrightarrow> same_members db db' \<and> devices_inv db' \<and> db_users db' = db_users db"
  unfolding fetchPreKeyBundles_def by (rule buildBundles_frame)

text \<open>The other frame: the membership operations leave devices, prekeys, users and mail alone.\<close>

definition same_devices :: "Db \<Rightarrow> Db \<Rightarrow> bool" where
  "same_devices db db' \<longleftrightarrow> db_devices db' = db_devices db \<and> db_otps db' = db_otps db \<and> db_signed db' = db_signed db
     \<and> db_kyber db' = db_kyber db \<and> db_envelopes db' = db_envelopes db \<and> db_seq db' = db_seq db \<and> db_users db' = db_users db
     \<and> db_next db \<le> db_next db'"

lemma same_devices_trans: "same_devices a b \<Longrightarrow> same_devices b c \<Longrightarrow> same_devices a c"
  by (simp add: same_devices_def)

lemma createMembership_frame: "createMembership db conv u a = Inr db' \<Longrightarrow> same_devices db db' \<and> db_conversations db' = db_conversations db"
  by (auto simp: createMembership_def same_devices_def split: if_splits)

lemma command_frames:
  "inviteMember pick db conv u = Inr db' \<Longrightarrow> same_devices db db'"
  "same_devices db (removeMember now db conv u)"
  "setAiMode db conv b = Inr db' \<Longrightarrow> same_devices db db'"
  by (auto simp: inviteMember_def removeMember_def setAiMode_def same_devices_def
      dest!: createMembership_frame split: option.splits if_splits)

lemma createMembership_members:
  assumes "createMembership db conv u a = Inr db'"
  shows "active_members db' c = (if c = conv then insert u (active_members db c) else active_members db c)"
proof -
  define new where "new = \<lparr>mb_id = db_next db, mb_conversationId = conv, mb_userId = u, mb_admin = a, mb_removedAt = None\<rparr>"
  have "db_memberships db' = db_memberships db @ [new]"
    using assms by (auto simp: createMembership_def new_def split: if_splits)
  moreover have "mb_conversationId new = conv" "mb_userId new = u" "mb_removedAt new = None"
    by (simp_all add: new_def)
  ultimately show ?thesis by (auto simp: set_eq_iff active_members_iff)
qed

lemma find_snoc: "List.find P (xs @ [x]) = (case List.find P xs of None \<Rightarrow> if P x then Some x else None | Some y \<Rightarrow> Some y)"
  by (induction xs) auto

lemma createMemberships_spec:
  assumes "memberships_inv db" "createMemberships db conv us = Inr db'" "distinct us"
    and "\<forall>u \<in> set us. (conv, u) \<notin> (\<lambda>m. (mb_conversationId m, mb_userId m)) ` set (db_memberships db)"
  shows "memberships_inv db' \<and> same_devices db db' \<and> db_conversations db' = db_conversations db
    \<and> active_members db' c = (if c = conv then set us \<union> active_members db c else active_members db c)"
  using assms
proof (induction us arbitrary: db)
  case (Cons u us)
  obtain db1 where 1: "createMembership db conv u False = Inr db1" "createMemberships db1 conv us = Inr db'"
    using Cons.prems(2) by (auto simp: rbind_Inr_iff)
  have ms: "db_memberships db1 = db_memberships db @ [\<lparr>mb_id = db_next db, mb_conversationId = conv, mb_userId = u,
      mb_admin = False, mb_removedAt = None\<rparr>]"
    using 1(1) by (auto simp: createMembership_def split: if_splits)
  have "memberships_inv db1" using createMembership_inv [OF Cons.prems(1) 1(1)] Cons.prems(4) by simp
  moreover have "\<forall>v \<in> set us. (conv, v) \<notin> (\<lambda>m. (mb_conversationId m, mb_userId m)) ` set (db_memberships db1)"
    using Cons.prems(3,4) by (auto simp: ms)
  ultimately show ?case
    using Cons.IH [OF _ 1(2)] Cons.prems(3) createMembership_frame [OF 1(1)] createMembership_members [OF 1(1), of c]
      same_devices_trans [of db db1 db'] by auto
qed (simp add: same_devices_def)

lemma createConversation_spec:
  assumes inv: "memberships_inv db" and fresh: "\<not> conversation_exists db i"
    and r: "dbCreateConversation db i u us mode = Inr db'"
  shows "memberships_inv db' \<and> same_devices db db'
    \<and> active_members db' c = (if c = i then insert u (set us) else active_members db c)
    \<and> getAiMode db' c = (if c = i then mode else getAiMode db c) \<and> conversation_exists db' i"
proof -
  define db0 where "db0 = db\<lparr>db_conversations := db_conversations db @ [\<lparr>cv_id = i, cv_active = mode, cv_createdBy = u\<rparr>]\<rparr>"
  obtain db1 where 1: "createMembership db0 i u True = Inr db1"
    "createMemberships db1 i (js_set_of (filter (\<lambda>j. j \<noteq> u) us)) = Inr db'"
    using r by (auto simp: dbCreateConversation_def db0_def Let_def rbind_Inr_iff split: if_splits)
  have none: "\<forall>m \<in> set (db_memberships db). mb_conversationId m \<noteq> i"
    using inv fresh by (auto simp: memberships_inv_def conversation_exists_def)
  have inv0: "memberships_inv db0"
    using inv fresh unfolding memberships_inv_def conversation_exists_def by (auto simp: db0_def)
  have inv1: "memberships_inv db1" using createMembership_inv [OF inv0 1(1)] none by (auto simp: db0_def)
  have ms1: "db_memberships db1 = db_memberships db @ [\<lparr>mb_id = db_next db, mb_conversationId = i, mb_userId = u,
      mb_admin = True, mb_removedAt = None\<rparr>]"
    using 1(1) by (auto simp: createMembership_def db0_def split: if_splits)
  have a0: "active_members db0 c = active_members db c" "active_members db i = {}"
    using none by (auto simp: active_members_def db0_def)
  have 2: "memberships_inv db' \<and> same_devices db1 db' \<and> db_conversations db' = db_conversations db1
    \<and> active_members db' c = (if c = i then set (js_set_of (filter (\<lambda>j. j \<noteq> u) us)) \<union> active_members db1 c else active_members db1 c)"
    using none by (intro createMemberships_spec [OF inv1 1(2)]) (auto simp: ms1)
  have cs: "db_conversations db' = db_conversations db @ [\<lparr>cv_id = i, cv_active = mode, cv_createdBy = u\<rparr>]"
    using 2 createMembership_frame [OF 1(1)] by (simp add: db0_def)
  have "same_devices db db1" using createMembership_frame [OF 1(1)] by (simp add: same_devices_def db0_def)
  moreover have "getAiMode db' c = (if c = i then mode else getAiMode db c)"
  proof -
    have "List.find (\<lambda>r. cv_id r = i) (db_conversations db) = None"
      using fresh by (auto simp: conversation_exists_def find_None_iff)
    then show ?thesis
      by (auto simp: getAiMode_def findConversation_def cs find_snoc split: option.splits)
  qed
  moreover have "conversation_exists db' i" by (simp add: conversation_exists_def cs)
  ultimately show ?thesis
    using 2 createMembership_members [OF 1(1), of c] a0 same_devices_trans [of db db1 db'] by auto
qed

subsection \<open>Every effect keeps the invariant\<close>

lemma db_inv_same_members: "db_inv db \<Longrightarrow> same_members db db' \<Longrightarrow> devices_inv db' \<Longrightarrow> db_inv db'"
  unfolding db_inv_def same_members_def by (blast intro: memberships_inv_frame mail_inv_frame)

lemma db_inv_same_devices: "db_inv db \<Longrightarrow> same_devices db db' \<Longrightarrow> memberships_inv db' \<Longrightarrow> db_inv db'"
  unfolding db_inv_def same_devices_def by (auto intro: devices_inv_frame mail_inv_frame)

lemma rest_effect_inv [inv_intros]:
  assumes "rest_effect pick fr p db db'" "db_inv db" "\<not> conversation_exists db (fr_id fr)"
  shows "db_inv db' \<and> us_id ` set (db_users db) \<subseteq> us_id ` set (db_users db')"
proof -
  have inv: "memberships_inv db" "devices_inv db" using assms(2) by (simp_all add: db_inv_def)
  note keep = db_inv_same_members [OF assms(2)] db_inv_same_devices [OF assms(2)]
  from assms(1) show ?thesis
  proof (cases rule: rest_effect.cases)
    case (effect_user n h)
    note fr = createUser_frame [OF effect_user]
    have "devices_inv db'"
      using fr assms(2) by (intro devices_inv_frame [of db db']) (auto simp: db_inv_def same_members_def)
    then show ?thesis using fr keep(1) by auto
  next
    case (effect_device u b)
    with inv keep(1) registerDevice_frame [of pick "fr_now fr" db u b db'] registerDevice_inv [of db pick "fr_now fr" u b db']
    show ?thesis by auto
  next
    case (effect_fetch u d bs)
    with inv keep(1) fetch_frame [of pick db u d bs db'] show ?thesis by auto
  next
    case (effect_create u us m)
    with inv keep(2) assms(3) createConversation_spec [of db "fr_id fr" u us m db'] show ?thesis by (auto simp: same_devices_def)
  next
    case (effect_invite c u v)
    with inv keep(2) command_frames(1) [of pick db c v db'] inviteMember_inv [of db pick c v db']
    show ?thesis by (auto simp: same_devices_def)
  next
    case (effect_remove c u now v)
    with inv keep(2) command_frames(2) [of db now c v] removeMember_inv [of db now c v]
    show ?thesis by (auto simp: same_devices_def)
  next
    case (effect_mode c u b)
    with inv keep(2) command_frames(3) [of db c b db'] setAiMode_inv [of db c b db']
    show ?thesis by (auto simp: same_devices_def)
  qed (use assms(2) in simp)
qed

text \<open>Who may change the members or the mode of an existing conversation.\<close>

lemma same_members_view:
  "same_members db db' \<Longrightarrow> active_members db' c = active_members db c \<and> getAiMode db' c = getAiMode db c"
  by (simp add: same_members_def active_members_def getAiMode_def findConversation_def)

lemma rest_effect_authority:
  assumes "rest_effect pick fr p db db'" "db_inv db" "\<not> conversation_exists db (fr_id fr)" "conversation_exists db c"
  shows "(active_members db' c = active_members db c \<or> (\<exists>u. p = Some u \<and> canManageMembership pick db c u))
    \<and> (getAiMode db' c = getAiMode db c \<or> (\<exists>u. p = Some u \<and> u \<in> active_members db c))"
  using assms
proof (cases rule: rest_effect.cases)
  case (effect_user n h)
  then show ?thesis using createUser_frame [of db "fr_id fr" n h db'] same_members_view [of db db' c] by auto
next
  case (effect_device u b)
  then show ?thesis
    using registerDevice_frame [of pick "fr_now fr" db u b db'] same_members_view [of db db' c] by auto
next
  case (effect_fetch u d bs)
  then show ?thesis
    using assms(2) fetch_frame [of pick db u d bs db'] same_members_view [of db db' c] by (auto simp: db_inv_def)
next
  case (effect_create u us m)
  then show ?thesis
    using assms(2-4) createConversation_spec [of db "fr_id fr" u us m db' c] by (auto simp: db_inv_def)
next
  case (effect_invite i u v)
  then show ?thesis
    using assms(2) inviteMember_members [of db pick i v db' c] command_fixed(1) [of pick db i v db'] getAiMode_cong [of db' db c]
    by (auto simp: db_inv_def)
next
  case (effect_remove i u now v)
  then show ?thesis
    using removeMember_members [of now db i v c] getAiMode_cong [of db' db c] by (auto simp: command_fixed)
next
  case (effect_mode i u b)
  then show ?thesis
    using setAiMode_members [of db i b db' c] setAiMode_mode [of db i b db' c] by (auto simp: isActiveMember_iff)
qed simp

text \<open>A token hash names its user.\<close>

lemma authenticateToken_find:
  "authenticateToken K db t = map_option us_id (List.find (\<lambda>u. us_tokenHash u = hashToken K t) (db_users db))"
proof (cases "List.find (\<lambda>u. us_tokenHash u = hashToken K t) (db_users db)")
  case None
  then show ?thesis by (simp add: authenticateToken_def)
next
  case (Some u)
  then have "us_tokenHash u = hashToken K t" unfolding find_Some_iff by auto
  then show ?thesis using Some by (simp add: authenticateToken_def Let_def)
qed

subsection \<open>Properties\<close>

text \<open>C7: the REST interface does nothing but what its specification allows: whatever the
  request, the database changes by one of the effects of \<open>rest_effect\<close>, with the right it asks
  of the user the bearer token belongs to, connections and op store are untouched, and without
  a valid token only the sign-up route changes anything, the database at most by one new user.\<close>

theorem serve_refines_rest_effect:
  assumes "routed route rq" "serve K cfg dbUp pick fr route rq r = (rep, r')"
  shows "rest_effect pick fr (authenticate K (rl_db r) (rq_authorization rq)) (rl_db r) (rl_db r')
    \<and> rl_ops r' = rl_ops r \<and> rl_conns r' = rl_conns r \<and> rl_live r' = rl_live r
    \<and> (authenticate K (rl_db r) (rq_authorization rq) = None \<longrightarrow> (r' = r \<or> route = Signup)
        \<and> (rl_db r' = rl_db r \<or> (\<exists>n h. createUser (rl_db r) (fr_id fr) n h = Inr (rl_db r'))))"
  using serve_effect [OF assms] by (auto simp: rest_ok_def anonymous_effect)

definition demoRelay :: Relay where
  "demoRelay = \<lparr>rl_db = demoDb, rl_ops = [], rl_lockout = newLockout, rl_conns = [], rl_live = []\<rparr>"

definition demoConfig :: RelayConfig where
  "demoConfig = \<lparr>cf_port = 8080, cf_databaseUrl = [], cf_inviteCodes = [js ''sesame''], cf_nodeEnv = []\<rparr>"

definition demoFresh :: Fresh where
  "demoFresh = \<lparr>fr_now = 100, fr_id = js ''n1'', fr_token = js ''tok''\<rparr>"

definition demoRemoveRq :: Request where
  "demoRemoveRq = \<lparr>rq_url = js ''/conversations/c1/remove'', rq_authorization = None, rq_ip = js ''ip'',
     rq_body = Some (JObj [(js ''userId'', JStr (js ''bob''))]), rq_deviceId = None\<rparr>"

lemma demoRemove_routed: "routed (RemoveFrom (js ''c1'')) demoRemoveRq"
  by (simp add: routed_def routePrefix_def demoRemoveRq_def js_def)

theorem serve_refines_rest_effect_witness:
  "snd (serve demoLib demoConfig True (\<lambda>_. 0) demoFresh (RemoveFrom (js ''c1'')) demoRemoveRq demoRelay) = demoRelay"
proof -
  obtain rep r' where s: "serve demoLib demoConfig True (\<lambda>_. 0) demoFresh (RemoveFrom (js ''c1'')) demoRemoveRq demoRelay = (rep, r')"
    by force
  have "authenticate demoLib (rl_db demoRelay) (rq_authorization demoRemoveRq) = None"
    by (simp add: authenticate_def extractBearerToken_def demoRemoveRq_def)
  then show ?thesis using serve_refines_rest_effect [OF demoRemove_routed s] s by simp
qed

text \<open>C17: membership is changed by its managers only: if a request changes the active members of an
  existing conversation, its bearer token belongs to the creator or an active admin, and if it
  changes the AI mode, to an active member; the database invariant survives every request.\<close>

theorem membership_changes_authorised:
  assumes "routed route rq" "serve K cfg dbUp pick fr route rq r = (rep, r')" "db_inv (rl_db r)"
    and "\<not> conversation_exists (rl_db r) (fr_id fr)" "conversation_exists (rl_db r) conv"
  shows "db_inv (rl_db r')
    \<and> (active_members (rl_db r') conv \<noteq> active_members (rl_db r) conv \<longrightarrow>
        (\<exists>u. authenticate K (rl_db r) (rq_authorization rq) = Some u \<and> canManageMembership pick (rl_db r) conv u))
    \<and> (getAiMode (rl_db r') conv \<noteq> getAiMode (rl_db r) conv \<longrightarrow>
        (\<exists>u. authenticate K (rl_db r) (rq_authorization rq) = Some u \<and> u \<in> active_members (rl_db r) conv))"
proof -
  have eff: "rest_effect pick fr (authenticate K (rl_db r) (rq_authorization rq)) (rl_db r) (rl_db r')"
    using serve_effect [OF assms(1,2)] by (simp add: rest_ok_def)
  show ?thesis
    using rest_effect_inv [OF eff assms(3,4)] rest_effect_authority [OF eff assms(3,4,5)] by blast
qed

text \<open>The token of \<open>bob\<close>, a member without rights, is \<open>tok-bob\<close>.\<close>

definition demoTokens :: Relay where
  "demoTokens = demoRelay\<lparr>rl_db := demoDb\<lparr>db_users := [demoUser (js ''alice''),
     (demoUser (js ''bob''))\<lparr>us_tokenHash := hashToken demoLib (js ''tok-bob'')\<rparr>]\<rparr>\<rparr>"

definition demoBobRq :: Request where
  "demoBobRq = demoRemoveRq\<lparr>rq_authorization := Some (js ''Bearer tok-bob'')\<rparr>"

lemma demo_db_inv: "db_inv (rl_db demoTokens)"
  by (simp add: db_inv_def demoTokens_def demoRelay_def memberships_inv_def mail_inv_def devices_inv_def demoDb_def js_def)

lemma length_toHex: "length (toHex bs) = 2 * length bs"
  by (induction bs) (simp_all add: toHex_def hexByte_def)

lemma demo_hashToken_other: "length h \<noteq> 64 \<Longrightarrow> h \<noteq> hashToken demoLib t"
  by (auto simp: hashToken_def demoLib_def length_toHex)

lemma demo_token: "authenticateToken demoLib (rl_db demoTokens) (js ''tok-bob'') = Some (js ''bob'')"
  using demo_hashToken_other [of "js ''alice''" "js ''tok-bob''"]
  by (simp add: authenticateToken_find demoTokens_def demoRelay_def demoUser_def js_def)

lemma demo_bob: "authenticate demoLib (rl_db demoTokens) (rq_authorization demoBobRq) = Some (js ''bob'')"
proof -
  have "extractBearerToken (rq_authorization demoBobRq) = Some (js ''tok-bob'')"
    by (simp add: demoBobRq_def extractBearerToken_def js_trim_def js_def isSpace_def asciiLower_def Let_def)
  then show ?thesis by (simp add: authenticate_def demo_token)
qed

lemma demo_bob_rights: "\<not> canManageMembership pick (rl_db demoTokens) (js ''c1'') (js ''bob'')"
  by (simp add: canManageMembership_def findConversation_def findFirst_def pick_of_def demoTokens_def demoRelay_def demoDb_def js_def)

theorem membership_changes_authorised_witness:
  "active_members (rl_db (snd (serve demoLib demoConfig True (\<lambda>_. 0) demoFresh (RemoveFrom (js ''c1'')) demoBobRq demoTokens))) (js ''c1'')
     = active_members (rl_db demoTokens) (js ''c1'')"
proof -
  obtain rep r' where s: "serve demoLib demoConfig True (\<lambda>_. 0) demoFresh (RemoveFrom (js ''c1'')) demoBobRq demoTokens = (rep, r')"
    by force
  have routed: "routed (RemoveFrom (js ''c1'')) demoBobRq"
    using demoRemove_routed by (simp add: routed_def demoBobRq_def)
  have ids: "\<not> conversation_exists (rl_db demoTokens) (fr_id demoFresh)" "conversation_exists (rl_db demoTokens) (js ''c1'')"
    by (simp_all add: conversation_exists_def demoTokens_def demoRelay_def demoDb_def demoFresh_def js_def)
  show ?thesis
    using membership_changes_authorised [OF routed s demo_db_inv ids] demo_bob demo_bob_rights s by auto
qed

text \<open>Signing up works and takes nothing from anyone: a request with a listed invite code, from a
  source that is not locked, for a name nobody has and with a fresh id and token, is answered
  201 with a token that authenticates as the new user id, and every token that was valid still
  names the same user; a request with any other code changes no table.\<close>

theorem signup_token_works:
  assumes body: "bodyOf SignupBodySchema (rq_body rq) = Some (username, code)"
    and unlocked: "fst (isLocked (fr_now fr) (rl_lockout r) (rq_ip rq)) = False"
    and fresh: "username \<notin> us_username ` set (db_users (rl_db r))" "fr_id fr \<notin> us_id ` set (db_users (rl_db r))"
      "hashToken K (fr_token fr) \<notin> us_tokenHash ` set (db_users (rl_db r))"
  shows "(code \<in> set (cf_inviteCodes cfg) \<longrightarrow> (\<exists>r'. routeSignup K cfg fr rq r =
        (Reply 201 (JObj [(js ''userId'', JStr (fr_id fr)), (js ''token'', JStr (fr_token fr))]), r')
      \<and> authenticateToken K (rl_db r') (fr_token fr) = Some (fr_id fr)
      \<and> (\<forall>t u. authenticateToken K (rl_db r) t = Some u \<longrightarrow> authenticateToken K (rl_db r') t = Some u)))
    \<and> (code \<notin> set (cf_inviteCodes cfg) \<longrightarrow> (\<exists>r'. routeSignup K cfg fr rq r = (failWith 403 ''invalid_invite_code'', r')
      \<and> rl_db r' = rl_db r))"
proof -
  obtain lo where lo: "isLocked (fr_now fr) (rl_lockout r) (rq_ip rq) = (False, lo)"
    using unlocked by (cases "isLocked (fr_now fr) (rl_lockout r) (rq_ip rq)") auto
  have nf: "List.find (\<lambda>u. us_username u = username) (db_users (rl_db r)) = None"
    "List.find (\<lambda>u. us_tokenHash u = hashToken K (fr_token fr)) (db_users (rl_db r)) = None"
    using fresh unfolding find_None_iff by (metis imageI)+
  have cu: "createUser (rl_db r) (fr_id fr) username (hashToken K (fr_token fr)) =
    Inr ((rl_db r)\<lparr>db_users := db_users (rl_db r) @ [\<lparr>us_id = fr_id fr, us_username = username, us_tokenHash = hashToken K (fr_token fr)\<rparr>]\<rparr>)"
    using fresh by (simp add: createUser_def)
  show ?thesis
    unfolding routeSignup_def body authenticateToken_find
    by (simp add: lo nf cu Let_def find_snoc del: find_None_iff split: option.splits)
qed

definition demoSignup :: Request where
  "demoSignup = \<lparr>rq_url = js ''/signup'', rq_authorization = None, rq_ip = js ''ip'',
     rq_body = Some (JObj [(js ''username'', JStr (js ''dave'')), (js ''inviteCode'', JStr (js ''sesame''))]), rq_deviceId = None\<rparr>"

theorem signup_token_works_witness:
  "\<exists>r'. routeSignup demoLib demoConfig demoFresh demoSignup demoTokens =
      (Reply 201 (JObj [(js ''userId'', JStr (js ''n1'')), (js ''token'', JStr (js ''tok''))]), r')
    \<and> authenticateToken demoLib (rl_db r') (js ''tok'') = Some (js ''n1'')"
proof -
  have b: "bodyOf SignupBodySchema (rq_body demoSignup) = Some (js ''dave'', js ''sesame'')"
    by (simp add: bodyOf_def demoSignup_def SignupBodySchema_def SignupRequestSchema_def z_object_def z_str1_def js_def)
  have l: "fst (isLocked (fr_now demoFresh) (rl_lockout demoTokens) (rq_ip demoSignup)) = False"
    by (simp add: isLocked_def demoTokens_def demoRelay_def newLockout_def)
  have "hashToken demoLib (js ''tok'') \<noteq> hashToken demoLib (js ''tok-bob'')"
    by (simp add: hashToken_def demoLib_def toHex_inj length_utf8Encode_js be_bytes_inj del: be_bytes.simps)
  then have u: "js ''dave'' \<notin> us_username ` set (db_users (rl_db demoTokens))" "fr_id demoFresh \<notin> us_id ` set (db_users (rl_db demoTokens))"
    "hashToken demoLib (fr_token demoFresh) \<notin> us_tokenHash ` set (db_users (rl_db demoTokens))"
    using demo_hashToken_other [of "js ''alice''" "js ''tok''"]
    by (auto simp: demoTokens_def demoRelay_def demoUser_def demoFresh_def) (simp_all add: js_def)
  have "js ''sesame'' \<in> set (cf_inviteCodes demoConfig)" by (simp add: demoConfig_def)
  then show ?thesis
    using signup_token_works [OF b l u, of demoConfig] by (auto simp: demoFresh_def)
qed

end
