(* ===== verification/DualWrite.thy ===== *)
theory DualWrite
  imports OpService RestProps
begin

section \<open>The dual write: op log and relay tables (\<^verbatim>\<open>client.ts\<close>, \<^verbatim>\<open>service.ts\<close>, \<^verbatim>\<open>db.ts\<close>)\<close>

text \<open>
  The client sends every membership change twice: over REST to the relay, which keeps rows
  (\<open>dbCreateConversation\<close>, \<open>inviteMember\<close>, \<open>removeMember\<close>, \<open>setAiMode\<close>), and to the op-log
  service, which signs an op. Both are membership authorities (\<open>svc\<close>, \<open>rdb\<close>), so the same
  commands leave both with the same members and mode: the relay's rows and the fold of the
  signed chain agree as long as nobody else writes to either.
\<close>

lemma createConversation_room:
  assumes "memberships_inv db" "\<not> conversation_exists db conv" "dbCreateConversation db conv u us mode = Inr db1"
  shows "dbRoom n db1 conv" "active_members db1 conv = insert u (set us)" "getAiMode db1 conv = mode"
  using createConversation_spec [OF assms, of conv] by (simp_all add: dbRoom_def)

text \<open>C13: the dual write keeps both sides equal: a conversation the founder creates through the
  service and in the relay's database, followed by any sequence of invites, removals and
  AI-mode switches of known users given to both, succeeds on both, and the member list and mode
  folded from the signed chain are those of the relay's rows, namely what applying the commands
  in order to the initial set gives.\<close>

theorem dual_write_agrees:
  assumes "key_pair K (sv_publicKey sv) (sv_privateKey sv)" "lib_sizes K (sv_privateKey sv)"
    and "create_fits sv (sv_selfUserId sv) ms conv" "length cmds < 2 ^ 64" "\<forall>m \<in> set cmds. svAdmits sv m"
    and "memberships_inv db" "\<not> conversation_exists db conv"
    and "dbCreateConversation db conv (sv_selfUserId sv) ms mode = Inr db1" "\<forall>m \<in> set cmds. dbAdmits db1 m"
  shows "\<exists>sv1 sv2 db2. svCreateConversation K e sv (sv_selfUserId sv) ms mode conv = (Inr conv, sv1)
    \<and> run_cmds (svExec K e) sv1 conv cmds = Some sv2 \<and> run_cmds (dbExec pick now) db1 conv cmds = Some db2
    \<and> svMem sv2 conv = active_members db2 conv \<and> svMode sv2 conv = getAiMode db2 conv
    \<and> active_members db2 conv = foldl (\<lambda>S m. cmd_members m S) (insert (sv_selfUserId sv) (set ms)) cmds
    \<and> getAiMode db2 conv = foldl (\<lambda>b m. cmd_mode m b) mode cmds"
proof -
  obtain sv1 where sv1: "svCreateConversation K e sv (sv_selfUserId sv) ms mode conv = (Inr conv, sv1)"
    "svRoom K (length cmds) sv1 conv" "svMem sv1 conv = insert (sv_selfUserId sv) (set ms)" "svMode sv1 conv = mode"
    using svCreate_room [OF assms(1-4), of e mode] by blast
  have "\<forall>m \<in> set cmds. svAdmits sv1 m" using assms(5) by (simp add: svAdmits_def)
  then show ?thesis
    using svc.run_spec [OF sv1(2), of e] sv1 createConversation_room [OF assms(6-8)]
      rdb.run_spec [where ms = cmds and s = db1 and c = conv and pick = pick and now = now] assms(9) by auto
qed

definition demoTables :: Db where
  "demoTables = demoDb\<lparr>db_conversations := [], db_memberships := []\<rparr>"

theorem dual_write_agrees_witness:
  "\<exists>db1 sv1 sv2 db2. dbCreateConversation demoTables (js ''c1'') (js ''alice'') [js ''bob''] False = Inr db1
    \<and> svCreateConversation demoLib [] (demoService (js ''alice'')) (js ''alice'') [js ''bob''] False (js ''c1'') = (Inr (js ''c1''), sv1)
    \<and> run_cmds (svExec demoLib []) sv1 (js ''c1'') [AddUser (js ''carol''), DropUser (js ''bob''), SetMode True] = Some sv2
    \<and> run_cmds (dbExec (\<lambda>_. 0) 7) db1 (js ''c1'') [AddUser (js ''carol''), DropUser (js ''bob''), SetMode True] = Some db2
    \<and> svMem sv2 (js ''c1'') = active_members db2 (js ''c1'') \<and> svMode sv2 (js ''c1'') = getAiMode db2 (js ''c1'')
    \<and> active_members db2 (js ''c1'') = {js ''alice'', js ''carol''}
    \<and> getAiMode db2 (js ''c1'')"
proof -
  let ?cmds = "[AddUser (js ''carol''), DropUser (js ''bob''), SetMode True]"
  have self: "sv_selfUserId (demoService (js ''alice'')) = js ''alice''" by (simp add: demoService_def)
  have tables: "memberships_inv demoTables" "\<not> conversation_exists demoTables (js ''c1'')"
    by (simp_all add: memberships_inv_def conversation_exists_def demoTables_def demoDb_def)
  have "\<exists>db1. dbCreateConversation demoTables (js ''c1'') (js ''alice'') [js ''bob''] False = Inr db1 \<and> db_users db1 = db_users demoTables"
    by (simp add: dbCreateConversation_def createMembership_def demoTables_def demoDb_def demoUser_def
        user_exists_def conversation_exists_def js_set_of_def js_set_add_def js_def)
  then obtain db1 where db1: "dbCreateConversation demoTables (js ''c1'') (js ''alice'') [js ''bob''] False = Inr db1"
    "db_users db1 = db_users demoTables" by blast
  have adm: "\<forall>m \<in> set ?cmds. dbAdmits db1 m" "\<forall>m \<in> set ?cmds. svAdmits (demoService (js ''alice'')) m"
    using db1(2) by (simp_all add: dbAdmits_def user_exists_def demoTables_def demoDb_def demoUser_def svAdmits_def length_utf8Encode_js)
  have "foldl (\<lambda>S m. cmd_members m S) (insert (js ''alice'') (set [js ''bob''])) ?cmds = {js ''alice'', js ''carol''}"
    by (auto simp: cmd_members_def js_def)
  moreover have "foldl (\<lambda>b m. cmd_mode m b) False ?cmds" by (simp add: cmd_mode_def)
  ultimately show ?thesis
    using dual_write_agrees [of demoLib "demoService (js ''alice'')" "[js ''bob'']" "js ''c1''" ?cmds demoTables False db1
        "[]" "\<lambda>_. 0" 7]
      demoService_lib [of "js ''alice''"] adm tables db1(1) unfolding self by auto
qed

end
