(* ===== verification/CoreStores.thy ===== *)
theory CoreStores
  imports Base64 Proto
begin

section \<open>Protocol stores and prekeys (\<^verbatim>\<open>packages/core\<close>)\<close>

text \<open>
  The in-memory stores of \<^verbatim>\<open>core/src/stores.ts\<close>, the prekey manager of \<^verbatim>\<open>prekeys.ts\<close>, the
  identity of \<^verbatim>\<open>identity.ts\<close> and the wire form of a bundle of \<^verbatim>\<open>wire.ts\<close>. The objects libsignal
  hands out (keys, session and prekey records) stand as their serialised bytes; the stores keep
  exactly those. What libsignal computes is a parameter: \<open>prekey_lib\<close> for key pairs, signatures
  and the serialisation of records. A \<^verbatim>\<open>Map\<close> is an association list in insertion order.

  Shown: what a store returns after a save, and that \<^verbatim>\<open>fromJSON\<close> of \<^verbatim>\<open>toJSON\<close> gives the stores
  back, the logs of observed changes apart (\<open>coreFromJSON_toJSON\<close>); a bundle survives the wire
  (\<open>bundleFromWire_toWire\<close>).
\<close>

subsection \<open>Addresses\<close>

record DeviceAddress =
  da_userId :: jsstring
  da_deviceId :: int

fun decimalDigits :: "nat \<Rightarrow> jsstring" where
  "decimalDigits n = (if n < 10 then [of_nat (48 + n)] else decimalDigits (n div 10) @ [of_nat (48 + n mod 10)])"

declare decimalDigits.simps [simp del]

definition js_of_int :: "int \<Rightarrow> jsstring" where
  "js_of_int i = (if i < 0 then 45 # decimalDigits (nat (- i)) else decimalDigits (nat i))"

definition dot :: "16 word" where "dot = 46"

definition addressKey :: "DeviceAddress \<Rightarrow> jsstring" where
  "addressKey a = da_userId a @ dot # js_of_int (da_deviceId a)"

fun coreBytesEqual :: "bytes \<Rightarrow> bytes \<Rightarrow> bool" where
  "coreBytesEqual [] [] = True"
| "coreBytesEqual (x # xs) (y # ys) = (if x \<noteq> y then False else coreBytesEqual xs ys)"
| "coreBytesEqual _ _ = False"

subsection \<open>The identity store\<close>

datatype IdentityChange = NewOrUnchanged | ReplacedExisting

record IdentityChangeRecord =
  ic_address :: jsstring
  ic_change :: IdentityChange
  ic_observedAt :: int

record IdentityStore =
  is_privateKey :: bytes
  is_registrationId :: int
  is_remoteIdentities :: "(jsstring \<times> bytes) list"
  is_changeLog :: "IdentityChangeRecord list"

record SerializedIdentityStore =
  sis_privateKey :: jsstring
  sis_registrationId :: int
  sis_remoteIdentities :: "(jsstring \<times> jsstring) list"

definition newIdentityStore :: "bytes \<Rightarrow> int \<Rightarrow> IdentityStore" where
  "newIdentityStore privateKey registrationId =
     \<lparr>is_privateKey = privateKey, is_registrationId = registrationId, is_remoteIdentities = [], is_changeLog = []\<rparr>"

definition saveIdentity :: "int \<Rightarrow> IdentityStore \<Rightarrow> DeviceAddress \<Rightarrow> bytes \<Rightarrow> IdentityChange \<times> IdentityStore" where
  "saveIdentity now st name key =
     (let addrKey = addressKey name;
          change = (case map_of (is_remoteIdentities st) addrKey of
            None \<Rightarrow> NewOrUnchanged
          | Some existing \<Rightarrow> if \<not> coreBytesEqual existing key then ReplacedExisting else NewOrUnchanged)
      in (change, st\<lparr>is_remoteIdentities := amap_set (is_remoteIdentities st) addrKey key,
            is_changeLog := is_changeLog st @ [\<lparr>ic_address = addrKey, ic_change = change, ic_observedAt = now\<rparr>]\<rparr>))"

definition isTrustedIdentity :: "IdentityStore \<Rightarrow> DeviceAddress \<Rightarrow> bytes \<Rightarrow> bool" where
  "isTrustedIdentity st name key = True"

definition getIdentity :: "IdentityStore \<Rightarrow> DeviceAddress \<Rightarrow> bytes option" where
  "getIdentity st name = map_of (is_remoteIdentities st) (addressKey name)"

text \<open>The two directions between a map of bytes and its JSON entries.\<close>

definition encodeEntries :: "('k \<times> bytes) list \<Rightarrow> ('k \<times> jsstring) list" where
  "encodeEntries m = map (\<lambda>(k, v). (k, base64Encode v)) m"

definition decodeEntries :: "('k \<times> jsstring) list \<Rightarrow> ('k \<times> bytes) list" where
  "decodeEntries es = foldl (\<lambda>m (k, v). amap_set m k (base64Decode v)) [] es"

definition identityToJSON :: "IdentityStore \<Rightarrow> SerializedIdentityStore" where
  "identityToJSON st = \<lparr>sis_privateKey = base64Encode (is_privateKey st), sis_registrationId = is_registrationId st,
     sis_remoteIdentities = encodeEntries (is_remoteIdentities st)\<rparr>"

definition identityFromJSON :: "SerializedIdentityStore \<Rightarrow> IdentityStore" where
  "identityFromJSON d = (newIdentityStore (base64Decode (sis_privateKey d)) (sis_registrationId d))
     \<lparr>is_remoteIdentities := decodeEntries (sis_remoteIdentities d)\<rparr>"

subsection \<open>Session and prekey stores\<close>

datatype store_error = NoSession jsstring | NoPreKey int | NoSignedPreKey int | NoKyberPreKey int

type_synonym SessionStore = "(jsstring \<times> bytes) list"
type_synonym IdKeyedStore = "(int \<times> bytes) list"

definition saveSession :: "SessionStore \<Rightarrow> DeviceAddress \<Rightarrow> bytes \<Rightarrow> SessionStore" where
  "saveSession st name record = amap_set st (addressKey name) record"

definition getSession :: "SessionStore \<Rightarrow> DeviceAddress \<Rightarrow> bytes option" where
  "getSession st name = map_of st (addressKey name)"

fun getExistingSessions :: "SessionStore \<Rightarrow> DeviceAddress list \<Rightarrow> store_error + bytes list" where
  "getExistingSessions st [] = Inr []"
| "getExistingSessions st (a # as) =
     (case map_of st (addressKey a) of
        None \<Rightarrow> Inl (NoSession (addressKey a))
      | Some raw \<Rightarrow> rbind (getExistingSessions st as) (\<lambda>rs. Inr (raw # rs)))"

definition sessionToJSON :: "SessionStore \<Rightarrow> (jsstring \<times> jsstring) list" where
  "sessionToJSON st = encodeEntries st"

definition sessionFromJSON :: "(jsstring \<times> jsstring) list \<Rightarrow> SessionStore" where
  "sessionFromJSON d = decodeEntries d"

definition savePreKey :: "IdKeyedStore \<Rightarrow> int \<Rightarrow> bytes \<Rightarrow> IdKeyedStore" where
  "savePreKey st i record = amap_set st i record"

definition getPreKey :: "IdKeyedStore \<Rightarrow> int \<Rightarrow> store_error + bytes" where
  "getPreKey st i = (case map_of st i of None \<Rightarrow> Inl (NoPreKey i) | Some raw \<Rightarrow> Inr raw)"

definition removePreKey :: "IdKeyedStore \<Rightarrow> int \<Rightarrow> IdKeyedStore" where
  "removePreKey st i = amap_del st i"

definition preKeyToJSON :: "IdKeyedStore \<Rightarrow> (int \<times> jsstring) list" where
  "preKeyToJSON st = encodeEntries st"

definition preKeyFromJSON :: "(int \<times> jsstring) list \<Rightarrow> IdKeyedStore" where
  "preKeyFromJSON d = decodeEntries d"

definition saveSignedPreKey :: "IdKeyedStore \<Rightarrow> int \<Rightarrow> bytes \<Rightarrow> IdKeyedStore" where
  "saveSignedPreKey st i record = amap_set st i record"

definition getSignedPreKey :: "IdKeyedStore \<Rightarrow> int \<Rightarrow> store_error + bytes" where
  "getSignedPreKey st i = (case map_of st i of None \<Rightarrow> Inl (NoSignedPreKey i) | Some raw \<Rightarrow> Inr raw)"

definition signedPreKeyToJSON :: "IdKeyedStore \<Rightarrow> (int \<times> jsstring) list" where
  "signedPreKeyToJSON st = encodeEntries st"

definition signedPreKeyFromJSON :: "(int \<times> jsstring) list \<Rightarrow> IdKeyedStore" where
  "signedPreKeyFromJSON d = decodeEntries d"

record KyberPreKeyUsage =
  ku_kyberPreKeyId :: int
  ku_signedPreKeyId :: int

record KyberPreKeyStore =
  kp_preKeys :: IdKeyedStore
  kp_usageLog :: "KyberPreKeyUsage list"

definition saveKyberPreKey :: "KyberPreKeyStore \<Rightarrow> int \<Rightarrow> bytes \<Rightarrow> KyberPreKeyStore" where
  "saveKyberPreKey st i record = st\<lparr>kp_preKeys := amap_set (kp_preKeys st) i record\<rparr>"

definition getKyberPreKey :: "KyberPreKeyStore \<Rightarrow> int \<Rightarrow> store_error + bytes" where
  "getKyberPreKey st i = (case map_of (kp_preKeys st) i of None \<Rightarrow> Inl (NoKyberPreKey i) | Some raw \<Rightarrow> Inr raw)"

definition markKyberPreKeyUsed :: "KyberPreKeyStore \<Rightarrow> int \<Rightarrow> int \<Rightarrow> KyberPreKeyStore" where
  "markKyberPreKeyUsed st kyberId signedId =
     st\<lparr>kp_usageLog := kp_usageLog st @ [\<lparr>ku_kyberPreKeyId = kyberId, ku_signedPreKeyId = signedId\<rparr>]\<rparr>"

definition kyberToJSON :: "KyberPreKeyStore \<Rightarrow> (int \<times> jsstring) list" where
  "kyberToJSON st = encodeEntries (kp_preKeys st)"

definition kyberFromJSON :: "(int \<times> jsstring) list \<Rightarrow> KyberPreKeyStore" where
  "kyberFromJSON d = \<lparr>kp_preKeys = decodeEntries d, kp_usageLog = []\<rparr>"

subsection \<open>All five stores\<close>

record CoreStores =
  co_identity :: IdentityStore
  co_session :: SessionStore
  co_preKey :: IdKeyedStore
  co_signedPreKey :: IdKeyedStore
  co_kyberPreKey :: KyberPreKeyStore

record SerializedStores =
  ss_identity :: SerializedIdentityStore
  ss_sessions :: "(jsstring \<times> jsstring) list"
  ss_preKeys :: "(int \<times> jsstring) list"
  ss_signedPreKeys :: "(int \<times> jsstring) list"
  ss_kyberPreKeys :: "(int \<times> jsstring) list"

definition createStores :: "bytes \<Rightarrow> int \<Rightarrow> CoreStores" where
  "createStores privateKey registrationId =
     \<lparr>co_identity = newIdentityStore privateKey registrationId, co_session = [], co_preKey = [],
      co_signedPreKey = [], co_kyberPreKey = \<lparr>kp_preKeys = [], kp_usageLog = []\<rparr>\<rparr>"

definition coreToJSON :: "CoreStores \<Rightarrow> SerializedStores" where
  "coreToJSON st = \<lparr>ss_identity = identityToJSON (co_identity st), ss_sessions = sessionToJSON (co_session st),
     ss_preKeys = preKeyToJSON (co_preKey st), ss_signedPreKeys = signedPreKeyToJSON (co_signedPreKey st),
     ss_kyberPreKeys = kyberToJSON (co_kyberPreKey st)\<rparr>"

definition coreFromJSON :: "SerializedStores \<Rightarrow> CoreStores" where
  "coreFromJSON d = \<lparr>co_identity = identityFromJSON (ss_identity d), co_session = sessionFromJSON (ss_sessions d),
     co_preKey = preKeyFromJSON (ss_preKeys d), co_signedPreKey = signedPreKeyFromJSON (ss_signedPreKeys d),
     co_kyberPreKey = kyberFromJSON (ss_kyberPreKeys d)\<rparr>"

subsection \<open>Identity and prekeys\<close>

definition MIN_REGISTRATION_ID :: int where "MIN_REGISTRATION_ID = 1"
definition MAX_REGISTRATION_ID :: int where "MAX_REGISTRATION_ID = 16380"

text \<open>\<^verbatim>\<open>randomInt(min, max)\<close> draws from \<open>[min, max)\<close>; the draw is \<open>d\<close>.\<close>

definition generateRegistrationId :: "nat \<Rightarrow> int" where
  "generateRegistrationId d = MIN_REGISTRATION_ID + int d mod (MAX_REGISTRATION_ID + 1 - MIN_REGISTRATION_ID)"

record Identity =
  id_publicKey :: bytes
  id_privateKey :: bytes
  id_registrationId :: int

text \<open>A prekey record of any kind, with the accessors the code uses; the EC one-time prekey has no signature.\<close>

record PreKeyRecord =
  pr_id :: int
  pr_publicKey :: bytes
  pr_privateKey :: bytes
  pr_signature :: bytes

record prekey_lib =
  pl_generate :: "nat \<Rightarrow> bytes \<times> bytes"
  pl_sign :: "bytes \<Rightarrow> bytes \<Rightarrow> bytes"
  pl_serialize :: "PreKeyRecord \<Rightarrow> bytes"

definition generateSignedPreKey :: "prekey_lib \<Rightarrow> nat \<Rightarrow> bytes \<Rightarrow> int \<Rightarrow> PreKeyRecord" where
  "generateSignedPreKey L n identityPrivateKey i =
     (case pl_generate L n of (pub, priv) \<Rightarrow>
        \<lparr>pr_id = i, pr_publicKey = pub, pr_privateKey = priv, pr_signature = pl_sign L identityPrivateKey pub\<rparr>)"

definition generateKyberPreKey :: "prekey_lib \<Rightarrow> nat \<Rightarrow> bytes \<Rightarrow> int \<Rightarrow> PreKeyRecord" where
  "generateKyberPreKey L n identityPrivateKey i =
     (case pl_generate L n of (pub, priv) \<Rightarrow>
        \<lparr>pr_id = i, pr_publicKey = pub, pr_privateKey = priv, pr_signature = pl_sign L identityPrivateKey pub\<rparr>)"

definition generateOneTimePreKeys :: "prekey_lib \<Rightarrow> nat \<Rightarrow> int \<Rightarrow> nat \<Rightarrow> PreKeyRecord list" where
  "generateOneTimePreKeys L n startId count =
     map (\<lambda>i. case pl_generate L (n + i) of (pub, priv) \<Rightarrow>
        \<lparr>pr_id = startId + int i, pr_publicKey = pub, pr_privateKey = priv, pr_signature = []\<rparr>) [0..<count]"

record ProvisionedPreKeys =
  pv_signedPreKey :: PreKeyRecord
  pv_kyberPreKey :: PreKeyRecord
  pv_oneTimePreKeys :: "PreKeyRecord list"

definition provision ::
    "prekey_lib \<Rightarrow> nat \<Rightarrow> CoreStores \<Rightarrow> bytes \<Rightarrow> int \<Rightarrow> int \<Rightarrow> int \<Rightarrow> nat \<Rightarrow> ProvisionedPreKeys \<times> CoreStores" where
  "provision L n st identityPrivateKey signedPreKeyId kyberPreKeyId startId count =
     (let sp = generateSignedPreKey L n identityPrivateKey signedPreKeyId;
          kp = generateKyberPreKey L (n + 1) identityPrivateKey kyberPreKeyId;
          otps = generateOneTimePreKeys L (n + 2) startId count;
          st1 = st\<lparr>co_signedPreKey := saveSignedPreKey (co_signedPreKey st) signedPreKeyId (pl_serialize L sp)\<rparr>;
          st2 = st1\<lparr>co_kyberPreKey := saveKyberPreKey (co_kyberPreKey st1) kyberPreKeyId (pl_serialize L kp)\<rparr>;
          st3 = st2\<lparr>co_preKey := foldl (\<lambda>m k. savePreKey m (pr_id k) (pl_serialize L k)) (co_preKey st2) otps\<rparr>
      in (\<lparr>pv_signedPreKey = sp, pv_kyberPreKey = kp, pv_oneTimePreKeys = otps\<rparr>, st3))"

record PreKeyBundle =
  bn_registrationId :: int
  bn_deviceId :: int
  bn_preKey :: "(int \<times> bytes) option"
  bn_signedPreKeyId :: int
  bn_signedPreKeyPublic :: bytes
  bn_signedPreKeySignature :: bytes
  bn_identityKey :: bytes
  bn_kyberPreKeyId :: int
  bn_kyberPreKeyPublic :: bytes
  bn_kyberPreKeySignature :: bytes

definition buildBundle :: "int \<Rightarrow> int \<Rightarrow> bytes \<Rightarrow> PreKeyRecord \<Rightarrow> PreKeyRecord \<Rightarrow> PreKeyRecord option \<Rightarrow> PreKeyBundle" where
  "buildBundle registrationId deviceId identityKey sp kp otp =
     \<lparr>bn_registrationId = registrationId, bn_deviceId = deviceId,
      bn_preKey = map_option (\<lambda>k. (pr_id k, pr_publicKey k)) otp,
      bn_signedPreKeyId = pr_id sp, bn_signedPreKeyPublic = pr_publicKey sp, bn_signedPreKeySignature = pr_signature sp,
      bn_identityKey = identityKey,
      bn_kyberPreKeyId = pr_id kp, bn_kyberPreKeyPublic = pr_publicKey kp, bn_kyberPreKeySignature = pr_signature kp\<rparr>"

subsection \<open>The wire form of a bundle\<close>

definition bundleToWire :: "PreKeyBundle \<Rightarrow> jsstring \<Rightarrow> PreKeyBundlePublic" where
  "bundleToWire b userId =
     \<lparr>pb_userId = userId, pb_deviceId = bn_deviceId b, pb_registrationId = bn_registrationId b,
      pb_identityKey = base64Encode (bn_identityKey b), pb_signedPreKeyId = bn_signedPreKeyId b,
      pb_signedPreKeyPublic = base64Encode (bn_signedPreKeyPublic b),
      pb_signedPreKeySignature = base64Encode (bn_signedPreKeySignature b),
      pb_preKeyId = map_option fst (bn_preKey b), pb_preKeyPublic = map_option (\<lambda>k. base64Encode (snd k)) (bn_preKey b),
      pb_kyberPreKeyId = bn_kyberPreKeyId b, pb_kyberPreKeyPublic = base64Encode (bn_kyberPreKeyPublic b),
      pb_kyberPreKeySignature = base64Encode (bn_kyberPreKeySignature b)\<rparr>"

text \<open>
  \<open>ecOk\<close> and \<open>kemOk\<close>: the byte strings \<^verbatim>\<open>PublicKey.deserialize\<close> and \<^verbatim>\<open>KEMPublicKey.deserialize\<close>
  accept. \<^verbatim>\<open>PreKeyBundle.new\<close> takes the id and the key of the one-time prekey together or not at
  all; an empty \<^verbatim>\<open>preKeyPublic\<close> counts as absent.
\<close>

definition bundleFromWire :: "(bytes \<Rightarrow> bool) \<Rightarrow> (bytes \<Rightarrow> bool) \<Rightarrow> PreKeyBundlePublic \<Rightarrow> PreKeyBundle option" where
  "bundleFromWire ecOk kemOk w =
     (let pub = (case pb_preKeyPublic w of None \<Rightarrow> None | Some p \<Rightarrow> if p = [] then None else Some (base64Decode p)) in
      if (case pub of None \<Rightarrow> False | Some k \<Rightarrow> \<not> ecOk k) then None
      else if \<not> ecOk (base64Decode (pb_signedPreKeyPublic w)) then None
      else if \<not> ecOk (base64Decode (pb_identityKey w)) then None
      else if \<not> kemOk (base64Decode (pb_kyberPreKeyPublic w)) then None
      else if (pb_preKeyId w = None) \<noteq> (pub = None) then None
      else Some \<lparr>bn_registrationId = pb_registrationId w, bn_deviceId = pb_deviceId w,
        bn_preKey = (case (pb_preKeyId w, pub) of (Some i, Some k) \<Rightarrow> Some (i, k) | _ \<Rightarrow> None),
        bn_signedPreKeyId = pb_signedPreKeyId w, bn_signedPreKeyPublic = base64Decode (pb_signedPreKeyPublic w),
        bn_signedPreKeySignature = base64Decode (pb_signedPreKeySignature w), bn_identityKey = base64Decode (pb_identityKey w),
        bn_kyberPreKeyId = pb_kyberPreKeyId w, bn_kyberPreKeyPublic = base64Decode (pb_kyberPreKeyPublic w),
        bn_kyberPreKeySignature = base64Decode (pb_kyberPreKeySignature w)\<rparr>)"

subsection \<open>Lemmas\<close>

lemma coreBytesEqual_iff [simp]: "coreBytesEqual a b \<longleftrightarrow> a = b"
  by (induction a b rule: coreBytesEqual.induct) auto

lemma decimalDigits_range: "u \<in> set (decimalDigits n) \<Longrightarrow> 48 \<le> unat u \<and> unat u \<le> 57"
proof (induction n rule: decimalDigits.induct)
  case (1 n)
  have "unat (of_nat (48 + k) :: 16 word) = 48 + k" if "k < 10" for k :: nat
    using that by (intro unat_of_nat_16) simp
  then have digit: "48 \<le> unat (of_nat (48 + k) :: 16 word) \<and> unat (of_nat (48 + k) :: 16 word) \<le> 57" if "k < 10" for k :: nat
    using that by simp
  show ?case
    using 1 digit [of n] digit [of "n mod 10"] by (auto simp: decimalDigits.simps [of n] split: if_splits)
qed

lemma dot_not_digit: "dot \<notin> set (js_of_int i)"
  using decimalDigits_range [of dot] by (auto simp: js_of_int_def dot_def)

text \<open>What the client reads back after the last dot of an address key.\<close>

definition afterLastDot :: "jsstring \<Rightarrow> jsstring" where
  "afterLastDot s = rev (takeWhile (\<lambda>u. u \<noteq> dot) (rev s))"

definition beforeLastDot :: "jsstring \<Rightarrow> jsstring" where
  "beforeLastDot s = take (length s - length (afterLastDot s) - 1) s"

lemma takeWhile_append_stop: "\<forall>x \<in> set xs. P x \<Longrightarrow> \<not> P y \<Longrightarrow> takeWhile P (xs @ y # ys) = xs"
  by (induction xs) auto

lemma addressKey_split:
  "afterLastDot (addressKey a) = js_of_int (da_deviceId a)" "beforeLastDot (addressKey a) = da_userId a"
proof -
  have "takeWhile (\<lambda>u. u \<noteq> dot) (rev (js_of_int (da_deviceId a)) @ dot # rev (da_userId a)) = rev (js_of_int (da_deviceId a))"
    using dot_not_digit by (intro takeWhile_append_stop) auto
  then show a: "afterLastDot (addressKey a) = js_of_int (da_deviceId a)"
    by (simp add: afterLastDot_def addressKey_def)
  show "beforeLastDot (addressKey a) = da_userId a"
    unfolding beforeLastDot_def a by (simp add: addressKey_def)
qed

lemma saveIdentity_get:
  "saveIdentity now st a k = (ch, st') \<Longrightarrow> getIdentity st' b = (if addressKey b = addressKey a then Some k else getIdentity st b)
     \<and> (ch = ReplacedExisting \<longleftrightarrow> (\<exists>k'. getIdentity st a = Some k' \<and> k' \<noteq> k))"
  by (auto simp: saveIdentity_def getIdentity_def Let_def map_of_amap_set split: option.splits if_splits)

lemma decode_encode_entries:
  assumes "amap_ok m"
  shows "decodeEntries (encodeEntries m) = m"
proof -
  have "foldl (\<lambda>m (k, v). amap_set m k (base64Decode v)) acc (encodeEntries m) = foldl (\<lambda>a (k, v). amap_set a k v) acc m" for acc
    by (induction m arbitrary: acc) (auto simp: encodeEntries_def base64_roundtrip)
  then show ?thesis using amap_rebuild [OF assms] by (simp add: decodeEntries_def)
qed

text \<open>The maps of a store have no repeated key.\<close>

definition core_ok :: "CoreStores \<Rightarrow> bool" where
  "core_ok st \<longleftrightarrow> amap_ok (is_remoteIdentities (co_identity st)) \<and> amap_ok (co_session st) \<and> amap_ok (co_preKey st)
     \<and> amap_ok (co_signedPreKey st) \<and> amap_ok (kp_preKeys (co_kyberPreKey st))"

lemma core_ok_create: "core_ok (createStores k r)"
  by (simp add: core_ok_def createStores_def newIdentityStore_def)

text \<open>A store set without what serialisation drops.\<close>

definition persistent :: "CoreStores \<Rightarrow> CoreStores" where
  "persistent st = st\<lparr>co_identity := (co_identity st)\<lparr>is_changeLog := []\<rparr>, co_kyberPreKey := (co_kyberPreKey st)\<lparr>kp_usageLog := []\<rparr>\<rparr>"

lemma coreFromJSON_toJSON: "core_ok st \<Longrightarrow> coreFromJSON (coreToJSON st) = persistent st"
  by (simp add: coreFromJSON_def coreToJSON_def identityFromJSON_def identityToJSON_def newIdentityStore_def sessionFromJSON_def
      sessionToJSON_def preKeyFromJSON_def preKeyToJSON_def signedPreKeyFromJSON_def signedPreKeyToJSON_def kyberFromJSON_def
      kyberToJSON_def persistent_def core_ok_def decode_encode_entries base64_roundtrip)

lemma foldl_savePreKey_ok: "amap_ok m \<Longrightarrow> amap_ok (foldl (\<lambda>m k. savePreKey m (pr_id k) (pl_serialize L k)) m ks)"
  by (induction ks arbitrary: m) (simp_all add: savePreKey_def)

lemma provision_ok: "core_ok st \<Longrightarrow> provision L n st k sp kp i c = (pv, st') \<Longrightarrow> core_ok st'"
  by (auto simp: provision_def Let_def core_ok_def saveSignedPreKey_def saveKyberPreKey_def foldl_savePreKey_ok)

lemma map_of_foldl_savePreKey:
  "distinct (map pr_id ks) \<Longrightarrow> k \<in> set ks \<Longrightarrow>
     map_of (foldl (\<lambda>m k. savePreKey m (pr_id k) (pl_serialize L k)) m ks) (pr_id k) = Some (pl_serialize L k)"
proof (induction ks rule: rev_induct)
  case (snoc x ks)
  then show ?case by (auto simp: savePreKey_def map_of_amap_set image_iff)
qed simp

lemma oneTimePreKeys_ids: "map pr_id (generateOneTimePreKeys L n s c) = map (\<lambda>i. s + int i) [0..<c]"
  by (simp add: generateOneTimePreKeys_def comp_def split_def)

lemma oneTimePreKeys_distinct: "distinct (map pr_id (generateOneTimePreKeys L n s c))"
  unfolding oneTimePreKeys_ids by (simp add: distinct_map inj_on_def)

lemma bundleFromWire_toWire:
  assumes "ecOk (bn_signedPreKeyPublic b)" "ecOk (bn_identityKey b)" "kemOk (bn_kyberPreKeyPublic b)"
    and "pred_option (\<lambda>k. ecOk (snd k) \<and> snd k \<noteq> []) (bn_preKey b)"
  shows "bundleFromWire ecOk kemOk (bundleToWire b u) = Some b"
proof (cases "bn_preKey b")
  case None
  then show ?thesis using assms by (simp add: bundleFromWire_def bundleToWire_def base64_roundtrip Let_def)
next
  case (Some k)
  then show ?thesis using assms by (simp add: bundleFromWire_def bundleToWire_def base64_roundtrip Let_def)
qed

end
