(* ===== verification/ClientStores.thy ===== *)
theory ClientStores
  imports CoreStores DenseLog
begin

section \<open>Client stores (\<^verbatim>\<open>client-sdk/src/stores.ts\<close>)\<close>

text \<open>
  What one client keeps: the five protocol stores of \<open>CoreStores\<close>, the ids of delivered
  messages, the conversations it knows and its contact book. \<open>clientToJSON\<close> and
  \<open>clientFromJSON\<close> are the snapshot a durable store keeps; a conversation's cached op chain is
  appended to by \<open>appendMembershipOp\<close>, which keeps the contract \<open>dense_log\<close>.
\<close>

record CachedMember =
  mc_deviceIds :: "int list"
  mc_joinedAt :: int

record CachedConversation =
  cc_members :: "(jsstring \<times> CachedMember) list"
  cc_aiMode :: bool
  cc_adminUserId :: "jsstring option"
  cc_membershipOps :: "jsstring list"

record DirectoryEntry =
  de_username :: jsstring
  de_deviceIds :: "int list"

record ClientStores =
  st_core :: CoreStores
  st_seenMsgIds :: "jsstring list"
  st_conversations :: "(jsstring \<times> CachedConversation) list"
  st_directory :: "(jsstring \<times> DirectoryEntry) list"

text \<open>In a serialised conversation \<^verbatim>\<open>membershipOps\<close> may be missing (data of an older version).\<close>

record SerializedConversation =
  sc_members :: "(jsstring \<times> CachedMember) list"
  sc_aiMode :: bool
  sc_adminUserId :: "jsstring option"
  sc_membershipOps :: "jsstring list option"

record SerializedClientStores =
  scs_core :: SerializedStores
  scs_seenMsgIds :: "jsstring list"
  scs_directory :: "(jsstring \<times> DirectoryEntry) list"
  scs_conversations :: "(jsstring \<times> SerializedConversation) list"

definition createClientStores :: "Identity \<Rightarrow> ClientStores" where
  "createClientStores i = \<lparr>st_core = createStores (id_privateKey i) (id_registrationId i), st_seenMsgIds = [],
     st_conversations = [], st_directory = []\<rparr>"

definition serializeConversation :: "CachedConversation \<Rightarrow> SerializedConversation" where
  "serializeConversation c = \<lparr>sc_members = cc_members c, sc_aiMode = cc_aiMode c, sc_adminUserId = cc_adminUserId c,
     sc_membershipOps = Some (cc_membershipOps c)\<rparr>"

definition rebuildConversation :: "SerializedConversation \<Rightarrow> CachedConversation" where
  "rebuildConversation c = \<lparr>cc_members = foldl (\<lambda>m (k, v). amap_set m k v) [] (sc_members c), cc_aiMode = sc_aiMode c,
     cc_adminUserId = sc_adminUserId c,
     cc_membershipOps = (case sc_membershipOps c of None \<Rightarrow> [] | Some ops \<Rightarrow> ops)\<rparr>"

definition clientToJSON :: "ClientStores \<Rightarrow> SerializedClientStores" where
  "clientToJSON st = \<lparr>scs_core = coreToJSON (st_core st), scs_seenMsgIds = st_seenMsgIds st, scs_directory = st_directory st,
     scs_conversations = map (\<lambda>(i, c). (i, serializeConversation c)) (st_conversations st)\<rparr>"

definition clientFromJSON :: "SerializedClientStores \<Rightarrow> ClientStores" where
  "clientFromJSON d = \<lparr>st_core = coreFromJSON (scs_core d),
     st_seenMsgIds = foldl js_set_add [] (scs_seenMsgIds d),
     st_conversations = foldl (\<lambda>m (i, c). amap_set m i (rebuildConversation c)) [] (scs_conversations d),
     st_directory = foldl (\<lambda>m (u, e). amap_set m u e) [] (scs_directory d)\<rparr>"

definition appendMembershipOp :: "CachedConversation \<Rightarrow> int \<Rightarrow> jsstring \<Rightarrow> bool \<times> CachedConversation" where
  "appendMembershipOp conv sq encodedOp =
     (if sq \<noteq> int (length (cc_membershipOps conv)) then (False, conv)
      else (True, conv\<lparr>cc_membershipOps := cc_membershipOps conv @ [encodedOp]\<rparr>))"

subsection \<open>The cached chain is a dense log\<close>

type_synonym conversations = "(jsstring \<times> CachedConversation) list"

definition cachedOps :: "conversations \<Rightarrow> jsstring \<Rightarrow> jsstring list" where
  "cachedOps cs conv = (case map_of cs conv of None \<Rightarrow> [] | Some c \<Rightarrow> cc_membershipOps c)"

definition appendCached :: "conversations \<Rightarrow> jsstring \<Rightarrow> int \<Rightarrow> jsstring \<Rightarrow> bool \<times> conversations" where
  "appendCached cs conv sq op =
     (case map_of cs conv of
        None \<Rightarrow> (False, cs)
      | Some c \<Rightarrow> (let (stored, c') = appendMembershipOp c sq op in (stored, amap_set cs conv c')))"

interpretation cachelog: dense_log cachedOps appendCached "\<lambda>cs conv. map_of cs conv \<noteq> None"
  by unfold_locales
    (auto simp: appendCached_def cachedOps_def appendMembershipOp_def map_of_amap_set split: option.splits)

subsection \<open>The snapshot\<close>

definition stores_ok :: "ClientStores \<Rightarrow> bool" where
  "stores_ok st \<longleftrightarrow> core_ok (st_core st) \<and> distinct (st_seenMsgIds st) \<and> amap_ok (st_conversations st) \<and> amap_ok (st_directory st)
     \<and> (\<forall>(i, c) \<in> set (st_conversations st). amap_ok (cc_members c))"

lemma stores_ok_create: "stores_ok (createClientStores i)"
  by (simp add: stores_ok_def createClientStores_def core_ok_create)

lemma rebuild_serialize: "amap_ok (cc_members c) \<Longrightarrow> rebuildConversation (serializeConversation c) = c"
  by (simp add: rebuildConversation_def serializeConversation_def amap_rebuild)

lemma foldl_js_set_add_distinct: "distinct (acc @ xs) \<Longrightarrow> foldl js_set_add acc xs = acc @ xs"
proof (induction xs arbitrary: acc)
  case (Cons x xs)
  then have "js_set_add acc x = acc @ [x]" by (simp add: js_set_add_def)
  then show ?case using Cons.IH [of "acc @ [x]"] Cons.prems by simp
qed simp

lemma rebuild_conversations:
  assumes "amap_ok cs" "\<forall>(i, c) \<in> set cs. amap_ok (cc_members c)"
  shows "foldl (\<lambda>m (i, c). amap_set m i (rebuildConversation c)) [] (map (\<lambda>(i, c). (i, serializeConversation c)) cs) = cs"
proof -
  have "foldl (\<lambda>m (i, c). amap_set m i (rebuildConversation c)) acc (map (\<lambda>(i, c). (i, serializeConversation c)) cs)
      = foldl (\<lambda>m (i, c). amap_set m i c) acc cs" for acc
    using assms(2) by (induction cs arbitrary: acc) (auto simp: rebuild_serialize)
  then show ?thesis using amap_rebuild [OF assms(1)] by simp
qed

lemma client_snapshot:
  assumes "stores_ok st"
  shows "clientFromJSON (clientToJSON st) = st\<lparr>st_core := persistent (st_core st)\<rparr>"
  using assms foldl_js_set_add_distinct [of "[]" "st_seenMsgIds st"]
  by (simp add: stores_ok_def clientFromJSON_def clientToJSON_def coreFromJSON_toJSON rebuild_conversations amap_rebuild)

text \<open>C39: a client's snapshot loses nothing but logs: for stores whose maps have no repeated keys, what
  \<^verbatim>\<open>fromJSON\<close> rebuilds from \<^verbatim>\<open>toJSON\<close> is the same identity, sessions, prekeys, seen message ids,
  contacts and conversations with their op chains, in the same order; only the observed identity
  changes and the Kyber usage log start empty. Taking the snapshot again gives the same data.\<close>

theorem client_stores_roundtrip:
  assumes "stores_ok st"
  shows "clientFromJSON (clientToJSON st) = st\<lparr>st_core := persistent (st_core st)\<rparr>
    \<and> clientToJSON (clientFromJSON (clientToJSON st)) = clientToJSON st"
  unfolding client_snapshot [OF assms]
  by (simp add: clientToJSON_def coreToJSON_def persistent_def identityToJSON_def kyberToJSON_def)

definition demoStores :: ClientStores where
  "demoStores = (createClientStores \<lparr>id_publicKey = [1], id_privateKey = [2], id_registrationId = 7\<rparr>)
     \<lparr>st_seenMsgIds := [js ''m1'', js ''m2''], st_directory := [(js ''u1'', \<lparr>de_username = js ''bob'', de_deviceIds = [1]\<rparr>)],
      st_conversations := [(js ''c1'', \<lparr>cc_members = [(js ''u1'', \<lparr>mc_deviceIds = [1], mc_joinedAt = 3\<rparr>)], cc_aiMode = True,
        cc_adminUserId = None, cc_membershipOps = [js ''AA=='']\<rparr>)]\<rparr>"

theorem client_stores_roundtrip_witness:
  "clientFromJSON (clientToJSON demoStores) = demoStores"
proof -
  have "stores_ok demoStores"
    using stores_ok_create [of "\<lparr>id_publicKey = [1], id_privateKey = [2], id_registrationId = 7\<rparr>"]
    by (simp add: stores_ok_def demoStores_def amap_ok_def)
  then show ?thesis
    using client_stores_roundtrip [of demoStores]
    by (simp add: demoStores_def createClientStores_def createStores_def newIdentityStore_def persistent_def)
qed

end
