(* ===== verification/Session.thy ===== *)
theory Session
  imports CoreStores
begin

section \<open>Sessions and pairwise fan-out (\<^verbatim>\<open>core/src/session.ts\<close>, \<^verbatim>\<open>core/src/group.ts\<close>)\<close>

text \<open>
  \<^verbatim>\<open>SessionManager\<close> hands every ratchet operation to libsignal, which reads and writes the stores;
  the library is the parameter \<open>signal_lib\<close>, a function from the stores to a result and the stores
  it leaves (also when it throws). Its number argument stands for its randomness. The mutex of the
  manager runs one operation at a time, so each is one transition here. \<^verbatim>\<open>GroupFanout\<close> encrypts a
  plaintext once per recipient device and numbers the envelopes per recipient.
\<close>

record signal_lib =
  sg_process :: "nat \<Rightarrow> PreKeyBundle \<Rightarrow> DeviceAddress \<Rightarrow> DeviceAddress \<Rightarrow> SessionStore \<times> IdentityStore \<Rightarrow> bool \<times> SessionStore \<times> IdentityStore"
  sg_encrypt :: "nat \<Rightarrow> bytes \<Rightarrow> DeviceAddress \<Rightarrow> DeviceAddress \<Rightarrow> SessionStore \<times> IdentityStore \<Rightarrow> (bytes \<times> int) option \<times> SessionStore \<times> IdentityStore"
  sg_isPreKeyMessage :: "bytes \<Rightarrow> bool"
  sg_isSignalMessage :: "bytes \<Rightarrow> bool"
  sg_decryptPreKey :: "nat \<Rightarrow> bytes \<Rightarrow> DeviceAddress \<Rightarrow> DeviceAddress \<Rightarrow> CoreStores \<Rightarrow> bytes option \<times> CoreStores"
  sg_decrypt :: "nat \<Rightarrow> bytes \<Rightarrow> DeviceAddress \<Rightarrow> DeviceAddress \<Rightarrow> SessionStore \<times> IdentityStore \<Rightarrow> bytes option \<times> SessionStore \<times> IdentityStore"
  sg_ecKey :: "bytes \<Rightarrow> bool"
  sg_kemKey :: "bytes \<Rightarrow> bool"

datatype session_error = SignalFailed | NotAMessage | UnsupportedType int

definition Whisper :: int where "Whisper = 2"
definition PreKey :: int where "PreKey = 3"

text \<open>The session and identity stores are the two most operations touch.\<close>

definition with_pair :: "CoreStores \<Rightarrow> SessionStore \<times> IdentityStore \<Rightarrow> CoreStores" where
  "with_pair st p = st\<lparr>co_session := fst p, co_identity := snd p\<rparr>"

definition establishSession ::
    "signal_lib \<Rightarrow> nat \<Rightarrow> DeviceAddress \<Rightarrow> CoreStores \<Rightarrow> DeviceAddress \<Rightarrow> PreKeyBundle \<Rightarrow> (session_error + unit) \<times> CoreStores" where
  "establishSession G n self st remote bundle =
     (case sg_process G n bundle remote self (co_session st, co_identity st) of
        (done, p) \<Rightarrow> (if done then Inr () else Inl SignalFailed, with_pair st p))"

definition encrypt ::
    "signal_lib \<Rightarrow> nat \<Rightarrow> DeviceAddress \<Rightarrow> CoreStores \<Rightarrow> DeviceAddress \<Rightarrow> bytes \<Rightarrow> (session_error + bytes \<times> int) \<times> CoreStores" where
  "encrypt G n self st remote plaintext =
     (case sg_encrypt G n plaintext remote self (co_session st, co_identity st) of
        (r, p) \<Rightarrow> (case r of None \<Rightarrow> Inl SignalFailed | Some c \<Rightarrow> Inr c, with_pair st p))"

definition decrypt ::
    "signal_lib \<Rightarrow> nat \<Rightarrow> DeviceAddress \<Rightarrow> CoreStores \<Rightarrow> DeviceAddress \<Rightarrow> int \<Rightarrow> bytes \<Rightarrow> (session_error + bytes) \<times> CoreStores" where
  "decrypt G n self st remote type ciphertext =
     (if type = PreKey then
        (if \<not> sg_isPreKeyMessage G ciphertext then (Inl NotAMessage, st)
         else case sg_decryptPreKey G n ciphertext remote self st of
           (r, st') \<Rightarrow> (case r of None \<Rightarrow> Inl SignalFailed | Some b \<Rightarrow> Inr b, st'))
      else if type = Whisper then
        (if \<not> sg_isSignalMessage G ciphertext then (Inl NotAMessage, st)
         else case sg_decrypt G n ciphertext remote self (co_session st, co_identity st) of
           (r, p) \<Rightarrow> (case r of None \<Rightarrow> Inl SignalFailed | Some b \<Rightarrow> Inr b, with_pair st p))
      else (Inl (UnsupportedType type), st))"

subsection \<open>Fan-out\<close>

record FanoutContext =
  fc_conversationId :: jsstring
  fc_senderUserId :: jsstring
  fc_senderDeviceId :: int

type_synonym fanout_seq = "(jsstring \<times> int) list"

definition assertEnvelopeCiphertextType :: "int \<Rightarrow> session_error + int" where
  "assertEnvelopeCiphertextType type = (if type = Whisper \<or> type = PreKey then Inr type else Inl (UnsupportedType type))"

definition nextSeq :: "fanout_seq \<Rightarrow> DeviceAddress \<Rightarrow> int \<times> fanout_seq" where
  "nextSeq sq recipient =
     (let key = addressKey recipient;
          v = (case map_of sq key of None \<Rightarrow> 0 | Some x \<Rightarrow> x) + 1
      in (v, amap_set sq key v))"

fun encryptForMembers ::
    "signal_lib \<Rightarrow> nat \<Rightarrow> DeviceAddress \<Rightarrow> FanoutContext \<Rightarrow> bytes \<Rightarrow> CoreStores \<Rightarrow> fanout_seq \<Rightarrow> DeviceAddress list
       \<Rightarrow> (session_error + Envelope list) \<times> CoreStores \<times> fanout_seq" where
  "encryptForMembers G n self ctx plaintext st sq [] = (Inr [], st, sq)"
| "encryptForMembers G n self ctx plaintext st sq (m # ms) =
     (case encrypt G n self st m plaintext of
        (Inl e, st1) \<Rightarrow> (Inl e, st1, sq)
      | (Inr (ct, ty), st1) \<Rightarrow>
          let (v, sq1) = nextSeq sq m in
          (case assertEnvelopeCiphertextType ty of
             Inl e \<Rightarrow> (Inl e, st1, sq1)
           | Inr t \<Rightarrow>
               let e = \<lparr>env_conversationId = fc_conversationId ctx, env_senderUserId = fc_senderUserId ctx,
                     env_senderDeviceId = fc_senderDeviceId ctx, env_recipientDeviceId = da_deviceId m,
                     env_seq = v, env_ciphertext = base64Encode ct, env_type = t\<rparr>
               in (case encryptForMembers G (Suc n) self ctx plaintext st1 sq1 ms of
                     (Inl err, st2, sq2) \<Rightarrow> (Inl err, st2, sq2)
                   | (Inr es, st2, sq2) \<Rightarrow> (Inr (e # es), st2, sq2))))"

definition decryptEnvelope ::
    "signal_lib \<Rightarrow> nat \<Rightarrow> DeviceAddress \<Rightarrow> CoreStores \<Rightarrow> Envelope \<Rightarrow> (session_error + bytes) \<times> CoreStores" where
  "decryptEnvelope G n self st e =
     decrypt G n self st \<lparr>da_userId = env_senderUserId e, da_deviceId = env_senderDeviceId e\<rparr> (env_type e)
       (base64Decode (env_ciphertext e))"

subsection \<open>One envelope per recipient, in order\<close>

lemma encryptForMembers_Cons:
  assumes "encryptForMembers G n self ctx plaintext st sq (m # ms) = (Inr es, st', sq')"
  obtains e es' st1 sq1 where "es = e # es'" "encryptForMembers G (Suc n) self ctx plaintext st1 sq1 ms = (Inr es', st', sq')"
    "env_recipientDeviceId e = da_deviceId m" "env_conversationId e = fc_conversationId ctx"
    "env_senderUserId e = fc_senderUserId ctx" "env_senderDeviceId e = fc_senderDeviceId ctx"
    "env_type e = Whisper \<or> env_type e = PreKey"
proof -
  from assms obtain ct ty st1 where c: "encrypt G n self st m plaintext = (Inr (ct, ty), st1)"
    by (cases "encrypt G n self st m plaintext") (auto split: sum.splits)
  from assms c have ty: "ty = Whisper \<or> ty = PreKey"
    by (auto simp: assertEnvelopeCiphertextType_def Let_def split_beta split: if_splits)
  obtain r st2 sq2 where r: "encryptForMembers G (Suc n) self ctx plaintext st1 (snd (nextSeq sq m)) ms = (r, st2, sq2)"
    by (metis prod_cases3)
  show ?thesis
  proof (cases r)
    case (Inr es')
    show ?thesis
      by (rule that [of "hd es" es' st1 "snd (nextSeq sq m)"])
        (use assms c ty r Inr in \<open>auto simp: assertEnvelopeCiphertextType_def Let_def split_beta\<close>)
  qed (use assms c ty r in \<open>auto simp: assertEnvelopeCiphertextType_def Let_def split_beta\<close>)
qed

lemma encryptForMembers_addressed:
  "encryptForMembers G n self ctx plaintext st sq ms = (Inr es, st', sq') \<Longrightarrow>
     map env_recipientDeviceId es = map da_deviceId ms
     \<and> (\<forall>e \<in> set es. env_conversationId e = fc_conversationId ctx \<and> env_senderUserId e = fc_senderUserId ctx
          \<and> env_senderDeviceId e = fc_senderDeviceId ctx \<and> (env_type e = Whisper \<or> env_type e = PreKey))"
proof (induction ms arbitrary: n st sq es)
  case (Cons m ms)
  then show ?case by (elim encryptForMembers_Cons) auto
qed simp

lemma encryptForMembers_length:
  "encryptForMembers G n self ctx plaintext st sq ms = (Inr es, st', sq') \<Longrightarrow> length es = length ms"
  using encryptForMembers_addressed map_eq_imp_length_eq by blast

end
