(* ===== verification/Link.thy ===== *)
theory Link
  imports Proto
begin

section \<open>The duplex link (\<^verbatim>\<open>client-sdk/src/connection.ts\<close>)\<close>

text \<open>
  \<open>DuplexLink\<close> as a state machine. The methods and the callbacks a socket or a timer invokes are
  the events of \<open>link_step\<close>; sockets and timers carry numbers, and what the closure of a socket
  keeps (\<^verbatim>\<open>settled\<close> and the promise of \<^verbatim>\<open>connect\<close>) is in the table \<open>lk_sockets\<close>. The variable
  \<^verbatim>\<open>reconnectTimer\<close> and the timers that are really pending are two fields, because
  \<^verbatim>\<open>clearTimeout\<close> touches the second only. Frames sent, frames handed to the client and states
  reported are appended to lists.
\<close>

datatype ConnectionState = Connecting | Connected | Disconnected

datatype ClientFrame = AuthFrame jsstring int | WireFrame WsFrame

definition INITIAL_BACKOFF_MS :: nat where "INITIAL_BACKOFF_MS = 300"
definition MAX_BACKOFF_MS :: nat where "MAX_BACKOFF_MS = 10000"

record Sock =
  so_settled :: bool
  so_outcome :: "bool option"

record Link =
  lk_token :: jsstring
  lk_deviceId :: int
  lk_socket :: "nat option"
  lk_closedByUser :: bool
  lk_backoffMs :: nat
  lk_keepalive :: bool
  lk_reconnectTimer :: "nat option"
  lk_ready :: bool
  lk_sockets :: "(nat \<times> Sock) list"
  lk_timers :: "(nat \<times> nat) list"
  lk_next :: nat
  lk_sent :: "(nat \<times> ClientFrame) list"
  lk_delivered :: "WsFrame list"
  lk_states :: "ConnectionState list"
  lk_closeRequests :: "nat list"

definition newLink :: "jsstring \<Rightarrow> int \<Rightarrow> Link" where
  "newLink token deviceId = \<lparr>lk_token = token, lk_deviceId = deviceId, lk_socket = None, lk_closedByUser = False,
     lk_backoffMs = INITIAL_BACKOFF_MS, lk_keepalive = False, lk_reconnectTimer = None, lk_ready = False, lk_sockets = [],
     lk_timers = [], lk_next = 0, lk_sent = [], lk_delivered = [], lk_states = [], lk_closeRequests = []\<rparr>"

text \<open>\<^verbatim>\<open>openOnce\<close>; a reconnect has no promise to settle.\<close>

definition openOnce :: "Link \<Rightarrow> Link" where
  "openOnce l = l\<lparr>lk_states := lk_states l @ [Connecting], lk_socket := Some (lk_next l),
     lk_sockets := amap_set (lk_sockets l) (lk_next l) \<lparr>so_settled = False, so_outcome = None\<rparr>, lk_next := Suc (lk_next l)\<rparr>"

definition connectLink :: "Link \<Rightarrow> Link" where
  "connectLink l = openOnce (l\<lparr>lk_closedByUser := False\<rparr>)"

definition settle :: "bool \<Rightarrow> nat \<Rightarrow> Sock \<Rightarrow> Link \<Rightarrow> Link" where
  "settle ok i so l = (if so_settled so then l
     else l\<lparr>lk_sockets := amap_set (lk_sockets l) i \<lparr>so_settled = True, so_outcome = Some ok\<rparr>\<rparr>)"

definition scheduleReconnect :: "Link \<Rightarrow> Link" where
  "scheduleReconnect l =
     (case lk_reconnectTimer l of
        Some _ \<Rightarrow> l
      | None \<Rightarrow> l\<lparr>lk_reconnectTimer := Some (lk_next l), lk_timers := amap_set (lk_timers l) (lk_next l) (lk_backoffMs l),
          lk_next := Suc (lk_next l), lk_backoffMs := min (lk_backoffMs l * 2) MAX_BACKOFF_MS\<rparr>)"

definition onSocketOpen :: "Link \<Rightarrow> nat \<Rightarrow> Link" where
  "onSocketOpen l i = l\<lparr>lk_sent := lk_sent l @ [(i, AuthFrame (lk_token l) (lk_deviceId l))]\<rparr>"

definition onSocketMessage :: "Link \<Rightarrow> nat \<Rightarrow> Sock \<Rightarrow> json option \<Rightarrow> Link" where
  "onSocketMessage l i so raw =
     (case raw of
        None \<Rightarrow> l
      | Some parsed \<Rightarrow>
          (case WsReadyFrameSchema parsed of
             Some _ \<Rightarrow> settle True i so (l\<lparr>lk_ready := True, lk_backoffMs := INITIAL_BACKOFF_MS, lk_keepalive := True,
                 lk_states := lk_states l @ [Connected]\<rparr>)
           | None \<Rightarrow>
               (case WsDeliverFrameSchema parsed of
                  Some f \<Rightarrow> l\<lparr>lk_delivered := lk_delivered l @ [f]\<rparr>
                | None \<Rightarrow>
                    (case WsOpDeliverFrameSchema parsed of
                       Some f \<Rightarrow> l\<lparr>lk_delivered := lk_delivered l @ [f]\<rparr>
                     | None \<Rightarrow> l))))"

definition onSocketError :: "Link \<Rightarrow> nat \<Rightarrow> Sock \<Rightarrow> Link" where
  "onSocketError l i so = settle False i so l"

definition onSocketClose :: "Link \<Rightarrow> nat \<Rightarrow> Sock \<Rightarrow> Link" where
  "onSocketClose l i so =
     (let l1 = settle False i so (l\<lparr>lk_ready := False, lk_keepalive := False, lk_states := lk_states l @ [Disconnected]\<rparr>)
      in if lk_closedByUser l1 then l1 else scheduleReconnect l1)"

definition onTimer :: "Link \<Rightarrow> nat \<Rightarrow> Link" where
  "onTimer l t =
     (case map_of (lk_timers l) t of
        None \<Rightarrow> l
      | Some _ \<Rightarrow> openOnce (l\<lparr>lk_timers := amap_del (lk_timers l) t, lk_reconnectTimer := None\<rparr>))"

definition sendLink :: "Link \<Rightarrow> WsFrame \<Rightarrow> Link option" where
  "sendLink l f =
     (case lk_socket l of
        None \<Rightarrow> None
      | Some i \<Rightarrow> if \<not> lk_ready l then None else Some (l\<lparr>lk_sent := lk_sent l @ [(i, WireFrame f)]\<rparr>))"

definition subscribeLink :: "Link \<Rightarrow> jsstring \<Rightarrow> Link" where
  "subscribeLink l conv =
     (case lk_socket l of
        None \<Rightarrow> l
      | Some i \<Rightarrow> if \<not> lk_ready l then l else l\<lparr>lk_sent := lk_sent l @ [(i, WireFrame (WsSubscribe conv None))]\<rparr>)"

text \<open>\<^verbatim>\<open>clearTimeout\<close> cancels the pending timer; the variable keeps its handle.\<close>

definition disconnectLink :: "Link \<Rightarrow> Link" where
  "disconnectLink l =
     (let l1 = l\<lparr>lk_closedByUser := True\<rparr>;
          l2 = (case lk_reconnectTimer l1 of None \<Rightarrow> l1 | Some t \<Rightarrow> l1\<lparr>lk_timers := amap_del (lk_timers l1) t\<rparr>);
          l3 = l2\<lparr>lk_keepalive := False\<rparr>
      in case lk_socket l3 of None \<Rightarrow> l3 | Some i \<Rightarrow> l3\<lparr>lk_closeRequests := lk_closeRequests l3 @ [i]\<rparr>)"

subsection \<open>Events\<close>

datatype link_event =
    EvConnect
  | EvDisconnect
  | EvSend WsFrame
  | EvSubscribe jsstring
  | EvOpen nat
  | EvMessage nat "json option"
  | EvError nat
  | EvClose nat
  | EvTimer nat

definition onSocket :: "Link \<Rightarrow> nat \<Rightarrow> (Sock \<Rightarrow> Link) \<Rightarrow> Link" where
  "onSocket l i f = (case map_of (lk_sockets l) i of None \<Rightarrow> l | Some so \<Rightarrow> f so)"

definition link_step :: "Link \<Rightarrow> link_event \<Rightarrow> Link" where
  "link_step l ev =
     (case ev of
        EvConnect \<Rightarrow> connectLink l
      | EvDisconnect \<Rightarrow> disconnectLink l
      | EvSend f \<Rightarrow> (case sendLink l f of None \<Rightarrow> l | Some l' \<Rightarrow> l')
      | EvSubscribe conv \<Rightarrow> subscribeLink l conv
      | EvOpen i \<Rightarrow> onSocket l i (\<lambda>_. onSocketOpen l i)
      | EvMessage i raw \<Rightarrow> onSocket l i (\<lambda>so. onSocketMessage l i so raw)
      | EvError i \<Rightarrow> onSocket l i (\<lambda>so. onSocketError l i so)
      | EvClose i \<Rightarrow> onSocket l i (\<lambda>so. onSocketClose l i so)
      | EvTimer t \<Rightarrow> onTimer l t)"

lemmas link_defs = link_step_def connectLink_def disconnectLink_def sendLink_def subscribeLink_def onSocket_def
  onSocketOpen_def onSocketMessage_def onSocketError_def onSocketClose_def onTimer_def openOnce_def settle_def

text \<open>
  The invariant: the backoff and every pending delay are between the two constants, and only the
  timer the variable names can be pending.
\<close>

definition link_inv :: "Link \<Rightarrow> bool" where
  "link_inv l \<longleftrightarrow> INITIAL_BACKOFF_MS \<le> lk_backoffMs l \<and> lk_backoffMs l \<le> MAX_BACKOFF_MS
     \<and> (\<forall>(t, delay) \<in> set (lk_timers l). lk_reconnectTimer l = Some t \<and> INITIAL_BACKOFF_MS \<le> delay \<and> delay \<le> MAX_BACKOFF_MS)
     \<and> length (lk_timers l) \<le> 1"

text \<open>\<open>armed\<close>: the variable is set exactly when its timer is pending.\<close>

definition armed :: "Link \<Rightarrow> bool" where
  "armed l \<longleftrightarrow> (\<forall>t. lk_reconnectTimer l = Some t \<longrightarrow> map_of (lk_timers l) t \<noteq> None) \<and> \<not> lk_closedByUser l"

lemma link_inv_new: "link_inv (newLink token d)"
  by (simp add: link_inv_def newLink_def INITIAL_BACKOFF_MS_def MAX_BACKOFF_MS_def)

lemma armed_new: "armed (newLink token d)"
  by (simp add: armed_def newLink_def)

lemma scheduleReconnect_inv: "link_inv l \<Longrightarrow> link_inv (scheduleReconnect l)"
proof (cases "lk_reconnectTimer l")
  case None
  assume inv: "link_inv l"
  then have "lk_timers l = []" using None by (cases "lk_timers l") (auto simp: link_inv_def)
  then show ?thesis
    using inv None by (auto simp: link_inv_def scheduleReconnect_def INITIAL_BACKOFF_MS_def MAX_BACKOFF_MS_def)
qed (simp add: scheduleReconnect_def)

lemma link_inv_other:
  assumes "link_inv l" "lk_backoffMs l' = lk_backoffMs l \<or> lk_backoffMs l' = INITIAL_BACKOFF_MS"
    and "lk_timers l' = lk_timers l" "lk_reconnectTimer l' = lk_reconnectTimer l"
  shows "link_inv l'"
  using assms by (auto simp: link_inv_def INITIAL_BACKOFF_MS_def MAX_BACKOFF_MS_def)

lemma link_inv_dropped:
  assumes "link_inv l" "lk_timers l' = amap_del (lk_timers l) t" "lk_backoffMs l' = lk_backoffMs l"
    and "map_of (lk_timers l) t \<noteq> None \<or> lk_reconnectTimer l = Some t"
  shows "link_inv l' \<and> lk_timers l' = []"
proof -
  have "lk_timers l' = []"
  proof (cases "lk_timers l")
    case (Cons x xs)
    then have "xs = []" "lk_reconnectTimer l = Some (fst x)" using assms(1) by (auto simp: link_inv_def)
    then have "fst x = t" using assms(4) Cons by (cases x) (auto split: if_splits)
    then show ?thesis using assms(2) Cons \<open>xs = []\<close> by (simp add: amap_del_def)
  qed (use assms(2) in \<open>simp add: amap_del_def\<close>)
  then show ?thesis using assms by (simp add: link_inv_def)
qed

lemma link_step_inv [inv_intros]:
  assumes "link_inv l"
  shows "link_inv (link_step l ev)"
proof (cases ev)
  case EvDisconnect
  show ?thesis
  proof (cases "lk_reconnectTimer l")
    case None
    then show ?thesis
      using EvDisconnect assms by (auto intro!: link_inv_other [OF assms] simp: link_step_def disconnectLink_def Let_def split: option.splits)
  next
    case (Some t)
    then show ?thesis
      using EvDisconnect link_inv_dropped [OF assms, of "link_step l ev" t]
      by (auto simp: link_step_def disconnectLink_def Let_def split: option.splits)
  qed
next
  case (EvClose i)
  then show ?thesis
    using assms scheduleReconnect_inv link_inv_other [OF assms]
    by (auto simp: link_step_def onSocket_def onSocketClose_def settle_def Let_def split: option.splits)
next
  case (EvTimer t)
  then show ?thesis
    using assms link_inv_dropped [OF assms, of "link_step l ev" t]
    by (auto simp: link_step_def onTimer_def openOnce_def split: option.splits)
qed (auto intro!: link_inv_other [OF assms] simp: link_defs split: option.splits)

lemma link_run_inv: "link_inv l \<Longrightarrow> link_inv (foldl link_step l evs)"
  by (induction evs arbitrary: l) (simp_all add: link_step_inv)

lemma armed_other:
  assumes "armed l" "lk_timers l' = lk_timers l" "lk_reconnectTimer l' = lk_reconnectTimer l" "lk_closedByUser l' = lk_closedByUser l"
  shows "armed l'"
  using assms by (simp add: armed_def)

lemma armed_schedule: "armed l \<Longrightarrow> armed (scheduleReconnect l)"
  by (auto simp: armed_def scheduleReconnect_def map_of_amap_set split: option.splits)

lemma armed_step:
  assumes "armed l" "ev \<noteq> EvDisconnect"
  shows "armed (link_step l ev)"
proof (cases ev)
  case EvConnect
  then show ?thesis using assms(1) by (simp add: armed_def link_step_def connectLink_def openOnce_def)
next
  case (EvClose i)
  then show ?thesis
    using assms(1) armed_schedule armed_other [OF assms(1)]
    by (auto simp: link_step_def onSocket_def onSocketClose_def settle_def Let_def split: option.splits)
next
  case (EvTimer t)
  then show ?thesis using assms(1) by (auto simp: armed_def link_step_def onTimer_def openOnce_def split: option.splits)
qed (use assms(2) in \<open>auto intro!: armed_other [OF assms(1)] simp: link_defs split: option.splits\<close>)

lemma armed_run: "armed l \<Longrightarrow> EvDisconnect \<notin> set evs \<Longrightarrow> armed (foldl link_step l evs)"
  by (induction evs arbitrary: l) (auto simp: armed_step)

text \<open>After a close that the user did not ask for, exactly one timer is pending.\<close>

lemma close_schedules:
  assumes inv: "link_inv l" and armed: "armed l" and i: "map_of (lk_sockets l) i = Some so"
  shows "\<exists>t delay. lk_timers (link_step l (EvClose i)) = [(t, delay)] \<and> INITIAL_BACKOFF_MS \<le> delay \<and> delay \<le> MAX_BACKOFF_MS"
proof -
  define l1 where "l1 = settle False i so (l\<lparr>lk_ready := False, lk_keepalive := False, lk_states := lk_states l @ [Disconnected]\<rparr>)"
  have l1: "lk_timers l1 = lk_timers l" "lk_reconnectTimer l1 = lk_reconnectTimer l" "lk_closedByUser l1 = lk_closedByUser l"
    "lk_backoffMs l1 = lk_backoffMs l"
    by (simp_all add: l1_def settle_def)
  have step: "link_step l (EvClose i) = scheduleReconnect l1"
    using i armed l1 by (simp add: link_step_def onSocket_def onSocketClose_def Let_def armed_def flip: l1_def)
  have inv': "link_inv (scheduleReconnect l1)"
    using link_step_inv [OF inv, of "EvClose i"] by (simp add: step)
  have "lk_timers (scheduleReconnect l1) \<noteq> []"
    using armed l1 by (cases "lk_reconnectTimer l") (auto simp: scheduleReconnect_def armed_def map_of_amap_set
        dest: arg_cong [of _ "[]" map_of])
  then show ?thesis
    using inv' unfolding step link_inv_def by (cases "lk_timers (scheduleReconnect l1)") auto
qed

text \<open>The link comes back: whatever events a link has seen, its backoff and the delay of its pending
  timer lie between 300 ms and 10 s and no two reconnect timers are ever pending; and as long as
  the user has not disconnected, after the close of any of its sockets exactly one timer is
  pending, whose firing opens a new socket and leaves none.\<close>

theorem unexpected_close_reconnects:
  "(\<forall>(t, delay) \<in> set (lk_timers (foldl link_step (newLink token d) evs)). 300 \<le> delay \<and> delay \<le> 10000)
   \<and> length (lk_timers (foldl link_step (newLink token d) evs)) \<le> 1
   \<and> (EvDisconnect \<notin> set evs \<and> map_of (lk_sockets (foldl link_step (newLink token d) evs)) i \<noteq> None \<longrightarrow>
      (\<exists>t delay. lk_timers (link_step (foldl link_step (newLink token d) evs) (EvClose i)) = [(t, delay)]
        \<and> lk_timers (link_step (link_step (foldl link_step (newLink token d) evs) (EvClose i)) (EvTimer t)) = []
        \<and> lk_socket (link_step (link_step (foldl link_step (newLink token d) evs) (EvClose i)) (EvTimer t))
            = Some (lk_next (link_step (foldl link_step (newLink token d) evs) (EvClose i)))
        \<and> last (lk_states (link_step (link_step (foldl link_step (newLink token d) evs) (EvClose i)) (EvTimer t))) = Connecting))"
proof -
  define l where "l = foldl link_step (newLink token d) evs"
  have inv: "link_inv l" unfolding l_def by (rule link_run_inv [OF link_inv_new])
  moreover have "\<exists>t delay. lk_timers (link_step l (EvClose i)) = [(t, delay)] \<and> lk_timers (link_step (link_step l (EvClose i)) (EvTimer t)) = []
      \<and> lk_socket (link_step (link_step l (EvClose i)) (EvTimer t)) = Some (lk_next (link_step l (EvClose i)))
      \<and> last (lk_states (link_step (link_step l (EvClose i)) (EvTimer t))) = Connecting"
    if nd: "EvDisconnect \<notin> set evs" and so: "map_of (lk_sockets l) i \<noteq> None"
  proof -
    have "armed l" unfolding l_def by (rule armed_run [OF armed_new nd])
    then obtain t delay where "lk_timers (link_step l (EvClose i)) = [(t, delay)]"
      using close_schedules [OF inv] so by blast
    then show ?thesis by (intro exI [of _ t] exI [of _ delay]) (simp add: link_step_def [of _ "EvTimer t"] onTimer_def openOnce_def amap_del_def)
  qed
  ultimately show ?thesis
    unfolding l_def link_inv_def INITIAL_BACKOFF_MS_def MAX_BACKOFF_MS_def by auto
qed

theorem unexpected_close_reconnects_witness:
  "\<exists>t delay. lk_timers (link_step (foldl link_step (newLink (js ''tok'') 1) [EvConnect, EvOpen 0]) (EvClose 0)) = [(t, delay)]"
proof -
  have "map_of (lk_sockets (foldl link_step (newLink (js ''tok'') 1) [EvConnect, EvOpen 0])) 0 \<noteq> None"
    by (simp add: link_step_def connectLink_def openOnce_def newLink_def onSocket_def onSocketOpen_def)
  then show ?thesis
    using unexpected_close_reconnects [of "js ''tok''" 1 "[EvConnect, EvOpen 0]" 0] by auto
qed

text \<open>A cancelled timer whose handle is still in the variable is never replaced.\<close>

lemma stale_step: "lk_timers l = [] \<Longrightarrow> lk_reconnectTimer l = Some t \<Longrightarrow> lk_timers (link_step l ev) = [] \<and> lk_reconnectTimer (link_step l ev) = Some t"
  by (cases ev) (auto simp: link_defs scheduleReconnect_def amap_del_def Let_def split: option.splits)

lemma stale_run:
  "lk_timers l = [] \<Longrightarrow> lk_reconnectTimer l = Some t \<Longrightarrow> lk_timers (foldl link_step l evs) = []"
  by (induction evs arbitrary: l) (auto simp: stale_step)

text \<open>C32: disconnecting while a reconnect is pending disables reconnecting for good: \<^verbatim>\<open>disconnect\<close>
  cancels the timer and keeps its handle, and from then on no event schedules another one: after
  a later \<^verbatim>\<open>connect\<close> and an unexpected close, no timer is ever pending again.\<close>

theorem disconnect_in_backoff_ends_reconnects:
  assumes "link_inv l" "lk_reconnectTimer l = Some t"
  shows "lk_timers (foldl link_step (link_step l EvDisconnect) evs) = []"
proof -
  have "lk_timers (link_step l EvDisconnect) = amap_del (lk_timers l) t" "lk_reconnectTimer (link_step l EvDisconnect) = Some t"
    "lk_backoffMs (link_step l EvDisconnect) = lk_backoffMs l"
    using assms(2) by (auto simp: link_step_def disconnectLink_def Let_def split: option.splits)
  then show ?thesis
    using link_inv_dropped [OF assms(1), of "link_step l EvDisconnect" t] assms(2) stale_run by blast
qed

theorem disconnect_in_backoff_ends_reconnects_witness:
  "lk_timers (foldl link_step (link_step (foldl link_step (newLink (js ''tok'') 1) [EvConnect, EvClose 0]) EvDisconnect)
     [EvConnect, EvOpen 2, EvMessage 2 (Some (js_of_frame WsReady)), EvClose 2]) = []"
proof -
  let ?l = "foldl link_step (newLink (js ''tok'') 1) [EvConnect, EvClose 0]"
  have t: "lk_reconnectTimer ?l = Some 1"
    by (simp add: link_defs scheduleReconnect_def newLink_def Let_def)
  show ?thesis by (rule disconnect_in_backoff_ends_reconnects [OF link_run_inv [OF link_inv_new] t])
qed

end
