(* ===== verification/Client.thy ===== *)
theory Client
  imports ClientStores Session Link OpService
begin

section \<open>The client (\<^verbatim>\<open>client-sdk/src/client.ts\<close>)\<close>

text \<open>
  \<^verbatim>\<open>SignalAiClient\<close> as a state machine. What surrounds it is the parameter \<open>client_env\<close>: the
  crypto libraries, the REST calls of its transport, the clock, randomness, the text of a JSON value,
  and the events of its links. Every use of the environment passes the number \<open>cl_tick\<close> of uses
  so far, so answers may differ from call to call.

  A method that throws returns \<open>Inl\<close> with the state it leaves. A method that awaits I/O yields to
  the event loop: \<open>pause\<close> lets the link events that arrive meanwhile run, among them
  \<^verbatim>\<open>handleIncomingOp\<close>; envelopes that arrive go to the inbox, whose chain of promises handles one
  after the other (\<open>processInbox\<close>). Two user calls do not overlap here.
\<close>

datatype rest_call =
    RcSignup jsstring jsstring
  | RcPublishDevice jsstring jsstring PreKeyBundlePublic
  | RcFetchBundles jsstring jsstring "int option"
  | RcFetchBundlesByUserId jsstring jsstring "int option"
  | RcCreateConversation jsstring CreateConversationRequest
  | RcInvite jsstring jsstring jsstring
  | RcRemoveMember jsstring jsstring jsstring
  | RcSetAiMode jsstring jsstring bool
  | RcListMembers jsstring jsstring

text \<open>
  The answers of the transport; \<open>None\<close> and \<open>False\<close> are a rejected promise, with the error message
  \<open>tr_error\<close>.
\<close>

record transport =
  tr_error :: "nat \<Rightarrow> rest_call \<Rightarrow> jsstring"
  tr_done :: "nat \<Rightarrow> rest_call \<Rightarrow> bool"
  tr_account :: "nat \<Rightarrow> rest_call \<Rightarrow> (jsstring \<times> jsstring) option"
  tr_bundles :: "nat \<Rightarrow> rest_call \<Rightarrow> PreKeyBundlePublic list option"
  tr_conversation :: "nat \<Rightarrow> rest_call \<Rightarrow> jsstring option"
  tr_members :: "nat \<Rightarrow> rest_call \<Rightarrow> (ConversationMember list \<times> bool) option"

record client_env =
  en_crypto :: crypto_lib
  en_signal :: signal_lib
  en_prekeys :: prekey_lib
  en_transport :: transport
  en_now :: "nat \<Rightarrow> int"
  en_oversleep :: "nat \<Rightarrow> nat"
  en_random :: "nat \<Rightarrow> bytes"
  en_uuid :: "nat \<Rightarrow> jsstring"
  en_stringify :: "json \<Rightarrow> bytes"
  en_parse :: "bytes \<Rightarrow> json option"
  en_arrivals :: "nat \<Rightarrow> (nat \<times> link_event) list"

datatype member_role = RoleAdmin | RoleMember

record Member =
  mb_userId :: jsstring
  mb_deviceId :: int
  mb_identityKeyFingerprint :: jsstring
  mb_joinedAt :: int
  mb_role :: member_role

record IncomingMessage =
  im_conversationId :: jsstring
  im_senderUserId :: jsstring
  im_senderDeviceId :: int
  im_text :: jsstring
  im_mentions :: "jsstring list"
  im_sentAt :: int
  im_msgId :: jsstring

datatype SystemEvent =
    MemberJoined jsstring jsstring int
  | MemberLeft jsstring jsstring
  | MemberRemoved jsstring jsstring
  | AiModeChanged jsstring bool
  | IdentityKeyChanged jsstring int

datatype client_error =
    RestFailed jsstring
  | Thrown thrown
  | SessionFailed session_error
  | BadBundle
  | NoRegisteredDevices jsstring
  | NoBundle jsstring int
  | NotResolved jsstring
  | BadPlaintext
  | NotConnected
  | NoService
  | ConnectFailed
  | StillConnecting
  | MissingPreKeyRecord
  | BadRecord
  | UndefinedRead

text \<open>
  \<open>cl_links\<close> are the links this client has created, the last of them current; \<open>cl_calls\<close>,
  \<open>cl_messages\<close> and \<open>cl_events\<close> record the REST calls made and the calls of the two handlers.
\<close>

record Client =
  cl_token :: jsstring
  cl_userId :: jsstring
  cl_deviceId :: int
  cl_username :: jsstring
  cl_identity :: Identity
  cl_signedPreKey :: PreKeyRecord
  cl_kyberPreKey :: PreKeyRecord
  cl_nextOneTimePreKeyId :: int
  cl_autoResolve :: bool
  cl_stores :: ClientStores
  cl_fanoutSeq :: fanout_seq
  cl_links :: "Link list"
  cl_connectionState :: ConnectionState
  cl_inbox :: "Envelope list"
  cl_changeLogCursor :: nat
  cl_opCatchupAttempted :: "jsstring list"
  cl_joinPins :: "(jsstring \<times> InvitePin) list"
  cl_service :: "Service option"
  cl_tick :: nat
  cl_calls :: "rest_call list"
  cl_messages :: "IncomingMessage list"
  cl_events :: "SystemEvent list"

type_synonym 'a outcome = "(client_error + 'a) \<times> Client"

definition cbind :: "'a outcome \<Rightarrow> ('a \<Rightarrow> Client \<Rightarrow> 'b outcome) \<Rightarrow> 'b outcome" where
  "cbind r f = (case r of (Inl e, cl) \<Rightarrow> (Inl e, cl) | (Inr x, cl) \<Rightarrow> f x cl)"

abbreviation conversations_of :: "Client \<Rightarrow> conversations" where
  "conversations_of cl \<equiv> st_conversations (cl_stores cl)"

definition setConversation :: "Client \<Rightarrow> jsstring \<Rightarrow> CachedConversation \<Rightarrow> Client" where
  "setConversation cl conv c = cl\<lparr>cl_stores := (cl_stores cl)\<lparr>st_conversations := amap_set (conversations_of cl) conv c\<rparr>\<rparr>"

definition selfAddress :: "Client \<Rightarrow> DeviceAddress" where
  "selfAddress cl = \<lparr>da_userId = cl_userId cl, da_deviceId = cl_deviceId cl\<rparr>"

definition OP_CATCHUP_TIMEOUT_MS :: int where "OP_CATCHUP_TIMEOUT_MS = 3000"
definition OP_CATCHUP_POLL_MS :: int where "OP_CATCHUP_POLL_MS = 50"
definition DEFAULT_INITIAL_OTP_COUNT :: nat where "DEFAULT_INITIAL_OTP_COUNT = 5"
definition DEFAULT_REPLENISH_BATCH :: nat where "DEFAULT_REPLENISH_BATCH = 5"

definition fingerprintOf :: "crypto_lib \<Rightarrow> bytes option \<Rightarrow> jsstring" where
  "fingerprintOf K key = (case key of None \<Rightarrow> [] | Some k \<Rightarrow> take 16 (toHex (sha256 K k)))"

subsection \<open>The receiver's chain\<close>

fun decodeOps :: "jsstring list \<Rightarrow> thrown + MembershipOp list" where
  "decodeOps [] = Inr []"
| "decodeOps (e # es) = rbind (decodeOp (base64Decode e)) (\<lambda>op. rbind (decodeOps es) (\<lambda>ops. Inr (op # ops)))"

text \<open>The try block of \<^verbatim>\<open>membershipLogFor\<close>: with a pin as a joiner, without one as the relay serves it.\<close>

definition openChain :: "client_env \<Rightarrow> Client \<Rightarrow> jsstring \<Rightarrow> MembershipOp list \<Rightarrow> thrown + MembershipLog" where
  "openChain E cl conv chain =
     (case map_of (cl_joinPins cl) conv of
        Some pin \<Rightarrow> ingestChain (en_crypto E) (forJoiner pin) chain
      | None \<Rightarrow> openLog (en_crypto E) chain)"

definition membershipLogFor :: "client_env \<Rightarrow> Client \<Rightarrow> jsstring \<Rightarrow> thrown + MembershipLog option" where
  "membershipLogFor E cl conv =
     (case map_of (conversations_of cl) conv of
        None \<Rightarrow> Inr None
      | Some cached \<Rightarrow>
          if cc_membershipOps cached = [] then Inr None
          else rbind (decodeOps (cc_membershipOps cached)) (\<lambda>chain.
            (case openChain E cl conv chain of
               Inl _ \<Rightarrow> Inr None
             | Inr log \<Rightarrow> Inr (Some log))))"

definition emptyConversation :: "bool \<Rightarrow> CachedConversation" where
  "emptyConversation mode = \<lparr>cc_members = [], cc_aiMode = mode, cc_adminUserId = None, cc_membershipOps = []\<rparr>"

text \<open>An exception in \<^verbatim>\<open>membershipLogFor\<close> leaves the handler after the append.\<close>

definition handleIncomingOp :: "client_env \<Rightarrow> Client \<Rightarrow> jsstring \<Rightarrow> int \<Rightarrow> jsstring \<Rightarrow> Client" where
  "handleIncomingOp E cl conv sq op =
     (case decodeOp (base64Decode op) of
        Inl _ \<Rightarrow> cl
      | Inr _ \<Rightarrow>
          let cl1 = (case map_of (conversations_of cl) conv of
                Some _ \<Rightarrow> cl
              | None \<Rightarrow> setConversation cl conv (emptyConversation False));
              cached = the (map_of (conversations_of cl1) conv);
              (stored, cached') = appendMembershipOp cached sq op;
              cl2 = setConversation cl1 conv cached'
          in if \<not> stored then cl1
             else case membershipLogFor E cl2 conv of
               Inl _ \<Rightarrow> cl2
             | Inr None \<Rightarrow> setConversation cl2 conv (cached'\<lparr>cc_membershipOps := butlast (cc_membershipOps cached')\<rparr>)
             | Inr (Some _) \<Rightarrow> cl2)"

subsection \<open>The links and the event loop\<close>

definition currentLink :: "Client \<Rightarrow> Link option" where
  "currentLink cl = (if cl_links cl = [] then None else Some (last (cl_links cl)))"

definition linkReady :: "Client \<Rightarrow> bool" where
  "linkReady cl = (case currentLink cl of None \<Rightarrow> False | Some l \<Rightarrow> lk_ready l)"

definition setCurrentLink :: "Client \<Rightarrow> Link \<Rightarrow> Client" where
  "setCurrentLink cl l = cl\<lparr>cl_links := butlast (cl_links cl) @ [l]\<rparr>"

text \<open>\<^verbatim>\<open>this.link!.send(frame)\<close>; \<open>None\<close> when it throws.\<close>

definition sendFrame :: "Client \<Rightarrow> WsFrame \<Rightarrow> Client option" where
  "sendFrame cl f =
     (case currentLink cl of
        None \<Rightarrow> None
      | Some l \<Rightarrow> (case sendLink l f of None \<Rightarrow> None | Some l' \<Rightarrow> Some (setCurrentLink cl l')))"

definition receiveFrame :: "client_env \<Rightarrow> Client \<Rightarrow> WsFrame \<Rightarrow> Client" where
  "receiveFrame E cl f =
     (case f of
        WsDeliver e \<Rightarrow> cl\<lparr>cl_inbox := cl_inbox cl @ [e]\<rparr>
      | WsOpDeliver conv sq op \<Rightarrow> handleIncomingOp E cl conv sq op
      | _ \<Rightarrow> cl)"

text \<open>Sockets and timers fire; the other events of a link are calls the client makes itself.\<close>

definition fires :: "link_event \<Rightarrow> bool" where
  "fires ev = (case ev of EvOpen _ \<Rightarrow> True | EvMessage _ _ \<Rightarrow> True | EvError _ \<Rightarrow> True | EvClose _ \<Rightarrow> True | EvTimer _ \<Rightarrow> True | _ \<Rightarrow> False)"

definition lastState :: "ConnectionState \<Rightarrow> Link \<Rightarrow> Link \<Rightarrow> ConnectionState" where
  "lastState s l l' = (if lk_states l' = lk_states l then s else last (lk_states l'))"

definition onLinkEvent :: "client_env \<Rightarrow> Client \<Rightarrow> nat \<times> link_event \<Rightarrow> Client" where
  "onLinkEvent E cl kev =
     (case kev of (k, ev) \<Rightarrow>
        if k < length (cl_links cl) \<and> fires ev then
          let l = cl_links cl ! k; l' = link_step l ev in
          foldl (receiveFrame E) (cl\<lparr>cl_links := (cl_links cl)[k := l'], cl_connectionState := lastState (cl_connectionState cl) l l'\<rparr>)
            (drop (length (lk_delivered l)) (lk_delivered l'))
        else cl)"

definition pause :: "client_env \<Rightarrow> Client \<Rightarrow> Client" where
  "pause E cl = foldl (onLinkEvent E) (cl\<lparr>cl_tick := Suc (cl_tick cl)\<rparr>) (en_arrivals E (cl_tick cl))"

text \<open>One REST call: it is recorded, events run while it is awaited, then its answer is there.\<close>

definition rest :: "client_env \<Rightarrow> (transport \<Rightarrow> nat \<Rightarrow> rest_call \<Rightarrow> 'a option) \<Rightarrow> Client \<Rightarrow> rest_call \<Rightarrow> 'a outcome" where
  "rest E answer cl call =
     (case answer (en_transport E) (cl_tick cl) call of
        None \<Rightarrow> (Inl (RestFailed (tr_error (en_transport E) (cl_tick cl) call)), pause E (cl\<lparr>cl_calls := cl_calls cl @ [call]\<rparr>))
      | Some x \<Rightarrow> (Inr x, pause E (cl\<lparr>cl_calls := cl_calls cl @ [call]\<rparr>)))"

definition void :: "transport \<Rightarrow> nat \<Rightarrow> rest_call \<Rightarrow> unit option" where
  "void t n call = (if tr_done t n call then Some () else None)"

subsection \<open>Late-join catch-up\<close>

definition subscribeCurrent :: "Client \<Rightarrow> jsstring \<Rightarrow> Client" where
  "subscribeCurrent cl conv =
     (case currentLink cl of None \<Rightarrow> cl | Some l \<Rightarrow> setCurrentLink cl (subscribeLink l conv))"

text \<open>
  The polling loop. A sleep lasts at least \<^verbatim>\<open>OP_CATCHUP_POLL_MS\<close>, so the time left shrinks. If the
  test of the loop throws, so does the call after the loop, on the same state.
\<close>

function pollChain :: "client_env \<Rightarrow> jsstring \<Rightarrow> int \<Rightarrow> int \<Rightarrow> Client \<Rightarrow> Client" where
  "pollChain E conv deadline now cl =
     (if now < deadline \<and> membershipLogFor E cl conv = Inr None \<and> linkReady cl
      then pollChain E conv deadline (now + OP_CATCHUP_POLL_MS + int (en_oversleep E (cl_tick cl))) (pause E cl)
      else cl)"
  by auto

termination
  by (relation "measure (\<lambda>(E, conv, deadline, now, cl). nat (deadline - now))") (auto simp: OP_CATCHUP_POLL_MS_def)

declare pollChain.simps [simp del]

definition awaitChainReady :: "client_env \<Rightarrow> Client \<Rightarrow> jsstring \<Rightarrow> (thrown + MembershipLog option) \<times> Client" where
  "awaitChainReady E cl conv =
     (if \<not> linkReady cl \<or> membershipLogFor E cl conv \<noteq> Inr None \<or> conv \<in> set (cl_opCatchupAttempted cl)
      then (membershipLogFor E cl conv, cl)
      else
        let cl1 = cl\<lparr>cl_opCatchupAttempted := js_set_add (cl_opCatchupAttempted cl) conv\<rparr>;
            cl2 = subscribeCurrent cl1 conv;
            now = en_now E (cl_tick cl2);
            cl3 = pollChain E conv (now + OP_CATCHUP_TIMEOUT_MS) now cl2
        in (membershipLogFor E cl3 conv, cl3))"

subsection \<open>Authoring\<close>

text \<open>\<^verbatim>\<open>broadcastOp\<close>, called by the service as the last thing it does.\<close>

fun broadcastOps :: "Client \<Rightarrow> (jsstring \<times> bytes) list \<Rightarrow> unit outcome" where
  "broadcastOps cl [] = (Inr (), cl)"
| "broadcastOps cl ((conv, b) # bs) =
     (case decodeOp b of
        Inl e \<Rightarrow> (Inl (Thrown e), cl)
      | Inr op \<Rightarrow>
          (case sendFrame cl (WsOpSend conv (op_seq op) (base64Encode b)) of
             None \<Rightarrow> (Inl NotConnected, cl)
           | Some cl' \<Rightarrow> broadcastOps cl' bs))"

fun syncFrom :: "CachedConversation \<Rightarrow> int \<Rightarrow> MembershipOp list \<Rightarrow> CachedConversation" where
  "syncFrom cached sq [] = cached"
| "syncFrom cached sq (op # ops) =
     (case encodeOp op of
        Inl _ \<Rightarrow> cached
      | Inr b \<Rightarrow> syncFrom (snd (appendMembershipOp cached sq (base64Encode b))) (sq + 1) ops)"

definition syncOwnMembershipChain :: "Client \<Rightarrow> jsstring \<Rightarrow> Client" where
  "syncOwnMembershipChain cl conv =
     (case cl_service cl of
        None \<Rightarrow> cl
      | Some sv \<Rightarrow>
          (case chainFor sv conv of
             Inl _ \<Rightarrow> cl
           | Inr chain \<Rightarrow>
               (case map_of (conversations_of cl) conv of
                  None \<Rightarrow> cl
                | Some cached \<Rightarrow>
                    let n = length (cc_membershipOps cached) in
                    setConversation cl conv (syncFrom cached (int n) (drop n chain)))))"

definition authorMembershipOp ::
    "client_env \<Rightarrow> Client \<Rightarrow> jsstring \<Rightarrow> (bytes \<Rightarrow> Service \<Rightarrow> (thrown + 'a) \<times> Service) \<Rightarrow> Client" where
  "authorMembershipOp E cl conv author =
     (case cl_service cl of
        None \<Rightarrow> cl
      | Some sv \<Rightarrow>
          (case author (en_random E (cl_tick cl)) sv of
             (r, sv') \<Rightarrow>
               let cl1 = cl\<lparr>cl_service := Some sv', cl_tick := Suc (cl_tick cl)\<rparr> in
               (case broadcastOps cl1 (drop (length (sv_broadcasts sv)) (sv_broadcasts sv')) of
                  (Inl _, cl2) \<Rightarrow> cl2
                | (Inr _, cl2) \<Rightarrow> (case r of Inl _ \<Rightarrow> cl2 | Inr _ \<Rightarrow> syncOwnMembershipChain cl2 conv))))"

subsection \<open>Sessions with contacts\<close>

text \<open>\<^verbatim>\<open>Number\<close> of a string of decimal digits.\<close>

definition decimalValue :: "jsstring \<Rightarrow> int" where
  "decimalValue s = foldl (\<lambda>n u. 10 * n + (int (unat u) - 48)) 0 s"

definition identityEvent :: "IdentityChangeRecord \<Rightarrow> SystemEvent list" where
  "identityEvent entry =
     (case ic_change entry of
        ReplacedExisting \<Rightarrow> [IdentityKeyChanged (beforeLastDot (ic_address entry)) (decimalValue (afterLastDot (ic_address entry)))]
      | NewOrUnchanged \<Rightarrow> [])"

definition drainIdentityChangeLog :: "Client \<Rightarrow> Client" where
  "drainIdentityChangeLog cl =
     (let log = is_changeLog (co_identity (st_core (cl_stores cl))) in
      cl\<lparr>cl_events := cl_events cl @ concat (map identityEvent (drop (cl_changeLogCursor cl) log)),
         cl_changeLogCursor := max (cl_changeLogCursor cl) (length log)\<rparr>)"

definition setCore :: "Client \<Rightarrow> CoreStores \<Rightarrow> Client" where
  "setCore cl st = cl\<lparr>cl_stores := (cl_stores cl)\<lparr>st_core := st\<rparr>\<rparr>"

definition establishOrRefreshSession :: "client_env \<Rightarrow> Client \<Rightarrow> DeviceAddress \<Rightarrow> PreKeyBundlePublic \<Rightarrow> unit outcome" where
  "establishOrRefreshSession E cl remote wireBundle =
     (let core = st_core (cl_stores cl);
          knownKey = getIdentity (co_identity core) remote;
          keyChanged = (case knownKey of None \<Rightarrow> False | Some k \<Rightarrow> \<not> coreBytesEqual k (base64Decode (pb_identityKey wireBundle)));
          hasSession = getSession (co_session core) remote \<noteq> None
      in if hasSession \<and> \<not> keyChanged then (Inr (), cl)
         else case bundleFromWire (sg_ecKey (en_signal E)) (sg_kemKey (en_signal E)) wireBundle of
           None \<Rightarrow> (Inl BadBundle, cl)
         | Some bundle \<Rightarrow>
             (case establishSession (en_signal E) (cl_tick cl) (selfAddress cl) core remote bundle of
                (Inl e, core') \<Rightarrow> (Inl (SessionFailed e), pause E (setCore cl core'))
              | (Inr _, core') \<Rightarrow> (Inr (), drainIdentityChangeLog (pause E (setCore cl core')))))"

fun establishAll :: "client_env \<Rightarrow> Client \<Rightarrow> jsstring \<Rightarrow> PreKeyBundlePublic list \<Rightarrow> unit outcome" where
  "establishAll E cl userId [] = (Inr (), cl)"
| "establishAll E cl userId (b # bs) =
     cbind (establishOrRefreshSession E cl \<lparr>da_userId = userId, da_deviceId = pb_deviceId b\<rparr> b) (\<lambda>_ cl'. establishAll E cl' userId bs)"

definition resolveUser :: "client_env \<Rightarrow> Client \<Rightarrow> jsstring \<Rightarrow> (jsstring \<times> int list) outcome" where
  "resolveUser E cl username =
     cbind (rest E tr_bundles cl (RcFetchBundles (cl_token cl) username None)) (\<lambda>bundles cl1.
       if bundles = [] then (Inl (NoRegisteredDevices username), cl1)
       else
         let userId = pb_userId (hd bundles);
             deviceIds = map pb_deviceId bundles;
             cl2 = cl1\<lparr>cl_stores := (cl_stores cl1)\<lparr>st_directory :=
               amap_set (st_directory (cl_stores cl1)) userId \<lparr>de_username = username, de_deviceIds = deviceIds\<rparr>\<rparr>\<rparr>
         in cbind (establishAll E cl2 userId bundles) (\<lambda>_ cl3. (Inr (userId, deviceIds), cl3)))"

definition ensureSession :: "client_env \<Rightarrow> Client \<Rightarrow> DeviceAddress \<Rightarrow> unit outcome" where
  "ensureSession E cl remote =
     (if getSession (co_session (st_core (cl_stores cl))) remote \<noteq> None then (Inr (), cl)
      else case map_of (st_directory (cl_stores cl)) (da_userId remote) of
        None \<Rightarrow>
          if cl_autoResolve cl then
            cbind (rest E tr_bundles cl (RcFetchBundlesByUserId (cl_token cl) (da_userId remote) (Some (da_deviceId remote)))) (\<lambda>bundles cl1.
              (case find (\<lambda>b. pb_deviceId b = da_deviceId remote) bundles of
                 None \<Rightarrow> (Inl (NoBundle (da_userId remote) (da_deviceId remote)), cl1)
               | Some b \<Rightarrow> establishOrRefreshSession E cl1 remote b))
          else (Inl (NotResolved (da_userId remote)), cl)
      | Some contact \<Rightarrow>
          cbind (rest E tr_bundles cl (RcFetchBundles (cl_token cl) (de_username contact) (Some (da_deviceId remote)))) (\<lambda>bundles cl1.
            (case find (\<lambda>b. pb_deviceId b = da_deviceId remote) bundles of
               None \<Rightarrow> (Inl (NoBundle (de_username contact) (da_deviceId remote)), cl1)
             | Some b \<Rightarrow> establishOrRefreshSession E cl1 remote b)))"

fun ensureSessions :: "client_env \<Rightarrow> Client \<Rightarrow> DeviceAddress list \<Rightarrow> unit outcome" where
  "ensureSessions E cl [] = (Inr (), cl)"
| "ensureSessions E cl (t # ts) = cbind (ensureSession E cl t) (\<lambda>_ cl'. ensureSessions E cl' ts)"

subsection \<open>The roster\<close>

definition mergeMember ::
    "jsstring \<Rightarrow> jsstring \<Rightarrow> int \<Rightarrow> CachedConversation \<times> SystemEvent list \<Rightarrow> ConversationMember \<Rightarrow> CachedConversation \<times> SystemEvent list" where
  "mergeMember self conv now acc m =
     (case acc of (cached, evs) \<Rightarrow>
        (case map_of (cc_members cached) (cm_userId m) of
           None \<Rightarrow> (cached\<lparr>cc_members := amap_set (cc_members cached) (cm_userId m) \<lparr>mc_deviceIds = cm_deviceIds m, mc_joinedAt = now\<rparr>\<rparr>,
             evs @ (if cm_userId m \<noteq> self then map (MemberJoined conv (cm_userId m)) (cm_deviceIds m) else []))
         | Some existing \<Rightarrow>
             (cached\<lparr>cc_members := amap_set (cc_members cached) (cm_userId m) (existing\<lparr>mc_deviceIds := cm_deviceIds m\<rparr>)\<rparr>, evs)))"

definition pruneMember ::
    "jsstring \<Rightarrow> jsstring \<Rightarrow> jsstring list \<Rightarrow> CachedConversation \<times> SystemEvent list \<Rightarrow> jsstring \<Rightarrow> CachedConversation \<times> SystemEvent list" where
  "pruneMember self conv seen acc u =
     (case acc of (cached, evs) \<Rightarrow>
        if u \<in> set seen then (cached, evs)
        else (cached\<lparr>cc_members := amap_del (cc_members cached) u\<rparr>, evs @ (if u \<noteq> self then [MemberRemoved conv u] else [])))"

definition syncRoster :: "Client \<Rightarrow> jsstring \<Rightarrow> int \<Rightarrow> ConversationMember list \<Rightarrow> bool \<Rightarrow> Client" where
  "syncRoster cl conv now raw mode =
     (let cached = (case map_of (conversations_of cl) conv of Some c \<Rightarrow> c | None \<Rightarrow> emptyConversation mode);
          (merged, evs) = foldl (mergeMember (cl_userId cl) conv now) (cached\<lparr>cc_aiMode := mode\<rparr>, []) raw;
          (pruned, evs') = foldl (pruneMember (cl_userId cl) conv (map cm_userId raw)) (merged, evs) (map fst (cc_members merged))
      in (setConversation cl conv pruned)\<lparr>cl_events := cl_events cl @ evs'\<rparr>)"

text \<open>The rows of one member; reading \<^verbatim>\<open>joinedAt\<close> of an absent entry throws.\<close>

definition memberRows :: "client_env \<Rightarrow> Client \<Rightarrow> jsstring \<Rightarrow> ConversationMember \<Rightarrow> Member list option" where
  "memberRows E cl conv m =
     (case map_of (conversations_of cl) conv of
        None \<Rightarrow> None
      | Some cached \<Rightarrow>
          (if cm_deviceIds m = [] then Some []
           else case map_of (cc_members cached) (cm_userId m) of
             None \<Rightarrow> None
           | Some entry \<Rightarrow>
               Some (map (\<lambda>d. \<lparr>mb_userId = cm_userId m, mb_deviceId = d,
                 mb_identityKeyFingerprint = fingerprintOf (en_crypto E)
                   (getIdentity (co_identity (st_core (cl_stores cl))) \<lparr>da_userId = cm_userId m, da_deviceId = d\<rparr>),
                 mb_joinedAt = mc_joinedAt entry,
                 mb_role = (if cc_adminUserId cached = Some (cm_userId m) then RoleAdmin else RoleMember)\<rparr>) (cm_deviceIds m))))"

fun roster :: "client_env \<Rightarrow> Client \<Rightarrow> jsstring \<Rightarrow> jsstring list \<Rightarrow> ConversationMember list \<Rightarrow> Member list option" where
  "roster E cl conv authoritative [] = Some []"
| "roster E cl conv authoritative (m # ms) =
     (if cm_userId m \<notin> set authoritative then roster E cl conv authoritative ms
      else case memberRows E cl conv m of
        None \<Rightarrow> None
      | Some rows \<Rightarrow> map_option (\<lambda>rest. rows @ rest) (roster E cl conv authoritative ms))"

definition clListMembers :: "client_env \<Rightarrow> Client \<Rightarrow> jsstring \<Rightarrow> Member list outcome" where
  "clListMembers E cl conv =
     cbind (rest E tr_members cl (RcListMembers (cl_token cl) conv)) (\<lambda>(raw, mode) cl1.
       (case awaitChainReady E (syncRoster cl1 conv (en_now E (cl_tick cl1)) raw mode) conv of
          (Inl e, cl2) \<Rightarrow> (Inl (Thrown e), cl2)
        | (Inr _, cl2) \<Rightarrow>
            (case membershipLogFor E cl2 conv of
               Inl e \<Rightarrow> (Inl (Thrown e), cl2)
             | Inr None \<Rightarrow> (Inr [], cl2)
             | Inr (Some log) \<Rightarrow>
                 (case logMembers log of
                    Inl e \<Rightarrow> (Inl (Thrown e), cl2)
                  | Inr authoritative \<Rightarrow>
                      (case roster E cl2 conv authoritative raw of
                         None \<Rightarrow> (Inl UndefinedRead, cl2)
                       | Some ms \<Rightarrow> (Inr ms, cl2))))))"

subsection \<open>Conversations\<close>

definition clCreateConversation :: "client_env \<Rightarrow> Client \<Rightarrow> jsstring list \<Rightarrow> bool \<Rightarrow> jsstring outcome" where
  "clCreateConversation E cl memberUserIds mode =
     cbind (rest E tr_conversation cl (RcCreateConversation (cl_token cl)
         \<lparr>ccr_creatorUserId = cl_userId cl, ccr_memberUserIds = memberUserIds, ccr_aiMode = mode\<rparr>)) (\<lambda>conv cl1.
       let cl2 = setConversation cl1 conv
             \<lparr>cc_members = [(cl_userId cl1, \<lparr>mc_deviceIds = [cl_deviceId cl1], mc_joinedAt = en_now E (cl_tick cl1)\<rparr>)],
              cc_aiMode = mode, cc_adminUserId = Some (cl_userId cl1), cc_membershipOps = []\<rparr>;
           cl3 = authorMembershipOp E cl2 conv
             (\<lambda>entropy sv. svCreateConversation (en_crypto E) entropy sv (cl_userId cl2) memberUserIds mode conv)
       in (Inr conv, snd (clListMembers E cl3 conv)))"

definition clInvite :: "client_env \<Rightarrow> Client \<Rightarrow> jsstring \<Rightarrow> jsstring \<Rightarrow> unit outcome" where
  "clInvite E cl conv userId =
     cbind (rest E void cl (RcInvite (cl_token cl) conv userId)) (\<lambda>_ cl1.
       let cl2 = authorMembershipOp E cl1 conv (\<lambda>entropy sv. svInvite (en_crypto E) entropy sv conv userId)
       in (Inr (), snd (clListMembers E cl2 conv)))"

definition clRemoveMember :: "client_env \<Rightarrow> Client \<Rightarrow> jsstring \<Rightarrow> jsstring \<Rightarrow> unit outcome" where
  "clRemoveMember E cl conv userId =
     cbind (rest E void cl (RcRemoveMember (cl_token cl) conv userId)) (\<lambda>_ cl1.
       let cl2 = authorMembershipOp E cl1 conv (\<lambda>entropy sv. svRemoveMember (en_crypto E) entropy sv conv userId)
       in (Inr (), snd (clListMembers E cl2 conv)))"

definition clSetAiMode :: "client_env \<Rightarrow> Client \<Rightarrow> jsstring \<Rightarrow> bool \<Rightarrow> unit outcome" where
  "clSetAiMode E cl conv enabled =
     cbind (rest E void cl (RcSetAiMode (cl_token cl) conv enabled)) (\<lambda>_ cl1.
       let cl2 = (case map_of (conversations_of cl1) conv of
             None \<Rightarrow> cl1
           | Some cached \<Rightarrow> setConversation cl1 conv (cached\<lparr>cc_aiMode := enabled\<rparr>))
       in (Inr (), cl2\<lparr>cl_events := cl_events cl2 @ [AiModeChanged conv enabled]\<rparr>))"

definition clGetAiMode :: "Client \<Rightarrow> jsstring \<Rightarrow> bool" where
  "clGetAiMode cl conv = (case map_of (conversations_of cl) conv of None \<Rightarrow> False | Some c \<Rightarrow> cc_aiMode c)"

definition invitePinFor :: "client_env \<Rightarrow> Client \<Rightarrow> jsstring \<Rightarrow> client_error + json" where
  "invitePinFor E cl conv =
     (case cl_service cl of
        None \<Rightarrow> Inl NoService
      | Some sv \<Rightarrow> (case inviteFor (en_crypto E) sv conv of Inl e \<Rightarrow> Inl (Thrown e) | Inr pin \<Rightarrow> Inr (serializeInvitePin pin)))"

definition acceptInvitePin :: "Client \<Rightarrow> json option \<Rightarrow> unit outcome" where
  "acceptInvitePin cl serialized =
     (case parseInvitePin serialized of
        Inl e \<Rightarrow> (Inl (Thrown e), cl)
      | Inr pin \<Rightarrow> (Inr (), cl\<lparr>cl_joinPins := amap_set (cl_joinPins cl) (pin_conversationId pin) pin\<rparr>))"

subsection \<open>Sending\<close>

fun sendAll :: "Client \<Rightarrow> (jsstring \<times> Envelope) list \<Rightarrow> unit outcome" where
  "sendAll cl [] = (Inr (), cl)"
| "sendAll cl ((u, e) # es) =
     (case sendFrame cl (WsSend u e) of None \<Rightarrow> (Inl NotConnected, cl) | Some cl' \<Rightarrow> sendAll cl' es)"

definition targetsOf :: "Client \<Rightarrow> Member list \<Rightarrow> DeviceAddress list" where
  "targetsOf cl ms = map (\<lambda>m. \<lparr>da_userId = mb_userId m, da_deviceId = mb_deviceId m\<rparr>) (filter (\<lambda>m. mb_userId m \<noteq> cl_userId cl) ms)"

definition stampHead :: "client_env \<Rightarrow> Client \<Rightarrow> jsstring \<Rightarrow> PlaintextMessage \<Rightarrow> thrown + PlaintextMessage" where
  "stampHead E cl conv plaintext =
     rbind (membershipLogFor E cl conv) (\<lambda>log.
       (case log of
          None \<Rightarrow> Inr plaintext
        | Some l \<Rightarrow> rbind (logHead (en_crypto E) l) (\<lambda>h. Inr (plaintext\<lparr>pm_membershipHead := Some h\<rparr>))))"

definition fanOut :: "client_env \<Rightarrow> Client \<Rightarrow> jsstring \<Rightarrow> PlaintextMessage \<Rightarrow> DeviceAddress list \<Rightarrow> unit outcome" where
  "fanOut E cl conv stamped targets =
     (case encryptForMembers (en_signal E) (cl_tick cl) (selfAddress cl)
          \<lparr>fc_conversationId = conv, fc_senderUserId = cl_userId cl, fc_senderDeviceId = cl_deviceId cl\<rparr>
          (en_stringify E (js_of_plaintext stamped)) (st_core (cl_stores cl)) (cl_fanoutSeq cl) targets of
        (r, core, sq) \<Rightarrow>
          let cl1 = pause E ((setCore cl core)\<lparr>cl_fanoutSeq := sq\<rparr>) in
          (case r of
             Inl e \<Rightarrow> (Inl (SessionFailed e), cl1)
           | Inr envelopes \<Rightarrow>
               if \<not> linkReady cl1 then (Inl NotConnected, cl1)
               else sendAll cl1 (zip (map da_userId targets) envelopes)))"

definition sendRaw :: "client_env \<Rightarrow> Client \<Rightarrow> jsstring \<Rightarrow> PlaintextMessage \<Rightarrow> unit outcome" where
  "sendRaw E cl conv plaintext =
     (case parsePlaintextMessage (js_of_plaintext plaintext) of
        None \<Rightarrow> (Inl BadPlaintext, cl)
      | Some _ \<Rightarrow>
          (case stampHead E cl conv plaintext of
             Inl e \<Rightarrow> (Inl (Thrown e), cl)
           | Inr stamped \<Rightarrow>
               cbind (clListMembers E cl conv) (\<lambda>ms cl1.
               cbind (ensureSessions E cl1 (targetsOf cl1 ms)) (\<lambda>_ cl2. fanOut E cl2 conv stamped (targetsOf cl1 ms)))))"

definition clSend :: "client_env \<Rightarrow> Client \<Rightarrow> jsstring \<Rightarrow> jsstring \<Rightarrow> jsstring list \<Rightarrow> jsstring outcome" where
  "clSend E cl conv text mentions =
     (let msgId = en_uuid E (cl_tick cl) in
      cbind (sendRaw E cl conv \<lparr>pm_msgId = msgId, pm_text = text, pm_mentions = mentions, pm_sentAt = en_now E (cl_tick cl),
        pm_membershipHead = None\<rparr>) (\<lambda>_ cl1. (Inr msgId, cl1)))"

subsection \<open>Receiving\<close>

definition safeAck :: "Client \<Rightarrow> jsstring \<Rightarrow> int \<Rightarrow> Client" where
  "safeAck cl conv sq =
     (if linkReady cl then (case sendFrame cl (WsAck conv sq) of None \<Rightarrow> cl | Some cl' \<Rightarrow> cl') else cl)"

definition toIncoming :: "Envelope \<Rightarrow> PlaintextMessage \<Rightarrow> IncomingMessage" where
  "toIncoming e m = \<lparr>im_conversationId = env_conversationId e, im_senderUserId = env_senderUserId e,
     im_senderDeviceId = env_senderDeviceId e, im_text = pm_text m, im_mentions = pm_mentions m,
     im_sentAt = pm_sentAt m, im_msgId = pm_msgId m\<rparr>"

text \<open>What follows an accepted verdict.\<close>

definition dispatchMessage :: "client_env \<Rightarrow> Client \<Rightarrow> Envelope \<Rightarrow> PlaintextMessage \<Rightarrow> Client" where
  "dispatchMessage E cl e m =
     (let cl3 = (if pm_msgId m \<in> set (st_seenMsgIds (cl_stores cl)) then cl
        else
          let cl1 = cl\<lparr>cl_stores := (cl_stores cl)\<lparr>st_seenMsgIds := js_set_add (st_seenMsgIds (cl_stores cl)) (pm_msgId m)\<rparr>\<rparr>;
              cl2 = (if map_of (conversations_of cl1) (env_conversationId e) \<noteq> None then cl1
                     else snd (clListMembers E cl1 (env_conversationId e)))
          in cl2\<lparr>cl_messages := cl_messages cl2 @ [toIncoming e m]\<rparr>)
      in safeAck cl3 (env_conversationId e) (env_seq e))"

text \<open>The provider the gate asks is the client's own cached chain, on the state the log was just built from,
  so that it does not throw.\<close>

definition ownChain :: "client_env \<Rightarrow> Client \<Rightarrow> jsstring \<Rightarrow> ChainProvider" where
  "ownChain E cl conv = (\<lambda>_. case membershipLogFor E cl conv of Inr (Some l) \<Rightarrow> Some (logChain l) | _ \<Rightarrow> None)"

definition gateMessage :: "client_env \<Rightarrow> Client \<Rightarrow> Envelope \<Rightarrow> PlaintextMessage \<Rightarrow> MembershipLog option \<Rightarrow> Client" where
  "gateMessage E cl e m log =
     (case log of
        None \<Rightarrow> safeAck cl (env_conversationId e) (env_seq e)
      | Some l \<Rightarrow>
          (case enforceInbound (en_crypto E) l (env_senderUserId e) (pm_membershipHead m) (Some (ownChain E cl (env_conversationId e))) of
             Inl _ \<Rightarrow> cl
           | Inr (Rejected _, _) \<Rightarrow> safeAck cl (env_conversationId e) (env_seq e)
           | Inr (Accepted, _) \<Rightarrow> dispatchMessage E cl e m))"

definition parsePlaintext :: "client_env \<Rightarrow> bytes \<Rightarrow> PlaintextMessage option" where
  "parsePlaintext E b = (case en_parse E b of None \<Rightarrow> None | Some j \<Rightarrow> parsePlaintextMessage j)"

definition handleIncomingEnvelope :: "client_env \<Rightarrow> Client \<Rightarrow> Envelope \<Rightarrow> Client" where
  "handleIncomingEnvelope E cl e =
     (case decryptEnvelope (en_signal E) (cl_tick cl) (selfAddress cl) (st_core (cl_stores cl)) e of
        (Inl _, core) \<Rightarrow> pause E (setCore cl core)
      | (Inr bytes, core) \<Rightarrow>
          let cl1 = drainIdentityChangeLog (pause E (setCore cl core)) in
          (case parsePlaintext E bytes of
             None \<Rightarrow> safeAck cl1 (env_conversationId e) (env_seq e)
           | Some m \<Rightarrow>
               (case membershipLogFor E cl1 (env_conversationId e) of
                  Inl _ \<Rightarrow> cl1
                | Inr (Some l) \<Rightarrow> gateMessage E cl1 e m (Some l)
                | Inr None \<Rightarrow>
                    (case awaitChainReady E cl1 (env_conversationId e) of
                       (Inl _, cl2) \<Rightarrow> cl2
                     | (Inr log, cl2) \<Rightarrow> gateMessage E cl2 e m log))))"

definition processInbox :: "client_env \<Rightarrow> Client \<Rightarrow> Client" where
  "processInbox E cl = (case cl_inbox cl of [] \<Rightarrow> cl | e # es \<Rightarrow> handleIncomingEnvelope E (cl\<lparr>cl_inbox := es\<rparr>) e)"

subsection \<open>Prekeys, connecting and the three ways to a client\<close>

fun provisionAndPublishOtps :: "client_env \<Rightarrow> Client \<Rightarrow> nat \<Rightarrow> unit outcome" where
  "provisionAndPublishOtps E cl 0 = (Inr (), cl)"
| "provisionAndPublishOtps E cl (Suc n) =
     (let otp = hd (generateOneTimePreKeys (en_prekeys E) (cl_tick cl) (cl_nextOneTimePreKeyId cl) 1);
          core = st_core (cl_stores cl);
          cl1 = setCore (cl\<lparr>cl_nextOneTimePreKeyId := cl_nextOneTimePreKeyId cl + 1\<rparr>)
            (core\<lparr>co_preKey := savePreKey (co_preKey core) (pr_id otp) (pl_serialize (en_prekeys E) otp)\<rparr>);
          bundle = buildBundle (id_registrationId (cl_identity cl)) (cl_deviceId cl) (id_publicKey (cl_identity cl))
            (cl_signedPreKey cl) (cl_kyberPreKey cl) (Some otp)
      in cbind (rest E void cl1 (RcPublishDevice (cl_token cl) (cl_userId cl) (bundleToWire bundle (cl_userId cl))))
           (\<lambda>_ cl2. provisionAndPublishOtps E cl2 n))"

definition checkAndReplenishPrekeys :: "client_env \<Rightarrow> Client \<Rightarrow> nat \<Rightarrow> bool outcome" where
  "checkAndReplenishPrekeys E cl batchSize =
     cbind (rest E tr_bundles cl (RcFetchBundles (cl_token cl) (cl_username cl) (Some (cl_deviceId cl)))) (\<lambda>bundles cl1.
       (case Option.bind (find (\<lambda>b. pb_deviceId b = cl_deviceId cl1) bundles) pb_preKeyId of
          Some _ \<Rightarrow> (Inr False, cl1)
        | None \<Rightarrow> cbind (provisionAndPublishOtps E cl1 batchSize) (\<lambda>_ cl2. (Inr True, cl2))))"

fun publishAll :: "client_env \<Rightarrow> Client \<Rightarrow> ProvisionedPreKeys \<Rightarrow> PreKeyRecord list \<Rightarrow> unit outcome" where
  "publishAll E cl pv [] = (Inr (), cl)"
| "publishAll E cl pv (otp # otps) =
     (let bundle = buildBundle (id_registrationId (cl_identity cl)) (cl_deviceId cl) (id_publicKey (cl_identity cl))
            (pv_signedPreKey pv) (pv_kyberPreKey pv) (Some otp)
      in cbind (rest E void cl (RcPublishDevice (cl_token cl) (cl_userId cl) (bundleToWire bundle (cl_userId cl))))
           (\<lambda>_ cl1. publishAll E cl1 pv otps))"

text \<open>The state is threaded through a client whose prekey fields are filled in at the end.\<close>

definition provisionIdentityAndPublish :: "client_env \<Rightarrow> Client \<Rightarrow> nat \<Rightarrow> ProvisionedPreKeys outcome" where
  "provisionIdentityAndPublish E cl otpCount =
     (case provision (en_prekeys E) (cl_tick cl) (st_core (cl_stores cl)) (id_privateKey (cl_identity cl)) 1 1 1 otpCount of
        (pv, core) \<Rightarrow> cbind (publishAll E (setCore cl core) pv (pv_oneTimePreKeys pv)) (\<lambda>_ cl1. (Inr pv, cl1)))"

definition newService :: "Client \<Rightarrow> Service" where
  "newService cl = \<lparr>sv_publicKey = id_publicKey (cl_identity cl), sv_privateKey = id_privateKey (cl_identity cl),
     sv_selfUserId = cl_userId cl, sv_broadcaster = True, sv_chains = [], sv_logs = [], sv_broadcasts = []\<rparr>"

text \<open>The first socket of the new link has number 0; \<open>connect\<close> waits until its promise settles.\<close>

definition clConnect :: "client_env \<Rightarrow> Client \<Rightarrow> unit outcome" where
  "clConnect E cl =
     (let cl1 = (case currentLink cl of None \<Rightarrow> cl | Some l \<Rightarrow> setCurrentLink cl (disconnectLink l));
          l = connectLink (newLink (cl_token cl) (cl_deviceId cl));
          cl2 = pause E (cl1\<lparr>cl_links := cl_links cl1 @ [l], cl_connectionState := Connecting\<rparr>)
      in case map_of (lk_sockets (cl_links cl2 ! length (cl_links cl1))) 0 of
           None \<Rightarrow> (Inl StillConnecting, cl2)
         | Some so \<Rightarrow>
             (case so_outcome so of
                None \<Rightarrow> (Inl StillConnecting, cl2)
              | Some False \<Rightarrow> (Inl ConnectFailed, cl2)
              | Some True \<Rightarrow> (Inr (), case cl_service cl2 of Some _ \<Rightarrow> cl2 | None \<Rightarrow> cl2\<lparr>cl_service := Some (newService cl2)\<rparr>)))"

definition clDisconnect :: "Client \<Rightarrow> Client" where
  "clDisconnect cl = (case currentLink cl of None \<Rightarrow> cl | Some l \<Rightarrow> setCurrentLink cl (disconnectLink l))"

record client_init =
  ci_token :: jsstring
  ci_userId :: jsstring
  ci_username :: jsstring
  ci_deviceId :: int
  ci_identity :: Identity
  ci_stores :: ClientStores
  ci_signedPreKey :: PreKeyRecord
  ci_kyberPreKey :: PreKeyRecord
  ci_nextOneTimePreKeyId :: int
  ci_autoResolve :: bool

definition newClient :: "client_init \<Rightarrow> Client" where
  "newClient i = \<lparr>cl_token = ci_token i, cl_userId = ci_userId i, cl_deviceId = ci_deviceId i, cl_username = ci_username i,
     cl_identity = ci_identity i, cl_signedPreKey = ci_signedPreKey i, cl_kyberPreKey = ci_kyberPreKey i,
     cl_nextOneTimePreKeyId = ci_nextOneTimePreKeyId i, cl_autoResolve = ci_autoResolve i, cl_stores = ci_stores i,
     cl_fanoutSeq = [], cl_links = [], cl_connectionState = Disconnected, cl_inbox = [], cl_changeLogCursor = 0,
     cl_opCatchupAttempted = [], cl_joinPins = [], cl_service = None, cl_tick = 0, cl_calls = [], cl_messages = [], cl_events = []\<rparr>"

definition noPreKey :: PreKeyRecord where
  "noPreKey = \<lparr>pr_id = 0, pr_publicKey = [], pr_privateKey = [], pr_signature = []\<rparr>"

text \<open>What \<^verbatim>\<open>signup\<close> and \<^verbatim>\<open>reregisterDevice\<close> share once the account is known.\<close>

definition provisionAndConnect :: "client_env \<Rightarrow> Client \<Rightarrow> nat \<Rightarrow> unit outcome" where
  "provisionAndConnect E cl otpCount =
     cbind (provisionIdentityAndPublish E cl otpCount) (\<lambda>pv cl1.
       clConnect E (cl1\<lparr>cl_signedPreKey := pv_signedPreKey pv, cl_kyberPreKey := pv_kyberPreKey pv,
         cl_nextOneTimePreKeyId := int otpCount + 1\<rparr>))"

definition signup :: "client_env \<Rightarrow> jsstring \<Rightarrow> jsstring \<Rightarrow> int option \<Rightarrow> Identity \<Rightarrow> ClientStores option \<Rightarrow> nat option \<Rightarrow> bool option \<Rightarrow> unit outcome" where
  "signup E inviteCode username deviceId ident stores otpCount autoResolve =
     (let cl = newClient \<lparr>ci_token = [], ci_userId = [], ci_username = username,
           ci_deviceId = (case deviceId of None \<Rightarrow> 1 | Some d \<Rightarrow> d), ci_identity = ident,
           ci_stores = (case stores of None \<Rightarrow> createClientStores ident | Some st \<Rightarrow> st),
           ci_signedPreKey = noPreKey, ci_kyberPreKey = noPreKey, ci_nextOneTimePreKeyId = 0,
           ci_autoResolve = (case autoResolve of None \<Rightarrow> False | Some b \<Rightarrow> b)\<rparr>
      in cbind (rest E tr_account cl (RcSignup inviteCode username)) (\<lambda>(userId, token) cl1.
           provisionAndConnect E (cl1\<lparr>cl_userId := userId, cl_token := token\<rparr>)
             (case otpCount of None \<Rightarrow> DEFAULT_INITIAL_OTP_COUNT | Some n \<Rightarrow> n)))"

definition reregisterDevice :: "client_env \<Rightarrow> jsstring \<Rightarrow> jsstring \<Rightarrow> jsstring \<Rightarrow> int option \<Rightarrow> Identity \<Rightarrow> ClientStores option \<Rightarrow> nat option \<Rightarrow> unit outcome" where
  "reregisterDevice E userId token username deviceId ident stores otpCount =
     provisionAndConnect E (newClient \<lparr>ci_token = token, ci_userId = userId, ci_username = username,
       ci_deviceId = (case deviceId of None \<Rightarrow> 1 | Some d \<Rightarrow> d), ci_identity = ident,
       ci_stores = (case stores of None \<Rightarrow> createClientStores ident | Some st \<Rightarrow> st),
       ci_signedPreKey = noPreKey, ci_kyberPreKey = noPreKey, ci_nextOneTimePreKeyId = 0, ci_autoResolve = False\<rparr>)
       (case otpCount of None \<Rightarrow> DEFAULT_INITIAL_OTP_COUNT | Some n \<Rightarrow> n)"

text \<open>
  \<open>readRecord\<close> deserialises a stored prekey record. The key pair and the registration id are
  restored by libsignal from the serialised identity, which is passed as \<open>ident\<close>.
\<close>

definition resume ::
    "client_env \<Rightarrow> (bytes \<Rightarrow> PreKeyRecord option) \<Rightarrow> jsstring \<Rightarrow> jsstring \<Rightarrow> jsstring \<Rightarrow> int option \<Rightarrow> Identity
       \<Rightarrow> SerializedClientStores \<Rightarrow> int \<Rightarrow> bool option \<Rightarrow> client_error + unit outcome" where
  "resume E readRecord token userId username deviceId ident serializedStores nextId autoResolve =
     (let stores = clientFromJSON serializedStores;
          core = st_core stores
      in case (ss_signedPreKeys (scs_core serializedStores), ss_kyberPreKeys (scs_core serializedStores)) of
           ((signedId, _) # _, (kyberId, _) # _) \<Rightarrow>
             (case (getSignedPreKey (co_signedPreKey core) signedId, getKyberPreKey (co_kyberPreKey core) kyberId) of
                (Inr sb, Inr kb) \<Rightarrow>
                  (case (readRecord sb, readRecord kb) of
                     (Some sp, Some kp) \<Rightarrow>
                       Inr (clConnect E (newClient \<lparr>ci_token = token, ci_userId = userId, ci_username = username,
                         ci_deviceId = (case deviceId of None \<Rightarrow> 1 | Some d \<Rightarrow> d), ci_identity = ident, ci_stores = stores,
                         ci_signedPreKey = sp, ci_kyberPreKey = kp, ci_nextOneTimePreKeyId = nextId,
                         ci_autoResolve = (case autoResolve of None \<Rightarrow> False | Some b \<Rightarrow> b)\<rparr>))
                   | _ \<Rightarrow> Inl BadRecord)
              | _ \<Rightarrow> Inl MissingPreKeyRecord)
         | _ \<Rightarrow> Inl MissingPreKeyRecord)"

end
