(* ===== verification/HttpTransport.thy ===== *)
theory HttpTransport
  imports Client RestProps
begin

section \<open>The HTTP transport (\<^verbatim>\<open>client-sdk/src/transport.ts\<close>)\<close>

text \<open>
  \<^verbatim>\<open>createHttpWsTransport\<close> turns the calls of the client into HTTP requests. \<open>fetch\<close> is the
  parameter \<open>fetch n q\<close>: the answer to the \<open>n\<close>-th request, its status and its JSON body, \<open>None\<close>
  when the promise is rejected or the body is no JSON. The type assertions on a body are read as: a body of the
  asserted type is its value, and one of another type, which no route of the relay sends with
  a success status, counts as a rejection; the code would pass it on unchecked.

  \<open>relayFetch\<close> closes the loop with the relay: resolving the path against the base address and
  the routing of Fastify are the parameter \<open>router\<close>, whose law \<open>routes_paths\<close> speaks of path
  segments without reserved characters only.
\<close>

datatype http_method = GET | POST | PATCH

record HttpRequest =
  hq_method :: http_method
  hq_path :: jsstring
  hq_authorization :: "jsstring option"
  hq_body :: "json option"

text \<open>The bases of \<^verbatim>\<open>relayUrl.replace(/^ws/, "http")\<close> and back.\<close>

definition httpBase :: "jsstring \<Rightarrow> jsstring" where
  "httpBase relayUrl = (if take 2 relayUrl = js ''ws'' then js ''http'' @ drop 2 relayUrl else relayUrl)"

definition wsBase :: "jsstring \<Rightarrow> jsstring" where
  "wsBase relayUrl = (if take 4 relayUrl = js ''http'' then js ''ws'' @ drop 4 relayUrl else relayUrl)"

definition mkRequest :: "http_method \<Rightarrow> jsstring \<Rightarrow> jsstring option \<Rightarrow> json option \<Rightarrow> HttpRequest" where
  "mkRequest md path token body = \<lparr>hq_method = md, hq_path = path,
     hq_authorization = (case token of None \<Rightarrow> None | Some t \<Rightarrow> if t = [] then None else Some (js ''Bearer '' @ t)), hq_body = body\<rparr>"

definition deviceQuery :: "int option \<Rightarrow> jsstring" where
  "deviceQuery d = (case d of None \<Rightarrow> [] | Some i \<Rightarrow> js ''?deviceId='' @ js_of_int i)"

definition conversationPath :: "jsstring \<Rightarrow> string \<Rightarrow> jsstring" where
  "conversationPath conv act = js ''/conversations/'' @ conv @ js act"

definition js_of_create :: "CreateConversationRequest \<Rightarrow> json" where
  "js_of_create c = JObj [(js ''creatorUserId'', JStr (ccr_creatorUserId c)),
     (js ''memberUserIds'', JArr (map JStr (ccr_memberUserIds c))), (js ''aiMode'', JBool (ccr_aiMode c))]"

text \<open>The request of each call; names and ids go into the path as they are.\<close>

definition toRequest :: "rest_call \<Rightarrow> HttpRequest" where
  "toRequest call = (case call of
     RcSignup code username \<Rightarrow> mkRequest POST (js ''/signup'') None
       (Some (JObj [(js ''inviteCode'', JStr code), (js ''username'', JStr username)]))
   | RcPublishDevice token userId bundle \<Rightarrow> mkRequest POST (js ''/devices'') (Some token)
       (Some (JObj [(js ''userId'', JStr userId), (js ''bundle'', js_of_bundle bundle)]))
   | RcFetchBundles token username d \<Rightarrow> mkRequest GET (js ''/users/'' @ username @ js ''/bundle'' @ deviceQuery d) (Some token) None
   | RcFetchBundlesByUserId token userId d \<Rightarrow>
       mkRequest GET (js ''/users/by-id/'' @ userId @ js ''/bundle'' @ deviceQuery d) (Some token) None
   | RcCreateConversation token c \<Rightarrow> mkRequest POST (js ''/conversations'') (Some token) (Some (js_of_create c))
   | RcInvite token conv userId \<Rightarrow> mkRequest POST (conversationPath conv ''/invite'') (Some token) (Some (JObj [(js ''userId'', JStr userId)]))
   | RcRemoveMember token conv userId \<Rightarrow> mkRequest POST (conversationPath conv ''/remove'') (Some token) (Some (JObj [(js ''userId'', JStr userId)]))
   | RcSetAiMode token conv b \<Rightarrow> mkRequest PATCH (conversationPath conv ''/ai-mode'') (Some token) (Some (JObj [(js ''enabled'', JBool b)]))
   | RcListMembers token conv \<Rightarrow> mkRequest GET (conversationPath conv ''/members'') (Some token) None)"

subsection \<open>Answers\<close>

text \<open>\<^verbatim>\<open>requestJson\<close>: an answer outside 200 to 299 is a \<^verbatim>\<open>RelayRequestError\<close>.\<close>

definition requestJson :: "(nat \<Rightarrow> HttpRequest \<Rightarrow> (nat \<times> json option) option) \<Rightarrow> nat \<Rightarrow> HttpRequest \<Rightarrow> json option option" where
  "requestJson fetch n q =
     (case fetch n q of None \<Rightarrow> None | Some (status, body) \<Rightarrow> if 200 \<le> status \<and> status < 300 then Some body else None)"

definition methodName :: "http_method \<Rightarrow> jsstring" where
  "methodName md = js (case md of GET \<Rightarrow> ''GET'' | POST \<Rightarrow> ''POST'' | PATCH \<Rightarrow> ''PATCH'')"

text \<open>The message of the error; \<open>thrownMsg\<close> is the one of a rejected \<open>fetch\<close>, \<open>stringify\<close> is \<^verbatim>\<open>JSON.stringify\<close>.\<close>

definition requestError ::
    "(json option \<Rightarrow> jsstring) \<Rightarrow> (nat \<Rightarrow> HttpRequest \<Rightarrow> jsstring) \<Rightarrow> (nat \<Rightarrow> HttpRequest \<Rightarrow> (nat \<times> json option) option)
       \<Rightarrow> nat \<Rightarrow> HttpRequest \<Rightarrow> jsstring" where
  "requestError stringify thrownMsg fetch n q =
     (case fetch n q of
        None \<Rightarrow> thrownMsg n q
      | Some (status, body) \<Rightarrow> js ''relay request failed: '' @ methodName (hq_method q) @ js '' '' @ hq_path q @ js '' -> ''
          @ decimalDigits status @ js '' '' @ stringify body)"

definition readStr :: "json option \<Rightarrow> jsstring option" where
  "readStr v = (case v of Some (JStr s) \<Rightarrow> Some s | _ \<Rightarrow> None)"

definition readInt :: "json option \<Rightarrow> int option" where
  "readInt v = (case v of Some (JInt i) \<Rightarrow> Some i | _ \<Rightarrow> None)"

definition readAccount :: "json \<Rightarrow> (jsstring \<times> jsstring) option" where
  "readAccount v = do { u \<leftarrow> readStr (js_get v (js ''userId'')); t \<leftarrow> readStr (js_get v (js ''token'')); Some (u, t) }"

definition readMember :: "json option \<Rightarrow> ConversationMember option" where
  "readMember v = do {
     o' \<leftarrow> v; u \<leftarrow> readStr (js_get o' (js ''userId'')); ds \<leftarrow> z_array readInt (js_get o' (js ''deviceIds''));
     Some \<lparr>cm_userId = u, cm_deviceIds = ds\<rparr> }"

definition readMembers :: "json \<Rightarrow> (ConversationMember list \<times> bool) option" where
  "readMembers v = do { ms \<leftarrow> z_array readMember (js_get v (js ''members'')); b \<leftarrow> z_bool (js_get v (js ''aiMode'')); Some (ms, b) }"

definition readBundles :: "json \<Rightarrow> PreKeyBundlePublic list option" where
  "readBundles v = z_array PreKeyBundlePublicSchema (js_get v (js ''bundles''))"

text \<open>The body of a successful answer, read as \<open>f\<close> does.\<close>

definition answerOf :: "(nat \<Rightarrow> HttpRequest \<Rightarrow> (nat \<times> json option) option) \<Rightarrow> (json \<Rightarrow> 'a option) \<Rightarrow> nat \<Rightarrow> rest_call \<Rightarrow> 'a option" where
  "answerOf fetch f n call = do { body \<leftarrow> requestJson fetch n (toRequest call); v \<leftarrow> body; f v }"

definition httpTransport ::
    "(json option \<Rightarrow> jsstring) \<Rightarrow> (nat \<Rightarrow> HttpRequest \<Rightarrow> jsstring) \<Rightarrow> (nat \<Rightarrow> HttpRequest \<Rightarrow> (nat \<times> json option) option) \<Rightarrow> transport" where
  "httpTransport stringify thrownMsg fetch =
     \<lparr>tr_error = (\<lambda>n call. requestError stringify thrownMsg fetch n (toRequest call)),
      tr_done = (\<lambda>n call. requestJson fetch n (toRequest call) \<noteq> None),
      tr_account = answerOf fetch readAccount,
      tr_bundles = answerOf fetch readBundles,
      tr_conversation = answerOf fetch (\<lambda>v. readStr (js_get v (js ''conversationId''))),
      tr_members = answerOf fetch readMembers\<rparr>"

subsection \<open>The relay at the other end\<close>

type_synonym router = "http_method \<Rightarrow> jsstring \<Rightarrow> (Route \<times> int option option) option"

definition path_safe :: "jsstring \<Rightarrow> bool" where
  "path_safe s \<longleftrightarrow> s \<noteq> [] \<and> list_all (\<lambda>u. let n = unat u in
     n = 45 \<or> n = 95 \<or> (48 \<le> n \<and> n \<le> 57) \<or> (65 \<le> n \<and> n \<le> 90) \<or> (97 \<le> n \<and> n \<le> 122)) s"

definition routes_paths :: "router \<Rightarrow> bool" where
  "routes_paths router \<longleftrightarrow> (\<forall>i. path_safe i \<longrightarrow>
     router POST (conversationPath i ''/invite'') = Some (InviteTo i, None)
     \<and> router POST (conversationPath i ''/remove'') = Some (RemoveFrom i, None)
     \<and> router PATCH (conversationPath i ''/ai-mode'') = Some (AiModeOf i, None)
     \<and> router GET (conversationPath i ''/members'') = Some (MembersOf i, None))"

text \<open>One request at the relay: what the client is answered and the state the relay is left in.\<close>

definition relayRequest ::
    "router \<Rightarrow> crypto_lib \<Rightarrow> RelayConfig \<Rightarrow> bool \<Rightarrow> picker \<Rightarrow> Fresh \<Rightarrow> jsstring \<Rightarrow> HttpRequest \<Rightarrow> Relay \<Rightarrow> (nat \<times> json option) \<times> Relay" where
  "relayRequest router K cfg dbUp pick fr ip q r =
     (case router (hq_method q) (hq_path q) of
        None \<Rightarrow> ((404, Some (JObj [(js ''statusCode'', JInt 404)])), r)
      | Some (route, d) \<Rightarrow>
          (case serve K cfg dbUp pick fr route \<lparr>rq_url = hq_path q, rq_authorization = hq_authorization q, rq_ip = ip,
               rq_body = hq_body q, rq_deviceId = d\<rparr> r of
             (Reply code v, r') \<Rightarrow> ((code, Some v), r')
           | (Failed, r') \<Rightarrow> ((500, Some (JObj [(js ''statusCode'', JInt 500)])), r')))"

text \<open>The \<open>fetch\<close> of a client whose relay is in state \<open>at n\<close> at its \<open>n\<close>-th request.\<close>

definition relayFetch ::
    "router \<Rightarrow> crypto_lib \<Rightarrow> RelayConfig \<Rightarrow> bool \<Rightarrow> picker \<Rightarrow> Fresh \<Rightarrow> jsstring \<Rightarrow> (nat \<Rightarrow> Relay)
       \<Rightarrow> nat \<Rightarrow> HttpRequest \<Rightarrow> (nat \<times> json option) option" where
  "relayFetch router K cfg dbUp pick fr ip at n q = Some (fst (relayRequest router K cfg dbUp pick fr ip q (at n)))"

subsection \<open>A request of a token's owner reaches its route\<close>

lemma path_safe_chars: "path_safe s \<Longrightarrow> u \<in> set s \<Longrightarrow> \<not> isSpace u"
  by (auto simp: path_safe_def isSpace_def list_all_iff Let_def)

lemma bearer_extracted:
  assumes "path_safe tok"
  shows "extractBearerToken (Some (js ''Bearer '' @ tok)) = Some tok"
proof -
  have ne: "tok \<noteq> []" using assms by (simp add: path_safe_def)
  have "\<not> isSpace (hd (rev tok))" "\<not> isSpace (hd tok)"
    using path_safe_chars [OF assms] ne by (simp_all add: hd_rev)
  then have d: "dropWhile isSpace (rev tok @ xs) = rev tok @ xs" "dropWhile isSpace tok = tok" for xs
    using ne by (cases "rev tok"; cases tok; simp)+
  have sp: "isSpace 32" "\<not> isSpace 66" by (simp_all add: isSpace_def)
  have trim: "js_trim (js ''Bearer '' @ tok) = js ''Bearer '' @ tok"
    by (simp add: js_trim_def js_def sp d(1))
  have "list_all (\<lambda>u. \<not> isSpace u) tok" using path_safe_chars [OF assms] by (simp add: list_all_iff)
  moreover have "\<exists>u \<in> set tok. \<not> isSpace u" using path_safe_chars [OF assms] ne by (cases tok) auto
  ultimately show ?thesis using ne d(2) trim
    by (simp add: extractBearerToken_def Let_def js_def asciiLower_def sp)
qed

lemma conversation_not_public: "\<not> isPublic (conversationPath conv act)"
  by (simp add: isPublic_def conversationPath_def js_def)

lemma relayRequest_owner:
  assumes "router (hq_method q) (hq_path q) = Some (route, d)" "hq_path q = conversationPath conv act"
    and "hq_authorization q = Some (js ''Bearer '' @ tok)" "path_safe tok" "authenticateToken K (rl_db r) tok = Some p"
  shows "relayRequest router K cfg dbUp pick fr ip q r =
     (case dispatch K cfg dbUp pick fr (Some p) route \<lparr>rq_url = hq_path q, rq_authorization = hq_authorization q, rq_ip = ip,
         rq_body = hq_body q, rq_deviceId = d\<rparr> r of
        (Reply code v, r') \<Rightarrow> ((code, Some v), r')
      | (Failed, r') \<Rightarrow> ((500, Some (JObj [(js ''statusCode'', JInt 500)])), r'))"
  using assms conversation_not_public [of conv act] bearer_extracted [OF assms(4)]
  by (simp add: relayRequest_def serve_def authenticate_def)

lemma readMembers_relay: "readMembers (js_of_members ms b) = Some (ms, b)"
proof -
  have ds: "z_items readInt (map JInt ds) = Some ds" for ds by (rule z_items_map) (simp add: readInt_def)
  have "z_items readMember (map (\<lambda>m. JObj [(js ''userId'', JStr (cm_userId m)), (js ''deviceIds'', JArr (map JInt (cm_deviceIds m)))]) ms) = Some ms"
    by (rule z_items_map) (simp add: readMember_def readStr_def z_array_def ds js_def)
  then show ?thesis by (simp add: readMembers_def js_of_members_def z_array_def z_bool_def js_def)
qed

lemma toRequest_invite:
  assumes "path_safe tok"
  shows "hq_method (toRequest (RcInvite tok conv u)) = POST" "hq_path (toRequest (RcInvite tok conv u)) = conversationPath conv ''/invite''"
    "hq_authorization (toRequest (RcInvite tok conv u)) = Some (js ''Bearer '' @ tok)"
    "hq_body (toRequest (RcInvite tok conv u)) = Some (JObj [(js ''userId'', JStr u)])"
  using assms by (simp_all add: toRequest_def mkRequest_def path_safe_def)

lemma toRequest_members:
  assumes "path_safe tok"
  shows "hq_method (toRequest (RcListMembers tok conv)) = GET" "hq_path (toRequest (RcListMembers tok conv)) = conversationPath conv ''/members''"
    "hq_authorization (toRequest (RcListMembers tok conv)) = Some (js ''Bearer '' @ tok)"
  using assms by (simp_all add: toRequest_def mkRequest_def path_safe_def)

lemma invite_request:
  assumes "routes_paths router" "path_safe conv" "path_safe tok" "authenticateToken K (rl_db r) tok = Some p" "u \<noteq> []"
  shows "relayRequest router K cfg dbUp pick fr ip (toRequest (RcInvite tok conv u)) r =
    (if \<not> canManageMembership pick (rl_db r) conv p then ((403, Some (JObj [(js ''error'', JStr (js ''forbidden''))])), r)
     else case inviteMember pick (rl_db r) conv u of
       Inl _ \<Rightarrow> ((500, Some (JObj [(js ''statusCode'', JInt 500)])), r)
     | Inr db \<Rightarrow> ((200, Some okBody), r\<lparr>rl_db := db\<rparr>))"
proof -
  have route: "router POST (conversationPath conv ''/invite'') = Some (InviteTo conv, None)"
    using assms(1,2) by (simp add: routes_paths_def)
  have "MemberRequestSchema (withConversationId (Some (JObj [(js ''userId'', JStr u)])) conv) = Some (conv, u)"
    using assms(2,5) by (simp add: MemberRequestSchema_def withConversationId_def z_object_def z_str1_def path_safe_def js_def)
  then show ?thesis
    using relayRequest_owner [of router "toRequest (RcInvite tok conv u)" "InviteTo conv" None conv "''/invite''" tok K r p]
      toRequest_invite [OF assms(3), of conv u] route assms(3,4)
    by (simp add: dispatch_def routeInvite_def failWith_def split: sum.splits)
qed

lemma members_request:
  assumes "routes_paths router" "path_safe conv" "path_safe tok" "authenticateToken K (rl_db r) tok = Some p"
    and "p \<in> active_members (rl_db r) conv"
  shows "fst (relayRequest router K cfg dbUp pick fr ip (toRequest (RcListMembers tok conv)) r)
    = (200, Some (js_of_members (listMembers (rl_db r) conv) (getAiMode (rl_db r) conv)))"
proof -
  have "router GET (conversationPath conv ''/members'') = Some (MembersOf conv, None)"
    using assms(1,2) by (simp add: routes_paths_def)
  then show ?thesis
    using relayRequest_owner [of router "toRequest (RcListMembers tok conv)" "MembersOf conv" None conv "''/members''" tok K r p]
      toRequest_members [OF assms(3), of conv] assms(3-5)
    by (simp add: dispatch_def routeMembers_def isActiveMember_iff)
qed

subsection \<open>Properties\<close>

text \<open>C30: an invite over HTTP is the invite in the relay's tables: through the transport, the router, the
  auth hook and the route, a call of an active member who may manage the membership succeeds and
  the member list the same client then fetches is the old one with the invited user and the
  conversation's mode; the call of a member who may not is rejected and leaves the relay as it was.\<close>

theorem invite_over_http:
  assumes "routes_paths router" "path_safe conv" "path_safe tok" "authenticateToken K (rl_db r) tok = Some p"
    and "p \<in> active_members (rl_db r) conv" "memberships_inv (rl_db r)" "user_exists (rl_db r) u" "u \<noteq> []"
    and "T = (\<lambda>s. httpTransport stringify msg (relayFetch router K cfg dbUp pick fr ip (\<lambda>_. s)))"
    and "snd (relayRequest router K cfg dbUp pick fr ip (toRequest (RcInvite tok conv u)) r) = r'"
  shows "(canManageMembership pick (rl_db r) conv p \<longrightarrow> tr_done (T r) n (RcInvite tok conv u)
      \<and> (\<exists>ms. tr_members (T r') k (RcListMembers tok conv) = Some (ms, getAiMode (rl_db r) conv)
           \<and> cm_userId ` set ms = insert u (active_members (rl_db r) conv)))
    \<and> (\<not> canManageMembership pick (rl_db r) conv p \<longrightarrow> \<not> tr_done (T r) n (RcInvite tok conv u) \<and> r' = r)"
proof (cases "canManageMembership pick (rl_db r) conv p")
  case True
  obtain db where db: "inviteMember pick (rl_db r) conv u = Inr db"
    using inviteMember_ok [OF assms(7) active_conversation_exists [OF assms(6,5)]] by blast
  have req: "relayRequest router K cfg dbUp pick fr ip (toRequest (RcInvite tok conv u)) r = ((200, Some okBody), r\<lparr>rl_db := db\<rparr>)"
    using invite_request [OF assms(1-4,8)] True db by simp
  then have r': "rl_db r' = db" using assms(10) by auto
  have mem: "active_members db conv = insert u (active_members (rl_db r) conv)"
    using inviteMember_members [OF assms(6) db, of conv] by simp
  have "authenticateToken K (rl_db r') tok = Some p"
    using assms(4) command_fixed(1) [OF db] by (simp add: r' authenticateToken_def)
  from members_request [OF assms(1-3) this] have
    "tr_members (T r') k (RcListMembers tok conv) = Some (listMembers db conv, getAiMode db conv)"
    using assms(5) mem
    by (simp add: assms(9) httpTransport_def answerOf_def requestJson_def relayFetch_def r' readMembers_relay)
  moreover have "getAiMode db conv = getAiMode (rl_db r) conv"
    using command_fixed(1) [OF db] by (intro getAiMode_cong) simp
  ultimately show ?thesis
    using True req mem listMembers_users [of db conv]
    by (auto simp: assms(9) httpTransport_def requestJson_def relayFetch_def)
next
  case False
  then show ?thesis
    using invite_request [OF assms(1-4,8), of cfg dbUp pick fr ip] assms(10)
    by (auto simp: assms(9) httpTransport_def requestJson_def relayFetch_def)
qed

text \<open>A router that follows the law, and a relay on which \<open>alice\<close> holds the token \<open>tok-alice\<close>.\<close>

definition demoRouter :: router where
  "demoRouter md path =
     (case splitOn 47 (drop 15 path) of
        [i, act] \<Rightarrow>
          (if md = POST \<and> act = js ''invite'' then Some (InviteTo i, None)
           else if md = POST \<and> act = js ''remove'' then Some (RemoveFrom i, None)
           else if md = PATCH \<and> act = js ''ai-mode'' then Some (AiModeOf i, None)
           else if md = GET \<and> act = js ''members'' then Some (MembersOf i, None) else None)
      | _ \<Rightarrow> None)"

lemma splitOn_append: "sep \<notin> set xs \<Longrightarrow> splitOn sep (xs @ sep # ys) = xs # splitOn sep ys"
  by (induction xs) auto

lemma demoRouter_paths: "routes_paths demoRouter"
proof -
  have "47 \<notin> set i" if "path_safe i" for i using that by (auto simp: path_safe_def list_all_iff Let_def)
  then have "splitOn 47 (i @ 47 # ys) = i # splitOn 47 ys" if "path_safe i" for i ys
    using splitOn_append that by blast
  then show ?thesis
    by (simp add: routes_paths_def demoRouter_def conversationPath_def js_def)
qed

definition demoHost :: Relay where
  "demoHost = demoRelay\<lparr>rl_db := demoDb\<lparr>db_users := [(demoUser (js ''alice''))\<lparr>us_tokenHash := hashToken demoLib (js ''tok-alice'')\<rparr>,
     demoUser (js ''carol'')]\<rparr>\<rparr>"

theorem invite_over_http_witness:
  "\<exists>r' ms. snd (relayRequest demoRouter demoLib demoConfig True (\<lambda>_. 0) demoFresh (js ''ip'')
        (toRequest (RcInvite (js ''tok-alice'') (js ''c1'') (js ''carol''))) demoHost) = r'
    \<and> tr_members (httpTransport (\<lambda>_. []) (\<lambda>_ _. []) (relayFetch demoRouter demoLib demoConfig True (\<lambda>_. 0) demoFresh (js ''ip'') (\<lambda>_. r')))
        1 (RcListMembers (js ''tok-alice'') (js ''c1'')) = Some (ms, False)
    \<and> cm_userId ` set ms = {js ''alice'', js ''bob'', js ''carol''}"
proof -
  have safe: "path_safe (js ''c1'')" "path_safe (js ''tok-alice'')" by (simp_all add: path_safe_def js_def)
  have tok: "authenticateToken demoLib (rl_db demoHost) (js ''tok-alice'') = Some (js ''alice'')"
    by (simp add: authenticateToken_find demoHost_def demoUser_def)
  have mem: "active_members (rl_db demoHost) (js ''c1'') = {js ''alice'', js ''bob''}"
    by (simp add: active_members_def demoHost_def demoDb_def conj_disj_distribR Collect_disj_eq Collect_conv_if insert_commute)
  have "js ''alice'' \<in> active_members (rl_db demoHost) (js ''c1'')" by (simp add: mem)
  moreover have "memberships_inv (rl_db demoHost)" "user_exists (rl_db demoHost) (js ''carol'')" "js ''carol'' \<noteq> []"
    by (simp_all add: memberships_inv_def user_exists_def demoHost_def demoDb_def demoUser_def js_def)
  moreover have "canManageMembership (\<lambda>_. 0) (rl_db demoHost) (js ''c1'') (js ''alice'')" "\<not> getAiMode (rl_db demoHost) (js ''c1'')"
    by (simp_all add: canManageMembership_def getAiMode_def findConversation_def demoHost_def demoDb_def)
  ultimately show ?thesis
    using invite_over_http [OF demoRouter_paths safe tok _ _ _ _ refl refl, where u = "js ''carol''" and k = 1 and pick = "\<lambda>_. 0"
        and cfg = demoConfig and dbUp = True and fr = demoFresh and ip = "js ''ip''" and stringify = "\<lambda>_. []" and msg = "\<lambda>_ _. []"]
    by (fastforce simp: mem)
qed

text \<open>A name with reserved characters changes the path: the bundle of a user called
  \<^verbatim>\<open>by-id/x\<close> is asked for with the request for the user whose id is \<^verbatim>\<open>x\<close>.\<close>

lemma username_is_a_path: "toRequest (RcFetchBundles tok (js ''by-id/'' @ x) d) = toRequest (RcFetchBundlesByUserId tok x d)"
  by (simp add: toRequest_def mkRequest_def js_def)

end
