(* ===== verification/P2pTransport.thy ===== *)
theory P2pTransport
  imports Utf8
begin

section \<open>The peer-to-peer transport (\<^verbatim>\<open>client-sdk/src/transport-p2p.ts\<close>, \<^verbatim>\<open>transport-select.ts\<close>)\<close>

text \<open>
  \<^verbatim>\<open>createP2pTransport\<close> as a state machine. Every \<^verbatim>\<open>openSocket\<close> makes a closure, an entry of
  \<open>px_sockets\<close>; every \<^verbatim>\<open>node.dial\<close> a raw connection, numbered by its place in \<open>px_dials\<close>, whose
  handlers \<^verbatim>\<open>attach\<close> binds to the closure (\<open>px_owner\<close>) for good: a relay fallback points the
  closure to a new raw connection and leaves the handlers of the old one in place; a destroyed
  stream still emits its close, as Node documents. The calls
  of the consumer's callbacks, the bytes written and the connections destroyed are appended
  to lists; what a callback does in turn is a later event.

  The variable \<^verbatim>\<open>fallbackTimer\<close> and the timers that are pending are two things. A step that
  never returns is \<open>None\<close>: \<^verbatim>\<open>flushInto\<close> is a loop over the shared outbox.
\<close>

record P2pTransportOptions =
  po_peerPublicKey :: bytes
  po_dialRelay :: "bytes option"
  po_relayThrough :: "bytes option"
  po_fallbackTimeoutMs :: "int option"

definition DEFAULT_FALLBACK_TIMEOUT_MS :: int where "DEFAULT_FALLBACK_TIMEOUT_MS = 8000"

record P2pSock =
  pw_open :: bool
  pw_relayAttempted :: bool
  pw_fallbackTimer :: "nat option"
  pw_raw :: nat
  pw_openCbs :: "nat list"
  pw_messageCbs :: "nat list"
  pw_closeCbs :: "nat list"
  pw_errorCbs :: "nat list"

datatype p2p_call = OpenCalled | MessageCalled jsstring | CloseCalled int jsstring | ErrorCalled jsstring

record P2pTransport =
  px_outbox :: "jsstring list"
  px_currentSocket :: "nat option"
  px_sockets :: "(nat \<times> P2pSock) list"
  px_owner :: "(nat \<times> nat) list"
  px_dials :: "(bytes \<times> bytes option) list"
  px_timers :: "(nat \<times> nat \<times> int) list"
  px_next :: nat
  px_destroyed :: "nat list"
  px_written :: "(nat \<times> jsstring) list"
  px_calls :: "(nat \<times> p2p_call) list"

definition createP2pTransport :: P2pTransport where
  "createP2pTransport = \<lparr>px_outbox = [], px_currentSocket = None, px_sockets = [], px_owner = [], px_dials = [],
     px_timers = [], px_next = 0, px_destroyed = [], px_written = [], px_calls = []\<rparr>"

definition setSock :: "P2pTransport \<Rightarrow> nat \<Rightarrow> P2pSock \<Rightarrow> P2pTransport" where
  "setSock t i s = t\<lparr>px_sockets := amap_set (px_sockets t) i s\<rparr>"

definition onSock :: "P2pTransport \<Rightarrow> nat \<Rightarrow> (P2pSock \<Rightarrow> P2pTransport option) \<Rightarrow> P2pTransport option" where
  "onSock t i f = (case map_of (px_sockets t) i of None \<Rightarrow> Some t | Some s \<Rightarrow> f s)"

definition callAll :: "P2pTransport \<Rightarrow> nat list \<Rightarrow> p2p_call \<Rightarrow> P2pTransport" where
  "callAll t cbs c = t\<lparr>px_calls := px_calls t @ map (\<lambda>cb. (cb, c)) cbs\<rparr>"

subsection \<open>Sending and flushing\<close>

definition sendP2p :: "P2pTransport \<Rightarrow> nat \<Rightarrow> P2pSock \<Rightarrow> jsstring \<Rightarrow> P2pTransport" where
  "sendP2p t i s d =
     (if pw_open s then t\<lparr>px_written := px_written t @ [(pw_raw s, d)]\<rparr> else t\<lparr>px_outbox := px_outbox t @ [d]\<rparr>)"

partial_function (option) flushInto :: "P2pTransport \<Rightarrow> nat \<Rightarrow> P2pSock \<Rightarrow> P2pTransport option" where
  "flushInto t i s =
     (case px_outbox t of [] \<Rightarrow> Some t | f # fs \<Rightarrow> flushInto (sendP2p (t\<lparr>px_outbox := fs\<rparr>) i s f) i s)"

definition drainReady :: "P2pTransport \<Rightarrow> P2pTransport option" where
  "drainReady t = (case px_currentSocket t of None \<Rightarrow> Some t | Some i \<Rightarrow> onSock t i (flushInto t i))"

subsection \<open>Dialing and the relay fallback\<close>

text \<open>\<open>dialAttach\<close>: \<^verbatim>\<open>raw = node.dial(...)\<close>, then \<^verbatim>\<open>attach(raw)\<close>, for the closure \<open>i\<close>.\<close>

definition dialAttach :: "P2pTransport \<Rightarrow> nat \<Rightarrow> P2pSock \<Rightarrow> bytes \<Rightarrow> bytes option \<Rightarrow> P2pTransport" where
  "dialAttach t i s peer relay =
     setSock (t\<lparr>px_dials := px_dials t @ [(peer, relay)], px_owner := amap_set (px_owner t) (length (px_dials t)) i\<rparr>)
       i (s\<lparr>pw_raw := length (px_dials t)\<rparr>)"

text \<open>\<^verbatim>\<open>clearFallbackTimer\<close>: the transport and the closure afterwards.\<close>

definition clearFallbackTimer :: "P2pTransport \<Rightarrow> P2pSock \<Rightarrow> P2pTransport \<times> P2pSock" where
  "clearFallbackTimer t s =
     (case pw_fallbackTimer s of
        None \<Rightarrow> (t, s)
      | Some n \<Rightarrow> (t\<lparr>px_timers := amap_del (px_timers t) n\<rparr>, s\<lparr>pw_fallbackTimer := None\<rparr>))"

definition destroyRaw :: "P2pTransport \<Rightarrow> nat \<Rightarrow> P2pTransport" where
  "destroyRaw t k = t\<lparr>px_destroyed := px_destroyed t @ [k]\<rparr>"

definition triggerRelayFallback :: "P2pTransportOptions \<Rightarrow> P2pTransport \<Rightarrow> nat \<Rightarrow> P2pSock \<Rightarrow> P2pTransport" where
  "triggerRelayFallback opts t i s =
     (case clearFallbackTimer t (s\<lparr>pw_relayAttempted := True\<rparr>) of
        (t1, s1) \<Rightarrow> dialAttach (destroyRaw t1 (pw_raw s1)) i s1 (po_peerPublicKey opts) (po_relayThrough opts))"

definition openSocketP2p :: "P2pTransportOptions \<Rightarrow> P2pTransport \<Rightarrow> P2pTransport" where
  "openSocketP2p opts t =
     (let i = length (px_sockets t);
          s = \<lparr>pw_open = False, pw_relayAttempted = False, pw_fallbackTimer = None, pw_raw = 0, pw_openCbs = [],
               pw_messageCbs = [], pw_closeCbs = [], pw_errorCbs = []\<rparr>;
          t1 = dialAttach t i s (po_peerPublicKey opts) (po_dialRelay opts);
          t2 = (case po_relayThrough opts of
                  None \<Rightarrow> t1
                | Some _ \<Rightarrow> setSock (t1\<lparr>px_timers := px_timers t1 @ [(px_next t1, i,
                      case po_fallbackTimeoutMs opts of None \<Rightarrow> DEFAULT_FALLBACK_TIMEOUT_MS | Some ms \<Rightarrow> ms)], px_next := Suc (px_next t1)\<rparr>)
                    i (s\<lparr>pw_raw := length (px_dials t), pw_fallbackTimer := Some (px_next t1)\<rparr>))
      in t2\<lparr>px_currentSocket := Some i\<rparr>)"

subsection \<open>Events\<close>

text \<open>The four handlers \<^verbatim>\<open>attach\<close> puts on a raw connection.\<close>

definition onRawOpen :: "P2pTransport \<Rightarrow> nat \<Rightarrow> P2pSock \<Rightarrow> P2pTransport option" where
  "onRawOpen t i s =
     (case clearFallbackTimer t (s\<lparr>pw_open := True\<rparr>) of
        (t1, s1) \<Rightarrow> map_option (\<lambda>t2. callAll t2 (pw_openCbs s1) OpenCalled) (drainReady (setSock t1 i s1)))"

definition onRawData :: "P2pTransport \<Rightarrow> P2pSock \<Rightarrow> bytes \<Rightarrow> P2pTransport" where
  "onRawData t s chunk = callAll t (pw_messageCbs s) (MessageCalled (utf8Decode chunk))"

definition onRawClose :: "P2pTransport \<Rightarrow> P2pSock \<Rightarrow> P2pTransport" where
  "onRawClose t s = callAll t (pw_closeCbs s) (CloseCalled 1000 (js ''p2p connection closed''))"

definition onRawError :: "P2pTransportOptions \<Rightarrow> P2pTransport \<Rightarrow> nat \<Rightarrow> P2pSock \<Rightarrow> jsstring \<Rightarrow> P2pTransport" where
  "onRawError opts t i s err =
     (if \<not> pw_open s \<and> \<not> pw_relayAttempted s \<and> po_relayThrough opts \<noteq> None then triggerRelayFallback opts t i s
      else callAll t (pw_errorCbs s) (ErrorCalled err))"

definition onFallbackTimer :: "P2pTransportOptions \<Rightarrow> P2pTransport \<Rightarrow> nat \<Rightarrow> P2pTransport option" where
  "onFallbackTimer opts t n =
     (case map_of (px_timers t) n of
        None \<Rightarrow> Some t
      | Some (i, _) \<Rightarrow>
          (let t1 = t\<lparr>px_timers := amap_del (px_timers t) n\<rparr> in
           onSock t1 i (\<lambda>s. Some (if \<not> pw_open s \<and> \<not> pw_relayAttempted s then triggerRelayFallback opts t1 i s else t1))))"

definition closeP2p :: "P2pTransport \<Rightarrow> nat \<Rightarrow> P2pSock \<Rightarrow> P2pTransport" where
  "closeP2p t i s = (case clearFallbackTimer t s of (t1, s1) \<Rightarrow> destroyRaw (setSock t1 i s1) (pw_raw s1))"

datatype p2p_event =
    PeOpenSocket
  | PeSend nat jsstring
  | PeClose nat
  | PePing nat
  | PeOnOpen nat nat
  | PeOnMessage nat nat
  | PeOnClose nat nat
  | PeOnError nat nat
  | PeDrain
  | PeRawOpen nat
  | PeRawData nat bytes
  | PeRawClose nat
  | PeRawError nat jsstring
  | PeTimer nat

definition onRaw :: "P2pTransport \<Rightarrow> nat \<Rightarrow> (nat \<Rightarrow> P2pSock \<Rightarrow> P2pTransport option) \<Rightarrow> P2pTransport option" where
  "onRaw t k f = (case map_of (px_owner t) k of None \<Rightarrow> Some t | Some i \<Rightarrow> onSock t i (f i))"

definition p2p_step :: "P2pTransportOptions \<Rightarrow> P2pTransport \<Rightarrow> p2p_event \<Rightarrow> P2pTransport option" where
  "p2p_step opts t ev =
     (case ev of
        PeOpenSocket \<Rightarrow> Some (openSocketP2p opts t)
      | PeSend i d \<Rightarrow> onSock t i (\<lambda>s. Some (sendP2p t i s d))
      | PeClose i \<Rightarrow> onSock t i (\<lambda>s. Some (closeP2p t i s))
      | PePing i \<Rightarrow> Some t
      | PeOnOpen i cb \<Rightarrow> onSock t i (\<lambda>s. Some (setSock t i (s\<lparr>pw_openCbs := pw_openCbs s @ [cb]\<rparr>)))
      | PeOnMessage i cb \<Rightarrow> onSock t i (\<lambda>s. Some (setSock t i (s\<lparr>pw_messageCbs := pw_messageCbs s @ [cb]\<rparr>)))
      | PeOnClose i cb \<Rightarrow> onSock t i (\<lambda>s. Some (setSock t i (s\<lparr>pw_closeCbs := pw_closeCbs s @ [cb]\<rparr>)))
      | PeOnError i cb \<Rightarrow> onSock t i (\<lambda>s. Some (setSock t i (s\<lparr>pw_errorCbs := pw_errorCbs s @ [cb]\<rparr>)))
      | PeDrain \<Rightarrow> drainReady t
      | PeRawOpen k \<Rightarrow> onRaw t k (onRawOpen t)
      | PeRawData k chunk \<Rightarrow> onRaw t k (\<lambda>i s. Some (onRawData t s chunk))
      | PeRawClose k \<Rightarrow> onRaw t k (\<lambda>i s. Some (onRawClose t s))
      | PeRawError k err \<Rightarrow> onRaw t k (\<lambda>i s. Some (onRawError opts t i s err))
      | PeTimer n \<Rightarrow> onFallbackTimer opts t n)"

fun p2p_run :: "P2pTransportOptions \<Rightarrow> P2pTransport \<Rightarrow> p2p_event list \<Rightarrow> P2pTransport option" where
  "p2p_run opts t [] = Some t"
| "p2p_run opts t (ev # evs) = (case p2p_step opts t ev of None \<Rightarrow> None | Some t' \<Rightarrow> p2p_run opts t' evs)"

subsection \<open>Which transport a client gets\<close>

datatype TransportMode = RelayMode | P2pMode

definition transportModeFromEnv :: "(jsstring \<Rightarrow> jsstring option) \<Rightarrow> TransportMode" where
  "transportModeFromEnv env = (if env (js ''SIGNALAI_TRANSPORT'') = Some (js ''p2p'') then P2pMode else RelayMode)"

text \<open>
  What carries the messages of the transport that is returned; its REST calls go to the relay in
  every case. \<open>None\<close> is the throw for missing options.
\<close>

datatype message_plane = WebSocketPlane jsstring | P2pPlane P2pTransportOptions

definition resolveTransport ::
    "(jsstring \<Rightarrow> jsstring option) \<Rightarrow> jsstring \<Rightarrow> TransportMode option \<Rightarrow> P2pTransportOptions option \<Rightarrow> message_plane option" where
  "resolveTransport env relayUrl md p2p =
     (let m = (case md of None \<Rightarrow> transportModeFromEnv env | Some m \<Rightarrow> m) in
      if m \<noteq> P2pMode then Some (WebSocketPlane relayUrl)
      else case p2p of None \<Rightarrow> None | Some opts \<Rightarrow> Some (P2pPlane opts))"

subsection \<open>The flush loop\<close>

lemma flushInto_open:
  "pw_open s \<Longrightarrow> flushInto t i s = Some (t\<lparr>px_outbox := [], px_written := px_written t @ map (\<lambda>d. (pw_raw s, d)) (px_outbox t)\<rparr>)"
proof (induction "px_outbox t" arbitrary: t)
  case Nil
  then show ?case by (subst flushInto.simps) simp
next
  case (Cons f fs)
  from Cons(2) [symmetric] Cons(1) [of "sendP2p (t\<lparr>px_outbox := fs\<rparr>) i s f"] Cons(3) show ?case
    by (subst flushInto.simps) (simp add: sendP2p_def)
qed

lemma sendP2p_closed [simp]: "\<not> pw_open s \<Longrightarrow> px_outbox (sendP2p t i s f) \<noteq> []"
  by (simp add: sendP2p_def)

lemma flushInto_closed:
  assumes "flushInto t i s = Some t'"
  shows "\<not> pw_open s \<longrightarrow> px_outbox t = []"
proof (rule flushInto.raw_induct [where P = "\<lambda>t i s t'. \<not> pw_open s \<longrightarrow> px_outbox t = []", OF _ assms])
  fix loop :: "P2pTransport \<Rightarrow> nat \<Rightarrow> P2pSock \<Rightarrow> P2pTransport option" and t :: P2pTransport and i and s :: P2pSock and t'
  assume IH: "\<And>t i s t'. loop t i s = Some t' \<Longrightarrow> \<not> pw_open s \<longrightarrow> px_outbox t = []"
    and step: "(case px_outbox t of [] \<Rightarrow> Some t | f # fs \<Rightarrow> loop (sendP2p (t\<lparr>px_outbox := fs\<rparr>) i s f) i s) = Some t'"
  show "\<not> pw_open s \<longrightarrow> px_outbox t = []"
    using step IH sendP2p_closed by (cases "px_outbox t") (simp, metis list.simps(5))
qed

text \<open>The loop ends exactly on an open connection or an empty outbox.\<close>

lemma flushInto_returns: "flushInto t i s \<noteq> None \<longleftrightarrow> pw_open s \<or> px_outbox t = []"
proof
  assume "pw_open s \<or> px_outbox t = []"
  then show "flushInto t i s \<noteq> None"
  proof
    assume "px_outbox t = []"
    then show ?thesis by (subst flushInto.simps) simp
  qed (simp add: flushInto_open)
qed (use flushInto_closed in blast)

text \<open>Hence what a raw connection's open does, told from the socket that is current.\<close>

lemma drainReady_returns:
  assumes "px_currentSocket t = Some j" "map_of (px_sockets t) j = Some s"
  shows "drainReady t \<noteq> None \<longleftrightarrow> pw_open s \<or> px_outbox t = []"
  using assms flushInto_returns [of t j s] by (simp add: drainReady_def onSock_def)

lemma clearFallbackTimer_simps [simp]:
  "px_outbox (fst (clearFallbackTimer t s)) = px_outbox t" "px_sockets (fst (clearFallbackTimer t s)) = px_sockets t"
  "px_currentSocket (fst (clearFallbackTimer t s)) = px_currentSocket t" "px_owner (fst (clearFallbackTimer t s)) = px_owner t"
  "px_dials (fst (clearFallbackTimer t s)) = px_dials t" "px_written (fst (clearFallbackTimer t s)) = px_written t"
  "px_calls (fst (clearFallbackTimer t s)) = px_calls t" "px_destroyed (fst (clearFallbackTimer t s)) = px_destroyed t"
  "set (px_timers (fst (clearFallbackTimer t s))) \<subseteq> set (px_timers t)"
  "pw_open (snd (clearFallbackTimer t s)) = pw_open s" "pw_relayAttempted (snd (clearFallbackTimer t s)) = pw_relayAttempted s"
  "pw_raw (snd (clearFallbackTimer t s)) = pw_raw s" "pw_openCbs (snd (clearFallbackTimer t s)) = pw_openCbs s"
  by (auto simp: clearFallbackTimer_def amap_del_def split: option.splits)

text \<open>
  While one socket is all that was opened: it is current and owns everything, its outbox is
  empty once it is open, and it is dialed once more at most, through the relay.
\<close>

definition alone :: "P2pTransportOptions \<Rightarrow> P2pTransport \<Rightarrow> P2pSock \<Rightarrow> jsstring list \<Rightarrow> bool" where
  "alone opts t s fs \<longleftrightarrow> px_sockets t = [(0, s)] \<and> px_currentSocket t = Some 0
     \<and> snd ` set (px_owner t) \<subseteq> {0} \<and> (fst \<circ> snd) ` set (px_timers t) \<subseteq> {0}
     \<and> (px_timers t \<noteq> [] \<longrightarrow> po_relayThrough opts \<noteq> None)
     \<and> (pw_open s \<longrightarrow> px_outbox t = []) \<and> map snd (px_written t) @ px_outbox t = fs
     \<and> px_dials t = (po_peerPublicKey opts, po_dialRelay opts)
         # (if pw_relayAttempted s then [(po_peerPublicKey opts, po_relayThrough opts)] else [])
     \<and> (pw_relayAttempted s \<longrightarrow> po_relayThrough opts \<noteq> None)"

definition sent_by :: "p2p_event \<Rightarrow> jsstring list" where
  "sent_by ev = (case ev of PeSend i d \<Rightarrow> if i = 0 then [d] else [] | _ \<Rightarrow> [])"

lemma alone_frame:
  assumes "alone opts t s fs" "px_sockets t' = [(0, s')]"
    and "pw_open s' = pw_open s" "pw_relayAttempted s' = pw_relayAttempted s"
    and "px_currentSocket t' = px_currentSocket t" "px_owner t' = px_owner t" "set (px_timers t') \<subseteq> set (px_timers t)"
    and "px_outbox t' = px_outbox t" "px_written t' = px_written t" "px_dials t' = px_dials t"
  shows "alone opts t' s' fs"
  using assms unfolding alone_def by (auto 4 3)

lemma subset_Nil_timers: "set ts' \<subseteq> set ts \<Longrightarrow> ts' \<noteq> [] \<Longrightarrow> ts \<noteq> []"
  by auto

lemma alone_open: "\<exists>s. alone opts (openSocketP2p opts createP2pTransport) s []"
proof (cases "po_relayThrough opts")
qed (simp_all add: alone_def openSocketP2p_def createP2pTransport_def dialAttach_def setSock_def Let_def)

lemma owner_set: "snd ` set m \<subseteq> {0} \<Longrightarrow> snd ` set (amap_set m k (0 :: nat)) \<subseteq> {0}"
  by (induction m) auto

lemma timers_sub: "set ts' \<subseteq> set ts \<Longrightarrow> (fst \<circ> snd) ` set ts \<subseteq> {0 :: nat} \<Longrightarrow> (fst \<circ> snd) ` set ts' \<subseteq> {0}"
  by (rule order_trans [OF image_mono])

lemma alone_fallback:
  assumes "alone opts t s fs" "\<not> pw_open s" "\<not> pw_relayAttempted s" "po_relayThrough opts \<noteq> None"
  shows "\<exists>s'. alone opts (triggerRelayFallback opts t 0 s) s' fs"
proof -
  obtain t1 s1 where c: "clearFallbackTimer t (s\<lparr>pw_relayAttempted := True\<rparr>) = (t1, s1)" by force
  note simps = clearFallbackTimer_simps [of t "s\<lparr>pw_relayAttempted := True\<rparr>", unfolded c fst_conv snd_conv]
  let ?t = "dialAttach (destroyRaw t1 (pw_raw s1)) 0 s1 (po_peerPublicKey opts) (po_relayThrough opts)"
  have t: "px_owner ?t = amap_set (px_owner t) (length (px_dials t)) 0" "px_timers ?t = px_timers t1"
    "px_sockets ?t = [(0, s1\<lparr>pw_raw := length (px_dials t)\<rparr>)]" "px_currentSocket ?t = px_currentSocket t"
    "px_outbox ?t = px_outbox t" "px_written ?t = px_written t" "px_dials ?t = px_dials t @ [(po_peerPublicKey opts, po_relayThrough opts)]"
    using assms(1) simps by (simp_all add: alone_def dialAttach_def setSock_def destroyRaw_def)
  have old: "snd ` set (px_owner t) \<subseteq> {0}" "(fst \<circ> snd) ` set (px_timers t) \<subseteq> {0}"
    using assms(1) by (simp_all add: alone_def)
  have "snd ` set (px_owner ?t) \<subseteq> {0}" "(fst \<circ> snd) ` set (px_timers ?t) \<subseteq> {0}"
    unfolding t(1,2) by (rule owner_set [OF old(1)], rule timers_sub [OF simps(9) old(2)])
  then have "alone opts ?t (s1\<lparr>pw_raw := length (px_dials t)\<rparr>) fs"
    using assms simps(10,11) unfolding alone_def t(3-7) by simp
  then show ?thesis unfolding triggerRelayFallback_def c by auto
qed

lemma alone_raw: "alone opts t s fs \<Longrightarrow> onRaw t k f = (if map_of (px_owner t) k = None then Some t else f 0 s)"
  by (auto simp: alone_def onRaw_def onSock_def split: option.splits dest!: map_of_SomeD)

lemma alone_sock: "alone opts t s fs \<Longrightarrow> onSock t i f = (if i = 0 then f s else Some t)"
  by (simp add: alone_def onSock_def)

lemma alone_set:
  "alone opts t s fs \<Longrightarrow> pw_open s' = pw_open s \<Longrightarrow> pw_relayAttempted s' = pw_relayAttempted s \<Longrightarrow> alone opts (setSock t 0 s') s' fs"
  by (rule alone_frame) (auto simp: setSock_def alone_def)

lemma alone_set_ex:
  "alone opts t s fs \<Longrightarrow> pw_open s' = pw_open s \<Longrightarrow> pw_relayAttempted s' = pw_relayAttempted s
     \<Longrightarrow> \<exists>s''. alone opts (setSock t 0 s') s'' fs"
  using alone_set by blast

lemma alone_call: "alone opts t s fs \<Longrightarrow> alone opts (callAll t cbs c) s fs"
  by (simp add: alone_def callAll_def)

lemma alone_close:
  assumes "alone opts t s fs"
  shows "\<exists>s'. alone opts (closeP2p t 0 s) s' fs"
proof -
  obtain t1 s1 where c: "clearFallbackTimer t s = (t1, s1)" by force
  note simps = clearFallbackTimer_simps [of t s, unfolded c fst_conv snd_conv]
  have "alone opts t1 s fs"
    using alone_frame [OF assms, of t1 s] simps(1-9) assms by (simp add: alone_def)
  then have "alone opts (setSock t1 0 s1) s1 fs" using alone_set simps(10,11) by blast
  then have "alone opts (closeP2p t 0 s) s1 fs" by (simp add: closeP2p_def c destroyRaw_def alone_def)
  then show ?thesis ..
qed

lemma alone_raw_open:
  assumes "alone opts t s fs"
  shows "\<exists>t' s'. onRawOpen t 0 s = Some t' \<and> alone opts t' s' fs"
proof -
  obtain t1 s1 where c: "clearFallbackTimer t (s\<lparr>pw_open := True\<rparr>) = (t1, s1)" by force
  note simps = clearFallbackTimer_simps [of t "s\<lparr>pw_open := True\<rparr>", unfolded c fst_conv snd_conv]
  let ?t = "(setSock t1 0 s1)\<lparr>px_outbox := [], px_written := px_written t @ map (\<lambda>d. (pw_raw s1, d)) (px_outbox t)\<rparr>"
  have "drainReady (setSock t1 0 s1) = Some ?t"
    using assms simps by (simp add: drainReady_def onSock_def setSock_def flushInto_open alone_def)
  moreover have "(fst \<circ> snd) ` set (px_timers t1) \<subseteq> {0}"
    using timers_sub [OF simps(9)] assms by (simp add: alone_def)
  then have "alone opts (callAll ?t (pw_openCbs s1) OpenCalled) s1 fs"
    using assms simps(1-8,10,11) subset_Nil_timers [OF simps(9)] unfolding alone_def by (simp add: callAll_def setSock_def comp_def)
  ultimately show ?thesis unfolding onRawOpen_def c by auto
qed

lemma alone_step:
  assumes "alone opts t s fs" "ev \<noteq> PeOpenSocket" "ev \<noteq> PeDrain"
  shows "\<exists>t' s'. p2p_step opts t ev = Some t' \<and> alone opts t' s' (fs @ sent_by ev)"
proof (cases ev)
  case (PeSend i d)
  then show ?thesis
    using assms(1) by (auto simp: p2p_step_def alone_sock [OF assms(1)] sent_by_def sendP2p_def alone_def)
next
  case (PeRawOpen k)
  then show ?thesis
    using alone_raw_open [OF assms(1)] assms(1) by (auto simp: p2p_step_def alone_raw [OF assms(1)] sent_by_def)
next
  case (PeRawError k err)
  then show ?thesis
    using alone_fallback [OF assms(1)] assms(1) alone_frame [OF assms(1), of "callAll t (pw_errorCbs s) (ErrorCalled err)" s]
    by (auto simp: p2p_step_def alone_raw [OF assms(1)] sent_by_def onRawError_def callAll_def alone_def)
next
  case (PeTimer n)
  show ?thesis
  proof (cases "map_of (px_timers t) n")
    case None
    then show ?thesis using assms(1) PeTimer by (auto simp: p2p_step_def sent_by_def onFallbackTimer_def)
  next
    case (Some x)
    then have x: "fst x = 0" "po_relayThrough opts \<noteq> None"
      using assms(1) by (auto simp: alone_def dest!: map_of_SomeD)
    let ?t = "t\<lparr>px_timers := amap_del (px_timers t) n\<rparr>"
    have t: "alone opts ?t s fs"
      using alone_frame [OF assms(1), of ?t s] assms(1) by (auto simp: amap_del_def alone_def)
    then show ?thesis
      using Some x PeTimer alone_fallback [OF t] alone_sock [OF t]
      by (cases x) (auto simp: p2p_step_def sent_by_def onFallbackTimer_def Let_def)
  qed
qed (use assms in \<open>auto simp: p2p_step_def alone_sock [OF assms(1)] alone_raw [OF assms(1)] sent_by_def onRawData_def onRawClose_def
    intro: alone_set_ex alone_call alone_close\<close>)

lemma alone_run:
  assumes "alone opts t s fs" "PeOpenSocket \<notin> set evs" "PeDrain \<notin> set evs"
  shows "\<exists>t' s'. p2p_run opts t evs = Some t' \<and> alone opts t' s' (fs @ concat (map sent_by evs))"
  using assms
proof (induction evs arbitrary: t s fs)
  case (Cons ev evs)
  obtain t' s' where t': "p2p_step opts t ev = Some t'" "alone opts t' s' (fs @ sent_by ev)"
    using alone_step [OF Cons.prems(1), of ev] Cons.prems(2,3) by auto
  show ?case using Cons.IH [OF t'(2)] Cons.prems(2,3) t'(1) by simp
qed auto

subsection \<open>Properties\<close>

text \<open>A socket of the peer-to-peer transport loses, repeats and reorders nothing: whatever happens
  to its connections (late opens, errors, the fallback timer, a swap to the relay, closes), a
  client that opens one socket and leaves the exposed drain alone never hangs in a step, what has been written followed by what is
  queued is exactly what was sent, in order, and the peer is dialed directly once and through
  the relay at most once, and only if a relay is configured.\<close>

theorem one_socket_keeps_order:
  assumes "PeOpenSocket \<notin> set evs" "PeDrain \<notin> set evs"
  shows "\<exists>t. p2p_run opts createP2pTransport (PeOpenSocket # evs) = Some t
    \<and> map snd (px_written t) @ px_outbox t = concat (map sent_by evs)
    \<and> (px_dials t = [(po_peerPublicKey opts, po_dialRelay opts)]
       \<or> po_relayThrough opts \<noteq> None
         \<and> px_dials t = [(po_peerPublicKey opts, po_dialRelay opts), (po_peerPublicKey opts, po_relayThrough opts)])"
proof -
  obtain s where "alone opts (openSocketP2p opts createP2pTransport) s []" using alone_open by blast
  from alone_run [OF this assms] obtain t s' where
    "p2p_run opts (openSocketP2p opts createP2pTransport) evs = Some t" "alone opts t s' (concat (map sent_by evs))"
    by auto
  then show ?thesis by (cases "pw_relayAttempted s'") (auto simp: p2p_step_def alone_def)
qed

definition demoP2p :: P2pTransportOptions where
  "demoP2p = \<lparr>po_peerPublicKey = [1], po_dialRelay = None, po_relayThrough = Some [2], po_fallbackTimeoutMs = None\<rparr>"

theorem one_socket_keeps_order_witness:
  "\<exists>t. p2p_run demoP2p createP2pTransport
      [PeOpenSocket, PeSend 0 (js ''a''), PeTimer 0, PeSend 0 (js ''b''), PeRawOpen 1, PeSend 0 (js ''c'')] = Some t
    \<and> map snd (px_written t) @ px_outbox t = [js ''a'', js ''b'', js ''c'']"
  using one_socket_keeps_order [of "[PeSend 0 (js ''a''), PeTimer 0, PeSend 0 (js ''b''), PeRawOpen 1, PeSend 0 (js ''c'')]" demoP2p]
  by (auto simp: sent_by_def)

text \<open>C31: the relay fallback is not transparent to the consumer and can hang the process: with a relay
  configured, when the direct dial of a socket fails, the close of the destroyed direct
  connection is reported to the consumer as the close of its socket, although the relayed
  dial is under way; and if the consumer, as the link does on a close, then opens a new socket,
  the relayed connection's open runs the flush loop on that new socket, which is not open, and
  as long as a frame is queued the loop never returns.\<close>

theorem relay_swap_hangs:
  assumes "po_relayThrough opts \<noteq> None"
  shows "\<exists>t s. p2p_run opts createP2pTransport
      [PeOpenSocket, PeOnClose 0 cb, PeSend 0 d, PeRawError 0 err, PeRawClose 0] = Some t
    \<and> map_of (px_sockets t) 0 = Some s \<and> pw_raw s = 1 \<and> px_destroyed t = [0]
    \<and> px_calls t = [(cb, CloseCalled 1000 (js ''p2p connection closed''))]
    \<and> p2p_run opts t [PeOpenSocket, PeRawOpen 1] = None"
proof -
  obtain k where k: "po_relayThrough opts = Some k" using assms by blast
  note defs = p2p_step_def openSocketP2p_def createP2pTransport_def dialAttach_def setSock_def onSock_def onRaw_def sendP2p_def
    onRawError_def onRawClose_def triggerRelayFallback_def clearFallbackTimer_def destroyRaw_def callAll_def Let_def amap_del_def
  let ?t = "p2p_run opts createP2pTransport [PeOpenSocket, PeOnClose 0 cb, PeSend 0 d, PeRawError 0 err, PeRawClose 0]"
  obtain t s where t: "?t = Some t" "px_sockets t = [(0, s)]" "pw_raw s = 1" "px_destroyed t = [0]"
    "px_calls t = [(cb, CloseCalled 1000 (js ''p2p connection closed''))]" "px_outbox t = [d]" "px_owner t = [(0, 0), (1, 0)]"
    "length (px_dials t) = 2"
    by (simp add: defs k)
  let ?t2 = "openSocketP2p opts t"
  have t2: "\<exists>s2. px_sockets ?t2 = [(0, s), (1, s2)] \<and> \<not> pw_open s2" "px_currentSocket ?t2 = Some 1" "px_outbox ?t2 = [d]"
    "map_of (px_owner ?t2) 1 = Some 0"
    using t(2,6-8) k by (simp_all add: openSocketP2p_def dialAttach_def setSock_def Let_def)
  obtain s2 where s2: "px_sockets ?t2 = [(0, s), (1, s2)]" "\<not> pw_open s2" using t2(1) by blast
  have "onRawOpen ?t2 0 s = None"
  proof -
    obtain t3 s3 where c: "clearFallbackTimer ?t2 (s\<lparr>pw_open := True\<rparr>) = (t3, s3)" by force
    note simps = clearFallbackTimer_simps [of ?t2 "s\<lparr>pw_open := True\<rparr>", unfolded c fst_conv snd_conv]
    have "drainReady (setSock t3 0 s3) = None"
      using drainReady_returns [of "setSock t3 0 s3" 1 s2] simps(1-3) s2 t2(2,3) by (simp add: setSock_def)
    then show ?thesis by (simp add: onRawOpen_def c)
  qed
  then have "p2p_run opts t [PeOpenSocket, PeRawOpen 1] = None"
    using t2(4) s2(1) by (simp add: p2p_step_def onRaw_def onSock_def)
  then show ?thesis using t by auto
qed

theorem relay_swap_hangs_witness:
  "\<exists>t. p2p_run demoP2p createP2pTransport
      [PeOpenSocket, PeOnClose 0 7, PeSend 0 (js ''hi''), PeRawError 0 (js ''EHOST''), PeRawClose 0] = Some t
    \<and> p2p_run demoP2p t [PeOpenSocket, PeRawOpen 1] = None"
  using relay_swap_hangs [of demoP2p 7 "js ''hi''" "js ''EHOST''"] by (auto simp: demoP2p_def)

end
