(* ===== verification/ClientProps.thy ===== *)
theory ClientProps
  imports Client
begin

section \<open>What a client does, whatever its environment\<close>

text \<open>
  \<open>evolves A cl cl'\<close> is the frame every operation keeps: no message is dispatched and no
  message id recorded, the pins and the identity stay, the frames sent are extended by frames
  allowed by \<open>A\<close>, and a conversation is subscribed to at most once, when it enters
  \<^verbatim>\<open>opCatchupAttempted\<close>. It is reflexive and transitive, and each operation of the client other than
  the dispatch itself is one instance of it. The properties follow from the frame and from the
  lemmas on the gate and on the op-log service.
\<close>

definition wireOf :: "nat \<times> ClientFrame \<Rightarrow> WsFrame option" where
  "wireOf p = (case snd p of WireFrame w \<Rightarrow> Some w | AuthFrame _ _ \<Rightarrow> None)"

definition linkWires :: "Link \<Rightarrow> WsFrame list" where
  "linkWires l = List.map_filter wireOf (lk_sent l)"

definition wires :: "Client \<Rightarrow> WsFrame list" where
  "wires cl = concat (map linkWires (cl_links cl))"

definition evolves :: "(WsFrame \<Rightarrow> bool) \<Rightarrow> Client \<Rightarrow> Client \<Rightarrow> bool" where
  "evolves A cl cl' \<longleftrightarrow> cl_messages cl' = cl_messages cl \<and> st_seenMsgIds (cl_stores cl') = st_seenMsgIds (cl_stores cl)
     \<and> cl_joinPins cl' = cl_joinPins cl \<and> cl_userId cl' = cl_userId cl
     \<and> set (cl_opCatchupAttempted cl) \<subseteq> set (cl_opCatchupAttempted cl')
     \<and> (\<exists>ws. wires cl' = wires cl @ ws \<and> (\<forall>w \<in> set ws. A w)
         \<and> (\<forall>conv. count_list ws (WsSubscribe conv None) + of_bool (conv \<in> set (cl_opCatchupAttempted cl))
              \<le> of_bool (conv \<in> set (cl_opCatchupAttempted cl'))))"

lemma evolves_refl [simp]: "evolves A cl cl"
  by (auto simp: evolves_def)

lemma evolves_trans [trans]:
  assumes "evolves A a b" "evolves A b c"
  shows "evolves A a c"
proof -
  obtain ws where ws: "wires b = wires a @ ws" "\<forall>w \<in> set ws. A w"
    "\<And>conv. count_list ws (WsSubscribe conv None) + of_bool (conv \<in> set (cl_opCatchupAttempted a)) \<le> of_bool (conv \<in> set (cl_opCatchupAttempted b))"
    using assms(1) by (auto simp: evolves_def)
  obtain vs where vs: "wires c = wires b @ vs" "\<forall>w \<in> set vs. A w"
    "\<And>conv. count_list vs (WsSubscribe conv None) + of_bool (conv \<in> set (cl_opCatchupAttempted b)) \<le> of_bool (conv \<in> set (cl_opCatchupAttempted c))"
    using assms(2) by (auto simp: evolves_def)
  have "count_list (ws @ vs) (WsSubscribe conv None) + of_bool (conv \<in> set (cl_opCatchupAttempted a)) \<le> of_bool (conv \<in> set (cl_opCatchupAttempted c))" for conv
    using ws(3) [of conv] vs(3) [of conv] by simp
  moreover have "wires c = wires a @ (ws @ vs)" "\<forall>w \<in> set (ws @ vs). A w"
    using ws(1,2) vs(1,2) by auto
  ultimately have "\<exists>us. wires c = wires a @ us \<and> (\<forall>w \<in> set us. A w) \<and> (\<forall>conv. count_list us (WsSubscribe conv None)
      + of_bool (conv \<in> set (cl_opCatchupAttempted a)) \<le> of_bool (conv \<in> set (cl_opCatchupAttempted c)))"
    by blast
  moreover have "set (cl_opCatchupAttempted a) \<subseteq> set (cl_opCatchupAttempted c)"
    using assms by (auto simp: evolves_def)
  ultimately show ?thesis
    using assms by (simp add: evolves_def)
qed

lemma evolves_mono: "evolves A a b \<Longrightarrow> (\<And>w. A w \<Longrightarrow> B w) \<Longrightarrow> evolves B a b"
  unfolding evolves_def by blast

lemma evolves_silent:
  assumes "cl_messages cl' = cl_messages cl" "st_seenMsgIds (cl_stores cl') = st_seenMsgIds (cl_stores cl)"
    "cl_joinPins cl' = cl_joinPins cl" "cl_userId cl' = cl_userId cl" "cl_opCatchupAttempted cl' = cl_opCatchupAttempted cl"
    "wires cl' = wires cl"
  shows "evolves A cl cl'"
  using assms by (auto simp: evolves_def)

named_theorems evolving \<open>operations of the client that keep the frame\<close>

fun isSubscribe :: "WsFrame \<Rightarrow> bool" where
  "isSubscribe (WsSubscribe _ _) = True"
| "isSubscribe _ = False"

fun isAck :: "WsFrame \<Rightarrow> bool" where
  "isAck (WsAck _ _) = True"
| "isAck _ = False"

fun isOpSend :: "WsFrame \<Rightarrow> bool" where
  "isOpSend (WsOpSend _ _ _) = True"
| "isOpSend _ = False"

lemma wires_links: "cl_links cl' = cl_links cl \<Longrightarrow> wires cl' = wires cl"
  by (simp add: wires_def)

subsection \<open>The primitives\<close>

lemma setConversation_frame [simp]:
  "cl_messages (setConversation cl conv c) = cl_messages cl" "cl_joinPins (setConversation cl conv c) = cl_joinPins cl"
  "cl_userId (setConversation cl conv c) = cl_userId cl" "cl_opCatchupAttempted (setConversation cl conv c) = cl_opCatchupAttempted cl"
  "st_seenMsgIds (cl_stores (setConversation cl conv c)) = st_seenMsgIds (cl_stores cl)" "cl_tick (setConversation cl conv c) = cl_tick cl"
  "cl_links (setConversation cl conv c) = cl_links cl" "cl_service (setConversation cl conv c) = cl_service cl"
  "conversations_of (setConversation cl conv c) = amap_set (conversations_of cl) conv c"
  by (simp_all add: setConversation_def)

lemma evolves_setConversation [evolving]: "evolves A cl (setConversation cl conv c)"
  by (rule evolves_silent) (simp_all add: wires_def)

lemma amap_set_twice: "amap_set (amap_set m k a) k b = amap_set m k b"
  by (induction m) auto

lemma setConversation_twice [simp]: "setConversation (setConversation cl conv a) conv b = setConversation cl conv b"
  by (simp add: setConversation_def amap_set_twice)

lemma handleIncomingOp_cases:
  obtains "handleIncomingOp E cl conv sq op = cl" | c where "handleIncomingOp E cl conv sq op = setConversation cl conv c"
proof -
  have "handleIncomingOp E cl conv sq op = cl \<or> (\<exists>c. handleIncomingOp E cl conv sq op = setConversation cl conv c)"
    unfolding handleIncomingOp_def
    by (simp add: Let_def split_beta split: sum.splits option.splits) blast
  then show ?thesis using that by blast
qed

lemma evolves_setConversation2: "evolves A cl cl' \<Longrightarrow> evolves A cl (setConversation cl' conv c)"
  using evolves_setConversation evolves_trans by blast

lemma evolves_handleIncomingOp [evolving]: "evolves A cl (handleIncomingOp E cl conv sq op)"
  by (rule handleIncomingOp_cases [of E cl conv sq op]) (simp_all add: evolves_setConversation)

lemma handleIncomingOp_fixed [simp]:
  "cl_tick (handleIncomingOp E cl conv sq op) = cl_tick cl" "cl_links (handleIncomingOp E cl conv sq op) = cl_links cl"
  "cl_service (handleIncomingOp E cl conv sq op) = cl_service cl"
  by (rule handleIncomingOp_cases [of E cl conv sq op]; simp)+

subsection \<open>Links and the event loop\<close>

lemma receiveFrame_fixed [simp]:
  "cl_tick (receiveFrame E cl f) = cl_tick cl" "cl_links (receiveFrame E cl f) = cl_links cl" "cl_service (receiveFrame E cl f) = cl_service cl"
  by (cases f; simp add: receiveFrame_def)+

lemma evolves_receiveFrame [evolving]: "evolves A cl (receiveFrame E cl f)"
  by (cases f) (simp_all add: receiveFrame_def evolves_handleIncomingOp evolves_silent wires_def)

lemma evolves_foldl: "(\<And>cl x. evolves A cl (f cl x)) \<Longrightarrow> evolves A cl (foldl f cl xs)"
  by (induction xs arbitrary: cl) (auto intro: evolves_trans)

lemma foldl_receiveFrame:
  "cl_tick (foldl (receiveFrame E) cl fs) = cl_tick cl"
  "cl_links (foldl (receiveFrame E) cl fs) = cl_links cl" "cl_service (foldl (receiveFrame E) cl fs) = cl_service cl"
  by (induction fs arbitrary: cl) simp_all

lemma sent_fires: "fires ev \<Longrightarrow> linkWires (link_step l ev) = linkWires l"
  by (cases ev) (simp_all add: fires_def link_defs scheduleReconnect_def linkWires_def wireOf_def List.map_filter_def Let_def
      split: option.splits)

lemma wires_update:
  assumes "k < length (cl_links cl)" "linkWires l' = linkWires (cl_links cl ! k)" "cl_links cl' = (cl_links cl)[k := l']"
  shows "wires cl' = wires cl"
proof -
  have "map linkWires ((cl_links cl)[k := l']) = (map linkWires (cl_links cl))[k := map linkWires (cl_links cl) ! k]"
    using assms(1,2) by (simp add: map_update)
  then show ?thesis by (simp add: wires_def assms(3))
qed

lemma onLinkEvent_eq:
  "onLinkEvent E cl kev = cl \<or> (\<exists>l' s fs. onLinkEvent E cl kev =
     foldl (receiveFrame E) (cl\<lparr>cl_links := (cl_links cl)[fst kev := l'], cl_connectionState := s\<rparr>) fs
     \<and> fst kev < length (cl_links cl) \<and> linkWires l' = linkWires (cl_links cl ! fst kev))"
proof (cases kev)
  case (Pair k ev)
  show ?thesis
  proof (cases "k < length (cl_links cl) \<and> fires ev")
    case True
    then show ?thesis
      using sent_fires [of ev "cl_links cl ! k"] by (simp add: Pair onLinkEvent_def Let_def) blast
  next
    case False
    then show ?thesis by (auto simp: Pair onLinkEvent_def)
  qed
qed

lemma evolves_onLinkEvent [evolving]: "evolves A cl (onLinkEvent E cl kev)"
  using onLinkEvent_eq [of E cl kev]
proof (elim disjE exE conjE)
  fix l' s fs
  let ?cl = "cl\<lparr>cl_links := (cl_links cl)[fst kev := l'], cl_connectionState := s\<rparr>"
  assume "onLinkEvent E cl kev = foldl (receiveFrame E) ?cl fs" "fst kev < length (cl_links cl)" "linkWires l' = linkWires (cl_links cl ! fst kev)"
  moreover from this have "evolves A cl ?cl"
    by (intro evolves_silent wires_update [of "fst kev" cl l']) simp_all
  ultimately show ?thesis using evolves_trans [OF _ evolves_foldl [of A "receiveFrame E"]] evolves_receiveFrame by metis
qed simp

lemma onLinkEvent_fixed [simp]:
  "cl_tick (onLinkEvent E cl kev) = cl_tick cl" "cl_service (onLinkEvent E cl kev) = cl_service cl"
  "length (cl_links (onLinkEvent E cl kev)) = length (cl_links cl)"
  using onLinkEvent_eq [of E cl kev] by (elim disjE exE conjE; simp add: foldl_receiveFrame)+

lemma foldl_onLinkEvent:
  "cl_tick (foldl (onLinkEvent E) cl evs) = cl_tick cl"
  "cl_service (foldl (onLinkEvent E) cl evs) = cl_service cl" "length (cl_links (foldl (onLinkEvent E) cl evs)) = length (cl_links cl)"
  by (induction evs arbitrary: cl) simp_all

lemma evolves_pause [evolving]: "evolves A cl (pause E cl)"
  unfolding pause_def by (rule evolves_trans [OF _ evolves_foldl]) (simp_all add: evolves_silent wires_def evolves_onLinkEvent)

lemma pause_fixed [simp]: "cl_tick (pause E cl) = Suc (cl_tick cl)" "cl_service (pause E cl) = cl_service cl"
  "length (cl_links (pause E cl)) = length (cl_links cl)"
  by (simp_all add: pause_def foldl_onLinkEvent)

lemma rest_snd: "snd (rest E answer cl call) = pause E (cl\<lparr>cl_calls := cl_calls cl @ [call]\<rparr>)"
  by (simp add: rest_def split: option.split)

lemma evolves_rest [evolving]: "evolves A cl (snd (rest E answer cl call))"
  unfolding rest_snd by (rule evolves_trans [OF _ evolves_pause]) (simp add: evolves_silent wires_def)

text \<open>Sending on the current link extends the frames at the end.\<close>

lemma wires_setCurrentLink:
  assumes "currentLink cl = Some l" "linkWires l' = linkWires l @ ws"
  shows "wires (setCurrentLink cl l') = wires cl @ ws"
proof -
  obtain ls where "cl_links cl = ls @ [l]"
    using assms(1) by (cases "cl_links cl" rule: rev_cases) (auto simp: currentLink_def)
  then show ?thesis using assms(2) by (simp add: wires_def setCurrentLink_def)
qed

lemma setCurrentLink_fixed [simp]:
  "cl_messages (setCurrentLink cl l) = cl_messages cl" "cl_stores (setCurrentLink cl l) = cl_stores cl"
  "cl_joinPins (setCurrentLink cl l) = cl_joinPins cl" "cl_userId (setCurrentLink cl l) = cl_userId cl"
  "cl_opCatchupAttempted (setCurrentLink cl l) = cl_opCatchupAttempted cl" "cl_tick (setCurrentLink cl l) = cl_tick cl"
  "cl_service (setCurrentLink cl l) = cl_service cl"
  by (simp_all add: setCurrentLink_def)

lemma sendFrame_spec:
  assumes "sendFrame cl f = Some cl'"
  shows "wires cl' = wires cl @ [f]" "cl_messages cl' = cl_messages cl" "cl_stores cl' = cl_stores cl" "cl_joinPins cl' = cl_joinPins cl"
    "cl_userId cl' = cl_userId cl" "cl_opCatchupAttempted cl' = cl_opCatchupAttempted cl" "cl_service cl' = cl_service cl"
    "cl_tick cl' = cl_tick cl"
proof -
  obtain l l' where l: "currentLink cl = Some l" "sendLink l f = Some l'" "cl' = setCurrentLink cl l'"
    using assms by (auto simp: sendFrame_def split: option.splits)
  have "linkWires l' = linkWires l @ [f]"
    using l(2) by (auto simp: sendLink_def linkWires_def List.map_filter_def wireOf_def split: option.splits if_splits)
  then show "wires cl' = wires cl @ [f]" unfolding l(3) by (rule wires_setCurrentLink [OF l(1)])
qed (use assms in \<open>auto simp: sendFrame_def split: option.splits\<close>)

lemma evolves_sendFrame:
  assumes "sendFrame cl f = Some cl'" "A f" "\<not> isSubscribe f"
  shows "evolves A cl cl'"
  using sendFrame_spec [OF assms(1)] assms(2,3) by (auto simp: evolves_def)

lemma evolves_safeAck [evolving]: "evolves isAck cl (safeAck cl conv sq)"
  by (auto simp: safeAck_def split: option.splits intro: evolves_sendFrame)

subsection \<open>Catch-up\<close>

lemma evolves_pollChain [evolving]: "evolves A cl (pollChain E conv deadline now cl)"
proof (induction E conv deadline now cl rule: pollChain.induct)
  case (1 E conv deadline now cl)
  then show ?case
    using evolves_trans [OF evolves_pause] unfolding pollChain.simps [of E conv deadline now] by auto
qed

lemma evolves_awaitChainReady [evolving]:
  assumes "awaitChainReady E cl conv = (r, cl')"
  shows "evolves isSubscribe cl cl' \<and> r = membershipLogFor E cl' conv"
proof (cases "\<not> linkReady cl \<or> membershipLogFor E cl conv \<noteq> Inr None \<or> conv \<in> set (cl_opCatchupAttempted cl)")
  case False
  define cl1 where "cl1 = cl\<lparr>cl_opCatchupAttempted := js_set_add (cl_opCatchupAttempted cl) conv\<rparr>"
  obtain l where l: "currentLink cl = Some l" "lk_ready l"
    using False by (auto simp: linkReady_def split: option.splits)
  have cl1: "currentLink cl1 = Some l" "wires cl1 = wires cl" using l by (auto simp: cl1_def currentLink_def wires_def)
  have "\<exists>ws. linkWires (subscribeLink l conv) = linkWires l @ ws \<and> (ws = [] \<or> ws = [WsSubscribe conv None])"
    by (auto simp: subscribeLink_def linkWires_def List.map_filter_def wireOf_def split: option.splits)
  then obtain ws where ws: "linkWires (subscribeLink l conv) = linkWires l @ ws" "ws = [] \<or> ws = [WsSubscribe conv None]" by blast
  have w: "wires (subscribeCurrent cl1 conv) = wires cl @ ws"
    using wires_setCurrentLink [OF cl1(1) ws(1)] cl1 by (simp add: subscribeCurrent_def)
  have "evolves isSubscribe cl (subscribeCurrent cl1 conv)"
    unfolding evolves_def using w ws(2) False cl1(1) by (auto simp: subscribeCurrent_def cl1_def)
  then show ?thesis
    using assms False evolves_trans [OF _ evolves_pollChain]
    by (auto simp: awaitChainReady_def Let_def cl1_def)
qed (use assms in \<open>auto simp: awaitChainReady_def\<close>)

subsection \<open>Composition\<close>

lemma evolves_cbind:
  assumes "evolves A cl (snd r)" "\<And>x cl'. r = (Inr x, cl') \<Longrightarrow> evolves A cl' (snd (f x cl'))"
  shows "evolves A cl (snd (cbind r f))"
proof (cases r)
  case (Pair o' cl')
  then show ?thesis
    using assms evolves_trans [of A cl cl'] by (cases o') (auto simp: cbind_def)
qed

lemma evolves_update:
  "evolves A cl cl' \<Longrightarrow> evolves A cl (cl'\<lparr>cl_events := evs\<rparr>)"
  "evolves A cl cl' \<Longrightarrow> evolves A cl (cl'\<lparr>cl_tick := n\<rparr>)"
  "evolves A cl cl' \<Longrightarrow> evolves A cl (cl'\<lparr>cl_service := sv\<rparr>)"
  "evolves A cl cl' \<Longrightarrow> evolves A cl (cl'\<lparr>cl_fanoutSeq := sq\<rparr>)"
  "evolves A cl cl' \<Longrightarrow> evolves A cl (cl'\<lparr>cl_inbox := es\<rparr>)"
  "evolves A cl cl' \<Longrightarrow> evolves A cl (cl'\<lparr>cl_nextOneTimePreKeyId := i\<rparr>)"
  "evolves A cl cl' \<Longrightarrow> evolves A cl (cl'\<lparr>cl_changeLogCursor := k\<rparr>)"
  "evolves A cl cl' \<Longrightarrow> evolves A cl (setCore cl' st)"
  "evolves A cl cl' \<Longrightarrow> evolves A cl (cl'\<lparr>cl_stores := (cl_stores cl')\<lparr>st_directory := d\<rparr>\<rparr>)"
  "evolves A cl cl' \<Longrightarrow> evolves A cl (drainIdentityChangeLog cl')"
  by (erule evolves_trans, rule evolves_silent; simp add: wires_def setCore_def drainIdentityChangeLog_def Let_def)+

lemma evolves_pause2: "evolves A cl cl' \<Longrightarrow> evolves A cl (pause E cl')"
  using evolves_pause evolves_trans by blast

lemmas evolves_intros = evolves_refl evolves_update evolves_pause2 evolves_setConversation2

lemma evolves_broadcastOps: "evolves isOpSend cl (snd (broadcastOps cl bs))"
proof (induction cl bs rule: broadcastOps.induct)
  case (2 cl conv b bs)
  show ?case
  proof (cases "decodeOp b")
    case (Inr op)
    show ?thesis
    proof (cases "sendFrame cl (WsOpSend conv (op_seq op) (base64Encode b))")
      case (Some cl')
      have "evolves isOpSend cl cl'" by (rule evolves_sendFrame [OF Some]) simp_all
      then show ?thesis using 2 [OF Inr Some] evolves_trans by (simp add: Inr Some)
    qed (simp add: Inr)
  qed simp
qed simp

lemma evolves_sync: "evolves A cl cl' \<Longrightarrow> evolves A cl (syncOwnMembershipChain cl' conv)"
  by (auto simp: syncOwnMembershipChain_def Let_def split: option.split sum.split intro: evolves_intros)

lemma evolves_author: "evolves isOpSend cl (authorMembershipOp E cl conv author)"
proof (cases "cl_service cl")
  case (Some sv)
  obtain r sv' where r: "author (en_random E (cl_tick cl)) sv = (r, sv')" by (cases "author (en_random E (cl_tick cl)) sv")
  let ?cl1 = "cl\<lparr>cl_service := Some sv', cl_tick := Suc (cl_tick cl)\<rparr>"
  obtain o' cl2 where b: "broadcastOps ?cl1 (drop (length (sv_broadcasts sv)) (sv_broadcasts sv')) = (o', cl2)"
    by (metis prod.exhaust)
  have "evolves isOpSend ?cl1 cl2"
    using evolves_broadcastOps [of ?cl1 "drop (length (sv_broadcasts sv)) (sv_broadcasts sv')"] by (simp add: b)
  moreover have "evolves isOpSend cl ?cl1" by (rule evolves_silent) (simp_all add: wires_def)
  ultimately have "evolves isOpSend cl cl2" by (metis evolves_trans)
  then show ?thesis
    by (auto simp: authorMembershipOp_def Some r b Let_def split: sum.split intro: evolves_sync)
qed (simp add: authorMembershipOp_def)

lemma evolves_establish: "evolves A cl (snd (establishOrRefreshSession E cl remote b))"
  by (auto simp: establishOrRefreshSession_def Let_def split: option.split prod.split sum.split intro: evolves_intros)

lemma evolves_establishAll: "evolves A cl (snd (establishAll E cl u bs))"
  by (induction E cl u bs rule: establishAll.induct) (auto intro: evolves_cbind evolves_establish)

lemma evolves_resolveUser: "evolves A cl (snd (resolveUser E cl name))"
  unfolding resolveUser_def
  by (intro evolves_cbind evolves_rest)
    (auto simp: Let_def intro!: evolves_cbind intro: evolves_trans [OF _ evolves_establishAll] evolves_intros)

lemma evolves_ensureSession: "evolves A cl (snd (ensureSession E cl remote))"
  by (auto simp: ensureSession_def split: option.split intro!: evolves_cbind evolves_rest intro: evolves_establish)

lemma evolves_ensureSessions: "evolves A cl (snd (ensureSessions E cl ts))"
  by (induction E cl ts rule: ensureSessions.induct) (auto intro: evolves_cbind evolves_ensureSession)

lemma evolves_syncRoster: "evolves A cl (syncRoster cl conv now raw mode)"
  by (auto simp: syncRoster_def Let_def split: prod.split intro: evolves_intros)

lemma evolves_listMembers: "evolves isSubscribe cl (snd (clListMembers E cl conv))"
  unfolding clListMembers_def
proof (intro evolves_cbind evolves_rest, clarify)
  fix raw mode cl1
  let ?s = "syncRoster cl1 conv (en_now E (cl_tick cl1)) raw mode"
  obtain r cl2 where r: "awaitChainReady E ?s conv = (r, cl2)" by (metis prod.exhaust)
  have "evolves isSubscribe cl1 cl2"
    using evolves_trans [OF evolves_syncRoster] evolves_awaitChainReady [OF r] by blast
  then show "evolves isSubscribe cl1 (snd (case awaitChainReady E ?s conv of
       (Inl e, cl2) \<Rightarrow> (Inl (Thrown e), cl2)
     | (Inr _, cl2) \<Rightarrow> (case membershipLogFor E cl2 conv of
          Inl e \<Rightarrow> (Inl (Thrown e), cl2) | Inr None \<Rightarrow> (Inr [], cl2)
        | Inr (Some log) \<Rightarrow> (case logMembers log of Inl e \<Rightarrow> (Inl (Thrown e), cl2)
             | Inr authoritative \<Rightarrow> (case roster E cl2 conv authoritative raw of None \<Rightarrow> (Inl UndefinedRead, cl2) | Some ms \<Rightarrow> (Inr ms, cl2))))))"
    unfolding r by (auto split: sum.split option.split)
qed

subsection \<open>The log a client holds\<close>

lemma membershipLogFor_cong:
  assumes "conversations_of cl' = conversations_of cl" "cl_joinPins cl' = cl_joinPins cl"
  shows "membershipLogFor E cl' conv = membershipLogFor E cl conv"
  unfolding membershipLogFor_def openChain_def assms by (rule refl)

lemma membershipLogFor_Some:
  "membershipLogFor E cl conv = Inr (Some log) \<longleftrightarrow>
     (\<exists>cached chain. map_of (conversations_of cl) conv = Some cached \<and> cc_membershipOps cached \<noteq> []
        \<and> decodeOps (cc_membershipOps cached) = Inr chain \<and> openChain E cl conv chain = Inr log)"
proof (cases "map_of (conversations_of cl) conv")
  case (Some cached)
  then show ?thesis
  proof (cases "decodeOps (cc_membershipOps cached)")
    case (Inr chain)
    then show ?thesis using Some by (cases "openChain E cl conv chain") (simp_all add: membershipLogFor_def)
  qed (simp add: membershipLogFor_def)
qed (simp add: membershipLogFor_def)

lemma membershipLogFor_own:
  assumes "membershipLogFor E cl conv = Inr (Some log)"
  shows "own_log (en_crypto E) log" "ready log" "map_of (conversations_of cl) conv \<noteq> None"
proof -
  obtain cached chain where c: "map_of (conversations_of cl) conv = Some cached"
    and l: "openChain E cl conv chain = Inr log"
    using assms by (auto simp: membershipLogFor_Some)
  then show own: "own_log (en_crypto E) log"
    by (cases "map_of (cl_joinPins cl) conv") (auto simp: openChain_def intro: own_log.intros)
  show "map_of (conversations_of cl) conv \<noteq> None" by (simp add: c)
  show "ready log"
  proof (cases "map_of (cl_joinPins cl) conv")
    case None
    then show ?thesis
      using l by (auto simp: openChain_def openLog_def ready_def split: list.splits dest: ingest_fixed [OF log_inv_newLog])
  next
    case (Some pin)
    then have ing: "ingestChain (en_crypto E) (forJoiner pin) chain = Inr log" using l by (simp add: openChain_def)
    then show ?thesis
      using ingestChain_Inr [OF joiner_inv] valid_chain_nonempty by (fastforce simp: ready_def)
  qed
qed

definition memberOf :: "client_env \<Rightarrow> Client \<Rightarrow> jsstring \<Rightarrow> jsstring \<Rightarrow> bool" where
  "memberOf E cl conv u \<longleftrightarrow> (\<exists>log. membershipLogFor E cl conv = Inr (Some log) \<and> u \<in> set (members (foldOps (ml_ops log))))"

lemma own_gate_accepts:
  assumes l: "membershipLogFor E cl conv = Inr (Some log)"
    and acc: "enforceInbound (en_crypto E) log u cited (Some (ownChain E cl conv)) = Inr (Accepted, log')"
  shows "\<exists>c. cited = Some c \<and> contains (en_crypto E) (ml_ops log) c \<and> u \<in> set (members (foldOps (ml_ops log)))"
proof -
  note inv = own_log_inv [OF membershipLogFor_own(1) [OF l]]
  obtain c where c: "cited = Some c" "contains (en_crypto E) (ml_ops log') c" "u \<in> set (members (foldOps (ml_ops log')))"
    "fed (en_crypto E) (Some (ownChain E cl conv)) cited log log'"
    using gate_accepted [OF inv acc] by blast
  from c(4) obtain cs where cs: "log' = ingestAll (en_crypto E) log cs" "\<forall>x \<in> set cs. x = ml_ops log"
    by (auto simp: fed_def ownChain_def l logChain_def)
  then have "ml_ops log' = ml_ops log" using ingestAll_ops [OF inv, of cs] by auto
  then show ?thesis using c by auto
qed

subsection \<open>The operations\<close>

fun isSend :: "WsFrame \<Rightarrow> bool" where
  "isSend (WsSend _ _) = True"
| "isSend _ = False"

abbreviation control :: "WsFrame \<Rightarrow> bool" where "control \<equiv> (\<lambda>f. \<not> isSend f)"

lemma control_frames: "isSubscribe f \<Longrightarrow> control f" "isAck f \<Longrightarrow> control f" "isOpSend f \<Longrightarrow> control f"
  by (cases f; simp)+

lemma evolves_control:
  "evolves control cl (snd (clListMembers E cl conv))" "evolves control cl (safeAck cl conv sq)"
  "evolves control cl (authorMembershipOp E cl conv author)"
  by (rule evolves_mono, rule evolves_listMembers evolves_safeAck evolves_author, erule control_frames)+

lemma roster_within: "roster E cl conv au raw = Some ms \<Longrightarrow> m \<in> set ms \<Longrightarrow> mb_userId m \<in> set au"
  by (induction E cl conv au raw arbitrary: ms rule: roster.induct)
    (fastforce simp: memberRows_def split: if_splits option.splits)+

lemma listMembers_within:
  assumes "clListMembers E cl conv = (Inr ms, cl')" "m \<in> set ms"
  shows "memberOf E cl' conv (mb_userId m)"
proof -
  from assms(1) obtain raw mode cl1 where "rest E tr_members cl (RcListMembers (cl_token cl) conv) = (Inr (raw, mode), cl1)"
    by (cases "rest E tr_members cl (RcListMembers (cl_token cl) conv)") (auto simp: clListMembers_def cbind_def split: sum.splits)
  with assms obtain au log where "membershipLogFor E cl' conv = Inr (Some log)" "logMembers log = Inr au" "roster E cl' conv au raw = Some ms"
    by (auto simp: clListMembers_def cbind_def split: prod.splits sum.splits option.splits)
  then show ?thesis
    using roster_within [OF _ assms(2)] by (auto simp: memberOf_def logMembers_def split: if_splits)
qed

lemma evolves_sendAll: "(\<And>u e. (u, e) \<in> set es \<Longrightarrow> A (WsSend u e)) \<Longrightarrow> evolves A cl (snd (sendAll cl es))"
proof (induction cl es rule: sendAll.induct)
  case (2 cl u e es)
  show ?case
  proof (cases "sendFrame cl (WsSend u e)")
    case (Some cl')
    have "evolves A cl cl'" by (rule evolves_sendFrame [OF Some]) (use 2 in simp_all)
    then show ?thesis using 2 Some evolves_trans by simp
  qed simp
qed simp

text \<open>\<open>fromTo conv self R f\<close>: a frame of the control kind, or a message from \<open>self\<close> in \<open>conv\<close> to a user in \<open>R\<close>.\<close>

definition fromTo :: "jsstring \<Rightarrow> jsstring \<Rightarrow> jsstring set \<Rightarrow> WsFrame \<Rightarrow> bool" where
  "fromTo conv self R f = (case f of WsSend u e \<Rightarrow> u \<in> R \<and> env_conversationId e = conv \<and> env_senderUserId e = self | _ \<Rightarrow> True)"

lemma control_fromTo: "control f \<Longrightarrow> fromTo conv self R f"
  by (cases f) (simp_all add: fromTo_def)

lemma evolves_fanOut:
  "evolves (fromTo conv (cl_userId cl) (da_userId ` set targets)) cl (snd (fanOut E cl conv stamped targets))"
proof -
  let ?ctx = "\<lparr>fc_conversationId = conv, fc_senderUserId = cl_userId cl, fc_senderDeviceId = cl_deviceId cl\<rparr>"
  obtain r core sq where r: "encryptForMembers (en_signal E) (cl_tick cl) (selfAddress cl) ?ctx
      (en_stringify E (js_of_plaintext stamped)) (st_core (cl_stores cl)) (cl_fanoutSeq cl) targets = (r, core, sq)"
    by (metis prod_cases3)
  let ?cl1 = "pause E ((setCore cl core)\<lparr>cl_fanoutSeq := sq\<rparr>)"
  have e1: "evolves A cl ?cl1" for A by (intro evolves_intros)
  show ?thesis
  proof (cases r)
    case (Inr es)
    have "evolves (fromTo conv (cl_userId cl) (da_userId ` set targets)) ?cl1 (snd (sendAll ?cl1 (zip (map da_userId targets) es)))"
    proof (rule evolves_sendAll)
      fix u e
      assume "(u, e) \<in> set (zip (map da_userId targets) es)"
      then have "u \<in> da_userId ` set targets" "e \<in> set es" by (auto dest: set_zip_leftD set_zip_rightD)
      then show "fromTo conv (cl_userId cl) (da_userId ` set targets) (WsSend u e)"
        using encryptForMembers_addressed [OF r [unfolded Inr]] by (auto simp: fromTo_def)
    qed
    then show ?thesis using e1 evolves_trans [OF e1] by (simp add: fanOut_def r Inr Let_def)
  qed (simp add: fanOut_def r e1)
qed

lemma evolves_sendRaw:
  "evolves (fromTo conv (cl_userId cl) {u. u \<noteq> cl_userId cl \<and> memberOf E (snd (clListMembers E cl conv)) conv u}) cl (snd (sendRaw E cl conv p))"
proof (cases "stampHead E cl conv p")
  case (Inr stamped)
  let ?R = "{u. u \<noteq> cl_userId cl \<and> memberOf E (snd (clListMembers E cl conv)) conv u}"
  have "evolves (fromTo conv (cl_userId cl) ?R) cl (snd (cbind (clListMembers E cl conv) (\<lambda>ms cl1.
      cbind (ensureSessions E cl1 (targetsOf cl1 ms)) (\<lambda>_ cl2. fanOut E cl2 conv stamped (targetsOf cl1 ms)))))"
  proof (rule evolves_cbind)
    show "evolves (fromTo conv (cl_userId cl) ?R) cl (snd (clListMembers E cl conv))"
      by (rule evolves_mono [OF evolves_control(1) control_fromTo])
  next
    fix ms cl1
    assume lm: "clListMembers E cl conv = (Inr ms, cl1)"
    have self1: "cl_userId cl1 = cl_userId cl"
      using evolves_listMembers [of cl E conv] lm by (simp add: evolves_def)
    have R: "da_userId ` set (targetsOf cl1 ms) \<subseteq> ?R"
      using listMembers_within [OF lm] by (auto simp: targetsOf_def self1 lm)
    show "evolves (fromTo conv (cl_userId cl) ?R) cl1 (snd (cbind (ensureSessions E cl1 (targetsOf cl1 ms)) (\<lambda>_ cl2. fanOut E cl2 conv stamped (targetsOf cl1 ms))))"
    proof (rule evolves_cbind [OF evolves_ensureSessions])
      fix x cl2
      assume "ensureSessions E cl1 (targetsOf cl1 ms) = (Inr x, cl2)"
      then have "cl_userId cl2 = cl_userId cl"
        using evolves_ensureSessions [of "\<lambda>_. True" cl1 E "targetsOf cl1 ms"] self1 by (simp add: evolves_def)
      then have "evolves (fromTo conv (cl_userId cl) (da_userId ` set (targetsOf cl1 ms))) cl2 (snd (fanOut E cl2 conv stamped (targetsOf cl1 ms)))"
        using evolves_fanOut [of conv cl2 "targetsOf cl1 ms" E stamped] by simp
      then show "evolves (fromTo conv (cl_userId cl) ?R) cl2 (snd (fanOut E cl2 conv stamped (targetsOf cl1 ms)))"
        by (rule evolves_mono) (use R in \<open>auto simp: fromTo_def split: WsFrame.splits\<close>)
    qed
  qed
  then show ?thesis by (auto simp: sendRaw_def Inr split: option.split)
qed (auto simp: sendRaw_def split: option.split)

lemma evolves_commands:
  "evolves control cl (snd (clCreateConversation E cl us mode))"
  "evolves control cl (snd (clInvite E cl conv u))"
  "evolves control cl (snd (clRemoveMember E cl conv u))"
  "evolves control cl (snd (clSetAiMode E cl conv enabled))"
  unfolding clCreateConversation_def clInvite_def clRemoveMember_def clSetAiMode_def
  by (intro evolves_cbind evolves_rest;
      auto simp: Let_def split: option.split intro!: evolves_trans [OF _ evolves_control(1)] evolves_trans [OF _ evolves_control(3)]
      intro: evolves_intros)+

text \<open>What \<open>cl'\<close> is without a dispatched message.\<close>

definition mute :: "Client \<Rightarrow> Client \<Rightarrow> Client" where
  "mute cl cl' = cl'\<lparr>cl_messages := cl_messages cl, cl_stores := (cl_stores cl')\<lparr>st_seenMsgIds := st_seenMsgIds (cl_stores cl)\<rparr>\<rparr>"

definition dispatched :: "client_env \<Rightarrow> Client \<Rightarrow> Envelope \<Rightarrow> PlaintextMessage \<Rightarrow> Client \<Rightarrow> bool" where
  "dispatched E cl e m cl' \<longleftrightarrow> pm_msgId m \<notin> set (st_seenMsgIds (cl_stores cl))
     \<and> cl_messages cl' = cl_messages cl @ [toIncoming e m]
     \<and> st_seenMsgIds (cl_stores cl') = st_seenMsgIds (cl_stores cl) @ [pm_msgId m]
     \<and> (\<exists>log c. membershipLogFor E cl' (env_conversationId e) = Inr (Some log) \<and> pm_membershipHead m = Some c
          \<and> contains (en_crypto E) (ml_ops log) c \<and> env_senderUserId e \<in> set (members (foldOps (ml_ops log))))
     \<and> evolves control cl (mute cl cl')"

lemma safeAck_cases: "safeAck cl conv sq = cl \<or> sendFrame cl (WsAck conv sq) = Some (safeAck cl conv sq)"
  by (auto simp: safeAck_def split: option.split)

lemma safeAck_fixed [simp]:
  "cl_stores (safeAck cl conv sq) = cl_stores cl" "cl_messages (safeAck cl conv sq) = cl_messages cl" "cl_joinPins (safeAck cl conv sq) = cl_joinPins cl"
  using safeAck_cases [of cl conv sq] sendFrame_spec [of cl "WsAck conv sq" "safeAck cl conv sq"] by (elim disjE; simp)+

lemma gateMessage_effect:
  assumes l: "membershipLogFor E cl (env_conversationId e) = Inr log"
  shows "evolves control cl (gateMessage E cl e m log) \<or> dispatched E cl e m (gateMessage E cl e m log)"
proof (cases "\<exists>l log'. log = Some l \<and> enforceInbound (en_crypto E) l (env_senderUserId e) (pm_membershipHead m)
      (Some (ownChain E cl (env_conversationId e))) = Inr (Accepted, log')")
  case False
  then show ?thesis
    using evolves_control(2) [of cl "env_conversationId e" "env_seq e"]
    by (auto simp: gateMessage_def split: option.split sum.split prod.split GateResult.split)
next
  case True
  then obtain l log' where log: "log = Some l" and acc: "enforceInbound (en_crypto E) l (env_senderUserId e) (pm_membershipHead m)
      (Some (ownChain E cl (env_conversationId e))) = Inr (Accepted, log')" by blast
  note held = l [unfolded log]
  have g: "gateMessage E cl e m log = dispatchMessage E cl e m"
    by (simp add: gateMessage_def log acc)
  show ?thesis
  proof (cases "pm_msgId m \<in> set (st_seenMsgIds (cl_stores cl))")
    case True
    then show ?thesis unfolding g using evolves_control(2) by (simp add: dispatchMessage_def)
  next
    case False
    define cl3 where "cl3 = cl\<lparr>cl_stores := (cl_stores cl)\<lparr>st_seenMsgIds := js_set_add (st_seenMsgIds (cl_stores cl)) (pm_msgId m)\<rparr>,
      cl_messages := cl_messages cl @ [toIncoming e m]\<rparr>"
    have d: "dispatchMessage E cl e m = safeAck cl3 (env_conversationId e) (env_seq e)"
      using False membershipLogFor_own(3) [OF held] by (simp add: dispatchMessage_def Let_def cl3_def)
    have "membershipLogFor E (dispatchMessage E cl e m) (env_conversationId e) = Inr (Some l)"
      unfolding held [symmetric] d by (rule membershipLogFor_cong) (simp_all add: cl3_def)
    moreover have "evolves control cl (mute cl (dispatchMessage E cl e m))"
      using evolves_control(2) [of cl3 "env_conversationId e" "env_seq e"]
      by (simp add: evolves_def mute_def d cl3_def wires_def)
    moreover have "st_seenMsgIds (cl_stores (dispatchMessage E cl e m)) = st_seenMsgIds (cl_stores cl) @ [pm_msgId m]"
      "cl_messages (dispatchMessage E cl e m) = cl_messages cl @ [toIncoming e m]"
      using False by (simp_all add: d cl3_def js_set_add_def)
    ultimately have "dispatched E cl e m (dispatchMessage E cl e m)"
      using own_gate_accepts [OF held acc] False by (auto simp: dispatched_def)
    then show ?thesis unfolding g ..
  qed
qed

lemma dispatched_after:
  assumes "evolves control cl cl1" "dispatched E cl1 e m cl'"
  shows "dispatched E cl e m cl'"
proof -
  have "mute cl cl' = mute cl1 cl'" "cl_messages cl1 = cl_messages cl" "st_seenMsgIds (cl_stores cl1) = st_seenMsgIds (cl_stores cl)"
    using assms(1) by (auto simp: mute_def evolves_def)
  then show ?thesis using assms evolves_trans [OF assms(1)] by (simp add: dispatched_def)
qed

text \<open>
  What follows a plaintext that parses: the message is dropped before the gate, or the gate decides on the
  log the client then holds.
\<close>

definition afterParse :: "client_env \<Rightarrow> Client \<Rightarrow> Envelope \<Rightarrow> PlaintextMessage \<Rightarrow> Client" where
  "afterParse E cl e m =
     (case membershipLogFor E cl (env_conversationId e) of
        Inl _ \<Rightarrow> cl
      | Inr (Some log) \<Rightarrow> gateMessage E cl e m (Some log)
      | Inr None \<Rightarrow>
          (case awaitChainReady E cl (env_conversationId e) of
             (Inl _, cl2) \<Rightarrow> cl2
           | (Inr log, cl2) \<Rightarrow> gateMessage E cl2 e m log))"

lemma afterParse_gate:
  "\<exists>cl3. evolves control cl cl3 \<and> (afterParse E cl e m = cl3
     \<or> (\<exists>l. membershipLogFor E cl3 (env_conversationId e) = Inr l \<and> afterParse E cl e m = gateMessage E cl3 e m l))"
proof (cases "membershipLogFor E cl (env_conversationId e)")
  case (Inr lo)
  show ?thesis
  proof (cases lo)
    case None
    obtain r2 cl2 where r2: "awaitChainReady E cl (env_conversationId e) = (r2, cl2)" by (metis prod.exhaust)
    have e2: "r2 = membershipLogFor E cl2 (env_conversationId e)" and sub: "evolves isSubscribe cl cl2"
      using evolves_awaitChainReady [OF r2] by simp_all
    have "evolves control cl cl2" by (rule evolves_mono [OF sub]) (erule control_frames)
    then show ?thesis
      by (cases r2; intro exI [of _ cl2]) (use Inr None r2 e2 [symmetric] in \<open>simp_all add: afterParse_def\<close>)
  qed (intro exI [of _ cl], use Inr in \<open>auto simp: afterParse_def\<close>)
qed (intro exI [of _ cl], auto simp: afterParse_def)

lemma handleIncomingEnvelope_effect:
  "evolves control cl (handleIncomingEnvelope E cl e)
   \<or> (\<exists>m bytes core. decryptEnvelope (en_signal E) (cl_tick cl) (selfAddress cl) (st_core (cl_stores cl)) e = (Inr bytes, core)
        \<and> parsePlaintext E bytes = Some m \<and> dispatched E cl e m (handleIncomingEnvelope E cl e))"
proof -
  obtain r core where r: "decryptEnvelope (en_signal E) (cl_tick cl) (selfAddress cl) (st_core (cl_stores cl)) e = (r, core)"
    by (metis prod.exhaust)
  define cl1 where "cl1 = drainIdentityChangeLog (pause E (setCore cl core))"
  have e1: "evolves control cl cl1" "evolves control cl (pause E (setCore cl core))" unfolding cl1_def by (intro evolves_intros)+
  show ?thesis
  proof (cases r)
    case (Inl x)
    then show ?thesis using e1(2) by (simp add: handleIncomingEnvelope_def r)
  next
    case r': (Inr bytes)
    note R = handleIncomingEnvelope_def [of E cl e, unfolded r r', simplified, folded cl1_def, unfolded Let_def]
    show ?thesis
    proof (cases "parsePlaintext E bytes")
      case None
      then show ?thesis using evolves_trans [OF e1(1) evolves_control(2)] by (simp add: R)
    next
      case (Some m)
      have h: "handleIncomingEnvelope E cl e = afterParse E cl1 e m"
        by (simp add: R Some afterParse_def split: option.splits sum.splits prod.splits)
      obtain cl3 where "evolves control cl cl3" "afterParse E cl1 e m = cl3
          \<or> (\<exists>l. membershipLogFor E cl3 (env_conversationId e) = Inr l \<and> afterParse E cl1 e m = gateMessage E cl3 e m l)"
        using afterParse_gate [of cl1 E e m] evolves_trans [OF e1(1)] by blast
      then show ?thesis
        using gateMessage_effect [of E cl3 e _ m] evolves_trans dispatched_after r r' Some unfolding h by metis
    qed
  qed
qed

subsection \<open>Prekeys and connections\<close>

lemma evolves_otps: "evolves A cl (snd (provisionAndPublishOtps E cl n))"
proof (induction n arbitrary: cl)
  case (Suc n)
  show ?case
    unfolding provisionAndPublishOtps.simps Let_def
    by (rule evolves_cbind) (auto intro: evolves_trans [OF _ evolves_rest] evolves_intros Suc)
qed simp

lemma evolves_replenish: "evolves A cl (snd (checkAndReplenishPrekeys E cl n))"
  unfolding checkAndReplenishPrekeys_def
  by (rule evolves_cbind [OF evolves_rest]) (auto split: option.split intro: evolves_cbind evolves_otps)

lemma linkWires_disconnect: "linkWires (disconnectLink l) = linkWires l"
  by (simp add: linkWires_def disconnectLink_def Let_def split: option.split)

lemma evolves_disconnect: "evolves A cl (clDisconnect cl)"
proof (cases "currentLink cl")
  case (Some l)
  have "wires (setCurrentLink cl (disconnectLink l)) = wires cl"
    using wires_setCurrentLink [OF Some, of "disconnectLink l" "[]"] by (simp add: linkWires_disconnect)
  then show ?thesis by (auto simp: clDisconnect_def Some intro: evolves_silent)
qed (simp add: clDisconnect_def)

lemma evolves_connect: "evolves A cl (snd (clConnect E cl))"
proof -
  let ?cl1 = "clDisconnect cl"
  let ?cl2 = "?cl1\<lparr>cl_links := cl_links ?cl1 @ [connectLink (newLink (cl_token cl) (cl_deviceId cl))], cl_connectionState := Connecting\<rparr>"
  have "linkWires (connectLink (newLink t d)) = []" for t d
    by (simp add: linkWires_def connectLink_def openOnce_def newLink_def List.map_filter_def)
  then have "evolves A ?cl1 ?cl2"
    by (intro evolves_silent) (simp_all add: wires_def)
  then have "evolves A cl (pause E ?cl2)"
    by (intro evolves_pause2) (rule evolves_trans [OF evolves_disconnect])
  then show ?thesis
    by (auto simp: clConnect_def clDisconnect_def Let_def split: option.split bool.split intro: evolves_intros)
qed

subsection \<open>Runs\<close>

text \<open>What can happen to a client: an event of one of its links, the next envelope of its inbox, a call of its user.\<close>

datatype client_cmd =
    DoLinkEvent nat link_event
  | DoInbox
  | DoConnect
  | DoDisconnect
  | DoResolve jsstring
  | DoCreate "jsstring list" bool
  | DoInvite jsstring jsstring
  | DoRemove jsstring jsstring
  | DoSetAiMode jsstring bool
  | DoListMembers jsstring
  | DoAcceptPin "json option"
  | DoSend jsstring jsstring "jsstring list"
  | DoSendRaw jsstring PlaintextMessage
  | DoReplenish nat

definition client_exec :: "client_env \<Rightarrow> Client \<Rightarrow> client_cmd \<Rightarrow> Client" where
  "client_exec E cl c =
     (case c of
        DoLinkEvent k ev \<Rightarrow> onLinkEvent E cl (k, ev)
      | DoInbox \<Rightarrow> processInbox E cl
      | DoConnect \<Rightarrow> snd (clConnect E cl)
      | DoDisconnect \<Rightarrow> clDisconnect cl
      | DoResolve name \<Rightarrow> snd (resolveUser E cl name)
      | DoCreate us mode \<Rightarrow> snd (clCreateConversation E cl us mode)
      | DoInvite conv u \<Rightarrow> snd (clInvite E cl conv u)
      | DoRemove conv u \<Rightarrow> snd (clRemoveMember E cl conv u)
      | DoSetAiMode conv b \<Rightarrow> snd (clSetAiMode E cl conv b)
      | DoListMembers conv \<Rightarrow> snd (clListMembers E cl conv)
      | DoAcceptPin p \<Rightarrow> snd (acceptInvitePin cl p)
      | DoSend conv t ms \<Rightarrow> snd (clSend E cl conv t ms)
      | DoSendRaw conv p \<Rightarrow> snd (sendRaw E cl conv p)
      | DoReplenish n \<Rightarrow> snd (checkAndReplenishPrekeys E cl n))"

text \<open>Ids dispatched so far are distinct, recorded, and were not known at the start; subscriptions are recorded.\<close>

definition once_inv :: "jsstring list \<Rightarrow> Client \<Rightarrow> bool" where
  "once_inv seen0 cl \<longleftrightarrow> st_seenMsgIds (cl_stores cl) = seen0 @ map im_msgId (cl_messages cl)
     \<and> distinct (map im_msgId (cl_messages cl)) \<and> set seen0 \<inter> im_msgId ` set (cl_messages cl) = {}
     \<and> (\<forall>conv. count_list (wires cl) (WsSubscribe conv None) \<le> of_bool (conv \<in> set (cl_opCatchupAttempted cl)))"

lemma once_evolves:
  assumes "evolves A cl cl'" "once_inv seen0 cl"
  shows "once_inv seen0 cl'"
proof -
  obtain ws where ws: "wires cl' = wires cl @ ws" "\<And>conv. count_list ws (WsSubscribe conv None)
      + of_bool (conv \<in> set (cl_opCatchupAttempted cl)) \<le> of_bool (conv \<in> set (cl_opCatchupAttempted cl'))"
    using assms(1) by (auto simp: evolves_def)
  have "count_list (wires cl') (WsSubscribe conv None) \<le> of_bool (conv \<in> set (cl_opCatchupAttempted cl'))" for conv
  proof -
    have "count_list (wires cl) (WsSubscribe conv None) \<le> of_bool (conv \<in> set (cl_opCatchupAttempted cl))"
      using assms(2) unfolding once_inv_def by blast
    then show ?thesis using ws(2) [of conv] unfolding ws(1) count_list_append by linarith
  qed
  then show ?thesis using assms by (simp add: once_inv_def evolves_def)
qed

lemma once_dispatched:
  assumes "dispatched E cl e m cl'" "once_inv seen0 cl"
  shows "once_inv seen0 cl'"
proof -
  have "once_inv seen0 (mute cl cl')"
    using assms once_evolves by (auto simp: dispatched_def)
  then show ?thesis
    using assms by (auto simp: once_inv_def dispatched_def mute_def toIncoming_def wires_def)
qed

lemma once_envelope: "once_inv seen0 cl \<Longrightarrow> once_inv seen0 (handleIncomingEnvelope E cl e)"
  using handleIncomingEnvelope_effect [of cl E e] once_evolves once_dispatched by blast

lemma once_exec: "once_inv seen0 cl \<Longrightarrow> once_inv seen0 (client_exec E cl c)"
proof (cases c)
  case DoInbox
  assume "once_inv seen0 cl"
  then show ?thesis
    using once_evolves [of "\<lambda>_. True" cl, OF evolves_update(5) [OF evolves_refl]] once_envelope
    by (auto simp: DoInbox client_exec_def processInbox_def split: list.split)
next
  case (DoAcceptPin p)
  assume "once_inv seen0 cl"
  then show ?thesis
    by (cases "parseInvitePin p") (simp_all add: DoAcceptPin client_exec_def acceptInvitePin_def once_inv_def wires_def)
next
  case (DoSend conv t ms)
  assume "once_inv seen0 cl"
  moreover have "snd (clSend E cl conv t ms) = snd (sendRaw E cl conv \<lparr>pm_msgId = en_uuid E (cl_tick cl), pm_text = t, pm_mentions = ms,
      pm_sentAt = en_now E (cl_tick cl), pm_membershipHead = None\<rparr>)"
    by (simp add: clSend_def cbind_def Let_def split: prod.split sum.split)
  ultimately show ?thesis
    using once_evolves [OF evolves_sendRaw] by (simp add: DoSend client_exec_def)
qed (simp_all add: client_exec_def once_evolves [OF evolves_onLinkEvent] once_evolves [OF evolves_connect]
      once_evolves [OF evolves_disconnect] once_evolves [OF evolves_resolveUser] once_evolves [OF evolves_commands(1)]
      once_evolves [OF evolves_commands(2)] once_evolves [OF evolves_commands(3)] once_evolves [OF evolves_commands(4)]
      once_evolves [OF evolves_listMembers] once_evolves [OF evolves_sendRaw] once_evolves [OF evolves_replenish])

lemma once_run: "once_inv seen0 cl \<Longrightarrow> once_inv seen0 (foldl (client_exec E) cl cmds)"
  by (induction cmds arbitrary: cl) (simp_all add: once_exec)

end
