(* ===== verification/AgentStore.thy ===== *)
theory AgentStore
  imports ClientStores "HOL-Library.Countable"
begin

section \<open>Durable state (\<^verbatim>\<open>client-sdk/src/stores/sqlite.ts\<close>)\<close>

text \<open>
  The four tables of the SQLite database as a record. A payload column is \<open>RawP\<close> or \<open>EncP\<close> by its
  prefix. What a value becomes as JSON text is a \<open>codec\<close>, the pair \<^verbatim>\<open>JSON.stringify\<close> and
  \<^verbatim>\<open>JSON.parse\<close> at its type; scrypt and AES-256-GCM are the parameter \<open>seal_lib\<close>, with the laws
  \<open>seal_ok\<close>. The random salt and initialisation vector are arguments.
\<close>

record 'a codec =
  cd_text :: "'a \<Rightarrow> bytes"
  cd_value :: "bytes \<Rightarrow> 'a option"

definition codec_ok :: "'a codec \<Rightarrow> bool" where
  "codec_ok C \<longleftrightarrow> (\<forall>v. cd_value C (cd_text C v) = Some v)"

record seal_lib =
  sl_scrypt :: "jsstring \<Rightarrow> bytes \<Rightarrow> bytes"
  sl_seal :: "bytes \<Rightarrow> bytes \<Rightarrow> bytes \<Rightarrow> bytes \<times> bytes"
  sl_open :: "bytes \<Rightarrow> bytes \<Rightarrow> bytes \<Rightarrow> bytes \<Rightarrow> bytes option"

text \<open>\<open>sl_seal key iv text\<close> gives the 16-byte tag and the ciphertext, and \<open>sl_open\<close> inverts it.\<close>

definition seal_ok :: "seal_lib \<Rightarrow> bool" where
  "seal_ok S \<longleftrightarrow> (\<forall>key iv m tag enc. sl_seal S key iv m = (tag, enc) \<longrightarrow> length tag = 16 \<and> sl_open S key iv tag enc = Some m)"

datatype payload = RawP bytes | EncP bytes | UnknownP bytes

datatype agent_error = EncryptedNeedsKey | PlaintextWithKey | PayloadNoKey | UnknownPrefix | BadPayload

record PersistedClientState =
  ps_token :: jsstring
  ps_userId :: jsstring
  ps_username :: jsstring
  ps_deviceId :: int
  ps_nextOneTimePreKeyId :: int
  ps_identityKeyPair :: jsstring
  ps_registrationId :: int
  ps_stores :: SerializedClientStores

datatype role = User | Assistant

record ContextMessage =
  cx_role :: role
  cx_content :: jsstring
  cx_sentAt :: int

record ConversationMeta =
  me_greeted :: bool
  me_humanSinceLastReply :: nat

definition DEFAULT_META :: ConversationMeta where
  "DEFAULT_META = \<lparr>me_greeted = False, me_humanSinceLastReply = 0\<rparr>"

record AgentDb =
  ad_salt :: "bytes option"
  ad_encrypted :: bool
  ad_clientState :: "payload option"
  ad_contextWindows :: "(jsstring \<times> payload) list"
  ad_conversationMeta :: "(jsstring \<times> payload) list"

record AgentStore =
  as_db :: AgentDb
  as_key :: "bytes option"

definition emptyAgentDb :: AgentDb where
  "emptyAgentDb = \<lparr>ad_salt = None, ad_encrypted = False, ad_clientState = None, ad_contextWindows = [], ad_conversationMeta = []\<rparr>"

definition estimateTokens :: "ContextMessage list \<Rightarrow> nat" where
  "estimateTokens ms = (sum_list (map (\<lambda>m. length (cx_content m)) ms) + 3) div 4"

text \<open>An empty passphrase is falsy.\<close>

definition openAgentStore :: "seal_lib \<Rightarrow> AgentDb \<Rightarrow> jsstring option \<Rightarrow> bytes \<Rightarrow> agent_error + AgentStore" where
  "openAgentStore S db passphrase freshSalt =
     (let withKey = (case passphrase of None \<Rightarrow> False | Some p \<Rightarrow> p \<noteq> []);
          finish = (\<lambda>db salt. Inr \<lparr>as_db = db, as_key = (if withKey then Some (sl_scrypt S (the passphrase) salt) else None)\<rparr>)
      in case ad_salt db of
           None \<Rightarrow> finish (db\<lparr>ad_salt := Some freshSalt, ad_encrypted := withKey\<rparr>) freshSalt
         | Some salt \<Rightarrow>
             if ad_encrypted db \<and> \<not> withKey then Inl EncryptedNeedsKey
             else if \<not> ad_encrypted db \<and> withKey then Inl PlaintextWithKey
             else finish db salt)"

definition encodePayload :: "seal_lib \<Rightarrow> 'a codec \<Rightarrow> bytes option \<Rightarrow> bytes \<Rightarrow> 'a \<Rightarrow> payload" where
  "encodePayload S C key iv v =
     (case key of
        None \<Rightarrow> RawP (cd_text C v)
      | Some k \<Rightarrow> (case sl_seal S k iv (cd_text C v) of (tag, enc) \<Rightarrow> EncP (iv @ tag @ enc)))"

definition decodePayload :: "seal_lib \<Rightarrow> 'a codec \<Rightarrow> bytes option \<Rightarrow> payload \<Rightarrow> agent_error + 'a" where
  "decodePayload S C key p =
     (case p of
        RawP text \<Rightarrow> (case cd_value C text of None \<Rightarrow> Inl BadPayload | Some v \<Rightarrow> Inr v)
      | EncP buf \<Rightarrow>
          (case key of
             None \<Rightarrow> Inl PayloadNoKey
           | Some k \<Rightarrow>
               (case sl_open S k (take 12 buf) (take 16 (drop 12 buf)) (drop 28 buf) of
                  None \<Rightarrow> Inl BadPayload
                | Some text \<Rightarrow> (case cd_value C text of None \<Rightarrow> Inl BadPayload | Some v \<Rightarrow> Inr v)))
      | UnknownP _ \<Rightarrow> Inl UnknownPrefix)"

definition loadState :: "seal_lib \<Rightarrow> PersistedClientState codec \<Rightarrow> AgentStore \<Rightarrow> agent_error + PersistedClientState option" where
  "loadState S C a =
     (case ad_clientState (as_db a) of
        None \<Rightarrow> Inr None
      | Some p \<Rightarrow> rbind (decodePayload S C (as_key a) p) (\<lambda>v. Inr (Some v)))"

definition saveState :: "seal_lib \<Rightarrow> PersistedClientState codec \<Rightarrow> bytes \<Rightarrow> AgentStore \<Rightarrow> PersistedClientState \<Rightarrow> AgentStore" where
  "saveState S C iv a s = a\<lparr>as_db := (as_db a)\<lparr>ad_clientState := Some (encodePayload S C (as_key a) iv s)\<rparr>\<rparr>"

definition loadContext :: "seal_lib \<Rightarrow> ContextMessage list codec \<Rightarrow> AgentStore \<Rightarrow> jsstring \<Rightarrow> agent_error + ContextMessage list" where
  "loadContext S C a conv =
     (case map_of (ad_contextWindows (as_db a)) conv of
        None \<Rightarrow> Inr []
      | Some p \<Rightarrow> decodePayload S C (as_key a) p)"

definition saveContext :: "seal_lib \<Rightarrow> ContextMessage list codec \<Rightarrow> bytes \<Rightarrow> AgentStore \<Rightarrow> jsstring \<Rightarrow> ContextMessage list \<Rightarrow> AgentStore" where
  "saveContext S C iv a conv ms =
     a\<lparr>as_db := (as_db a)\<lparr>ad_contextWindows := amap_set (ad_contextWindows (as_db a)) conv (encodePayload S C (as_key a) iv ms)\<rparr>\<rparr>"

text \<open>
  The two trimming loops; \<^verbatim>\<open>shift\<close> drops the oldest turn and leaves an empty array as it is. The limits
  are numbers of the configuration and may be negative, so the first loop may run forever, which is
  \<open>None\<close>.
\<close>

partial_function (option) trimCount :: "int \<Rightarrow> ContextMessage list \<Rightarrow> ContextMessage list option" where
  "trimCount maxMessages w = (if int (length w) > maxMessages then trimCount maxMessages (tl w) else Some w)"

function trimTokens :: "int \<Rightarrow> ContextMessage list \<Rightarrow> ContextMessage list" where
  "trimTokens maxTokens w = (if length w > 1 \<and> int (estimateTokens w) > maxTokens then trimTokens maxTokens (tl w) else w)"
  by auto
termination by (relation "measure (\<lambda>(n, w). length w)") auto

declare trimTokens.simps [simp del]

text \<open>The limits \<^verbatim>\<open>maxMessages\<close> and \<^verbatim>\<open>maxTokens\<close>; \<open>None\<close> when the call does not return.\<close>

type_synonym ContextLimits = "int \<times> int"

definition appendContext ::
    "seal_lib \<Rightarrow> ContextMessage list codec \<Rightarrow> bytes \<Rightarrow> AgentStore \<Rightarrow> jsstring \<Rightarrow> ContextMessage \<Rightarrow> ContextLimits
       \<Rightarrow> (agent_error + ContextMessage list \<times> AgentStore) option" where
  "appendContext S C iv a conv m limits =
     (case loadContext S C a conv of
        Inl e \<Rightarrow> Some (Inl e)
      | Inr w \<Rightarrow>
          (case trimCount (fst limits) (w @ [m]) of
             None \<Rightarrow> None
           | Some w1 \<Rightarrow> let w2 = trimTokens (snd limits) w1 in Some (Inr (w2, saveContext S C iv a conv w2))))"

definition purgeContext :: "AgentStore \<Rightarrow> jsstring \<Rightarrow> AgentStore" where
  "purgeContext a conv = a\<lparr>as_db := (as_db a)\<lparr>ad_contextWindows := amap_del (ad_contextWindows (as_db a)) conv,
     ad_conversationMeta := amap_del (ad_conversationMeta (as_db a)) conv\<rparr>\<rparr>"

definition loadConvMeta :: "seal_lib \<Rightarrow> ConversationMeta codec \<Rightarrow> AgentStore \<Rightarrow> jsstring \<Rightarrow> agent_error + ConversationMeta" where
  "loadConvMeta S C a conv =
     (case map_of (ad_conversationMeta (as_db a)) conv of
        None \<Rightarrow> Inr DEFAULT_META
      | Some p \<Rightarrow> decodePayload S C (as_key a) p)"

definition saveConvMeta :: "seal_lib \<Rightarrow> ConversationMeta codec \<Rightarrow> bytes \<Rightarrow> AgentStore \<Rightarrow> jsstring \<Rightarrow> ConversationMeta \<Rightarrow> AgentStore" where
  "saveConvMeta S C iv a conv meta =
     a\<lparr>as_db := (as_db a)\<lparr>ad_conversationMeta := amap_set (ad_conversationMeta (as_db a)) conv (encodePayload S C (as_key a) iv meta)\<rparr>\<rparr>"

subsection \<open>Payloads\<close>

lemma decode_encode:
  assumes "seal_ok S" "codec_ok C" "length iv = 12"
  shows "decodePayload S C key (encodePayload S C key iv v) = Inr v"
proof (cases key)
  case None
  then show ?thesis using assms(2) by (simp add: encodePayload_def decodePayload_def codec_ok_def)
next
  case (Some k)
  obtain tag enc where s: "sl_seal S k iv (cd_text C v) = (tag, enc)" by force
  then have "length tag = 16" "sl_open S k iv tag enc = Some (cd_text C v)" using assms(1) by (auto simp: seal_ok_def)
  then show ?thesis using assms(2,3) s Some by (simp add: encodePayload_def decodePayload_def codec_ok_def)
qed

lemma trimCount_eq: "0 \<le> n \<Longrightarrow> trimCount n w = Some (drop (length w - nat n) w)"
proof (induction w)
  case (Cons m w)
  show ?case
  proof (cases "int (length (m # w)) > n")
    case True
    then have "length (m # w) - nat n = Suc (length w - nat n)" using Cons.prems by simp
    then show ?thesis using True Cons by (subst trimCount.simps) simp
  qed (subst trimCount.simps, simp)
qed (subst trimCount.simps, simp)

text \<open>By fixpoint induction, whatever the loop returns is within the limit.\<close>

lemma trimCount_within: "trimCount n w = Some w' \<Longrightarrow> int (length w') \<le> n"
  by (rule trimCount.raw_induct [where P = "\<lambda>n w w'. int (length w') \<le> n"]) (auto split: if_splits)

lemma trimCount_negative: "n < 0 \<Longrightarrow> trimCount n w = None"
  using trimCount_within [of n w] by (cases "trimCount n w") auto

lemma trimTokens_spec:
  "suffix (trimTokens n w) w \<and> (w \<noteq> [] \<longrightarrow> trimTokens n w \<noteq> []) \<and> (int (estimateTokens (trimTokens n w)) \<le> n \<or> length (trimTokens n w) \<le> 1)"
proof (induction n w rule: trimTokens.induct)
  case (1 n w)
  show ?case
  proof (cases "length w > 1 \<and> int (estimateTokens w) > n")
    case True
    then have eq: "trimTokens n w = trimTokens n (tl w)" by (subst trimTokens.simps) simp
    have "tl w \<noteq> []" using True by (cases w) auto
    then show ?thesis using 1 True eq suffix_tl [of w] suffix_order.trans by fastforce
  next
    case False
    then have "trimTokens n w = w" by (subst trimTokens.simps) auto
    then show ?thesis using False by auto
  qed
qed

lemma window_spec:
  assumes "0 \<le> maxMessages" and w': "w' = trimTokens maxTokens (drop (length (w @ [m]) - nat maxMessages) (w @ [m]))"
  shows "suffix w' (w @ [m]) \<and> int (length w') \<le> maxMessages \<and> (1 \<le> maxMessages \<longrightarrow> w' \<noteq> [] \<and> last w' = m)
    \<and> (int (estimateTokens w') \<le> maxTokens \<or> length w' \<le> 1)"
proof -
  let ?c = "drop (length (w @ [m]) - nat maxMessages) (w @ [m])"
  have c: "suffix ?c (w @ [m])" "int (length ?c) \<le> maxMessages" "1 \<le> maxMessages \<Longrightarrow> ?c \<noteq> []"
    using assms(1) by (rule_tac suffix_drop, simp_all)
  note t = trimTokens_spec [of maxTokens ?c, folded w']
  have suf: "suffix w' (w @ [m])" using t c(1) suffix_order.trans by blast
  have "last w' = m" if "w' \<noteq> []"
    using suf that by (metis last_appendR last_snoc suffix_def)
  moreover have "int (length w') \<le> maxMessages"
    using t c(2) suffix_length_le [of w' ?c] by linarith
  ultimately show ?thesis using suf t c(3) by blast
qed

lemma load_saveContext:
  assumes "seal_ok S" "codec_ok C" "length iv = 12"
  shows "loadContext S C (saveContext S C iv a conv ms) c = (if c = conv then Inr ms else loadContext S C a c)"
  by (auto simp: loadContext_def saveContext_def map_of_amap_set decode_encode [OF assms] split: option.splits)

text \<open>C40: a conversation's rolling context stays within its limits: appending a turn returns a
  window that is a suffix of the old one with the new turn, no longer than the message limit,
  within the token estimate unless a single turn is left, ending with the new turn when the limit
  allows any; the next load returns it, and the windows of other conversations are untouched. A negative
  message limit, which the configuration accepts, makes the trimming loop run forever.\<close>

theorem appendContext_window:
  assumes "seal_ok S" "codec_ok C" "length iv = 12" "loadContext S C a conv = Inr w"
  shows "if maxMessages < 0 then appendContext S C iv a conv m (maxMessages, maxTokens) = None
    else \<exists>w' a'. appendContext S C iv a conv m (maxMessages, maxTokens) = Some (Inr (w', a'))
      \<and> suffix w' (w @ [m]) \<and> int (length w') \<le> maxMessages \<and> (1 \<le> maxMessages \<longrightarrow> w' \<noteq> [] \<and> last w' = m)
      \<and> (int (estimateTokens w') \<le> maxTokens \<or> length w' \<le> 1)
      \<and> loadContext S C a' conv = Inr w' \<and> (\<forall>c. c \<noteq> conv \<longrightarrow> loadContext S C a' c = loadContext S C a c)"
proof (cases "maxMessages < 0")
  case False
  let ?w = "trimTokens maxTokens (drop (length (w @ [m]) - nat maxMessages) (w @ [m]))"
  have "appendContext S C iv a conv m (maxMessages, maxTokens) = Some (Inr (?w, saveContext S C iv a conv ?w))"
    unfolding appendContext_def assms(4) using False by (simp add: trimCount_eq Let_def)
  moreover have "loadContext S C (saveContext S C iv a conv ?w) conv = Inr ?w"
    "\<forall>c. c \<noteq> conv \<longrightarrow> loadContext S C (saveContext S C iv a conv ?w) c = loadContext S C a c"
    by (simp_all add: load_saveContext [OF assms(1-3)])
  ultimately show ?thesis using window_spec [OF _ refl, of maxMessages maxTokens w m] False by auto
qed (simp add: appendContext_def assms trimCount_negative)

text \<open>A codec and a seal that satisfy the laws: a counting of the windows, and no encryption.\<close>

definition demoSeal :: seal_lib where
  "demoSeal = \<lparr>sl_scrypt = (\<lambda>p s. s), sl_seal = (\<lambda>k iv m. (replicate 16 0, m)), sl_open = (\<lambda>k iv t e. Some e)\<rparr>"

definition demoText :: "ContextMessage list \<Rightarrow> bytes" where
  "demoText ms = replicate (to_nat (map (\<lambda>m. (cx_role m = User, map unat (cx_content m), cx_sentAt m)) ms)) 0"

definition demoCodec :: "ContextMessage list codec" where
  "demoCodec = \<lparr>cd_text = demoText, cd_value = (\<lambda>b. Some (inv demoText b))\<rparr>"

lemma demoSeal_ok: "seal_ok demoSeal"
  by (auto simp: seal_ok_def demoSeal_def)

lemma demoMessage_inj: "inj (\<lambda>m :: ContextMessage. (cx_role m = User, map unat (cx_content m), cx_sentAt m))"
proof (rule injI)
  fix m n :: ContextMessage
  assume eq: "(cx_role m = User, map unat (cx_content m), cx_sentAt m) = (cx_role n = User, map unat (cx_content n), cx_sentAt n)"
  have "cx_role m = cx_role n" using eq by (cases "cx_role m"; cases "cx_role n") auto
  moreover have "cx_content m = cx_content n"
  proof -
    have "inj (unat :: 16 word \<Rightarrow> nat)" by (rule injI) (simp add: word_unat_eq_iff)
    then show ?thesis using eq inj_map_eq_map by auto
  qed
  ultimately show "m = n" using eq by simp
qed

lemma demoText_inj: "inj demoText"
proof (rule injI)
  fix x y assume "demoText x = demoText y"
  then have "length (demoText x) = length (demoText y)" by simp
  then show "x = y"
    using inj_map_eq_map [OF demoMessage_inj] by (simp add: demoText_def)
qed

lemma demoCodec_ok: "codec_ok demoCodec"
  by (simp add: codec_ok_def demoCodec_def demoText_inj)

theorem appendContext_window_witness:
  "\<exists>w' a'. appendContext demoSeal demoCodec (replicate 12 0) \<lparr>as_db = emptyAgentDb, as_key = Some [1]\<rparr> (js ''c1'')
      \<lparr>cx_role = User, cx_content = js ''hello'', cx_sentAt = 5\<rparr> (20, 100) = Some (Inr (w', a'))
    \<and> length w' = 1 \<and> loadContext demoSeal demoCodec a' (js ''c1'') = Inr w'"
proof -
  have "loadContext demoSeal demoCodec \<lparr>as_db = emptyAgentDb, as_key = Some [1]\<rparr> (js ''c1'') = Inr []"
    by (simp add: loadContext_def emptyAgentDb_def)
  from appendContext_window [OF demoSeal_ok demoCodec_ok _ this, of "replicate 12 0" 20
      "\<lparr>cx_role = User, cx_content = js ''hello'', cx_sentAt = 5\<rparr>" 100]
  obtain w' a' where w: "appendContext demoSeal demoCodec (replicate 12 0) \<lparr>as_db = emptyAgentDb, as_key = Some [1]\<rparr> (js ''c1'')
      \<lparr>cx_role = User, cx_content = js ''hello'', cx_sentAt = 5\<rparr> (20, 100) = Some (Inr (w', a'))"
    "suffix w' ([] @ [\<lparr>cx_role = User, cx_content = js ''hello'', cx_sentAt = 5\<rparr>])" "w' \<noteq> []"
    "loadContext demoSeal demoCodec a' (js ''c1'') = Inr w'"
    by auto
  then have "length w' = 1" using suffix_length_le [OF w(2)] by (cases w') auto
  then show ?thesis using w by blast
qed

end
