(* ===== verification/Llm.thy ===== *)
theory Llm
  imports AgentStore Json
begin

section \<open>Language-model providers (\<^verbatim>\<open>apps/agent/src/llm.ts\<close>)\<close>

text \<open>
  The HTTP request each provider posts for a completion and how its answer is read. The network is the
  parameter \<open>fetch\<close>: \<open>None\<close> is a rejected promise; an answer has its status and its body as JSON,
  \<open>None\<close> when it is not JSON. A completion that throws is \<open>None\<close>.
\<close>

definition DEFAULT_OPENAI_BASE_URL :: jsstring where "DEFAULT_OPENAI_BASE_URL = js ''https://integrate.api.nvidia.com/v1''"
definition DEFAULT_OPENAI_MODEL :: jsstring where "DEFAULT_OPENAI_MODEL = js ''nvidia/llama-3.1-nemotron-70b-instruct''"
definition DEFAULT_ANTHROPIC_BASE_URL :: jsstring where "DEFAULT_ANTHROPIC_BASE_URL = js ''https://api.anthropic.com''"
definition DEFAULT_ANTHROPIC_MODEL :: jsstring where "DEFAULT_ANTHROPIC_MODEL = js ''claude-sonnet-5''"
definition ANTHROPIC_VERSION :: jsstring where "ANTHROPIC_VERSION = js ''2023-06-01''"

definition DEFAULT_SYSTEM_PROMPT :: jsstring where
  "DEFAULT_SYSTEM_PROMPT = js ''You are the AI member of this end-to-end-encrypted group chat. You were invited to it explicitly and only ever see messages from threads you are a member of. Be concise and conversational, matching a group-chat register. Do not claim to see anything outside this conversation.''"

text \<open>The optional \<^verbatim>\<open>model\<close> of a request is never set by its only caller and left out.\<close>

record LlmCompletionRequest =
  lr_system :: jsstring
  lr_messages :: "(role \<times> jsstring) list"

record http_request =
  hr_url :: jsstring
  hr_headers :: "(jsstring \<times> jsstring) list"
  hr_body :: json

record http_response =
  hs_status :: nat
  hs_json :: "json option"

type_synonym fetch = "http_request \<Rightarrow> http_response option"

record llm_opts =
  lo_baseUrl :: jsstring
  lo_apiKey :: jsstring
  lo_model :: jsstring

definition roleText :: "role \<Rightarrow> jsstring" where
  "roleText r = (case r of User \<Rightarrow> js ''user'' | Assistant \<Rightarrow> js ''assistant'')"

definition turnJson :: "role \<times> jsstring \<Rightarrow> json" where
  "turnJson m = JObj [(js ''role'', JStr (roleText (fst m))), (js ''content'', JStr (snd m))]"

text \<open>\<^verbatim>\<open>res.ok\<close>.\<close>

definition okJson :: "http_response option \<Rightarrow> json option" where
  "okJson r = (case r of None \<Rightarrow> None | Some s \<Rightarrow> if 200 \<le> hs_status s \<and> hs_status s \<le> 299 then hs_json s else None)"

text \<open>\<^verbatim>\<open>v[0]\<close>; a character of a string has no further properties the code asks for.\<close>

definition js_first :: "json \<Rightarrow> json option" where
  "js_first v = (case v of JArr (x # _) \<Rightarrow> Some x | JObj kvs \<Rightarrow> map_of kvs (js ''0'') | _ \<Rightarrow> None)"

definition stringOf :: "json option \<Rightarrow> jsstring option" where
  "stringOf v = (case v of Some (JStr s) \<Rightarrow> Some s | _ \<Rightarrow> None)"

definition openAiRequest :: "llm_opts \<Rightarrow> LlmCompletionRequest \<Rightarrow> http_request" where
  "openAiRequest opts req =
     \<lparr>hr_url = lo_baseUrl opts @ js ''/chat/completions'',
      hr_headers = [(js ''content-type'', js ''application/json''), (js ''authorization'', js ''Bearer '' @ lo_apiKey opts)],
      hr_body = JObj [(js ''model'', JStr (lo_model opts)),
        (js ''messages'', JArr (JObj [(js ''role'', JStr (js ''system'')), (js ''content'', JStr (lr_system req))] # map turnJson (lr_messages req)))]\<rparr>"

definition openAiComplete :: "fetch \<Rightarrow> llm_opts \<Rightarrow> LlmCompletionRequest \<Rightarrow> jsstring option" where
  "openAiComplete fetch opts req =
     Option.bind (okJson (fetch (openAiRequest opts req))) (\<lambda>j.
     Option.bind (js_get j (js ''choices'')) (\<lambda>choices.
     Option.bind (js_first choices) (\<lambda>c.
     Option.bind (js_get c (js ''message'')) (\<lambda>m. stringOf (js_get m (js ''content''))))))"

definition anthropicRequest :: "llm_opts \<Rightarrow> LlmCompletionRequest \<Rightarrow> http_request" where
  "anthropicRequest opts req =
     \<lparr>hr_url = lo_baseUrl opts @ js ''/v1/messages'',
      hr_headers = [(js ''content-type'', js ''application/json''), (js ''x-api-key'', lo_apiKey opts),
        (js ''anthropic-version'', ANTHROPIC_VERSION)],
      hr_body = JObj [(js ''model'', JStr (lo_model opts)), (js ''max_tokens'', JInt 1024), (js ''system'', JStr (lr_system req)),
        (js ''messages'', JArr (map turnJson (lr_messages req)))]\<rparr>"

text \<open>The first text block; reading the type of a \<^verbatim>\<open>null\<close> block throws.\<close>

fun textBlock :: "json list \<Rightarrow> json option" where
  "textBlock [] = None"
| "textBlock (b # bs) =
     (if b = JNull then None else if js_get b (js ''type'') = Some (JStr (js ''text'')) then Some b else textBlock bs)"

definition anthropicComplete :: "fetch \<Rightarrow> llm_opts \<Rightarrow> LlmCompletionRequest \<Rightarrow> jsstring option" where
  "anthropicComplete fetch opts req =
     Option.bind (okJson (fetch (anthropicRequest opts req))) (\<lambda>j.
     (case js_get j (js ''content'') of
        Some (JArr bs) \<Rightarrow> Option.bind (textBlock bs) (\<lambda>b. stringOf (js_get b (js ''text'')))
      | _ \<Rightarrow> None))"

text \<open>The mock without an injected reply; it answers unless told to fail.\<close>

definition mockComplete :: "bool \<Rightarrow> LlmCompletionRequest \<Rightarrow> jsstring option" where
  "mockComplete fail req =
     (if fail then None
      else Some (js ''mock-reply:'' @ (if lr_messages req = [] then [] else snd (last (lr_messages req)))))"

datatype LlmClient = OpenAiCompatibleLlmClient llm_opts | AnthropicLlmClient llm_opts | MockLlmClient bool

definition complete :: "fetch \<Rightarrow> LlmClient \<Rightarrow> LlmCompletionRequest \<Rightarrow> jsstring option" where
  "complete fetch c req =
     (case c of
        OpenAiCompatibleLlmClient opts \<Rightarrow> openAiComplete fetch opts req
      | AnthropicLlmClient opts \<Rightarrow> anthropicComplete fetch opts req
      | MockLlmClient fail \<Rightarrow> mockComplete fail req)"

definition orElse :: "'a option \<Rightarrow> 'a \<Rightarrow> 'a" where
  "orElse x d = (case x of None \<Rightarrow> d | Some y \<Rightarrow> y)"

text \<open>\<open>None\<close> is the error for an unknown provider.\<close>

definition selectLlmClient :: "(jsstring \<Rightarrow> jsstring option) \<Rightarrow> LlmClient option" where
  "selectLlmClient env =
     (let provider = orElse (env (js ''AGENT_PROVIDER'')) (js ''openai-compatible'') in
      if provider = js ''mock'' then Some (MockLlmClient False)
      else if provider = js ''anthropic'' then
        Some (AnthropicLlmClient \<lparr>lo_baseUrl = orElse (env (js ''ANTHROPIC_BASE_URL'')) DEFAULT_ANTHROPIC_BASE_URL,
          lo_apiKey = orElse (env (js ''ANTHROPIC_API_KEY'')) [], lo_model = orElse (env (js ''AGENT_MODEL'')) DEFAULT_ANTHROPIC_MODEL\<rparr>)
      else if provider = js ''openai-compatible'' then
        Some (OpenAiCompatibleLlmClient \<lparr>lo_baseUrl = orElse (env (js ''AGENT_LLM_BASE_URL'')) DEFAULT_OPENAI_BASE_URL,
          lo_apiKey = orElse (env (js ''AGENT_LLM_API_KEY'')) [], lo_model = orElse (env (js ''AGENT_MODEL'')) DEFAULT_OPENAI_MODEL\<rparr>)
      else None)"

subsection \<open>What is posted\<close>

text \<open>The strings a JSON value holds, keys left out.\<close>

fun json_strings :: "json \<Rightarrow> jsstring list" where
  "json_strings (JStr s) = [s]"
| "json_strings (JArr vs) = concat (map json_strings vs)"
| "json_strings (JObj kvs) = concat (map (\<lambda>kv. json_strings (snd kv)) kvs)"
| "json_strings _ = []"

lemma posted_strings:
  "set (json_strings (hr_body (openAiRequest opts req))) \<subseteq> {lo_model opts, js ''system'', js ''user'', js ''assistant'', lr_system req} \<union> snd ` set (lr_messages req)"
  "set (json_strings (hr_body (anthropicRequest opts req))) \<subseteq> {lo_model opts, js ''user'', js ''assistant'', lr_system req} \<union> snd ` set (lr_messages req)"
  by (auto simp: openAiRequest_def anthropicRequest_def turnJson_def roleText_def split: role.splits)

end
