(* ===== verification/Knowledge.thy ===== *)
theory Knowledge
  imports Json
begin

section \<open>Local knowledge retrieval (\<^verbatim>\<open>apps/agent/src/knowledge.ts\<close>)\<close>

text \<open>
  The index of a markdown vault and the ranking of its chunks. The file system is a tree of
  directory entries as \<^verbatim>\<open>readdirSync\<close> lists them, with \<open>None\<close> for what cannot be read;
  \<^verbatim>\<open>toLowerCase\<close> is the parameter \<open>lower\<close> (its tables are Unicode data). A token is a run of word
  characters, so a whole-word match of a token is a run of the text equal to it, and the
  escaping of regular-expression characters has nothing to escape.

  Shown: the walk of the directory stack ends, reads at most 2000 files
  (\<open>index_bounded\<close>), and retrieval returns the best chunks in order (\<open>retrieve_best\<close>).
\<close>

subsection \<open>Characters\<close>

definition isWordUnit :: "16 word \<Rightarrow> bool" where
  "isWordUnit u = (let n = unat u in 48 \<le> n \<and> n \<le> 57 \<or> 65 \<le> n \<and> n \<le> 90 \<or> n = 95 \<or> 97 \<le> n \<and> n \<le> 122)"

text \<open>White space and line terminators, \<^verbatim>\<open>\s\<close> and what \<^verbatim>\<open>trim\<close> removes.\<close>

definition isSpaceUnit :: "16 word \<Rightarrow> bool" where
  "isSpaceUnit u = (let n = unat u in 9 \<le> n \<and> n \<le> 13 \<or> n = 32 \<or> n = 160 \<or> n = 5760 \<or> 8192 \<le> n \<and> n \<le> 8202
     \<or> n = 8232 \<or> n = 8233 \<or> n = 8239 \<or> n = 8287 \<or> n = 12288 \<or> n = 65279)"

text \<open>The characters \<^verbatim>\<open>.\<close> does not match.\<close>

definition isLineEnd :: "16 word \<Rightarrow> bool" where
  "isLineEnd u = (let n = unat u in n = 10 \<or> n = 13 \<or> n = 8232 \<or> n = 8233)"

definition trimEnd :: "jsstring \<Rightarrow> jsstring" where
  "trimEnd s = rev (dropWhile isSpaceUnit (rev s))"

definition trim :: "jsstring \<Rightarrow> jsstring" where
  "trim s = trimEnd (dropWhile isSpaceUnit s)"

text \<open>\<^verbatim>\<open>split(/\W+/)\<close> without its empty strings.\<close>

function wordsOf :: "jsstring \<Rightarrow> jsstring list" where
  "wordsOf [] = []"
| "wordsOf (u # us) =
     (if isWordUnit u then (u # takeWhile isWordUnit us) # wordsOf (dropWhile isWordUnit us) else wordsOf us)"
  by pat_completeness auto

termination
  by (relation "measure length") (simp_all add: less_Suc_eq_le length_dropWhile_le)

definition STOPWORDS :: "jsstring list" where
  "STOPWORDS = map js
     [''the'', ''and'', ''for'', ''are'', ''but'', ''not'', ''you'', ''all'', ''can'', ''her'', ''was'', ''one'', ''our'',
      ''out'', ''day'', ''get'', ''has'', ''him'', ''his'', ''how'', ''man'', ''new'', ''now'', ''see'', ''two'', ''way'',
      ''who'', ''its'', ''let'', ''she'', ''use'', ''this'', ''that'', ''with'', ''from'', ''have'', ''had'', ''were'',
      ''been'', ''being'', ''they'', ''them'', ''then'', ''than'', ''also'', ''into'', ''over'', ''after'', ''before'',
      ''about'', ''when'', ''what'', ''which'', ''where'', ''while'', ''some'', ''more'', ''most'', ''such'', ''only'',
      ''just'', ''very'', ''much'', ''many'', ''each'', ''other'', ''these'', ''those'', ''because'', ''would'',
      ''could'', ''should'', ''will'', ''shall'', ''does'', ''did'']"

definition tokenize :: "(jsstring \<Rightarrow> jsstring) \<Rightarrow> jsstring \<Rightarrow> jsstring list" where
  "tokenize lower text = filter (\<lambda>t. 3 \<le> length t \<and> t \<notin> set STOPWORDS) (wordsOf (lower text))"

definition scoreChunk :: "(jsstring \<Rightarrow> jsstring) \<Rightarrow> jsstring \<Rightarrow> jsstring list \<Rightarrow> nat" where
  "scoreChunk lower text tokens = sum_list (map (count_list (wordsOf (lower text))) tokens)"

definition ellipsis :: "16 word" where "ellipsis = 8230"

text \<open>\<^verbatim>\<open>slice(0, n)\<close>; a negative end counts from the back.\<close>

definition sliceTo :: "jsstring \<Rightarrow> int \<Rightarrow> jsstring" where
  "sliceTo s n = take (nat (if n < 0 then int (length s) + n else n)) s"

definition truncateText :: "jsstring \<Rightarrow> int \<Rightarrow> jsstring" where
  "truncateText text maxChars =
     (if int (length text) \<le> maxChars then text else trimEnd (sliceTo text maxChars) @ [ellipsis])"

subsection \<open>Chunks\<close>

record VaultChunk =
  vc_relPath :: jsstring
  vc_heading :: jsstring
  vc_text :: jsstring

record KnowledgeSnippet =
  ks_source :: jsstring
  ks_text :: jsstring
  ks_score :: nat

definition LF :: "16 word" where "LF = 10"
definition CR :: "16 word" where "CR = 13"
definition hash_mark :: "16 word" where "hash_mark = 35"

text \<open>\<^verbatim>\<open>split(/\r?\n/)\<close>: the carriage return before a line feed belongs to the separator.\<close>

fun splitLF :: "jsstring \<Rightarrow> jsstring list" where
  "splitLF [] = [[]]"
| "splitLF (u # us) =
     (if u = LF then [] # splitLF us else case splitLF us of l # ls \<Rightarrow> (u # l) # ls | [] \<Rightarrow> [[u]])"

definition dropCR :: "jsstring \<Rightarrow> jsstring" where
  "dropCR l = (if l \<noteq> [] \<and> last l = CR then butlast l else l)"

definition linesOf :: "jsstring \<Rightarrow> jsstring list" where
  "linesOf s = (let ls = splitLF s in map dropCR (butlast ls) @ [last ls])"

text \<open>
  \<^verbatim>\<open>/^(#{1,6})\s+(.*)$/\<close>: one to six marks, white space, then no line terminator up to the end. The
  greedy white space leaves a rest that starts with none.
\<close>

definition headingOf :: "jsstring \<Rightarrow> jsstring option" where
  "headingOf line =
     (let marks = takeWhile (\<lambda>u. u = hash_mark) line;
          rest = drop (length marks) line;
          body = dropWhile isSpaceUnit rest
      in if 1 \<le> length marks \<and> length marks \<le> 6 \<and> rest \<noteq> body \<and> list_all (\<lambda>u. \<not> isLineEnd u) body
         then Some body else None)"

fun joinLF :: "jsstring list \<Rightarrow> jsstring" where
  "joinLF [] = []"
| "joinLF [l] = l"
| "joinLF (l # ls) = l @ LF # joinLF ls"

definition flushChunk :: "jsstring \<Rightarrow> jsstring \<Rightarrow> jsstring list \<Rightarrow> VaultChunk list" where
  "flushChunk relPath heading buf =
     (let text = trim (joinLF buf) in
      if text \<noteq> [] then [\<lparr>vc_relPath = relPath, vc_heading = heading, vc_text = text\<rparr>] else [])"

fun splitLines :: "jsstring \<Rightarrow> jsstring \<Rightarrow> jsstring list \<Rightarrow> jsstring list \<Rightarrow> VaultChunk list" where
  "splitLines relPath heading buf [] = flushChunk relPath heading buf"
| "splitLines relPath heading buf (line # ls) =
     (case headingOf line of
        Some h \<Rightarrow> flushChunk relPath heading buf @ splitLines relPath (if trim h \<noteq> [] then trim h else heading) [] ls
      | None \<Rightarrow> splitLines relPath heading (buf @ [line]) ls)"

definition splitIntoChunks :: "jsstring \<Rightarrow> jsstring \<Rightarrow> VaultChunk list" where
  "splitIntoChunks relPath content = splitLines relPath relPath [] (linesOf content)"

subsection \<open>The index\<close>

definition MAX_FILES_SCANNED :: nat where "MAX_FILES_SCANNED = 2000"
definition MAX_FILE_BYTES :: nat where "MAX_FILE_BYTES = 256 * 1024"
definition DEFAULT_REFRESH_MS :: int where "DEFAULT_REFRESH_MS = 60000"
definition DEFAULT_MAX_SNIPPET_CHARS :: int where "DEFAULT_MAX_SNIPPET_CHARS = 600"

text \<open>
  A directory entry: a file with its size and its content, \<open>None\<close> when stat or read fails; a
  directory with its entries, \<open>None\<close> when it cannot be listed; anything else, such as a symbolic link.
\<close>

datatype fs_entry =
    FileEntry jsstring "(nat \<times> jsstring) option"
  | DirEntry jsstring "fs_entry list option"
  | OtherEntry jsstring

text \<open>\<^verbatim>\<open>extname\<close>: from the last dot, unless that is the first character.\<close>

definition extname :: "jsstring \<Rightarrow> jsstring" where
  "extname name =
     (let tail = takeWhile (\<lambda>u. u \<noteq> 46) (rev name); k = length name - length tail in
      if k \<le> 1 then [] else 46 # rev tail)"

definition slash :: "16 word" where "slash = 47"

definition joinPath :: "jsstring \<Rightarrow> jsstring \<Rightarrow> jsstring" where
  "joinPath dir name = (if dir = [] then name else dir @ slash # name)"

type_synonym dir_stack = "(jsstring \<times> fs_entry list option) list"

definition fileChunks :: "jsstring \<Rightarrow> (nat \<times> jsstring) option \<Rightarrow> VaultChunk list" where
  "fileChunks path f =
     (case f of
        None \<Rightarrow> []
      | Some (n, content) \<Rightarrow> if n > MAX_FILE_BYTES then [] else splitIntoChunks path content)"

text \<open>One directory: its subdirectories go on the stack, its markdown files into the index.\<close>

fun walkEntries :: "(jsstring \<Rightarrow> jsstring) \<Rightarrow> jsstring \<Rightarrow> fs_entry list \<Rightarrow> dir_stack \<Rightarrow> nat \<Rightarrow> VaultChunk list
    \<Rightarrow> dir_stack \<times> nat \<times> VaultChunk list" where
  "walkEntries lower dir [] stack scanned chunks = (stack, scanned, chunks)"
| "walkEntries lower dir (e # es) stack scanned chunks =
     (if scanned \<ge> MAX_FILES_SCANNED then (stack, scanned, chunks)
      else case e of
        DirEntry name sub \<Rightarrow> walkEntries lower dir es ((joinPath dir name, sub) # stack) scanned chunks
      | FileEntry name f \<Rightarrow>
          if lower (extname name) \<noteq> js ''.md'' then walkEntries lower dir es stack scanned chunks
          else walkEntries lower dir es stack (scanned + 1) (chunks @ fileChunks (joinPath dir name) f)
      | OtherEntry _ \<Rightarrow> walkEntries lower dir es stack scanned chunks)"

text \<open>The number of entries still to visit.\<close>

fun weight :: "fs_entry \<Rightarrow> nat" and weights :: "fs_entry list \<Rightarrow> nat" where
  "weight (FileEntry _ _) = 1"
| "weight (OtherEntry _) = 1"
| "weight (DirEntry _ None) = 1"
| "weight (DirEntry _ (Some es)) = 1 + weights es"
| "weights [] = 0"
| "weights (e # es) = weight e + weights es"

definition stackWeight :: "dir_stack \<Rightarrow> nat" where
  "stackWeight st = sum_list (map (\<lambda>(p, sub). 1 + (case sub of None \<Rightarrow> 0 | Some es \<Rightarrow> weights es)) st)"

lemma walkEntries_weight:
  "walkEntries lower dir es st sc ch = (st', sc', ch') \<Longrightarrow> stackWeight st' \<le> stackWeight st + weights es"
proof (induction lower dir es st sc ch rule: walkEntries.induct)
  case (2 lower dir e es st sc ch)
  show ?case
  proof (cases "sc \<ge> MAX_FILES_SCANNED")
    case True
    then show ?thesis using "2.prems" by simp
  next
    case False
    show ?thesis
    proof (cases e)
      case (DirEntry name sub)
      have "stackWeight st' \<le> stackWeight ((joinPath dir name, sub) # st) + weights es"
        using "2.IH"(3) [OF False DirEntry] "2.prems" False by (simp add: DirEntry)
      then show ?thesis by (cases sub) (simp_all add: DirEntry stackWeight_def)
    next
      case (FileEntry name f)
      then show ?thesis
        using "2.IH"(1,2) [OF False FileEntry] "2.prems" False by (auto split: if_splits)
    next
      case (OtherEntry name)
      then show ?thesis using "2.IH"(4) [OF False OtherEntry] "2.prems" False by auto
    qed
  qed
qed simp

lemma stackWeight_Cons: "stackWeight ((dir, sub) # st) = stackWeight st + 1 + (case sub of None \<Rightarrow> 0 | Some es \<Rightarrow> weights es)"
  by (simp add: stackWeight_def)

text \<open>The outer loop; the top of the stack, the end of the array, is the head of the list.\<close>

function walk :: "(jsstring \<Rightarrow> jsstring) \<Rightarrow> dir_stack \<Rightarrow> nat \<Rightarrow> VaultChunk list \<Rightarrow> nat \<times> VaultChunk list" where
  "walk lower [] scanned chunks = (scanned, chunks)"
| "walk lower ((dir, sub) # st) scanned chunks =
     (if scanned \<ge> MAX_FILES_SCANNED then (scanned, chunks)
      else case sub of
        None \<Rightarrow> walk lower st scanned chunks
      | Some es \<Rightarrow>
          (case walkEntries lower dir es st scanned chunks of
             (st', scanned', chunks') \<Rightarrow> walk lower st' scanned' chunks'))"
  by pat_completeness auto

termination
  by (relation "measure (\<lambda>(lower, st, scanned, chunks). stackWeight st)")
    (auto simp: stackWeight_Cons less_Suc_eq_le split: prod.split dest: walkEntries_weight)

declare walk.simps [simp del]

text \<open>\<open>root\<close> is \<open>None\<close> when it is missing or not a directory.\<close>

definition buildIndex :: "(jsstring \<Rightarrow> jsstring) \<Rightarrow> fs_entry list option option \<Rightarrow> VaultChunk list" where
  "buildIndex lower root = (case root of None \<Rightarrow> [] | Some es \<Rightarrow> snd (walk lower [([], es)] 0 []))"

subsection \<open>Retrieval\<close>

record VaultKnowledgeSource =
  vk_maxSnippetChars :: int
  vk_refreshMs :: int
  vk_chunks :: "VaultChunk list option"
  vk_lastBuildAt :: int

definition newVault :: "int option \<Rightarrow> int option \<Rightarrow> VaultKnowledgeSource" where
  "newVault maxChars refresh = \<lparr>vk_maxSnippetChars = (case maxChars of None \<Rightarrow> DEFAULT_MAX_SNIPPET_CHARS | Some n \<Rightarrow> n),
     vk_refreshMs = (case refresh of None \<Rightarrow> DEFAULT_REFRESH_MS | Some n \<Rightarrow> n), vk_chunks = None, vk_lastBuildAt = 0\<rparr>"

text \<open>\<open>root\<close> is what the file system holds at the time \<open>now\<close>.\<close>

definition ensureIndex ::
    "(jsstring \<Rightarrow> jsstring) \<Rightarrow> int \<Rightarrow> fs_entry list option option \<Rightarrow> VaultKnowledgeSource \<Rightarrow> VaultChunk list \<times> VaultKnowledgeSource" where
  "ensureIndex lower now root v =
     (case vk_chunks v of
        Some cs \<Rightarrow>
          if now - vk_lastBuildAt v \<ge> vk_refreshMs v
          then (buildIndex lower root, v\<lparr>vk_chunks := Some (buildIndex lower root), vk_lastBuildAt := now\<rparr>)
          else (cs, v)
      | None \<Rightarrow> (buildIndex lower root, v\<lparr>vk_chunks := Some (buildIndex lower root), vk_lastBuildAt := now\<rparr>))"

definition arrow :: jsstring where "arrow = [32, 8250, 32]"

definition snippetOf :: "(jsstring \<Rightarrow> jsstring) \<Rightarrow> int \<Rightarrow> jsstring list \<Rightarrow> VaultChunk \<Rightarrow> KnowledgeSnippet" where
  "snippetOf lower maxChars tokens c = \<lparr>ks_source = vc_relPath c @ arrow @ vc_heading c,
     ks_text = truncateText (vc_text c) maxChars, ks_score = scoreChunk lower (vc_text c) tokens\<rparr>"

text \<open>The sort of the engine is stable, by descending score.\<close>

definition retrieve ::
    "(jsstring \<Rightarrow> jsstring) \<Rightarrow> int \<Rightarrow> fs_entry list option option \<Rightarrow> VaultKnowledgeSource \<Rightarrow> jsstring \<Rightarrow> int
       \<Rightarrow> KnowledgeSnippet list \<times> VaultKnowledgeSource" where
  "retrieve lower now root v query k =
     (let tokens = tokenize lower query in
      if tokens = [] \<or> k \<le> 0 then ([], v)
      else case ensureIndex lower now root v of
        (chunks, v') \<Rightarrow>
          (take (nat k) (sort_key (\<lambda>s. - int (ks_score s))
             (filter (\<lambda>s. ks_score s > 0) (map (snippetOf lower (vk_maxSnippetChars v) tokens) chunks))), v'))"

subsection \<open>Numbers from the environment\<close>

fun bitLength :: "nat \<Rightarrow> nat" where
  "bitLength n = (if n = 0 then 0 else Suc (bitLength (n div 2)))"

declare bitLength.simps [simp del]

text \<open>The double nearest to a natural number, ties to even; \<open>None\<close> is Infinity.\<close>

definition toDouble :: "nat \<Rightarrow> nat option" where
  "toDouble n =
     (let e = bitLength n - 53; q = n div 2 ^ e; r = n mod 2 ^ e;
          q' = (if 2 * r > 2 ^ e \<or> 2 * r = 2 ^ e \<and> odd q then q + 1 else q);
          d = (if e = 0 then n else q' * 2 ^ e)
      in if d \<ge> 2 ^ 1024 then None else Some d)"

definition isDigitUnit :: "16 word \<Rightarrow> bool" where
  "isDigitUnit u = (48 \<le> unat u \<and> unat u \<le> 57)"

definition digitsValue :: "jsstring \<Rightarrow> nat" where
  "digitsValue s = foldl (\<lambda>n u. 10 * n + (unat u - 48)) 0 s"

text \<open>\<^verbatim>\<open>Number.parseInt(raw, 10)\<close> where it is finite: white space, a sign, and the digits up to the first other character.\<close>

definition parseInt10 :: "jsstring \<Rightarrow> int option" where
  "parseInt10 raw =
     (let s = dropWhile isSpaceUnit raw;
          neg = (s \<noteq> [] \<and> hd s = 45);
          body = (if s \<noteq> [] \<and> (hd s = 45 \<or> hd s = 43) then tl s else s);
          digits = takeWhile isDigitUnit body
      in if digits = [] then None
         else map_option (\<lambda>d. if neg then - int d else int d) (toDouble (digitsValue digits)))"

definition optionalIntFromEnv :: "jsstring option \<Rightarrow> int option" where
  "optionalIntFromEnv raw = Option.bind raw parseInt10"

text \<open>The root itself is not part of the state: what it holds is passed to each retrieval.\<close>

definition selectKnowledgeSource :: "(jsstring \<Rightarrow> jsstring option) \<Rightarrow> VaultKnowledgeSource option" where
  "selectKnowledgeSource env =
     (case env (js ''AGENT_VAULT_PATH'') of
        None \<Rightarrow> None
      | Some root \<Rightarrow>
          if trim root = [] then None
          else Some (newVault (optionalIntFromEnv (env (js ''AGENT_VAULT_SNIPPET_CHARS''))) None))"

subsection \<open>Properties\<close>

lemma walkEntries_scanned:
  "walkEntries lower dir es st sc ch = (st', sc', ch') \<Longrightarrow> sc \<le> MAX_FILES_SCANNED \<Longrightarrow> sc' \<le> MAX_FILES_SCANNED"
  by (induction lower dir es st sc ch rule: walkEntries.induct)
    (auto split: if_splits fs_entry.splits)

lemma walk_scanned: "scanned \<le> MAX_FILES_SCANNED \<Longrightarrow> fst (walk lower st scanned chunks) \<le> MAX_FILES_SCANNED"
proof (induction lower st scanned chunks rule: walk.induct)
  case (2 lower dir sub st scanned chunks)
  show ?case
  proof (cases sub)
    case (Some es)
    obtain st' sc' ch' where w: "walkEntries lower dir es st scanned chunks = (st', sc', ch')" by (metis prod_cases3)
    then have "sc' \<le> MAX_FILES_SCANNED" using "2.prems" by (rule walkEntries_scanned)
    then show ?thesis using 2 Some w by (simp add: walk.simps)
  qed (use 2 in \<open>simp add: walk.simps\<close>)
qed (simp add: walk.simps)

lemma take_sort_best:
  assumes "x \<in> set (take n (sort_key f xs))" "y \<in> set xs" "y \<notin> set (take n (sort_key f xs))"
  shows "f x \<le> (f y :: int)"
proof -
  let ?s = "sort_key f xs"
  have "y \<in> set (drop n ?s)"
    using assms(2,3) set_append [of "take n ?s" "drop n ?s"] by simp
  then obtain i where i: "n \<le> i" "i < length ?s" "y = ?s ! i"
    by (auto simp: in_set_conv_nth) (metis add.commute le_add1 less_diff_conv)
  obtain j where j: "j < n" "j < length ?s" "x = ?s ! j"
    using assms(1) by (auto simp: in_set_conv_nth)
  have "sorted (map f ?s)" by simp
  then show ?thesis using i j sorted_nth_mono [of "map f ?s" j i] by simp
qed

text \<open>Retrieval returns the best matches: at most \<open>k\<close> snippets, each with a positive score, in
  descending order of score, every one of them a chunk of the index; and a chunk that is left
  out while it matches scores no higher than any snippet returned. A query without a token, or
  a \<open>k\<close> that is not positive, returns nothing and does not touch the index.\<close>

theorem retrieve_best:
  assumes "retrieve lower now root v query k = (out, v')" "ensureIndex lower now root v = (chunks, w)"
  shows "int (length out) \<le> max 0 k \<and> sorted (map (\<lambda>s. - int (ks_score s)) out)
    \<and> (\<forall>s \<in> set out. 0 < ks_score s \<and> (\<exists>c \<in> set chunks. s = snippetOf lower (vk_maxSnippetChars v) (tokenize lower query) c))
    \<and> (tokenize lower query = [] \<or> k \<le> 0 \<longrightarrow> out = [] \<and> v' = v)
    \<and> (tokenize lower query \<noteq> [] \<and> 0 < k \<longrightarrow> v' = w \<and>
        (\<forall>c \<in> set chunks. let s = snippetOf lower (vk_maxSnippetChars v) (tokenize lower query) c in
           0 < ks_score s \<and> s \<notin> set out \<longrightarrow> (\<forall>t \<in> set out. ks_score s \<le> ks_score t)))"
proof (cases "tokenize lower query = [] \<or> k \<le> 0")
  case True
  then show ?thesis using assms(1) by (auto simp: retrieve_def)
next
  case False
  let ?f = "\<lambda>s. - int (ks_score s)"
  let ?xs = "filter (\<lambda>s. ks_score s > 0) (map (snippetOf lower (vk_maxSnippetChars v) (tokenize lower query)) chunks)"
  have out: "out = take (nat k) (sort_key ?f ?xs)" "v' = w"
    using assms False by (auto simp: retrieve_def Let_def)
  have "set out \<subseteq> set ?xs" unfolding out(1) using set_take_subset by fastforce
  moreover have "sorted (map ?f out)" unfolding out(1) take_map [symmetric] by (intro sorted_wrt_take) simp
  moreover have "ks_score s \<le> ks_score t" if "s \<in> set ?xs" "s \<notin> set out" "t \<in> set out" for s t
    using take_sort_best [of t "nat k" ?f ?xs s] that by (simp add: out(1))
  moreover have "int (length out) \<le> max 0 k" by (auto simp: out(1))
  ultimately show ?thesis using False out(2) by (auto simp: Let_def)
qed

text \<open>Building the index ends whatever the vault holds and reads at most 2000 markdown files, and an
  index that cannot be built is empty; an index younger than the refresh interval is used as it
  is.\<close>

lemma index_bounded:
  "fst (walk lower [(dir, es)] 0 []) \<le> 2000 \<and> buildIndex lower None = []
   \<and> (vk_chunks v = Some cs \<and> now - vk_lastBuildAt v < vk_refreshMs v \<longrightarrow> ensureIndex lower now root v = (cs, v))"
  using walk_scanned [of 0 lower "[(dir, es)]" "[]"]
  by (simp add: MAX_FILES_SCANNED_def buildIndex_def ensureIndex_def)

definition demoVault :: VaultKnowledgeSource where
  "demoVault = \<lparr>vk_maxSnippetChars = 600, vk_refreshMs = 60000, vk_chunks =
     Some [\<lparr>vc_relPath = js ''a.md'', vc_heading = js ''A'', vc_text = js ''relay relay notes''\<rparr>,
           \<lparr>vc_relPath = js ''b.md'', vc_heading = js ''B'', vc_text = js ''other notes''\<rparr>], vk_lastBuildAt = 10\<rparr>"

theorem retrieve_best_witness:
  "length (fst (retrieve id 20 None demoVault (js ''relay notes'') 1)) \<le> 1
   \<and> sorted (map (\<lambda>s. - int (ks_score s)) (fst (retrieve id 20 None demoVault (js ''relay notes'') 1)))"
proof -
  obtain out v' where r: "retrieve id 20 None demoVault (js ''relay notes'') 1 = (out, v')" by (metis prod.exhaust)
  obtain chunks w where e: "ensureIndex id 20 None demoVault = (chunks, w)" by (metis prod.exhaust)
  show ?thesis using retrieve_best [OF r e] by (simp add: r)
qed

end
