(* ===== verification/Agent.thy ===== *)
theory Agent
  imports ClientProps Llm Knowledge
begin

section \<open>The AI member (\<^verbatim>\<open>apps/agent/src/agent.ts\<close>)\<close>

text \<open>
  \<^verbatim>\<open>SignalAgent\<close> over the client of \<open>Client\<close>, the store of \<open>AgentStore\<close> and the vault of
  \<open>Knowledge\<close>. Its promise chain \<^verbatim>\<open>enqueue\<close> is the list \<open>ag_queue\<close> of tasks, run one after the
  other; a task that throws leaves its effects and the chain goes on. The handlers the client calls
  put a task on the queue, so what the client reports after a call is queued by \<open>queueReports\<close>: one
  envelope reports its events before its message. While the model of the language is awaited the
  client handles the envelopes that have arrived (\<open>during\<close>). A call that never returns blocks the
  process for good (\<open>ag_hung\<close>).

  \<open>ag_requests\<close>, \<open>ag_replies\<close> and \<open>ag_apologies\<close> record the completion requests, the replies sent
  and the times of the apologies, each with its conversation. Log lines other than message bodies are left out.
\<close>

definition INTRO_TEXT :: jsstring where
  "INTRO_TEXT = js ''I'm the AI member of this chat. I only read messages in threads I'm invited to. Mode: passive ''
     @ [8212] @ js '' mention @ai to reach me.''"

definition DEGRADE_TEXT :: jsstring where
  "DEGRADE_TEXT = js ''I'm having trouble responding right now '' @ [8212] @ js '' I'll be back shortly.''"

definition DEGRADE_COOLDOWN_MS :: int where "DEGRADE_COOLDOWN_MS = 30000"

definition KNOWLEDGE_BLOCK :: "KnowledgeSnippet list \<Rightarrow> jsstring" where
  "KNOWLEDGE_BLOCK snippets =
     [LF, LF] @ js ''You also have access to the operator's private local knowledge notes, retrieved on-device ''
     @ js ''(they never leave this machine). Use them as background reference only when relevant, and mention ''
     @ js ''the note name if you rely on one. They are not messages in this chat.'' @ [LF, LF]
     @ js ''<knowledge>'' @ [LF]
     @ concat (map (\<lambda>s. js ''['' @ ks_source s @ js '']'' @ [LF] @ ks_text s @ [LF, LF]) snippets) @ js ''</knowledge>''"

subsection \<open>Configuration\<close>

record AgentConfig =
  ac_relayUrl :: jsstring
  ac_username :: jsstring
  ac_inviteCode :: jsstring
  ac_handle :: jsstring
  ac_activeCapN :: int
  ac_contextMaxMessages :: int
  ac_contextMaxTokens :: int
  ac_reconcileIntervalMs :: int
  ac_dbPath :: jsstring
  ac_dbKey :: "jsstring option"
  ac_systemPrompt :: jsstring
  ac_debugPlaintext :: bool
  ac_knowledgeTopK :: int

definition intFromEnv :: "jsstring option \<Rightarrow> int \<Rightarrow> int" where
  "intFromEnv raw fallback =
     (case raw of
        None \<Rightarrow> fallback
      | Some s \<Rightarrow> (case parseInt10 s of None \<Rightarrow> fallback | Some n \<Rightarrow> n))"

definition loadAgentConfig :: "(jsstring \<Rightarrow> jsstring option) \<Rightarrow> AgentConfig" where
  "loadAgentConfig env =
     \<lparr>ac_relayUrl = orElse (env (js ''RELAY_URL'')) (js ''http://127.0.0.1:8080''),
      ac_username = orElse (env (js ''AGENT_USERNAME'')) (js ''ai''),
      ac_inviteCode = orElse (env (js ''INVITE_CODE'')) [],
      ac_handle = orElse (env (js ''AGENT_HANDLE'')) (js ''@ai''),
      ac_activeCapN = intFromEnv (env (js ''AGENT_ACTIVE_CAP_N'')) 5,
      ac_contextMaxMessages = intFromEnv (env (js ''AGENT_CONTEXT_MAX_MESSAGES'')) 50,
      ac_contextMaxTokens = intFromEnv (env (js ''AGENT_CONTEXT_MAX_TOKENS'')) 8000,
      ac_reconcileIntervalMs = intFromEnv (env (js ''AGENT_RECONCILE_INTERVAL_MS'')) 30000,
      ac_dbPath = orElse (env (js ''AGENT_DB_PATH'')) (js ''./agent-state.sqlite''),
      ac_dbKey = env (js ''AGENT_DB_KEY''),
      ac_systemPrompt = DEFAULT_SYSTEM_PROMPT,
      ac_debugPlaintext = (env (js ''DEBUG_PLAINTEXT'') = Some (js ''1'') \<or> env (js ''DEBUG_PLAINTEXT'') = Some (js ''true'')),
      ac_knowledgeTopK = intFromEnv (env (js ''AGENT_VAULT_TOP_K'')) 4\<rparr>"

subsection \<open>The agent's state and environment\<close>

text \<open>
  \<open>av_llm\<close> answers a completion request or throws; \<open>av_inbox\<close> is how many envelopes the client
  handles while it is awaited; \<open>av_keyPair\<close> and \<open>av_readIdentity\<close> are libsignal's serialisation
  of an identity, \<open>av_readRecord\<close> of a prekey record, \<open>av_newIdentity\<close> a fresh identity.
  The providers of \<open>Llm\<close> are instances of \<open>av_llm\<close>.
\<close>

record agent_env =
  av_client :: client_env
  av_config :: AgentConfig
  av_seal :: seal_lib
  av_stateCodec :: "PersistedClientState codec"
  av_contextCodec :: "ContextMessage list codec"
  av_metaCodec :: "ConversationMeta codec"
  av_iv :: "nat \<Rightarrow> bytes"
  av_llm :: "nat \<Rightarrow> LlmCompletionRequest \<Rightarrow> jsstring option"
  av_inbox :: "nat \<Rightarrow> nat"
  av_lower :: "jsstring \<Rightarrow> jsstring"
  av_files :: "nat \<Rightarrow> fs_entry list option option"
  av_keyPair :: "Identity \<Rightarrow> bytes"
  av_readIdentity :: "bytes \<Rightarrow> int \<Rightarrow> Identity"
  av_readRecord :: "bytes \<Rightarrow> PreKeyRecord option"
  av_newIdentity :: Identity

datatype agent_task = OnMessage IncomingMessage | OnSystemEvent SystemEvent | Reconcile jsstring

datatype agent_exn = ClientError client_error | StoreError agent_error | UnknownProvider | NeverReturns

record Agent =
  ag_client :: Client
  ag_store :: AgentStore
  ag_knowledge :: "VaultKnowledgeSource option"
  ag_queue :: "agent_task list"
  ag_lastDegradeAt :: "(jsstring \<times> int) list"
  ag_sweeping :: bool
  ag_hung :: bool
  ag_seenMessages :: nat
  ag_seenEvents :: nat
  ag_ivs :: nat
  ag_requests :: "(jsstring \<times> LlmCompletionRequest) list"
  ag_replies :: "(jsstring \<times> jsstring) list"
  ag_apologies :: "(jsstring \<times> int) list"
  ag_plaintextLog :: "jsstring list"

type_synonym 'a act = "(agent_exn + 'a) \<times> Agent"

definition abind :: "'a act \<Rightarrow> ('a \<Rightarrow> Agent \<Rightarrow> 'b act) \<Rightarrow> 'b act" where
  "abind r f = (case r of (Inl e, ag) \<Rightarrow> (Inl e, ag) | (Inr x, ag) \<Rightarrow> f x ag)"

text \<open>The two handlers of the client: each queues a task.\<close>

definition queueReports :: "Agent \<Rightarrow> Agent" where
  "queueReports ag =
     (let cl = ag_client ag in
      ag\<lparr>ag_queue := ag_queue ag @ map OnSystemEvent (drop (ag_seenEvents ag) (cl_events cl))
           @ map OnMessage (drop (ag_seenMessages ag) (cl_messages cl)),
         ag_seenEvents := length (cl_events cl), ag_seenMessages := length (cl_messages cl)\<rparr>)"

definition onClient :: "(Client \<Rightarrow> 'a outcome) \<Rightarrow> Agent \<Rightarrow> 'a act" where
  "onClient f ag =
     (case f (ag_client ag) of
        (Inl e, cl) \<Rightarrow> (Inl (ClientError e), queueReports (ag\<lparr>ag_client := cl\<rparr>))
      | (Inr x, cl) \<Rightarrow> (Inr x, queueReports (ag\<lparr>ag_client := cl\<rparr>)))"

definition handleInbox :: "agent_env \<Rightarrow> Agent \<Rightarrow> Agent" where
  "handleInbox A ag = queueReports (ag\<lparr>ag_client := processInbox (av_client A) (ag_client ag)\<rparr>)"

definition during :: "agent_env \<Rightarrow> Agent \<Rightarrow> Agent" where
  "during A ag = (handleInbox A ^^ av_inbox A (cl_tick (ag_client ag)))
     (queueReports (ag\<lparr>ag_client := pause (av_client A) (ag_client ag)\<rparr>))"

definition fromStore :: "(AgentStore \<Rightarrow> agent_error + 'a) \<Rightarrow> Agent \<Rightarrow> 'a act" where
  "fromStore f ag = (case f (ag_store ag) of Inl e \<Rightarrow> (Inl (StoreError e), ag) | Inr x \<Rightarrow> (Inr x, ag))"

definition loadMeta :: "agent_env \<Rightarrow> Agent \<Rightarrow> jsstring \<Rightarrow> ConversationMeta act" where
  "loadMeta A ag conv = fromStore (\<lambda>a. loadConvMeta (av_seal A) (av_metaCodec A) a conv) ag"

definition saveMeta :: "agent_env \<Rightarrow> Agent \<Rightarrow> jsstring \<Rightarrow> ConversationMeta \<Rightarrow> Agent" where
  "saveMeta A ag conv meta =
     ag\<lparr>ag_store := saveConvMeta (av_seal A) (av_metaCodec A) (av_iv A (ag_ivs ag)) (ag_store ag) conv meta, ag_ivs := Suc (ag_ivs ag)\<rparr>"

definition ctxOpts :: "AgentConfig \<Rightarrow> ContextLimits" where
  "ctxOpts c = (ac_contextMaxMessages c, ac_contextMaxTokens c)"

definition appendTurn :: "agent_env \<Rightarrow> Agent \<Rightarrow> jsstring \<Rightarrow> ContextMessage \<Rightarrow> unit act" where
  "appendTurn A ag conv m =
     (case appendContext (av_seal A) (av_contextCodec A) (av_iv A (ag_ivs ag)) (ag_store ag) conv m (ctxOpts (av_config A)) of
        None \<Rightarrow> (Inl NeverReturns, ag)
      | Some (Inl e) \<Rightarrow> (Inl (StoreError e), ag)
      | Some (Inr (_, a)) \<Rightarrow> (Inr (), ag\<lparr>ag_store := a, ag_ivs := Suc (ag_ivs ag)\<rparr>))"

definition currentState :: "agent_env \<Rightarrow> Client \<Rightarrow> PersistedClientState" where
  "currentState A cl =
     \<lparr>ps_token = cl_token cl, ps_userId = cl_userId cl, ps_username = cl_username cl, ps_deviceId = cl_deviceId cl,
      ps_nextOneTimePreKeyId = cl_nextOneTimePreKeyId cl,
      ps_identityKeyPair = base64Encode (av_keyPair A (cl_identity cl)),
      ps_registrationId = id_registrationId (cl_identity cl),
      ps_stores = clientToJSON (cl_stores cl)\<rparr>"

definition persist :: "agent_env \<Rightarrow> Agent \<Rightarrow> Agent" where
  "persist A ag =
     ag\<lparr>ag_store := saveState (av_seal A) (av_stateCodec A) (av_iv A (ag_ivs ag)) (ag_store ag) (currentState A (ag_client ag)),
        ag_ivs := Suc (ag_ivs ag)\<rparr>"

definition logPlaintext :: "agent_env \<Rightarrow> jsstring \<Rightarrow> Agent \<Rightarrow> Agent" where
  "logPlaintext A msg ag = (if ac_debugPlaintext (av_config A) then ag\<lparr>ag_plaintextLog := ag_plaintextLog ag @ [msg]\<rparr> else ag)"

subsection \<open>Membership\<close>

definition js_includes :: "jsstring \<Rightarrow> jsstring \<Rightarrow> bool" where
  "js_includes s p = list_ex (\<lambda>k. take (length p) (drop k s) = p) [0..<Suc (length s)]"

text \<open>
  \<^verbatim>\<open>/-> 403\b/\<close>: after the last digit a word must end. The messages of the other errors that
  \<^verbatim>\<open>listMembers\<close> throws are those of the membership package and of the engine, without either text.
\<close>

definition status403 :: "jsstring \<Rightarrow> bool" where
  "status403 s = list_ex (\<lambda>k. take 6 (drop k s) = js ''-> 403'' \<and> (k + 6 = length s \<or> \<not> isWordUnit (s ! (k + 6)))) [0..<length s]"

definition isForbidden :: "client_error \<Rightarrow> bool" where
  "isForbidden err = (case err of RestFailed message \<Rightarrow> status403 message \<or> js_includes message (js ''forbidden'') | _ \<Rightarrow> False)"

definition handleSelfRemoval :: "agent_env \<Rightarrow> Agent \<Rightarrow> jsstring \<Rightarrow> Agent" where
  "handleSelfRemoval A ag conv =
     (let cl = ag_client ag;
          cl' = cl\<lparr>cl_stores := (cl_stores cl)\<lparr>st_conversations := amap_del (conversations_of cl) conv\<rparr>\<rparr>
      in persist A (ag\<lparr>ag_store := purgeContext (ag_store ag) conv, ag_client := cl'\<rparr>))"

definition maybeSendIntro :: "agent_env \<Rightarrow> Agent \<Rightarrow> jsstring \<Rightarrow> unit act" where
  "maybeSendIntro A ag conv =
     abind (loadMeta A ag conv) (\<lambda>meta ag1.
       if me_greeted meta then (Inr (), ag1)
       else abind (onClient (\<lambda>cl. clSend (av_client A) cl conv INTRO_TEXT []) ag1) (\<lambda>_ ag2.
         (Inr (), persist A (saveMeta A ag2 conv (meta\<lparr>me_greeted := True\<rparr>)))))"

definition reconcileConversation :: "agent_env \<Rightarrow> Agent \<Rightarrow> jsstring \<Rightarrow> unit act" where
  "reconcileConversation A ag conv =
     (case onClient (\<lambda>cl. clListMembers (av_client A) cl conv) ag of
        (Inl (ClientError err), ag1) \<Rightarrow>
          if isForbidden err then (Inr (), handleSelfRemoval A ag1 conv) else (Inr (), ag1)
      | (Inl e, ag1) \<Rightarrow> (Inl e, ag1)
      | (Inr ms, ag1) \<Rightarrow>
          if cl_userId (ag_client ag1) \<notin> mb_userId ` set ms then (Inr (), handleSelfRemoval A ag1 conv)
          else maybeSendIntro A ag1 conv)"

fun reconcileEach :: "agent_env \<Rightarrow> Agent \<Rightarrow> jsstring list \<Rightarrow> unit act" where
  "reconcileEach A ag [] = (Inr (), ag)"
| "reconcileEach A ag (conv # convs) = abind (reconcileConversation A ag conv) (\<lambda>_ ag'. reconcileEach A ag' convs)"

definition reconcileAll :: "agent_env \<Rightarrow> Agent \<Rightarrow> unit act" where
  "reconcileAll A ag = reconcileEach A ag (map fst (conversations_of (ag_client ag)))"

subsection \<open>Replies\<close>

definition isMentioned :: "agent_env \<Rightarrow> Client \<Rightarrow> IncomingMessage \<Rightarrow> bool" where
  "isMentioned A cl m =
     (let handle = av_lower A (ac_handle (av_config A)) in
      js_includes (av_lower A (im_text m)) handle
      \<or> list_ex (\<lambda>x. x = cl_userId cl \<or> av_lower A x = handle) (im_mentions m))"

definition degrade :: "agent_env \<Rightarrow> Agent \<Rightarrow> jsstring \<Rightarrow> unit act" where
  "degrade A ag conv =
     (let now = en_now (av_client A) (cl_tick (ag_client ag));
          lastAt = orElse (map_of (ag_lastDegradeAt ag) conv) 0
      in if now - lastAt < DEGRADE_COOLDOWN_MS then (Inr (), ag)
         else (Inr (), snd (onClient (\<lambda>cl. clSend (av_client A) cl conv DEGRADE_TEXT [])
           (ag\<lparr>ag_lastDegradeAt := amap_set (ag_lastDegradeAt ag) conv now, ag_apologies := ag_apologies ag @ [(conv, now)]\<rparr>))))"

text \<open>The system prompt of a reply, and the knowledge source after its retrieval.\<close>

definition systemFor :: "agent_env \<Rightarrow> Agent \<Rightarrow> ContextMessage list \<Rightarrow> jsstring \<times> VaultKnowledgeSource option" where
  "systemFor A ag window =
     (let system = ac_systemPrompt (av_config A); t = cl_tick (ag_client ag) in
      case ag_knowledge ag of
        None \<Rightarrow> (system, None)
      | Some v \<Rightarrow>
          (case find (\<lambda>m. cx_role m = User) (rev window) of
             None \<Rightarrow> (system, Some v)
           | Some lastUser \<Rightarrow>
               (case retrieve (av_lower A) (en_now (av_client A) t) (av_files A t) v (cx_content lastUser) (ac_knowledgeTopK (av_config A)) of
                  (snippets, v') \<Rightarrow> (if snippets \<noteq> [] then system @ KNOWLEDGE_BLOCK snippets else system, Some v'))))"

definition requestFor :: "agent_env \<Rightarrow> Agent \<Rightarrow> ContextMessage list \<Rightarrow> LlmCompletionRequest" where
  "requestFor A ag window =
     \<lparr>lr_system = fst (systemFor A ag window), lr_messages = map (\<lambda>c. (cx_role c, cx_content c)) window\<rparr>"

text \<open>After the completion: the reply is sent, recorded in the window, and the counter starts again.\<close>

definition sendReply :: "agent_env \<Rightarrow> Agent \<Rightarrow> jsstring \<Rightarrow> jsstring \<Rightarrow> unit act" where
  "sendReply A ag conv text =
     abind (onClient (\<lambda>cl. clSend (av_client A) cl conv text []) ag) (\<lambda>_ ag1.
     let ag2 = logPlaintext A (js ''send '' @ conv @ js '': '' @ text) (ag1\<lparr>ag_replies := ag_replies ag1 @ [(conv, text)]\<rparr>) in
     abind (appendTurn A ag2 conv \<lparr>cx_role = Assistant, cx_content = text,
         cx_sentAt = en_now (av_client A) (cl_tick (ag_client ag2))\<rparr>) (\<lambda>_ ag3.
     abind (loadMeta A ag3 conv) (\<lambda>meta ag4. (Inr (), saveMeta A ag4 conv (meta\<lparr>me_humanSinceLastReply := 0\<rparr>)))))"

definition agReply :: "agent_env \<Rightarrow> Agent \<Rightarrow> jsstring \<Rightarrow> unit act" where
  "agReply A ag conv =
     abind (fromStore (\<lambda>a. loadContext (av_seal A) (av_contextCodec A) a conv) ag) (\<lambda>window ag1.
       let req = requestFor A ag1 window;
           ag2 = ag1\<lparr>ag_knowledge := snd (systemFor A ag1 window), ag_requests := ag_requests ag1 @ [(conv, req)]\<rparr>
       in case av_llm A (cl_tick (ag_client ag2)) req of
            None \<Rightarrow> degrade A (during A ag2) conv
          | Some text \<Rightarrow> sendReply A (during A ag2) conv text)"

subsection \<open>Handlers\<close>

definition recvLine :: "IncomingMessage \<Rightarrow> jsstring" where
  "recvLine m = js ''recv '' @ im_conversationId m @ js '' <'' @ im_senderUserId m @ js ''>: '' @ im_text m"

text \<open>What follows once the agent is known to be a member of the conversation \<open>c\<close>.\<close>

definition onMemberMessage :: "agent_env \<Rightarrow> Agent \<Rightarrow> CachedConversation \<Rightarrow> IncomingMessage \<Rightarrow> unit act" where
  "onMemberMessage A ag c m =
     (let conv = im_conversationId m in
      abind (appendTurn A (logPlaintext A (recvLine m) ag) conv \<lparr>cx_role = User, cx_content = im_text m, cx_sentAt = im_sentAt m\<rparr>) (\<lambda>_ ag1.
      abind (loadMeta A ag1 conv) (\<lambda>meta ag2.
        let n = Suc (me_humanSinceLastReply meta);
            ag3 = saveMeta A ag2 conv (meta\<lparr>me_humanSinceLastReply := n\<rparr>);
            shouldReply = (isMentioned A (ag_client ag3) m \<or> cc_aiMode c \<and> int n \<ge> ac_activeCapN (av_config A))
        in abind (if shouldReply then agReply A ag3 conv else (Inr (), ag3)) (\<lambda>_ ag4. (Inr (), persist A ag4)))))"

definition agOnMessage :: "agent_env \<Rightarrow> Agent \<Rightarrow> IncomingMessage \<Rightarrow> unit act" where
  "agOnMessage A ag m =
     (if im_senderUserId m = cl_userId (ag_client ag) then (Inr (), ag)
      else abind (reconcileConversation A ag (im_conversationId m)) (\<lambda>_ ag1.
        (case map_of (conversations_of (ag_client ag1)) (im_conversationId m) of
           None \<Rightarrow> (Inr (), ag1)
         | Some c \<Rightarrow>
             if map_of (cc_members c) (cl_userId (ag_client ag1)) = None then (Inr (), ag1)
             else onMemberMessage A ag1 c m)))"

definition agOnSystemEvent :: "agent_env \<Rightarrow> Agent \<Rightarrow> SystemEvent \<Rightarrow> unit act" where
  "agOnSystemEvent A ag e =
     (case e of
        MemberJoined conv _ _ \<Rightarrow> reconcileConversation A ag conv
      | MemberRemoved conv _ \<Rightarrow> reconcileConversation A ag conv
      | _ \<Rightarrow> (Inr (), ag))"

definition runTask :: "agent_env \<Rightarrow> Agent \<Rightarrow> agent_task \<Rightarrow> unit act" where
  "runTask A ag t =
     (case t of
        OnMessage m \<Rightarrow> agOnMessage A ag m
      | OnSystemEvent e \<Rightarrow> agOnSystemEvent A ag e
      | Reconcile conv \<Rightarrow> reconcileConversation A ag conv)"

text \<open>A rejected task leaves the chain intact; a call that does not return takes the process with it.\<close>

definition settleTask :: "unit act \<Rightarrow> Agent" where
  "settleTask r = (case r of (Inl NeverReturns, ag) \<Rightarrow> ag\<lparr>ag_hung := True\<rparr> | (_, ag) \<Rightarrow> ag)"

definition runNext :: "agent_env \<Rightarrow> Agent \<Rightarrow> Agent" where
  "runNext A ag =
     (case ag_queue ag of
        [] \<Rightarrow> ag
      | t # ts \<Rightarrow> if ag_hung ag then ag else settleTask (runTask A (ag\<lparr>ag_queue := ts\<rparr>) t))"

definition enqueue :: "Agent \<Rightarrow> agent_task list \<Rightarrow> Agent" where
  "enqueue ag ts = ag\<lparr>ag_queue := ag_queue ag @ ts\<rparr>"

text \<open>One tick of the interval timer.\<close>

definition sweepTick :: "Agent \<Rightarrow> Agent" where
  "sweepTick ag = (if ag_sweeping ag then enqueue ag (map (\<lambda>(conv, _). Reconcile conv) (conversations_of (ag_client ag))) else ag)"

definition startReconcileSweep :: "agent_env \<Rightarrow> Agent \<Rightarrow> Agent" where
  "startReconcileSweep A ag = (if ac_reconcileIntervalMs (av_config A) \<le> 0 then ag else ag\<lparr>ag_sweeping := True\<rparr>)"

text \<open>The tasks queued so far are awaited, those they queue are not.\<close>

definition shutdown :: "agent_env \<Rightarrow> Agent \<Rightarrow> Agent" where
  "shutdown A ag =
     (let ag1 = (runNext A ^^ length (ag_queue ag)) (ag\<lparr>ag_sweeping := False\<rparr>)
      in ag1\<lparr>ag_client := clDisconnect (ag_client ag1)\<rparr>)"

text \<open>Handlers are attached once the client is connected, so what it reported before is not queued.\<close>

definition newAgent :: "Client \<Rightarrow> AgentStore \<Rightarrow> VaultKnowledgeSource option \<Rightarrow> Agent" where
  "newAgent cl a knowledge =
     \<lparr>ag_client = cl, ag_store = a, ag_knowledge = knowledge, ag_queue = [], ag_lastDegradeAt = [], ag_sweeping = False,
      ag_hung = False, ag_seenMessages = length (cl_messages cl), ag_seenEvents = length (cl_events cl), ag_ivs = 0,
      ag_requests = [], ag_replies = [], ag_apologies = [], ag_plaintextLog = []\<rparr>"

definition bootClient :: "agent_env \<Rightarrow> AgentStore \<Rightarrow> VaultKnowledgeSource option \<Rightarrow> agent_exn + Agent" where
  "bootClient A a knowledge =
     (case loadState (av_seal A) (av_stateCodec A) a of
        Inl e \<Rightarrow> Inl (StoreError e)
      | Inr (Some p) \<Rightarrow>
          (case resume (av_client A) (av_readRecord A) (ps_token p) (ps_userId p) (ps_username p) (Some (ps_deviceId p))
              (av_readIdentity A (base64Decode (ps_identityKeyPair p)) (ps_registrationId p)) (ps_stores p)
              (ps_nextOneTimePreKeyId p) (Some True) of
             Inl e \<Rightarrow> Inl (ClientError e)
           | Inr (Inl e, _) \<Rightarrow> Inl (ClientError e)
           | Inr (Inr _, cl) \<Rightarrow> Inr (newAgent cl a knowledge))
      | Inr None \<Rightarrow>
          (case signup (av_client A) (ac_inviteCode (av_config A)) (ac_username (av_config A)) None (av_newIdentity A) None None (Some True) of
             (Inl e, _) \<Rightarrow> Inl (ClientError e)
           | (Inr _, cl) \<Rightarrow> Inr (persist A (newAgent cl a knowledge))))"

definition boot :: "agent_env \<Rightarrow> AgentStore \<Rightarrow> VaultKnowledgeSource option \<Rightarrow> agent_exn + unit act" where
  "boot A a knowledge =
     (case bootClient A a knowledge of
        Inl e \<Rightarrow> Inl e
      | Inr ag \<Rightarrow> Inr (abind (reconcileAll A ag) (\<lambda>_ ag'. (Inr (), startReconcileSweep A ag'))))"

text \<open>\<^verbatim>\<open>startAgent\<close> of \<^verbatim>\<open>index.ts\<close>: configuration, store, provider, knowledge and boot from one environment.\<close>

definition startAgent :: "agent_env \<Rightarrow> (nat \<Rightarrow> fetch) \<Rightarrow> (jsstring \<Rightarrow> jsstring option) \<Rightarrow> AgentDb \<Rightarrow> bytes \<Rightarrow> agent_exn + unit act" where
  "startAgent A fetch env db freshSalt =
     (let config = loadAgentConfig env in
      case openAgentStore (av_seal A) db (ac_dbKey config) freshSalt of
        Inl e \<Rightarrow> Inl (StoreError e)
      | Inr store \<Rightarrow>
          (case selectLlmClient env of
             None \<Rightarrow> Inl UnknownProvider
           | Some llm \<Rightarrow> boot (A\<lparr>av_config := config, av_llm := (\<lambda>n. complete (fetch n) llm)\<rparr>) store (selectKnowledgeSource env)))"

text \<open>What can happen to a running agent: an event of a link, the next envelope of the client's inbox, the next
  task, a tick of the timer, a reconcile the operator asks for. A hung process does nothing.\<close>

inductive agent_run :: "agent_env \<Rightarrow> Agent \<Rightarrow> Agent \<Rightarrow> bool" for A ag0 where
  Start: "agent_run A ag0 ag0"
| LinkEvent: "agent_run A ag0 ag \<Longrightarrow> \<not> ag_hung ag \<Longrightarrow> agent_run A ag0 (queueReports (ag\<lparr>ag_client := onLinkEvent (av_client A) (ag_client ag) ev\<rparr>))"
| Inbox: "agent_run A ag0 ag \<Longrightarrow> \<not> ag_hung ag \<Longrightarrow> agent_run A ag0 (handleInbox A ag)"
| Next: "agent_run A ag0 ag \<Longrightarrow> \<not> ag_hung ag \<Longrightarrow> agent_run A ag0 (runNext A ag)"
| Tick: "agent_run A ag0 ag \<Longrightarrow> \<not> ag_hung ag \<Longrightarrow> agent_run A ag0 (sweepTick ag)"
| Ask: "agent_run A ag0 ag \<Longrightarrow> \<not> ag_hung ag \<Longrightarrow> agent_run A ag0 (enqueue ag [Reconcile conv])"

end
