(* ===== verification/AgentProps.thy ===== *)
theory AgentProps
  imports Agent
begin

section \<open>What the AI member says and to whom\<close>

text \<open>
  The frame \<open>calm\<close> holds of every step that neither asks the language model nor adds a turn, and carries
  the invariants over them. The locale \<open>agent_invariant\<close> collects what a state property must be kept by
  to hold in every run; it is interpreted for the isolation of conversations and for the
  distance between apologies, whose theorems are in \<open>AgentSafety\<close>.
\<close>

abbreviation context_of :: "agent_env \<Rightarrow> Agent \<Rightarrow> jsstring \<Rightarrow> agent_error + ContextMessage list" where
  "context_of A ag conv \<equiv> loadContext (av_seal A) (av_contextCodec A) (ag_store ag) conv"

abbreviation meta_of :: "agent_env \<Rightarrow> Agent \<Rightarrow> jsstring \<Rightarrow> agent_error + ConversationMeta" where
  "meta_of A ag conv \<equiv> loadConvMeta (av_seal A) (av_metaCodec A) (ag_store ag) conv"

text \<open>The libraries of the store keep their contracts.\<close>

definition agent_env_ok :: "agent_env \<Rightarrow> bool" where
  "agent_env_ok A \<longleftrightarrow> seal_ok (av_seal A) \<and> codec_ok (av_contextCodec A) \<and> codec_ok (av_metaCodec A) \<and> (\<forall>n. length (av_iv A n) = 12)"

definition calm :: "agent_env \<Rightarrow> Agent \<Rightarrow> Agent \<Rightarrow> bool" where
  "calm A ag ag' \<longleftrightarrow> cl_userId (ag_client ag') = cl_userId (ag_client ag)
     \<and> set (cl_messages (ag_client ag)) \<subseteq> set (cl_messages (ag_client ag'))
     \<and> ag_requests ag' = ag_requests ag \<and> ag_replies ag' = ag_replies ag
     \<and> ag_apologies ag' = ag_apologies ag \<and> ag_lastDegradeAt ag' = ag_lastDegradeAt ag
     \<and> (\<forall>conv w. context_of A ag' conv = Inr w \<longrightarrow> w = [] \<or> context_of A ag conv = Inr w)
     \<and> (\<forall>m. OnMessage m \<in> set (ag_queue ag') \<longrightarrow> OnMessage m \<in> set (ag_queue ag) \<or> m \<in> set (cl_messages (ag_client ag')))"

lemma calm_refl [simp, intro]: "calm A ag ag"
  by (simp add: calm_def)

lemma calm_trans [trans]: "calm A a b \<Longrightarrow> calm A b c \<Longrightarrow> calm A a c"
  unfolding calm_def by (metis subset_iff subset_trans)

lemma calm_abind:
  assumes "calm A ag (snd r)" "\<And>x ag'. r = (Inr x, ag') \<Longrightarrow> calm A ag' (snd (f x ag'))"
  shows "calm A ag (snd (abind r f))"
proof (cases r)
  case (Pair r' ag')
  show ?thesis
  proof (cases r')
    case (Inr x)
    then have "calm A ag' (snd (f x ag'))" using assms(2) Pair by simp
    then show ?thesis using assms(1) Inr Pair calm_trans by (auto simp: abind_def)
  qed (use assms(1) Pair in \<open>simp add: abind_def\<close>)
qed

lemma calm_deliver:
  assumes "cl_userId cl = cl_userId (ag_client ag)" "set (cl_messages (ag_client ag)) \<subseteq> set (cl_messages cl)"
  shows "calm A ag (queueReports (ag\<lparr>ag_client := cl\<rparr>))"
  using assms by (auto simp: calm_def queueReports_def Let_def dest: in_set_dropD)

lemma snd_onClient: "snd (onClient f ag) = queueReports (ag\<lparr>ag_client := snd (f (ag_client ag))\<rparr>)"
  by (simp add: onClient_def split: prod.split sum.split)

lemma calm_onClient:
  assumes "\<And>cl. evolves W cl (snd (f cl))"
  shows "calm A ag (snd (onClient f ag))"
  unfolding snd_onClient using assms [of "ag_client ag"] by (intro calm_deliver) (auto simp: evolves_def)

lemma evolves_clSend: "evolves (\<lambda>_. True) cl (snd (clSend E cl conv text ms))"
proof -
  have "snd (clSend E cl conv text ms) = snd (sendRaw E cl conv \<lparr>pm_msgId = en_uuid E (cl_tick cl), pm_text = text, pm_mentions = ms,
      pm_sentAt = en_now E (cl_tick cl), pm_membershipHead = None\<rparr>)"
    by (simp add: clSend_def cbind_def Let_def split: prod.split sum.split)
  then show ?thesis using evolves_mono [OF evolves_sendRaw] by simp
qed

lemmas calm_send = calm_onClient [OF evolves_clSend]
  and calm_list = calm_onClient [OF evolves_listMembers]

lemma processInbox_messages:
  "cl_userId (processInbox E cl) = cl_userId cl \<and> set (cl_messages cl) \<subseteq> set (cl_messages (processInbox E cl))"
proof (cases "cl_inbox cl")
  case (Cons e es)
  then show ?thesis
    using handleIncomingEnvelope_effect [of "cl\<lparr>cl_inbox := es\<rparr>" E e]
    by (auto simp: processInbox_def evolves_def dispatched_def mute_def)
qed (simp add: processInbox_def)

lemma calm_handleInbox: "calm A ag (handleInbox A ag)"
  unfolding handleInbox_def using processInbox_messages by (intro calm_deliver) auto

lemma calm_funpow: "(\<And>ag. calm A ag (f ag)) \<Longrightarrow> calm A ag ((f ^^ n) ag)"
  by (induction n) (auto intro: calm_trans)

lemma calm_during: "calm A ag (during A ag)"
proof -
  have "calm A ag (queueReports (ag\<lparr>ag_client := pause (av_client A) (ag_client ag)\<rparr>))"
    using evolves_pause [of "\<lambda>_. True" "ag_client ag" "av_client A"] by (intro calm_deliver) (auto simp: evolves_def)
  also have "calm A \<dots> (during A ag)" unfolding during_def by (rule calm_funpow) (rule calm_handleInbox)
  finally show ?thesis .
qed

lemma loadContext_others [simp]:
  "loadContext S C (saveState S' C' iv a s) = loadContext S C a"
  "loadContext S C (saveConvMeta S' C'' iv a conv meta) = loadContext S C a"
  by (simp_all add: fun_eq_iff loadContext_def saveState_def saveConvMeta_def split: option.split)

lemma loadContext_purge: "loadContext S C (purgeContext a conv) c = (if c = conv then Inr [] else loadContext S C a c)"
  by (simp add: loadContext_def purgeContext_def map_of_amap_del split: option.split)

lemma calm_simple [intro]:
  "calm A ag (persist A ag)" "calm A ag (saveMeta A ag conv meta)" "calm A ag (logPlaintext A msg ag)" "calm A ag (handleSelfRemoval A ag conv)"
  by (auto simp: calm_def persist_def saveMeta_def logPlaintext_def handleSelfRemoval_def Let_def loadContext_purge split: if_splits)

lemma fromStore_snd [simp]: "snd (fromStore f ag) = ag" "snd (loadMeta A ag conv) = ag"
  by (simp_all add: fromStore_def loadMeta_def split: sum.split)

lemma fromStore_Inr: "fromStore f ag = (Inr x, ag') \<longleftrightarrow> f (ag_store ag) = Inr x \<and> ag' = ag"
  by (auto simp: fromStore_def split: sum.splits)

lemma loadMeta_Inr: "loadMeta A ag conv = (Inr x, ag') \<longleftrightarrow> meta_of A ag conv = Inr x \<and> ag' = ag"
  by (simp add: loadMeta_def fromStore_Inr)

lemma calm_maybeSendIntro: "calm A ag (snd (maybeSendIntro A ag conv))"
proof -
  have "calm A ag (snd (abind (onClient (\<lambda>cl. clSend (av_client A) cl conv INTRO_TEXT []) ag)
      (\<lambda>_ ag2. (Inr (), persist A (saveMeta A ag2 conv meta)))))" for meta
    by (rule calm_abind [OF calm_send]) (simp add: calm_trans [OF calm_simple(2) calm_simple(1)])
  then show ?thesis
    unfolding maybeSendIntro_def by (intro calm_abind) (auto simp: loadMeta_Inr)
qed

lemma calm_reconcile: "calm A ag (snd (reconcileConversation A ag conv))"
proof -
  obtain r ag1 where r: "onClient (\<lambda>cl. clListMembers (av_client A) cl conv) ag = (r, ag1)" by force
  have "calm A ag (snd (onClient (\<lambda>cl. clListMembers (av_client A) cl conv) ag))" by (rule calm_list)
  then have c: "calm A ag ag1" by (simp add: r)
  show ?thesis
    using calm_trans [OF c calm_simple(4)] calm_trans [OF c calm_maybeSendIntro] c
    by (auto simp: reconcileConversation_def r split: sum.split agent_exn.split)
qed

lemma calm_settle: "calm A ag (snd r) \<Longrightarrow> calm A ag (settleTask r)"
  by (auto simp: settleTask_def calm_def split: prod.splits sum.splits agent_exn.splits)

lemma calm_linkEvent: "calm A ag (queueReports (ag\<lparr>ag_client := onLinkEvent E (ag_client ag) ev\<rparr>))"
  using evolves_onLinkEvent [of "\<lambda>_. True" "ag_client ag" E ev] by (intro calm_deliver) (auto simp: evolves_def)

lemma calm_enqueue: "(\<And>m. OnMessage m \<notin> set ts) \<Longrightarrow> calm A ag (enqueue ag ts)"
  by (auto simp: calm_def enqueue_def)

lemma calm_sweepTick: "calm A ag (sweepTick ag)"
  by (auto simp: sweepTick_def intro!: calm_enqueue)

lemma calm_dequeue: "ag_queue ag = t # ts \<Longrightarrow> calm A ag (ag\<lparr>ag_queue := ts\<rparr>)"
  by (auto simp: calm_def)

subsection \<open>Invariants of a running agent\<close>

text \<open>
  What a property of the agent's state must be kept by to hold in every run: the calm steps, the turn of a
  message another user sent, a request made from the window of its conversation, a reply the
  model gave to a request of the conversation and its turn, and an apology outside the cooldown.
\<close>

locale agent_invariant =
  fixes A :: agent_env and I :: "Agent \<Rightarrow> bool"
  assumes keep_calm: "calm A ag ag' \<Longrightarrow> I ag \<Longrightarrow> I ag'"
    and queued: "I ag \<Longrightarrow> OnMessage m \<in> set (ag_queue ag) \<Longrightarrow> m \<in> set (cl_messages (ag_client ag))"
    and keep_heard: "I ag \<Longrightarrow> m \<in> set (cl_messages (ag_client ag)) \<Longrightarrow> im_senderUserId m \<noteq> cl_userId (ag_client ag) \<Longrightarrow>
      I (snd (appendTurn A ag (im_conversationId m) \<lparr>cx_role = User, cx_content = im_text m, cx_sentAt = at\<rparr>))"
    and keep_request: "I ag \<Longrightarrow> context_of A ag conv = Inr w \<Longrightarrow>
      I (ag\<lparr>ag_knowledge := v, ag_requests := ag_requests ag @ [(conv, requestFor A ag w)]\<rparr>)"
    and keep_reply: "I ag \<Longrightarrow> (conv, req) \<in> set (ag_requests ag) \<Longrightarrow> av_llm A n req = Some t \<Longrightarrow> I (ag\<lparr>ag_replies := ag_replies ag @ [(conv, t)]\<rparr>)"
    and keep_said: "I ag \<Longrightarrow> (conv, t) \<in> set (ag_replies ag) \<Longrightarrow>
      I (snd (appendTurn A ag conv \<lparr>cx_role = Assistant, cx_content = t, cx_sentAt = at\<rparr>))"
    and keep_apology: "I ag \<Longrightarrow> \<not> now - orElse (map_of (ag_lastDegradeAt ag) conv) 0 < DEGRADE_COOLDOWN_MS \<Longrightarrow>
      I (ag\<lparr>ag_lastDegradeAt := amap_set (ag_lastDegradeAt ag) conv now, ag_apologies := ag_apologies ag @ [(conv, now)]\<rparr>)"
begin

lemma keep_abind:
  assumes "I (snd r)" "\<And>x ag'. r = (Inr x, ag') \<Longrightarrow> I ag' \<Longrightarrow> I (snd (f x ag'))"
  shows "I (snd (abind r f))"
  using assms by (cases r; cases "fst r") (auto simp: abind_def)

lemma keep_degrade: "I ag \<Longrightarrow> I (snd (degrade A ag conv))"
  using keep_apology [THEN keep_calm [OF calm_send]] by (simp add: degrade_def Let_def)

lemma keep_sendReply:
  assumes "I ag" "(conv, req) \<in> set (ag_requests ag)" "av_llm A n req = Some text"
  shows "I (snd (sendReply A ag conv text))"
  unfolding sendReply_def Let_def
proof (rule keep_abind)
  show "I (snd (onClient (\<lambda>cl. clSend (av_client A) cl conv text []) ag))"
    by (rule keep_calm [OF calm_send assms(1)])
next
  fix x ag1
  assume s: "onClient (\<lambda>cl. clSend (av_client A) cl conv text []) ag = (Inr x, ag1)" and I1: "I ag1"
  have "calm A ag (snd (onClient (\<lambda>cl. clSend (av_client A) cl conv text []) ag))" by (rule calm_send)
  then have r: "(conv, req) \<in> set (ag_requests ag1)" using assms(2) by (simp add: s calm_def)
  let ?ag = "\<lambda>msg. logPlaintext A msg (ag1\<lparr>ag_replies := ag_replies ag1 @ [(conv, text)]\<rparr>)"
  have "I (?ag msg)" for msg using keep_calm [OF calm_simple(3) keep_reply [OF I1 r assms(3)]] .
  then have "I (snd (appendTurn A (?ag msg) conv \<lparr>cx_role = Assistant, cx_content = text, cx_sentAt = t\<rparr>))" for msg t
    by (rule keep_said) (simp add: logPlaintext_def)
  then show "I (snd (abind (appendTurn A (?ag (js ''send '' @ conv @ js '': '' @ text)) conv
      \<lparr>cx_role = Assistant, cx_content = text, cx_sentAt = en_now (av_client A) (cl_tick (ag_client (?ag (js ''send '' @ conv @ js '': '' @ text))))\<rparr>)
      (\<lambda>_ ag3. abind (loadMeta A ag3 conv) (\<lambda>meta ag4. (Inr (), saveMeta A ag4 conv (meta\<lparr>me_humanSinceLastReply := 0\<rparr>))))))"
    by (intro keep_abind) (auto intro: keep_calm [OF calm_simple(2)])
qed

lemma keep_reply_path:
  assumes "I ag"
  shows "I (snd (agReply A ag conv))"
  unfolding agReply_def
proof (rule keep_abind)
  fix w ag1
  assume s: "fromStore (\<lambda>a. loadContext (av_seal A) (av_contextCodec A) a conv) ag = (Inr w, ag1)" and I1: "I ag1"
  then have ctx: "context_of A ag1 conv = Inr w" by (auto simp: fromStore_Inr)
  let ?ag = "ag1\<lparr>ag_knowledge := snd (systemFor A ag1 w), ag_requests := ag_requests ag1 @ [(conv, requestFor A ag1 w)]\<rparr>"
  have i: "I (during A ?ag)" by (rule keep_calm [OF calm_during keep_request [OF I1 ctx]])
  have "(conv, requestFor A ag1 w) \<in> set (ag_requests (during A ?ag))"
    using calm_during [of A ?ag] by (simp add: calm_def)
  then show "I (snd (let req = requestFor A ag1 w;
      ag2 = ag1\<lparr>ag_knowledge := snd (systemFor A ag1 w), ag_requests := ag_requests ag1 @ [(conv, req)]\<rparr>
      in case av_llm A (cl_tick (ag_client ag2)) req of
           None \<Rightarrow> degrade A (during A ag2) conv | Some text \<Rightarrow> sendReply A (during A ag2) conv text))"
    using keep_degrade [OF i] keep_sendReply [OF i] by (auto simp: Let_def split: option.split)
qed (use assms in simp)

lemma keep_onMemberMessage:
  assumes "I ag" "m \<in> set (cl_messages (ag_client ag))" "im_senderUserId m \<noteq> cl_userId (ag_client ag)"
  shows "I (snd (onMemberMessage A ag c m))"
  unfolding onMemberMessage_def Let_def
proof (rule keep_abind)
  have "I (logPlaintext A (recvLine m) ag)" by (rule keep_calm [OF calm_simple(3) assms(1)])
  then show "I (snd (appendTurn A (logPlaintext A (recvLine m) ag) (im_conversationId m)
      \<lparr>cx_role = User, cx_content = im_text m, cx_sentAt = im_sentAt m\<rparr>))"
    by (rule keep_heard) (use assms in \<open>simp_all add: logPlaintext_def\<close>)
qed (auto intro!: keep_abind keep_reply_path keep_calm [OF calm_simple(2)] keep_calm [OF calm_simple(1)] simp: loadMeta_Inr)

lemma keep_agOnMessage:
  assumes "I ag" "m \<in> set (cl_messages (ag_client ag))"
  shows "I (snd (agOnMessage A ag m))"
proof (cases "im_senderUserId m = cl_userId (ag_client ag)")
  case False
  obtain r ag1 where r: "reconcileConversation A ag (im_conversationId m) = (r, ag1)" by force
  then have c: "calm A ag ag1" using calm_reconcile by (metis snd_conv)
  then have "m \<in> set (cl_messages (ag_client ag1))" "im_senderUserId m \<noteq> cl_userId (ag_client ag1)"
    using assms(2) False by (auto simp: calm_def)
  then show ?thesis
    using keep_calm [OF c assms(1)] keep_onMemberMessage
    by (auto simp: agOnMessage_def False r abind_def split: sum.split option.split)
qed (simp add: agOnMessage_def assms)

lemma keep_runNext:
  assumes "I ag"
  shows "I (runNext A ag)"
proof (cases "ag_queue ag")
  case (Cons t ts)
  let ?ag = "ag\<lparr>ag_queue := ts\<rparr>"
  have i: "I ?ag" by (rule keep_calm [OF calm_dequeue [OF Cons] assms])
  have "I (snd (runTask A ?ag t))"
  proof (cases t)
    case (OnMessage m)
    then have "m \<in> set (cl_messages (ag_client ?ag))" using queued [OF assms] by (simp add: Cons)
    then show ?thesis using keep_agOnMessage [OF i] OnMessage by (simp add: runTask_def)
  next
    case (OnSystemEvent e)
    then show ?thesis using keep_calm [OF calm_reconcile i] i by (auto simp: runTask_def agOnSystemEvent_def split: SystemEvent.split)
  next
    case (Reconcile conv)
    then show ?thesis using keep_calm [OF calm_reconcile i] by (simp add: runTask_def)
  qed
  then have "I (settleTask (runTask A ?ag t))" by (rule keep_calm [OF calm_settle [OF calm_refl]])
  then show ?thesis using assms by (simp add: runNext_def Cons)
qed (simp add: runNext_def assms)

lemma keep_run: "agent_run A ag0 ag \<Longrightarrow> I ag0 \<Longrightarrow> I ag"
  by (induction rule: agent_run.induct)
    (auto intro: keep_calm [OF calm_linkEvent] keep_calm [OF calm_handleInbox] keep_runNext keep_calm [OF calm_sweepTick]
      keep_calm [OF calm_enqueue])

end

subsection \<open>Isolation\<close>

text \<open>The texts that belong to a conversation: those it started with, those others sent in it, those the agent replied in it.\<close>

definition spoken :: "(jsstring \<Rightarrow> jsstring set) \<Rightarrow> Agent \<Rightarrow> jsstring \<Rightarrow> jsstring set" where
  "spoken base ag conv = base conv \<union> im_text ` {m \<in> set (cl_messages (ag_client ag)). im_conversationId m = conv \<and> im_senderUserId m \<noteq> cl_userId (ag_client ag)}
     \<union> {t. (conv, t) \<in> set (ag_replies ag)}"

text \<open>The system prompt of a request: the configured one, or that with the notes retrieved for a text of the conversation.\<close>

definition prompt_for :: "agent_env \<Rightarrow> jsstring set \<Rightarrow> jsstring \<Rightarrow> bool" where
  "prompt_for A texts system \<longleftrightarrow> system = ac_systemPrompt (av_config A)
     \<or> (\<exists>q \<in> texts. \<exists>now root v. system = ac_systemPrompt (av_config A)
          @ KNOWLEDGE_BLOCK (fst (retrieve (av_lower A) now root v q (ac_knowledgeTopK (av_config A)))))"

definition isolated :: "agent_env \<Rightarrow> (jsstring \<Rightarrow> jsstring set) \<Rightarrow> Agent \<Rightarrow> bool" where
  "isolated A base ag \<longleftrightarrow>
     (\<forall>conv w. context_of A ag conv = Inr w \<longrightarrow> cx_content ` set w \<subseteq> spoken base ag conv)
     \<and> (\<forall>m. OnMessage m \<in> set (ag_queue ag) \<longrightarrow> m \<in> set (cl_messages (ag_client ag)))
     \<and> (\<forall>conv req. (conv, req) \<in> set (ag_requests ag) \<longrightarrow>
          snd ` set (lr_messages req) \<subseteq> spoken base ag conv \<and> prompt_for A (spoken base ag conv) (lr_system req))
     \<and> (\<forall>conv t. (conv, t) \<in> set (ag_replies ag) \<longrightarrow> (\<exists>req n. (conv, req) \<in> set (ag_requests ag) \<and> av_llm A n req = Some t))"

lemma prompt_for_mono: "prompt_for A X s \<Longrightarrow> X \<subseteq> Y \<Longrightarrow> prompt_for A Y s"
  unfolding prompt_for_def by blast

lemma spoken_mono:
  "cl_userId (ag_client ag') = cl_userId (ag_client ag) \<Longrightarrow> set (cl_messages (ag_client ag)) \<subseteq> set (cl_messages (ag_client ag'))
   \<Longrightarrow> set (ag_replies ag) \<subseteq> set (ag_replies ag') \<Longrightarrow> spoken base ag conv \<subseteq> spoken base ag' conv"
  unfolding spoken_def by auto

lemma isolatedI:
  assumes "\<And>conv w. context_of A ag conv = Inr w \<Longrightarrow> cx_content ` set w \<subseteq> spoken base ag conv"
    and "\<And>m. OnMessage m \<in> set (ag_queue ag) \<Longrightarrow> m \<in> set (cl_messages (ag_client ag))"
    and "\<And>conv req. (conv, req) \<in> set (ag_requests ag) \<Longrightarrow>
      snd ` set (lr_messages req) \<subseteq> spoken base ag conv \<and> prompt_for A (spoken base ag conv) (lr_system req)"
    and "\<And>conv t. (conv, t) \<in> set (ag_replies ag) \<Longrightarrow> \<exists>req n. (conv, req) \<in> set (ag_requests ag) \<and> av_llm A n req = Some t"
  shows "isolated A base ag"
  unfolding isolated_def using assms by blast

lemma isolatedD:
  assumes "isolated A base ag"
  shows "context_of A ag conv = Inr w \<Longrightarrow> cx_content ` set w \<subseteq> spoken base ag conv"
    and "OnMessage m \<in> set (ag_queue ag) \<Longrightarrow> m \<in> set (cl_messages (ag_client ag))"
    and "(conv, req) \<in> set (ag_requests ag) \<Longrightarrow>
      snd ` set (lr_messages req) \<subseteq> spoken base ag conv \<and> prompt_for A (spoken base ag conv) (lr_system req)"
    and "(conv, t) \<in> set (ag_replies ag) \<Longrightarrow> \<exists>req n. (conv, req) \<in> set (ag_requests ag) \<and> av_llm A n req = Some t"
  using assms unfolding isolated_def by simp_all

lemma isolated_calm:
  assumes "calm A ag ag'" "isolated A base ag"
  shows "isolated A base ag'"
proof (rule isolatedI)
  note c = assms(1) [unfolded calm_def]
  have s: "spoken base ag conv \<subseteq> spoken base ag' conv" for conv using c by (intro spoken_mono) auto
  show "cx_content ` set w \<subseteq> spoken base ag' conv" if "context_of A ag' conv = Inr w" for conv w
  proof (cases "w = []")
    case False
    then have "context_of A ag conv = Inr w" using c that by blast
    then show ?thesis using isolatedD(1) [OF assms(2)] s by blast
  qed simp
  show "m \<in> set (cl_messages (ag_client ag'))" if "OnMessage m \<in> set (ag_queue ag')" for m
    using c that isolatedD(2) [OF assms(2)] by blast
  show "snd ` set (lr_messages req) \<subseteq> spoken base ag' conv \<and> prompt_for A (spoken base ag' conv) (lr_system req)"
    if "(conv, req) \<in> set (ag_requests ag')" for conv req
  proof -
    have "(conv, req) \<in> set (ag_requests ag)" using c that by simp
    from isolatedD(3) [OF assms(2) this] show ?thesis using subset_trans [OF _ s] prompt_for_mono [OF _ s] by simp
  qed
  show "\<exists>req n. (conv, req) \<in> set (ag_requests ag') \<and> av_llm A n req = Some t" if "(conv, t) \<in> set (ag_replies ag')" for conv t
    using c that isolatedD(4) [OF assms(2)] by simp
qed

text \<open>Only the requests and the replies of the agent change, and the new ones fit.\<close>

lemma isolated_extend:
  assumes iso: "isolated A base ag" and ag': "ag' = ag\<lparr>ag_knowledge := v, ag_requests := ag_requests ag @ rq, ag_replies := ag_replies ag @ rp\<rparr>"
    and rq: "\<And>conv req. (conv, req) \<in> set rq \<Longrightarrow>
      snd ` set (lr_messages req) \<subseteq> spoken base ag conv \<and> prompt_for A (spoken base ag conv) (lr_system req)"
    and rp: "\<And>conv t. (conv, t) \<in> set rp \<Longrightarrow> \<exists>req n. (conv, req) \<in> set (ag_requests ag) \<and> av_llm A n req = Some t"
  shows "isolated A base ag'"
proof (rule isolatedI)
  have s: "spoken base ag conv \<subseteq> spoken base ag' conv" for conv by (intro spoken_mono) (auto simp: ag')
  show "cx_content ` set w \<subseteq> spoken base ag' conv" if "context_of A ag' conv = Inr w" for conv w
    using isolatedD(1) [OF iso, of conv w] that s [of conv] by (auto simp: ag')
  show "m \<in> set (cl_messages (ag_client ag'))" if "OnMessage m \<in> set (ag_queue ag')" for m
    using isolatedD(2) [OF iso] that by (simp add: ag')
  show "snd ` set (lr_messages req) \<subseteq> spoken base ag' conv \<and> prompt_for A (spoken base ag' conv) (lr_system req)"
    if "(conv, req) \<in> set (ag_requests ag')" for conv req
  proof -
    have "(conv, req) \<in> set (ag_requests ag) \<or> (conv, req) \<in> set rq" using that by (auto simp: ag')
    then have "snd ` set (lr_messages req) \<subseteq> spoken base ag conv \<and> prompt_for A (spoken base ag conv) (lr_system req)"
      using isolatedD(3) [OF iso] rq by (elim disjE) simp_all
    then show ?thesis using subset_trans [OF _ s] prompt_for_mono [OF _ s] by simp
  qed
  show "\<exists>req n. (conv, req) \<in> set (ag_requests ag') \<and> av_llm A n req = Some t" if "(conv, t) \<in> set (ag_replies ag')" for conv t
  proof -
    have "(conv, t) \<in> set (ag_replies ag) \<or> (conv, t) \<in> set rp" using that by (auto simp: ag')
    then obtain req n where "(conv, req) \<in> set (ag_requests ag)" "av_llm A n req = Some t" using isolatedD(4) [OF iso] rp by blast
    then show ?thesis by (auto simp: ag')
  qed
qed

text \<open>What appending a turn does.\<close>

lemma appendTurn_spec:
  assumes "agent_env_ok A" "appendTurn A ag conv m = (r, ag')"
  shows "(\<exists>e. r = Inl e) \<and> ag' = ag \<or>
    r = Inr () \<and> (\<exists>a w w'. ag' = ag\<lparr>ag_store := a, ag_ivs := Suc (ag_ivs ag)\<rparr> \<and> context_of A ag conv = Inr w
      \<and> a = saveContext (av_seal A) (av_contextCodec A) (av_iv A (ag_ivs ag)) (ag_store ag) conv w' \<and> set w' \<subseteq> insert m (set w))"
proof (cases "context_of A ag conv")
  case (Inl e)
  then show ?thesis using assms(2) by (auto simp: appendTurn_def appendContext_def)
next
  case (Inr w)
  obtain n k where opts: "ctxOpts (av_config A) = (n, k)" by force
  show ?thesis
  proof (cases "n < 0")
    case True
    then show ?thesis using assms(2) by (auto simp: appendTurn_def appendContext_def Inr opts trimCount_negative)
  next
    case False
    define w' where "w' = trimTokens k (drop (length (w @ [m]) - nat n) (w @ [m]))"
    have "suffix w' (w @ [m])" using window_spec [OF _ w'_def] False by simp
    then have "set w' \<subseteq> insert m (set w)" using set_mono_suffix by fastforce
    moreover have "ag' = ag\<lparr>ag_store := saveContext (av_seal A) (av_contextCodec A) (av_iv A (ag_ivs ag)) (ag_store ag) conv w', ag_ivs := Suc (ag_ivs ag)\<rparr>"
      "r = Inr ()"
      using assms(2) False by (simp_all add: appendTurn_def appendContext_def Inr opts trimCount_eq Let_def w'_def)
    ultimately show ?thesis using Inr by blast
  qed
qed

lemma isolated_appendTurn:
  assumes ok: "agent_env_ok A" and iso: "isolated A base ag" and m: "cx_content m \<in> spoken base ag conv"
  shows "isolated A base (snd (appendTurn A ag conv m))"
proof -
  obtain r ag' where r: "appendTurn A ag conv m = (r, ag')" by force
  from appendTurn_spec [OF ok r] show ?thesis
  proof (elim disjE conjE exE)
    fix a w w'
    assume s: "ag' = ag\<lparr>ag_store := a, ag_ivs := Suc (ag_ivs ag)\<rparr>" "context_of A ag conv = Inr w"
      "a = saveContext (av_seal A) (av_contextCodec A) (av_iv A (ag_ivs ag)) (ag_store ag) conv w'" "set w' \<subseteq> insert m (set w)"
    have l: "context_of A ag' c = (if c = conv then Inr w' else context_of A ag c)" for c
      using ok by (simp add: s(1,3) load_saveContext agent_env_ok_def)
    have sp: "spoken base ag' = spoken base ag" by (auto simp: spoken_def s(1) fun_eq_iff)
    have "cx_content ` set w \<subseteq> spoken base ag conv" using iso s(2) by (auto simp: isolated_def)
    then have "cx_content ` set w' \<subseteq> spoken base ag conv" using s(4) m by blast
    moreover have "ag_requests ag' = ag_requests ag" "ag_replies ag' = ag_replies ag" "ag_queue ag' = ag_queue ag" "ag_client ag' = ag_client ag"
      by (simp_all add: s(1))
    ultimately show ?thesis using isolatedD [OF iso] unfolding r snd_conv by (intro isolatedI) (simp_all add: sp l split: if_splits)
  qed (use iso r in simp)
qed

lemma systemFor_prompt:
  assumes "cx_content ` set w \<subseteq> X"
  shows "prompt_for A X (fst (systemFor A ag w))"
proof (cases "ag_knowledge ag")
  case (Some v)
  show ?thesis
  proof (cases "find (\<lambda>m. cx_role m = User) (rev w)")
    case (Some u)
    then have "u \<in> set (rev w)" unfolding find_Some_iff by (metis nth_mem)
    then have "cx_content u \<in> X" using assms by auto
    obtain ss v' where q: "retrieve (av_lower A) (en_now (av_client A) (cl_tick (ag_client ag))) (av_files A (cl_tick (ag_client ag))) v
        (cx_content u) (ac_knowledgeTopK (av_config A)) = (ss, v')" by force
    have "fst (systemFor A ag w) = (if ss \<noteq> [] then ac_systemPrompt (av_config A) @ KNOWLEDGE_BLOCK ss else ac_systemPrompt (av_config A))"
      by (simp add: systemFor_def Let_def \<open>ag_knowledge ag = Some v\<close> Some q)
    then show ?thesis
      using \<open>cx_content u \<in> X\<close> q unfolding prompt_for_def by (metis fst_conv)
  qed (use Some in \<open>simp add: systemFor_def prompt_for_def\<close>)
qed (simp add: systemFor_def prompt_for_def)

lemma isolated_request:
  assumes "isolated A base ag" "context_of A ag conv = Inr w"
  shows "isolated A base (ag\<lparr>ag_knowledge := v, ag_requests := ag_requests ag @ [(conv, requestFor A ag w)]\<rparr>)"
proof (rule isolated_extend [OF assms(1), where v = v and rq = "[(conv, requestFor A ag w)]" and rp = "[]"])
  fix c req
  assume "(c, req) \<in> set [(conv, requestFor A ag w)]"
  then have c: "c = conv" "req = requestFor A ag w" by auto
  have w: "cx_content ` set w \<subseteq> spoken base ag conv" by (rule isolatedD(1) [OF assms])
  have "snd ` set (lr_messages req) = cx_content ` set w"
    by (simp add: c requestFor_def image_image)
  then show "snd ` set (lr_messages req) \<subseteq> spoken base ag c \<and> prompt_for A (spoken base ag c) (lr_system req)"
    using w systemFor_prompt [OF w, of A ag] by (simp add: c requestFor_def)
qed simp_all

text \<open>A turn changes nothing but the store.\<close>

lemma appendTurn_frame:
  "ag_client (snd (appendTurn A ag conv m)) = ag_client ag" "ag_queue (snd (appendTurn A ag conv m)) = ag_queue ag"
  "ag_requests (snd (appendTurn A ag conv m)) = ag_requests ag" "ag_replies (snd (appendTurn A ag conv m)) = ag_replies ag"
  "ag_apologies (snd (appendTurn A ag conv m)) = ag_apologies ag" "ag_lastDegradeAt (snd (appendTurn A ag conv m)) = ag_lastDegradeAt ag"
  by (simp_all add: appendTurn_def split: option.split sum.split prod.split)

definition queue_ok :: "Agent \<Rightarrow> bool" where
  "queue_ok ag \<longleftrightarrow> (\<forall>m. OnMessage m \<in> set (ag_queue ag) \<longrightarrow> m \<in> set (cl_messages (ag_client ag)))"

lemma queue_ok_calm: "calm A ag ag' \<Longrightarrow> queue_ok ag \<Longrightarrow> queue_ok ag'"
  unfolding calm_def queue_ok_def by blast

text \<open>The invariant, under the contracts of the store's libraries.\<close>

definition isolation :: "agent_env \<Rightarrow> (jsstring \<Rightarrow> jsstring set) \<Rightarrow> Agent \<Rightarrow> bool" where
  "isolation A base ag \<longleftrightarrow> queue_ok ag \<and> (agent_env_ok A \<longrightarrow> isolated A base ag)"

lemma isolated_reply:
  assumes "isolated A base ag" "(conv, req) \<in> set (ag_requests ag)" "av_llm A n req = Some t"
  shows "isolated A base (ag\<lparr>ag_replies := ag_replies ag @ [(conv, t)]\<rparr>)"
  using assms(2,3) by (intro isolated_extend [OF assms(1), where v = "ag_knowledge ag" and rq = "[]" and rp = "[(conv, t)]"]) auto

lemma isolated_apology: "isolated A base ag \<Longrightarrow> isolated A base (ag\<lparr>ag_lastDegradeAt := l, ag_apologies := ap\<rparr>)"
  by (simp add: isolated_def spoken_def)

lemma isolated_heard:
  assumes "agent_env_ok A" "isolated A base ag" "m \<in> set (cl_messages (ag_client ag))" "im_senderUserId m \<noteq> cl_userId (ag_client ag)"
  shows "isolated A base (snd (appendTurn A ag (im_conversationId m) \<lparr>cx_role = User, cx_content = im_text m, cx_sentAt = t\<rparr>))"
  using assms(3,4) by (intro isolated_appendTurn [OF assms(1,2)]) (auto simp: spoken_def)

lemma isolated_said:
  assumes "agent_env_ok A" "isolated A base ag" "(conv, t) \<in> set (ag_replies ag)"
  shows "isolated A base (snd (appendTurn A ag conv \<lparr>cx_role = Assistant, cx_content = t, cx_sentAt = n\<rparr>))"
  using assms(3) by (intro isolated_appendTurn [OF assms(1,2)]) (auto simp: spoken_def)

interpretation iso: agent_invariant A "isolation A base" for A base
proof unfold_locales
  show "calm A ag ag' \<Longrightarrow> isolation A base ag \<Longrightarrow> isolation A base ag'" for ag ag'
    using queue_ok_calm isolated_calm unfolding isolation_def by blast
qed (auto simp: isolation_def appendTurn_frame queue_ok_def intro: isolated_heard isolated_said isolated_request isolated_reply isolated_apology)

subsection \<open>Apologies\<close>

definition apologyTimes :: "Agent \<Rightarrow> jsstring \<Rightarrow> int list" where
  "apologyTimes ag conv = map snd (filter (\<lambda>(c, t). c = conv) (ag_apologies ag))"

definition spaced :: "Agent \<Rightarrow> bool" where
  "spaced ag \<longleftrightarrow> queue_ok ag \<and> (\<forall>conv. successively (\<lambda>s t. s + DEGRADE_COOLDOWN_MS \<le> t) (apologyTimes ag conv)
     \<and> map_of (ag_lastDegradeAt ag) conv = (if apologyTimes ag conv = [] then None else Some (last (apologyTimes ag conv))))"

lemma spaced_same:
  assumes "spaced ag" "queue_ok ag'" "ag_apologies ag' = ag_apologies ag" "ag_lastDegradeAt ag' = ag_lastDegradeAt ag"
  shows "spaced ag'"
  using assms by (simp add: spaced_def apologyTimes_def)

lemma spaced_frame:
  assumes "spaced ag" "ag_queue ag' = ag_queue ag" "ag_client ag' = ag_client ag" "ag_apologies ag' = ag_apologies ag"
    "ag_lastDegradeAt ag' = ag_lastDegradeAt ag"
  shows "spaced ag'"
  using assms by (simp add: spaced_def apologyTimes_def queue_ok_def)

lemma spaced_apology:
  assumes "spaced ag" "\<not> now - orElse (map_of (ag_lastDegradeAt ag) conv) 0 < DEGRADE_COOLDOWN_MS"
  shows "spaced (ag\<lparr>ag_lastDegradeAt := amap_set (ag_lastDegradeAt ag) conv now, ag_apologies := ag_apologies ag @ [(conv, now)]\<rparr>)" (is "spaced ?ag")
proof -
  have t: "apologyTimes ?ag c = apologyTimes ag c @ (if c = conv then [now] else [])" for c
    by (simp add: apologyTimes_def)
  have "apologyTimes ag conv \<noteq> [] \<Longrightarrow> last (apologyTimes ag conv) + DEGRADE_COOLDOWN_MS \<le> now"
    using assms by (simp add: spaced_def orElse_def)
  then show ?thesis
    using assms(1) by (cases "apologyTimes ag conv = []") (simp_all add: spaced_def t map_of_amap_set successively_append_iff queue_ok_def)
qed

interpretation spc: agent_invariant A spaced for A
proof unfold_locales
  show "calm A ag ag' \<Longrightarrow> spaced ag \<Longrightarrow> spaced ag'" for ag ag'
    using queue_ok_calm spaced_same by (metis calm_def spaced_def)
  show "spaced ag \<Longrightarrow> OnMessage m \<in> set (ag_queue ag) \<Longrightarrow> m \<in> set (cl_messages (ag_client ag))" for ag m
    by (simp add: spaced_def queue_ok_def)
qed (erule spaced_apology spaced_frame; simp add: appendTurn_frame)+

end
