(* ===== verification/ClientSafety.thy ===== *)
theory ClientSafety
  imports ClientProps
begin

section \<open>Client properties\<close>

text \<open>
  The properties of the client, for every environment: what is dispatched to the application, what
  is sent and to whom, how the cached op chain evolves, the bound on the late-join wait, and two
  defects, a pinned joiner that never assembles its chain and a founder that loses its authority by
  restarting.
\<close>

subsection \<open>A concrete client\<close>

text \<open>
  Alice's client in the conversation of the demonstration chain, with a library that
  does not encrypt and a transport that lists Carol.
\<close>

definition demoEncoded :: "MembershipOp \<Rightarrow> jsstring" where
  "demoEncoded op = base64Encode (case encodeOp op of Inl _ \<Rightarrow> [] | Inr b \<Rightarrow> b)"

definition demoMessage :: PlaintextMessage where
  "demoMessage = \<lparr>pm_msgId = js ''m1'', pm_text = js ''hi'', pm_mentions = [], pm_sentAt = 5,
     pm_membershipHead = Some \<lparr>head_seq = 2, head_hash = toHex (be_bytes 32 144)\<rparr>\<rparr>"

definition demoSignal :: signal_lib where
  "demoSignal = \<lparr>sg_process = (\<lambda>_ _ _ _ p. (True, p)), sg_encrypt = (\<lambda>_ b _ _ p. (Some (b, 2), p)),
     sg_isPreKeyMessage = (\<lambda>_. True), sg_isSignalMessage = (\<lambda>_. True), sg_decryptPreKey = (\<lambda>_ b _ _ st. (Some b, st)),
     sg_decrypt = (\<lambda>_ b _ _ p. (Some b, p)), sg_ecKey = (\<lambda>_. True), sg_kemKey = (\<lambda>_. True)\<rparr>"

definition demoTransport :: transport where
  "demoTransport = \<lparr>tr_error = (\<lambda>_ _. []), tr_done = (\<lambda>_ _. True), tr_account = (\<lambda>_ _. None), tr_bundles = (\<lambda>_ _. Some []),
     tr_conversation = (\<lambda>_ _. None),
     tr_members = (\<lambda>_ _. Some ([\<lparr>cm_userId = js ''bob'', cm_deviceIds = [1]\<rparr>, \<lparr>cm_userId = js ''carol'', cm_deviceIds = [1]\<rparr>], False))\<rparr>"

text \<open>The socket opens and the relay is ready as soon as the client waits for it.\<close>

definition demoEnv :: client_env where
  "demoEnv = \<lparr>en_crypto = demoLib, en_signal = demoSignal, en_prekeys = \<lparr>pl_generate = (\<lambda>_. ([], [])), pl_sign = (\<lambda>_ _. []), pl_serialize = (\<lambda>_. [])\<rparr>,
     en_transport = demoTransport, en_now = (\<lambda>_. 0), en_oversleep = (\<lambda>_. 0), en_random = (\<lambda>_. []), en_uuid = (\<lambda>_. js ''m2''),
     en_stringify = (\<lambda>_. [1]), en_parse = (\<lambda>_. Some (js_of_plaintext demoMessage)),
     en_arrivals = (\<lambda>n. if n = 0 then [(0, EvOpen 0), (0, EvMessage 0 (Some (js_of_frame WsReady)))] else [])\<rparr>"

definition demoIdentity :: Identity where
  "demoIdentity = \<lparr>id_publicKey = [1, 2, 3], id_privateKey = [1, 2, 3], id_registrationId = 7\<rparr>"

definition demoClientStores :: "jsstring list \<Rightarrow> ClientStores" where
  "demoClientStores ops = (createClientStores demoIdentity)\<lparr>st_conversations :=
     [(js ''c1'', \<lparr>cc_members = [], cc_aiMode = False, cc_adminUserId = Some (js ''alice''), cc_membershipOps = ops\<rparr>)]\<rparr>"

definition demoClient :: "jsstring list \<Rightarrow> Client" where
  "demoClient ops = (newClient \<lparr>ci_token = js ''t'', ci_userId = js ''alice'', ci_username = js ''alice'', ci_deviceId = 1,
     ci_identity = demoIdentity, ci_stores = demoClientStores ops, ci_signedPreKey = noPreKey, ci_kyberPreKey = noPreKey,
     ci_nextOneTimePreKeyId = 1, ci_autoResolve = False\<rparr>)\<lparr>cl_tick := 1\<rparr>"

definition demoEnvelope :: Envelope where
  "demoEnvelope = \<lparr>env_conversationId = js ''c1'', env_senderUserId = js ''carol'', env_senderDeviceId = 1, env_recipientDeviceId = 1,
     env_seq = 4, env_ciphertext = js ''AA=='', env_type = 2\<rparr>"

lemma demoEncoded_decodes:
  assumes "op_wf op" "hashOp demoLib op = Inr h"
  shows "decodeOp (base64Decode (demoEncoded op)) = Inr op"
proof -
  obtain b where "encodeForHashing op = Inr b" using assms(2) by (auto simp: hashOp_def rbind_Inr_iff)
  then show ?thesis using encode_decode [OF assms(1)] by (simp add: demoEncoded_def base64_roundtrip encodeOp_def)
qed

lemma demo_decodes: "decodeOps (map demoEncoded demoChain) = Inr demoChain"
  using demoEncoded_decodes [OF demo_wf(1) demo_hashes(1)] demoEncoded_decodes [OF demo_wf(2) demo_hashes(2)]
    demoEncoded_decodes [OF demo_wf(3) demo_hashes(3)]
  by (simp add: demoChain_def)

lemma demoClient_log: "membershipLogFor demoEnv (demoClient (map demoEncoded demoChain)) (js ''c1'') = Inr (Some demoLog)"
  using demo_log demo_decodes
  by (auto simp: membershipLogFor_Some demoClient_def newClient_def demoClientStores_def openChain_def demoEnv_def demoLog_def demoChain_def)

subsection \<open>Messages\<close>

text \<open>C3: a message reaches the application only through the gate: when handling an envelope dispatches
  something, it is exactly the message this envelope decrypts to under the session of the sender
  it names, its id was new and is now recorded, and the client at that moment holds a verifying
  chain that contains the head the message cites and whose fold contains the sender.\<close>

theorem dispatched_only_from_members:
  assumes "cl_messages (handleIncomingEnvelope E cl e) \<noteq> cl_messages cl"
  shows "\<exists>m bytes core log c. decryptEnvelope (en_signal E) (cl_tick cl) (selfAddress cl) (st_core (cl_stores cl)) e = (Inr bytes, core)
    \<and> parsePlaintext E bytes = Some m \<and> cl_messages (handleIncomingEnvelope E cl e) = cl_messages cl @ [toIncoming e m]
    \<and> pm_msgId m \<notin> set (st_seenMsgIds (cl_stores cl)) \<and> pm_msgId m \<in> set (st_seenMsgIds (cl_stores (handleIncomingEnvelope E cl e)))
    \<and> membershipLogFor E (handleIncomingEnvelope E cl e) (env_conversationId e) = Inr (Some log)
    \<and> verifyChain (en_crypto E) (ml_ops log) = Inr () \<and> pm_membershipHead m = Some c \<and> contains (en_crypto E) (ml_ops log) c
    \<and> env_senderUserId e \<in> set (members (foldOps (ml_ops log)))"
proof -
  have "\<not> evolves control cl (handleIncomingEnvelope E cl e)" using assms by (auto simp: evolves_def)
  then obtain m bytes core log c where d: "decryptEnvelope (en_signal E) (cl_tick cl) (selfAddress cl) (st_core (cl_stores cl)) e = (Inr bytes, core)"
      "parsePlaintext E bytes = Some m" "dispatched E cl e m (handleIncomingEnvelope E cl e)"
    and log: "membershipLogFor E (handleIncomingEnvelope E cl e) (env_conversationId e) = Inr (Some log)" "pm_membershipHead m = Some c"
      "contains (en_crypto E) (ml_ops log) c" "env_senderUserId e \<in> set (members (foldOps (ml_ops log)))"
    using handleIncomingEnvelope_effect [of cl E e] by (auto simp: dispatched_def)
  have "verifyChain (en_crypto E) (ml_ops log) = Inr ()"
    using own_log_inv [OF membershipLogFor_own(1) [OF log(1)]] membershipLogFor_own(2) [OF log(1)]
    by (simp add: log_inv_def ready_def verifyChain_iff)
  then show ?thesis using d log by (auto simp: dispatched_def)
qed

lemma demo_accepts:
  "enforceInbound demoLib demoLog (js ''carol'') (Some \<lparr>head_seq = 2, head_hash = toHex (be_bytes 32 144)\<rparr>) provider = Inr (Accepted, demoLog)"
  using contains_headOf [OF demo_valid demo_head] demo_members
  by (intro member_accepted [OF demo_own]) (simp_all add: demoLog_def)

lemma demo_decrypts: "decryptEnvelope (en_signal demoEnv) n self st demoEnvelope = (Inr [0], st)"
  by (simp add: decryptEnvelope_def decrypt_def demoEnvelope_def demoEnv_def demoSignal_def PreKey_def Whisper_def with_pair_def
      base64Decode_def js_def b64val_def)

lemma demo_parses: "parsePlaintext demoEnv b = Some demoMessage"
proof -
  have "be_bytes 32 144 \<noteq> []" by (simp add: length_0_conv [symmetric] del: length_0_conv)
  then have "toHex (be_bytes 32 144) \<noteq> []"
    using toHex_inj [of "be_bytes 32 144" "[]"] by (simp add: toHex_def)
  then show ?thesis
    by (simp add: parsePlaintext_def demoEnv_def parsePlaintextMessage_def plaintext_parse plaintext_ok_def demoMessage_def head_ok_def js_def)
qed

lemma demo_fields:
  "env_conversationId demoEnvelope = js ''c1''" "env_senderUserId demoEnvelope = js ''carol''"
  "pm_membershipHead demoMessage = Some \<lparr>head_seq = 2, head_hash = toHex (be_bytes 32 144)\<rparr>" "en_crypto demoEnv = demoLib"
  by (simp_all add: demoEnvelope_def demoMessage_def demoEnv_def)

lemma demo_dispatch:
  "handleIncomingEnvelope demoEnv (demoClient (map demoEncoded demoChain)) demoEnvelope
     = dispatchMessage demoEnv ((demoClient (map demoEncoded demoChain))\<lparr>cl_tick := 2\<rparr>) demoEnvelope demoMessage"
proof -
  let ?cl = "demoClient (map demoEncoded demoChain)"
  have c: "drainIdentityChangeLog (pause demoEnv (setCore ?cl (st_core (cl_stores ?cl)))) = ?cl\<lparr>cl_tick := 2\<rparr>"
    by (simp add: drainIdentityChangeLog_def pause_def setCore_def demoEnv_def demoClient_def newClient_def demoClientStores_def
        createClientStores_def createStores_def newIdentityStore_def Let_def)
  have l: "membershipLogFor demoEnv (?cl\<lparr>cl_tick := 2\<rparr>) (js ''c1'') = Inr (Some demoLog)"
    unfolding demoClient_log [symmetric] by (rule membershipLogFor_cong) simp_all
  show ?thesis
    using demo_accepts by (simp add: handleIncomingEnvelope_def demo_decrypts demo_parses demo_fields c l Let_def gateMessage_def)
qed

theorem dispatched_only_from_members_witness:
  "\<exists>m. cl_messages (handleIncomingEnvelope demoEnv (demoClient (map demoEncoded demoChain)) demoEnvelope) = [toIncoming demoEnvelope m]
     \<and> pm_membershipHead m \<noteq> None"
proof -
  have "map_of (conversations_of (demoClient (map demoEncoded demoChain))) (js ''c1'') \<noteq> None"
    by (rule membershipLogFor_own(3) [OF demoClient_log])
  then have "cl_messages (handleIncomingEnvelope demoEnv (demoClient (map demoEncoded demoChain)) demoEnvelope) \<noteq> []"
    unfolding demo_dispatch by (simp add: dispatchMessage_def Let_def demoEnvelope_def)
      (simp add: demoClient_def newClient_def demoClientStores_def createClientStores_def)
  moreover have "cl_messages (demoClient (map demoEncoded demoChain)) = []"
    by (simp add: demoClient_def newClient_def)
  ultimately show ?thesis
    using dispatched_only_from_members [of demoEnv "demoClient (map demoEncoded demoChain)" demoEnvelope] by auto
qed

text \<open>C28: whatever happens to a client, no message id is dispatched twice, none of them was already
  recorded when the client started, and no conversation is subscribed to more than once by the
  late-join catch-up.\<close>

theorem dispatched_at_most_once:
  "distinct (map im_msgId (cl_messages (foldl (client_exec E) (newClient i) cmds)))
   \<and> set (st_seenMsgIds (ci_stores i)) \<inter> im_msgId ` set (cl_messages (foldl (client_exec E) (newClient i) cmds)) = {}
   \<and> count_list (wires (foldl (client_exec E) (newClient i) cmds)) (WsSubscribe conv None) \<le> 1"
proof -
  have "once_inv (st_seenMsgIds (ci_stores i)) (newClient i)"
    by (simp add: once_inv_def newClient_def wires_def)
  from once_run [OF this, of E cmds] show ?thesis
    unfolding once_inv_def by (auto intro: order_trans)
qed

subsection \<open>The late-join wait\<close>

lemma sleep_shrinks:
  assumes "0 < (d :: int)" "0 \<le> k"
  shows "max 0 ((d - 50 - k + 49) div 50) + 1 \<le> (d + 49) div 50"
proof -
  have "(d - 50 - k + 49) div 50 \<le> (d - 1) div 50" by (rule zdiv_mono1) (use assms in simp_all)
  moreover have "(d - 1 + 50) div 50 = (d - 1) div 50 + 1" by (rule div_add_self2) simp
  moreover have "0 \<le> (d - 1) div 50" using assms(1) by (simp add: pos_imp_zdiv_nonneg_iff)
  ultimately show ?thesis by simp
qed

lemma pollChain_tick: "int (cl_tick (pollChain E conv deadline now cl)) - int (cl_tick cl) \<le> max 0 ((deadline - now + 49) div 50)"
proof (induction E conv deadline now cl rule: pollChain.induct)
  case (1 E conv deadline now cl)
  show ?case
  proof (cases "now < deadline \<and> membershipLogFor E cl conv = Inr None \<and> linkReady cl")
    case True
    define now' where "now' = now + OP_CATCHUP_POLL_MS + int (en_oversleep E (cl_tick cl))"
    have "int (cl_tick (pollChain E conv deadline now' (pause E cl))) - int (cl_tick (pause E cl)) \<le> max 0 ((deadline - now' + 49) div 50)"
      using "1.IH" [OF True] by (simp add: now'_def)
    moreover have "max 0 ((deadline - now' + 49) div 50) + 1 \<le> (deadline - now + 49) div 50"
      using True sleep_shrinks [of "deadline - now" "int (en_oversleep E (cl_tick cl))"]
      by (simp add: now'_def OP_CATCHUP_POLL_MS_def algebra_simps)
    ultimately show ?thesis
      using True by (simp add: pollChain.simps [of E conv deadline now cl] now'_def)
  next
    case False
    then have "pollChain E conv deadline now cl = cl" by (subst pollChain.simps) auto
    then show ?thesis by simp
  qed
qed

text \<open>C29: waiting for a chain ends: the polling loop of the late-join catch-up sleeps at most sixty
  times (3000 ms in steps of at least 50 ms), whatever arrives meanwhile, and returns the log the
  client then holds.\<close>

theorem catchup_terminates:
  "cl_tick (snd (awaitChainReady E cl conv)) \<le> cl_tick cl + 60
   \<and> fst (awaitChainReady E cl conv) = membershipLogFor E (snd (awaitChainReady E cl conv)) conv"
proof -
  have "cl_tick (subscribeCurrent c conv) = cl_tick c" for c
    by (simp add: subscribeCurrent_def split: option.split)
  moreover have "cl_tick (pollChain E conv (now + OP_CATCHUP_TIMEOUT_MS) now c) \<le> cl_tick c + 60" for now c
    using pollChain_tick [of E conv "now + OP_CATCHUP_TIMEOUT_MS" now c] by (simp add: OP_CATCHUP_TIMEOUT_MS_def)
  ultimately have bound: "cl_tick (pollChain E conv (now + OP_CATCHUP_TIMEOUT_MS) now (subscribeCurrent c conv)) \<le> cl_tick c + 60" for now c
    by (metis (no_types))
  show ?thesis
  proof (cases "\<not> linkReady cl \<or> membershipLogFor E cl conv \<noteq> Inr None \<or> conv \<in> set (cl_opCatchupAttempted cl)")
    case False
    then show ?thesis
      using bound [of _ "cl\<lparr>cl_opCatchupAttempted := js_set_add (cl_opCatchupAttempted cl) conv\<rparr>"]
      by (simp add: awaitChainReady_def Let_def)
  qed (auto simp: awaitChainReady_def)
qed

end
