(* ===== verification/ClientChain.thy ===== *)
theory ClientChain
  imports ClientSafety
begin

section \<open>The client's op chain\<close>

text \<open>
  How the chain a client caches for a conversation evolves. \<open>logOf\<close> is the log as a function of the
  pin and the cached strings; one op frame either appends its op or changes nothing
  (\<open>handleIncomingOp_ops\<close>), and everything the properties say of sequences of events follows from it.
\<close>

definition logOf :: "client_env \<Rightarrow> InvitePin option \<Rightarrow> jsstring list \<Rightarrow> thrown + MembershipLog option" where
  "logOf E pin ops =
     (if ops = [] then Inr None
      else rbind (decodeOps ops) (\<lambda>chain.
        (case (case pin of Some p \<Rightarrow> ingestChain (en_crypto E) (forJoiner p) chain | None \<Rightarrow> openLog (en_crypto E) chain) of
           Inl _ \<Rightarrow> Inr None
         | Inr log \<Rightarrow> Inr (Some log))))"

abbreviation chainOf :: "Client \<Rightarrow> jsstring \<Rightarrow> jsstring list" where
  "chainOf cl conv \<equiv> cachedOps (conversations_of cl) conv"

abbreviation pinOf :: "Client \<Rightarrow> jsstring \<Rightarrow> InvitePin option" where
  "pinOf cl conv \<equiv> map_of (cl_joinPins cl) conv"

lemma membershipLogFor_logOf: "membershipLogFor E cl conv = logOf E (pinOf cl conv) (chainOf cl conv)"
proof (cases "map_of (conversations_of cl) conv")
  case (Some c)
  show ?thesis
    unfolding membershipLogFor_def logOf_def cachedOps_def openChain_def Some option.case by (rule refl)
qed (simp add: membershipLogFor_def logOf_def cachedOps_def)

lemma decodeOps_snoc: "decodeOps (es @ [e]) = rbind (decodeOps es) (\<lambda>ops. rbind (decodeOp (base64Decode e)) (\<lambda>op. Inr (ops @ [op])))"
  by (induction es) (simp_all add: rbind_assoc rbind_def split: sum.split)

lemma handleIncomingOp_ops:
  "chainOf (handleIncomingOp E cl conv sq op) conv' =
     (if conv' = conv \<and> (\<exists>x. decodeOp (base64Decode op) = Inr x) \<and> sq = int (length (chainOf cl conv))
         \<and> logOf E (pinOf cl conv) (chainOf cl conv @ [op]) \<noteq> Inr None
      then chainOf cl conv @ [op] else chainOf cl conv')"
proof (cases "decodeOp (base64Decode op)")
  case (Inr x)
  define cl1 where "cl1 = (case map_of (conversations_of cl) conv of Some _ \<Rightarrow> cl | None \<Rightarrow> setConversation cl conv (emptyConversation False))"
  define cached where "cached = the (map_of (conversations_of cl1) conv)"
  have c1: "chainOf cl1 k = chainOf cl k" "cl_joinPins cl1 = cl_joinPins cl" "map_of (conversations_of cl1) conv = Some cached" for k
    by (auto simp: cl1_def cached_def cachedOps_def emptyConversation_def map_of_amap_set split: option.split)
  then have ops: "cc_membershipOps cached = chainOf cl conv" by (metis cachedOps_def option.simps(5))
  define cl2 where "cl2 = setConversation cl1 conv (cached\<lparr>cc_membershipOps := chainOf cl conv @ [op]\<rparr>)"
  have l2: "membershipLogFor E cl2 conv = logOf E (pinOf cl conv) (chainOf cl conv @ [op])"
    by (simp add: membershipLogFor_logOf cl2_def c1(2) cachedOps_def map_of_amap_set ops)
  have set: "cachedOps (amap_set (conversations_of cl1) conv c) k = (if k = conv then cc_membershipOps c else chainOf cl k)" for c k
    using c1(1) [of k] by (simp add: cachedOps_def map_of_amap_set)
  have h: "handleIncomingOp E cl conv sq op =
     (if sq \<noteq> int (length (chainOf cl conv)) then cl1
      else case membershipLogFor E cl2 conv of
        Inl _ \<Rightarrow> cl2 | Inr None \<Rightarrow> setConversation cl1 conv cached | Inr (Some _) \<Rightarrow> cl2)"
  proof -
    have undo: "cached\<lparr>cc_membershipOps := chainOf cl conv\<rparr> = cached" using ops by simp
    show ?thesis
      by (cases "membershipLogFor E cl2 conv"; cases "projr (membershipLogFor E cl2 conv)")
        (simp_all add: handleIncomingOp_def Inr cl1_def [symmetric] cached_def [symmetric] appendMembershipOp_def ops Let_def
          cl2_def [symmetric], simp_all add: cl2_def undo)
  qed
  show ?thesis
    unfolding h l2 using set by (auto simp: Inr c1(1) cl2_def ops split: sum.split option.split)
qed (simp add: handleIncomingOp_def)

lemma handleIncomingOp_pins [simp]: "cl_joinPins (handleIncomingOp E cl conv sq op) = cl_joinPins cl"
  using evolves_handleIncomingOp [of "\<lambda>_. True" cl E conv sq op] by (simp add: evolves_def)

text \<open>A predicate on one conversation's pin and chain that op frames keep is kept by everything the event loop runs.\<close>

definition op_stable :: "client_env \<Rightarrow> jsstring \<Rightarrow> (Client \<Rightarrow> bool) \<Rightarrow> bool" where
  "op_stable E conv P \<longleftrightarrow> (\<forall>cl sq op. P cl \<longrightarrow> P (handleIncomingOp E cl conv sq op))
     \<and> (\<forall>cl cl'. chainOf cl' conv = chainOf cl conv \<longrightarrow> pinOf cl' conv = pinOf cl conv \<longrightarrow> P cl \<longrightarrow> P cl')"

lemma stable_op: "op_stable E conv P \<Longrightarrow> P cl \<Longrightarrow> P (handleIncomingOp E cl k sq op)"
proof (cases "k = conv")
  case False
  assume "op_stable E conv P" "P cl"
  moreover have "chainOf (handleIncomingOp E cl k sq op) conv = chainOf cl conv" using False by (simp add: handleIncomingOp_ops)
  ultimately show ?thesis unfolding op_stable_def by simp
qed (simp add: op_stable_def)

lemma stable_same: "op_stable E conv P \<Longrightarrow> P cl \<Longrightarrow> conversations_of cl' = conversations_of cl \<Longrightarrow> cl_joinPins cl' = cl_joinPins cl \<Longrightarrow> P cl'"
  unfolding op_stable_def by metis

lemma stable_receive: "op_stable E conv P \<Longrightarrow> P cl \<Longrightarrow> P (receiveFrame E cl f)"
  by (cases f) (auto simp: receiveFrame_def stable_op elim: stable_same)

lemma stable_link:
  assumes "op_stable E conv P" "P cl"
  shows "P (onLinkEvent E cl kev)"
proof -
  have "P (foldl (receiveFrame E) c fs)" if "P c" for c fs
    using that by (induction fs arbitrary: c) (simp_all add: stable_receive [OF assms(1)])
  moreover have "P (cl\<lparr>cl_links := ls, cl_connectionState := s\<rparr>)" for ls s
    by (rule stable_same [OF assms]) simp_all
  ultimately show ?thesis using onLinkEvent_eq [of E cl kev] assms(2) by auto
qed

lemma stable_links: "op_stable E conv P \<Longrightarrow> P cl \<Longrightarrow> P (foldl (onLinkEvent E) cl evs)"
  by (induction evs arbitrary: cl) (simp_all add: stable_link)

lemma stable_pause: "op_stable E conv P \<Longrightarrow> P cl \<Longrightarrow> P (pause E cl)"
  unfolding pause_def by (rule stable_links) (auto elim: stable_same)

lemma stable_poll: "op_stable E conv P \<Longrightarrow> P cl \<Longrightarrow> P (pollChain E k deadline now cl)"
proof (induction E k deadline now cl rule: pollChain.induct)
  case (1 E k deadline now cl)
  then show ?case unfolding pollChain.simps [of E k deadline now] by (auto intro: stable_pause)
qed

lemma stable_await: "op_stable E conv P \<Longrightarrow> P cl \<Longrightarrow> P (snd (awaitChainReady E cl k))"
proof -
  assume "op_stable E conv P" "P cl"
  moreover from this have "P (subscribeCurrent (cl\<lparr>cl_opCatchupAttempted := a\<rparr>) k)" for a
    by (elim stable_same; cases "currentLink (cl\<lparr>cl_opCatchupAttempted := a\<rparr>)") (simp_all add: subscribeCurrent_def)
  ultimately show ?thesis by (auto simp: awaitChainReady_def Let_def intro: stable_poll)
qed

lemma roster_ops:
  "cc_membershipOps (fst (foldl (mergeMember s k n) acc raw)) = cc_membershipOps (fst acc)"
  "cc_membershipOps (fst (foldl (pruneMember s k seen) acc us)) = cc_membershipOps (fst acc)"
  by (induction raw arbitrary: acc; simp add: mergeMember_def split: prod.split option.split)
     (induction us arbitrary: acc; simp add: pruneMember_def split: prod.split)

lemma syncRoster_ops: "chainOf (syncRoster cl k now raw mode) conv = chainOf cl conv" "cl_joinPins (syncRoster cl k now raw mode) = cl_joinPins cl"
  using roster_ops
  by (simp_all add: syncRoster_def Let_def split_beta cachedOps_def map_of_amap_set emptyConversation_def split: option.split)

lemma listMembers_snd:
  "snd (clListMembers E cl k) =
     (case rest E tr_members cl (RcListMembers (cl_token cl) k) of
        (Inl _, cl1) \<Rightarrow> cl1
      | (Inr (raw, mode), cl1) \<Rightarrow> snd (awaitChainReady E (syncRoster cl1 k (en_now E (cl_tick cl1)) raw mode) k))"
  by (auto simp: clListMembers_def cbind_def split: prod.split sum.split option.split)

lemma stable_listMembers:
  assumes st: "op_stable E conv P" and P: "P cl"
  shows "P (snd (clListMembers E cl k))"
proof -
  obtain r cl1 where r: "rest E tr_members cl (RcListMembers (cl_token cl) k) = (r, cl1)" by (metis prod.exhaust)
  have "P cl1"
    using stable_pause [OF st, of "cl\<lparr>cl_calls := cl_calls cl @ [RcListMembers (cl_token cl) k]\<rparr>"] stable_same [OF st P]
      rest_snd [of E tr_members cl "RcListMembers (cl_token cl) k"] by (simp add: r)
  then have "P (syncRoster cl1 k now raw mode)" for now raw mode
    using st syncRoster_ops unfolding op_stable_def by metis
  then have "P (snd (awaitChainReady E (syncRoster cl1 k now raw mode) k))" for now raw mode
    by (rule stable_await [OF st])
  then show ?thesis
    using \<open>P cl1\<close> by (cases r) (auto simp: listMembers_snd r split: prod.split)
qed

lemma stable_ack: "op_stable E conv P \<Longrightarrow> P cl \<Longrightarrow> P (safeAck cl k sq)"
  by (erule stable_same) simp_all

lemma stable_dispatch:
  assumes st: "op_stable E conv P" and P: "P cl"
  shows "P (dispatchMessage E cl e m)"
proof -
  let ?cl1 = "cl\<lparr>cl_stores := (cl_stores cl)\<lparr>st_seenMsgIds := js_set_add (st_seenMsgIds (cl_stores cl)) (pm_msgId m)\<rparr>\<rparr>"
  have p1: "P ?cl1" and m1: "P (?cl1\<lparr>cl_messages := ms\<rparr>)" for ms by (rule stable_same [OF st P]; simp)+
  have m2: "P ((snd (clListMembers E ?cl1 k))\<lparr>cl_messages := ms\<rparr>)" for ms k
    by (rule stable_same [OF st stable_listMembers [OF st p1, of k]]) simp_all
  show ?thesis
    unfolding dispatchMessage_def Let_def
    by (rule stable_ack [OF st]) (use P m1 m2 in simp)
qed

lemma stable_gate: "op_stable E conv P \<Longrightarrow> P cl \<Longrightarrow> P (gateMessage E cl e m log)"
  by (auto simp: gateMessage_def stable_ack stable_dispatch split: option.split sum.split prod.split GateResult.split)

lemma stable_envelope:
  assumes st: "op_stable E conv P" and P: "P cl"
  shows "P (handleIncomingEnvelope E cl e)"
proof -
  have "P (setCore cl core)" for core by (rule stable_same [OF st P]) (simp_all add: setCore_def)
  then have p: "P (pause E (setCore cl core))" for core by (rule stable_pause [OF st])
  then have d: "P (drainIdentityChangeLog (pause E (setCore cl core)))" for core
    by (rule stable_same [OF st]) (simp_all add: drainIdentityChangeLog_def Let_def)
  have a: "P c" if "awaitChainReady E (drainIdentityChangeLog (pause E (setCore cl core))) k = (r, c)" for core k r c
    using stable_await [OF st d, of core k] that by simp
  show ?thesis
    using p d by (auto simp: handleIncomingEnvelope_def Let_def stable_ack [OF st] stable_gate [OF st] dest: a
        split: prod.split sum.split option.split)
qed

subsection \<open>Runs of a client that only receives\<close>

fun receiving :: "client_cmd \<Rightarrow> bool" where
  "receiving (DoLinkEvent _ _) = True"
| "receiving DoInbox = True"
| "receiving (DoListMembers _) = True"
| "receiving _ = False"

lemma stable_exec:
  assumes st: "op_stable E conv P" and P: "P cl" and c: "receiving c"
  shows "P (client_exec E cl c)"
proof -
  have "P (cl\<lparr>cl_inbox := es\<rparr>)" for es by (rule stable_same [OF st P]) simp_all
  then show ?thesis
    using P c by (cases c) (auto simp: client_exec_def processInbox_def stable_link [OF st] stable_listMembers [OF st]
        stable_envelope [OF st] split: list.split)
qed

lemma stable_run: "op_stable E conv P \<Longrightarrow> P cl \<Longrightarrow> \<forall>c \<in> set cmds. receiving c \<Longrightarrow> P (foldl (client_exec E) cl cmds)"
  by (induction cmds arbitrary: cl) (simp_all add: stable_exec)

text \<open>The messages of one conversation, in the order they reached the application.\<close>

definition inboxOf :: "jsstring \<Rightarrow> Client \<Rightarrow> IncomingMessage list" where
  "inboxOf conv cl = filter (\<lambda>m. im_conversationId m = conv) (cl_messages cl)"

lemma receiving_inbox:
  assumes c: "receiving c" and l: "membershipLogFor E (client_exec E cl c) conv = Inr None"
  shows "inboxOf conv (client_exec E cl c) = inboxOf conv cl"
proof (cases "cl_messages (client_exec E cl c) = cl_messages cl")
  case False
  then obtain e es where c': "c = DoInbox" and es: "cl_inbox cl = e # es"
    using c evolves_onLinkEvent [of "\<lambda>_. True" cl E] evolves_listMembers [of cl E]
    by (cases c; cases "cl_inbox cl") (auto simp: client_exec_def evolves_def processInbox_def)
  let ?cl = "cl\<lparr>cl_inbox := es\<rparr>"
  have ex: "client_exec E cl c = handleIncomingEnvelope E ?cl e" by (simp add: c' client_exec_def processInbox_def es)
  then have "\<not> evolves control ?cl (handleIncomingEnvelope E ?cl e)" using False by (auto simp: evolves_def)
  then obtain m where d: "dispatched E ?cl e m (handleIncomingEnvelope E ?cl e)"
    using handleIncomingEnvelope_effect by blast
  then have "env_conversationId e \<noteq> conv" using l by (auto simp: ex dispatched_def)
  then show ?thesis using d by (simp add: inboxOf_def ex dispatched_def toIncoming_def)
qed (simp add: inboxOf_def)

subsection \<open>A pin above genesis\<close>

definition stuck :: "jsstring \<Rightarrow> Client \<Rightarrow> bool" where
  "stuck conv cl \<longleftrightarrow> chainOf cl conv = [] \<and> (\<exists>pin. pinOf cl conv = Some pin \<and> 1 \<le> head_seq (pin_pinnedHead pin))"

lemma one_op_below_pin:
  assumes "1 \<le> head_seq (pin_pinnedHead pin)" "decodeOp (base64Decode op) = Inr x"
  shows "logOf E (Some pin) [op] = Inr None"
proof -
  have "ingestChain (en_crypto E) (forJoiner pin) [x] \<noteq> Inr log" for log
  proof
    assume "ingestChain (en_crypto E) (forJoiner pin) [x] = Inr log"
    then have "contains (en_crypto E) [x] (pin_pinnedHead pin)"
      using ingestChain_Inr [OF joiner_inv] by (auto simp: pin_ok_def forJoiner_def newLog_def)
    then show False using assms(1) by (simp add: contains_iff)
  qed
  then show ?thesis using assms(2) by (auto simp: logOf_def split: sum.split)
qed

lemma stuck_stable: "op_stable E conv (stuck conv)"
  unfolding op_stable_def stuck_def by (auto simp: handleIncomingOp_ops one_op_below_pin)

lemma stuck_log: "stuck conv cl \<Longrightarrow> membershipLogFor E cl conv = Inr None"
  by (simp add: stuck_def membershipLogFor_logOf logOf_def)

lemma stuck_run:
  assumes "stuck conv cl" "\<forall>c \<in> set cmds. receiving c"
  shows "inboxOf conv (foldl (client_exec E) cl cmds) = inboxOf conv cl"
  using assms
proof (induction cmds arbitrary: cl)
  case (Cons c cmds)
  have "stuck conv (client_exec E cl c)" using Cons.prems by (intro stable_exec [OF stuck_stable]) simp_all
  then show ?case
    using Cons receiving_inbox [of c E cl conv] stuck_log by simp
qed simp

text \<open>C25: a joiner whose invite pin names any head above genesis never gets a chain: each op the relay
  delivers is checked against the pin alone, before the next one is there, and rolled back,
  because a chain of one op does not contain the pinned head. Whatever the relay delivers and however often the client
  refreshes, it holds no log for the conversation and dispatches none of its messages.\<close>

theorem pinned_joiner_never_starts:
  assumes "pinOf cl conv = Some pin" "1 \<le> head_seq (pin_pinnedHead pin)" "chainOf cl conv = []" "\<forall>c \<in> set cmds. receiving c"
  shows "membershipLogFor E (foldl (client_exec E) cl cmds) conv = Inr None
    \<and> inboxOf conv (foldl (client_exec E) cl cmds) = inboxOf conv cl"
proof -
  have s: "stuck conv cl" using assms(1-3) by (simp add: stuck_def)
  show ?thesis
    using stuck_log [OF stable_run [where P = "stuck conv", OF stuck_stable s assms(4)]] stuck_run [OF s assms(4)] by blast
qed

definition demoPin :: InvitePin where
  "demoPin = \<lparr>pin_conversationId = js ''c1'', pin_genesisHash = toHex (be_bytes 32 153),
     pin_pinnedHead = \<lparr>head_seq = 2, head_hash = toHex (be_bytes 32 144)\<rparr>\<rparr>"

definition demoFrame :: "jsstring \<Rightarrow> nat \<Rightarrow> MembershipOp \<Rightarrow> client_cmd" where
  "demoFrame conv i op = DoLinkEvent 0 (EvMessage 0 (Some (js_of_frame (WsOpDeliver conv (int i) (demoEncoded op)))))"

definition demoLink :: Link where
  "demoLink = foldl link_step (newLink (js ''t'') 1) [EvConnect, EvOpen 0, EvMessage 0 (Some (js_of_frame WsReady))]"

theorem pinned_joiner_never_starts_witness:
  "membershipLogFor demoEnv (foldl (client_exec demoEnv) ((demoClient [])\<lparr>cl_joinPins := [(js ''c1'', demoPin)], cl_links := [demoLink]\<rparr>)
     [demoFrame (js ''c1'') 0 demoCreate, demoFrame (js ''c1'') 1 demoInvite, demoFrame (js ''c1'') 2 demoRemove, DoListMembers (js ''c1'')]) (js ''c1'')
   = Inr None"
proof -
  let ?cl = "(demoClient [])\<lparr>cl_joinPins := [(js ''c1'', demoPin)], cl_links := [demoLink]\<rparr>"
  have "pinOf ?cl (js ''c1'') = Some demoPin" "1 \<le> head_seq (pin_pinnedHead demoPin)" "chainOf ?cl (js ''c1'') = []"
    by (simp_all add: cachedOps_def demoClient_def newClient_def demoClientStores_def demoPin_def)
  then show ?thesis
    using pinned_joiner_never_starts [of ?cl "js ''c1''" demoPin
        "[demoFrame (js ''c1'') 0 demoCreate, demoFrame (js ''c1'') 1 demoInvite, demoFrame (js ''c1'') 2 demoRemove, DoListMembers (js ''c1'')]" demoEnv]
    by (simp add: demoFrame_def)
qed

subsection \<open>The chain is only extended, and stays verifiable\<close>

definition usable :: "client_env \<Rightarrow> jsstring \<Rightarrow> jsstring list \<Rightarrow> Client \<Rightarrow> bool" where
  "usable E conv base cl \<longleftrightarrow> prefix base (chainOf cl conv)
     \<and> (chainOf cl conv = [] \<or> (\<exists>log. logOf E (pinOf cl conv) (chainOf cl conv) = Inr (Some log)))"

lemma logOf_decodes: "logOf E pin ops = Inr (Some log) \<Longrightarrow> \<exists>chain. decodeOps ops = Inr chain"
  by (cases "decodeOps ops") (simp_all add: logOf_def split: if_splits)

lemma logOf_total: "decodeOps ops = Inr chain \<Longrightarrow> logOf E pin ops \<noteq> Inr None \<Longrightarrow> \<exists>log. logOf E pin ops = Inr (Some log)"
  by (auto simp: logOf_def split: sum.split if_splits)

lemma usable_stable: "op_stable E conv (usable E conv base)"
proof -
  have "usable E conv base (handleIncomingOp E cl conv sq op)" if u: "usable E conv base cl" for cl sq op
  proof (cases "(\<exists>x. decodeOp (base64Decode op) = Inr x) \<and> sq = int (length (chainOf cl conv))
      \<and> logOf E (pinOf cl conv) (chainOf cl conv @ [op]) \<noteq> Inr None")
    case True
    then have ch: "chainOf (handleIncomingOp E cl conv sq op) conv = chainOf cl conv @ [op]" by (simp add: handleIncomingOp_ops)
    obtain chain where "decodeOps (chainOf cl conv) = Inr chain"
      using u logOf_decodes [of E "pinOf cl conv" "chainOf cl conv"] by (auto simp: usable_def)
    then obtain chain' where "decodeOps (chainOf cl conv @ [op]) = Inr chain'"
      using True by (auto simp: decodeOps_snoc)
    then have "\<exists>log. logOf E (pinOf cl conv) (chainOf cl conv @ [op]) = Inr (Some log)"
      using True logOf_total by blast
    then show ?thesis using u by (simp add: usable_def ch prefix_def) auto
  next
    case False
    then have ch: "chainOf (handleIncomingOp E cl conv sq op) conv = chainOf cl conv"
      using handleIncomingOp_ops [of E cl conv sq op conv] by (simp split: if_splits)
    show ?thesis using u by (simp add: usable_def ch)
  qed
  then show ?thesis unfolding op_stable_def by (auto simp: usable_def)
qed

text \<open>A client that only receives never loses or corrupts a chain: when its cached chain of a
  conversation is empty or yields a log, then after any sequence of link events, envelopes
  and roster refreshes the chain has only been extended and still is empty or yields a log.\<close>

theorem receiving_keeps_chain:
  assumes "chainOf cl conv = [] \<or> (\<exists>log. membershipLogFor E cl conv = Inr (Some log))" "\<forall>c \<in> set cmds. receiving c"
  shows "prefix (chainOf cl conv) (chainOf (foldl (client_exec E) cl cmds) conv)
    \<and> (chainOf (foldl (client_exec E) cl cmds) conv = []
        \<or> (\<exists>log. membershipLogFor E (foldl (client_exec E) cl cmds) conv = Inr (Some log)))"
proof -
  have "usable E conv (chainOf cl conv) cl"
    using assms(1) by (auto simp: usable_def membershipLogFor_logOf)
  then show ?thesis
    using stable_run [OF usable_stable [of E conv "chainOf cl conv"] _ assms(2), of cl] by (simp add: usable_def membershipLogFor_logOf)
qed

theorem receiving_keeps_chain_witness:
  "\<exists>log. membershipLogFor demoEnv (foldl (client_exec demoEnv) (demoClient (map demoEncoded demoChain))
     [demoFrame (js ''c1'') 3 demoRemove, DoInbox]) (js ''c1'') = Inr (Some log)"
proof -
  let ?cl = "demoClient (map demoEncoded demoChain)"
  let ?cmds = "[demoFrame (js ''c1'') 3 demoRemove, DoInbox]"
  have "chainOf ?cl (js ''c1'') \<noteq> []"
    by (simp add: cachedOps_def demoClient_def newClient_def demoClientStores_def demoChain_def)
  moreover have "prefix (chainOf ?cl (js ''c1'')) (chainOf (foldl (client_exec demoEnv) ?cl ?cmds) (js ''c1''))
    \<and> (chainOf (foldl (client_exec demoEnv) ?cl ?cmds) (js ''c1'') = []
      \<or> (\<exists>log. membershipLogFor demoEnv (foldl (client_exec demoEnv) ?cl ?cmds) (js ''c1'') = Inr (Some log)))"
    by (rule receiving_keeps_chain) (use demoClient_log in \<open>auto simp: demoFrame_def\<close>)
  ultimately show ?thesis by auto
qed

subsection \<open>Catching up\<close>

lemma decodeOps_append: "decodeOps (es @ fs) = rbind (decodeOps es) (\<lambda>a. rbind (decodeOps fs) (\<lambda>b. Inr (a @ b)))"
  by (induction es) (simp_all add: rbind_def split: sum.split)

lemma decodeOps_length: "decodeOps es = Inr c \<Longrightarrow> length es = length c"
  by (induction es arbitrary: c) (auto simp: rbind_Inr_iff)

lemma decodeOps_take:
  assumes "decodeOps es = Inr c"
  shows "decodeOps (take n es) = Inr (take n c)"
proof -
  have "rbind (decodeOps (take n es)) (\<lambda>a. rbind (decodeOps (drop n es)) (\<lambda>b. Inr (a @ b))) = Inr c"
    using assms unfolding decodeOps_append [symmetric] by simp
  then obtain a b where "decodeOps (take n es) = Inr a" "c = a @ b"
    by (auto simp: rbind_Inr_iff)
  then show ?thesis using decodeOps_length [of "take n es" a] decodeOps_length [OF assms]
    by (cases "b = []") (auto simp: min_def split: if_splits)
qed

lemma decoded_hash: "decodeOp b = Inr op \<Longrightarrow> \<exists>h. hashOp K op = Inr h"
  using decode_canonical [of b op] by (simp add: hashOp_def)

lemma decodeOps_hash: "decodeOps es = Inr c \<Longrightarrow> op \<in> set c \<Longrightarrow> \<exists>h. hashOp K op = Inr h"
  by (induction es arbitrary: c) (auto simp: rbind_Inr_iff intro: decoded_hash)

lemma headOf_decoded:
  assumes "decodeOps es = Inr c" "c \<noteq> []"
  shows "\<exists>h. headOf K c = Inr h"
proof -
  obtain h where "hashOp K (last c) = Inr h" using decodeOps_hash [OF assms(1) last_in_set [OF assms(2)]] by blast
  then show ?thesis using assms(2) by (simp add: headOf_def hashHex_def)
qed

lemma logOf_prefix:
  assumes "decodeOps es = Inr c" "valid_chain (en_crypto E) c" "0 < n" "n \<le> length es"
  shows "\<exists>log. logOf E None (take n es) = Inr (Some log) \<and> ml_ops log = take n c"
proof -
  have d: "decodeOps (take n es) = Inr (take n c)" "length es = length c" by (rule decodeOps_take [OF assms(1)], rule decodeOps_length [OF assms(1)])
  have ne: "take n c \<noteq> []" "take n es \<noteq> []" using assms(3,4) d(2) by auto
  obtain h where h: "headOf (en_crypto E) (take n c) = Inr h" using headOf_decoded [OF d(1) ne(1)] by blast
  have v: "valid_chain (en_crypto E) (take n c)"
    using valid_chain_prefix [OF assms(2) _ ne(1)] take_is_prefix by blast
  show ?thesis using openLog_ok [OF v h] ne by (simp add: logOf_def d(1))
qed

definition deliverChain :: "client_env \<Rightarrow> Client \<Rightarrow> jsstring \<Rightarrow> jsstring list \<Rightarrow> nat \<Rightarrow> Client" where
  "deliverChain E cl conv es n = foldl (receiveFrame E) cl (map (\<lambda>i. WsOpDeliver conv (int i) (es ! i)) [0..<n])"

lemma deliverChain_take:
  assumes d: "decodeOps es = Inr c" and v: "valid_chain (en_crypto E) c" and pin: "pinOf cl conv = None"
    and pre: "chainOf cl conv = take k es" "k \<le> length es" and n: "n \<le> length es"
  shows "chainOf (deliverChain E cl conv es n) conv = take (max k n) es \<and> pinOf (deliverChain E cl conv es n) conv = None"
  using n
proof (induction n)
  case 0
  then show ?case using pre pin by (simp add: deliverChain_def)
next
  case (Suc n)
  define cl' where "cl' = deliverChain E cl conv es n"
  have ch: "chainOf cl' conv = take (max k n) es" and p: "pinOf cl' conv = None" using Suc by (simp_all add: cl'_def)
  have step: "deliverChain E cl conv es (Suc n) = handleIncomingOp E cl' conv (int n) (es ! n)"
    by (simp add: deliverChain_def cl'_def receiveFrame_def)
  have "decodeOps (take (Suc n) es) = Inr (take (Suc n) c)" by (rule decodeOps_take [OF d])
  then have "\<exists>x. decodeOp (base64Decode (es ! n)) = Inr x"
    using Suc.prems by (auto simp: take_Suc_conv_app_nth decodeOps_snoc rbind_Inr_iff)
  moreover have "logOf E None (take (Suc n) es) \<noteq> Inr None"
    using logOf_prefix [OF d v, of "Suc n"] Suc.prems by auto
  ultimately show ?case
    using Suc.prems pre(2)
    by (cases "n < k"; cases "k = Suc n") (auto simp: step handleIncomingOp_ops ch p max_def take_Suc_conv_app_nth)
qed

text \<open>A joiner without a pin catches up: when the relay delivers the encoded ops of a verifying chain
  in order from genesis, to a client that holds any first part of them, the client ends with a
  log of exactly that chain.\<close>

theorem unpinned_joiner_catches_up:
  assumes "decodeOps es = Inr c" "verifyChain (en_crypto E) c = Inr ()" "pinOf cl conv = None"
    and "chainOf cl conv = take k es" "k \<le> length es"
  shows "\<exists>log. membershipLogFor E (deliverChain E cl conv es (length es)) conv = Inr (Some log) \<and> ml_ops log = c"
proof -
  have v: "valid_chain (en_crypto E) c" using assms(2) by (simp add: verifyChain_iff)
  have len: "length es = length c" by (rule decodeOps_length [OF assms(1)])
  have "chainOf (deliverChain E cl conv es (length es)) conv = es" "pinOf (deliverChain E cl conv es (length es)) conv = None"
    using deliverChain_take [OF assms(1) v assms(3-5), of "length es"] assms(5) by (auto simp: max_def)
  then show ?thesis
    using logOf_prefix [OF assms(1) v, of "length es"] valid_chain_nonempty [OF v] len by (simp add: membershipLogFor_logOf)
qed

theorem unpinned_joiner_catches_up_witness:
  "\<exists>log. membershipLogFor demoEnv (deliverChain demoEnv (demoClient []) (js ''c1'') (map demoEncoded demoChain) 3) (js ''c1'') = Inr (Some log)
     \<and> ml_ops log = demoChain"
proof -
  have "verifyChain (en_crypto demoEnv) demoChain = Inr ()" using demo_valid by (simp add: demoEnv_def verifyChain_iff)
  moreover have "pinOf (demoClient []) (js ''c1'') = None" "chainOf (demoClient []) (js ''c1'') = take 0 (map demoEncoded demoChain)"
    by (simp_all add: demoClient_def newClient_def cachedOps_def demoClientStores_def)
  ultimately show ?thesis
    using unpinned_joiner_catches_up [OF demo_decodes, of demoEnv "demoClient []" "js ''c1''" 0] by (simp add: demoChain_def eval_nat_numeral)
qed

subsection \<open>A restarted founder\<close>

lemma connect_service:
  assumes "clConnect E cl = (Inr (), cl')" "cl_service cl = None"
  shows "\<exists>sv. cl_service cl' = Some sv \<and> sv_chains sv = []"
proof -
  let ?cl1 = "clDisconnect cl"
  let ?cl2 = "pause E (?cl1\<lparr>cl_links := cl_links ?cl1 @ [connectLink (newLink (cl_token cl) (cl_deviceId cl))], cl_connectionState := Connecting\<rparr>)"
  have s: "cl_service ?cl2 = None" using assms(2) by (simp add: clDisconnect_def split: option.split)
  moreover have "cl' = (case cl_service ?cl2 of Some _ \<Rightarrow> ?cl2 | None \<Rightarrow> ?cl2\<lparr>cl_service := Some (newService ?cl2)\<rparr>)"
    using assms(1) unfolding clConnect_def clDisconnect_def Let_def by (auto split: option.splits bool.splits)
  ultimately show ?thesis by (simp add: newService_def)
qed

lemma author_unknown:
  assumes "cl_service cl = Some sv" "author (en_random E (cl_tick cl)) sv = (Inl x, sv)"
  shows "authorMembershipOp E cl conv author = cl\<lparr>cl_service := Some sv, cl_tick := Suc (cl_tick cl)\<rparr>"
  using assms by (simp add: authorMembershipOp_def Let_def)

lemma unknown_authors_nothing:
  assumes sv: "cl_service cl = Some sv" "map_of (sv_chains sv) conv = None"
  shows "evolves isSubscribe cl (snd (clInvite E cl conv u)) \<and> evolves isSubscribe cl (snd (clRemoveMember E cl conv u))"
proof -
  let ?a = "\<lambda>t. (\<lambda>entropy sv. svAppend (en_crypto E) entropy sv conv t (Some u) None None)"
  have a: "authorMembershipOp E cl1 conv (?a t) = cl1\<lparr>cl_service := Some sv, cl_tick := Suc (cl_tick cl1)\<rparr>"
    if "cl_service cl1 = Some sv" for cl1 t
    by (rule author_unknown [OF that]) (simp add: svAppend_def sv(2))
  have step: "evolves isSubscribe cl (snd (cbind (rest E void cl call) (\<lambda>_ cl1. (Inr (), snd (clListMembers E (authorMembershipOp E cl1 conv (?a t)) conv)))))"
    for call t
  proof (rule evolves_cbind [OF evolves_rest])
    fix x cl1
    assume "rest E void cl call = (Inr x, cl1)"
    then have "cl_service cl1 = Some sv" using rest_snd [of E void cl call] sv(1) by simp
    then have "evolves isSubscribe cl1 (authorMembershipOp E cl1 conv (?a t))"
      unfolding a [OF \<open>cl_service cl1 = Some sv\<close>] by (intro evolves_intros)
    then show "evolves isSubscribe cl1 (snd (Inr (), snd (clListMembers E (authorMembershipOp E cl1 conv (?a t)) conv)))"
      using evolves_trans [OF _ evolves_listMembers] by simp
  qed
  show ?thesis
    using step [of "RcInvite (cl_token cl) conv u" Invite] step [of "RcRemoveMember (cl_token cl) conv u" Remove]
    by (simp add: clInvite_def clRemoveMember_def svInvite_def svRemoveMember_def)
qed

lemma resume_service:
  assumes "resume E readRecord token userId username deviceId ident serialized nextId auto = Inr (Inr (), cl)"
  shows "\<exists>sv. cl_service cl = Some sv \<and> sv_chains sv = []"
proof -
  obtain cl0 where "clConnect E cl0 = (Inr (), cl)" "cl_service cl0 = None"
    using assms by (auto simp: resume_def Let_def newClient_def split: list.splits sum.splits option.splits prod.splits)
  then show ?thesis by (rule connect_service)
qed

text \<open>C27: a founder that restarts loses its authority: the service of a resumed client knows no
  conversation, whatever chains the restored stores hold, so inviting or removing a user calls the
  relay and puts no op on the wire, at most a subscription: the op log, which every
  receiver's gate goes by, never learns of the change.\<close>

theorem resumed_founder_authors_nothing:
  assumes "resume E readRecord token userId username deviceId ident serialized nextId auto = Inr (Inr (), cl)"
  shows "\<exists>ws vs. wires (snd (clInvite E cl conv u)) = wires cl @ ws \<and> (\<forall>f \<in> set ws. isSubscribe f)
    \<and> wires (snd (clRemoveMember E cl conv u)) = wires cl @ vs \<and> (\<forall>f \<in> set vs. isSubscribe f)"
proof -
  obtain sv where "cl_service cl = Some sv" "sv_chains sv = []" using resume_service [OF assms] by blast
  then show ?thesis
    using unknown_authors_nothing [of cl sv conv E u] by (auto simp: evolves_def)
qed

definition demoSaved :: SerializedClientStores where
  "demoSaved = clientToJSON ((demoClientStores (map demoEncoded demoChain))\<lparr>st_core :=
     (createStores [1, 2, 3] 7)\<lparr>co_signedPreKey := [(1, [])], co_kyberPreKey := \<lparr>kp_preKeys = [(1, [])], kp_usageLog = []\<rparr>\<rparr>\<rparr>)"

lemma demo_connects: "\<exists>cl. clConnect demoEnv (newClient i) = (Inr (), cl)"
proof -
  let ?l0 = "connectLink (newLink (ci_token i) (ci_deviceId i))"
  let ?ready = "EvMessage 0 (Some (js_of_frame WsReady))"
  let ?cl0 = "(newClient i)\<lparr>cl_links := [?l0], cl_connectionState := Connecting\<rparr>"
  have r: "WsReadyFrameSchema (js_of_frame WsReady) = Some WsReady"
    by (simp add: WsReadyFrameSchema_def js_of_frame_def z_object_def z_literal_def)
  have "lk_delivered (link_step ?l0 (EvOpen 0)) = lk_delivered ?l0"
    "lk_delivered (link_step (link_step ?l0 (EvOpen 0)) ?ready) = lk_delivered (link_step ?l0 (EvOpen 0))"
    "so_outcome (the (map_of (lk_sockets (link_step (link_step ?l0 (EvOpen 0)) ?ready)) 0)) = Some True"
    "map_of (lk_sockets (link_step (link_step ?l0 (EvOpen 0)) ?ready)) 0 \<noteq> None"
    by (simp_all add: link_defs newLink_def r)
  moreover from this(1,2) have "\<exists>s. pause demoEnv ?cl0 = ?cl0\<lparr>cl_tick := 1, cl_connectionState := s,
      cl_links := [link_step (link_step ?l0 (EvOpen 0)) ?ready]\<rparr>"
    by (simp add: pause_def demoEnv_def onLinkEvent_def fires_def Let_def newClient_def)
  ultimately show ?thesis
    by (auto simp: clConnect_def newClient_def currentLink_def Let_def)
qed

theorem resumed_founder_authors_nothing_witness:
  "\<exists>cl ws. resume demoEnv (\<lambda>_. Some noPreKey) (js ''t'') (js ''alice'') (js ''alice'') None demoIdentity demoSaved 1 None = Inr (Inr (), cl)
     \<and> wires (snd (clRemoveMember demoEnv cl (js ''c1'') (js ''carol''))) = wires cl @ ws \<and> list_all isSubscribe ws"
proof -
  have "\<exists>cl. resume demoEnv (\<lambda>_. Some noPreKey) (js ''t'') (js ''alice'') (js ''alice'') None demoIdentity demoSaved 1 None = Inr (Inr (), cl)"
    using demo_connects
    by (simp add: resume_def demoSaved_def clientToJSON_def coreToJSON_def signedPreKeyToJSON_def kyberToJSON_def encodeEntries_def
        createStores_def clientFromJSON_def coreFromJSON_def signedPreKeyFromJSON_def kyberFromJSON_def decodeEntries_def
        getSignedPreKey_def getKyberPreKey_def Let_def)
  then show ?thesis
    using resumed_founder_authors_nothing by (fastforce simp: list_all_iff)
qed

subsection \<open>Who a message is sent to\<close>

text \<open>C4: a message goes to the op-log's members only: every frame a send puts on the wire that carries
  a message is from this user, in this conversation, to another user, and that user is in the
  fold of the chain the client held when it fetched the roster, whatever the relay listed. (\<^verbatim>\<open>SECURITY.md\<close>
  still describes clients that encrypt for the list the relay reports; the code does not.)\<close>

theorem sends_only_within_fold:
  "\<exists>ws. wires (snd (sendRaw E cl conv p)) = wires cl @ ws
    \<and> (\<forall>u e. WsSend u e \<in> set ws \<longrightarrow> u \<noteq> cl_userId cl \<and> env_conversationId e = conv \<and> env_senderUserId e = cl_userId cl
         \<and> (\<exists>log. membershipLogFor E (snd (clListMembers E cl conv)) conv = Inr (Some log) \<and> u \<in> set (members (foldOps (ml_ops log)))))"
proof -
  obtain ws where "wires (snd (sendRaw E cl conv p)) = wires cl @ ws"
    "\<forall>w \<in> set ws. fromTo conv (cl_userId cl) {u. u \<noteq> cl_userId cl \<and> memberOf E (snd (clListMembers E cl conv)) conv u} w"
    using evolves_sendRaw [of conv cl E p] by (auto simp: evolves_def)
  then show ?thesis
    by (intro exI [of _ ws]) (force simp: fromTo_def memberOf_def)
qed

lemma demo_roster_log:
  "membershipLogFor demoEnv (snd (clListMembers demoEnv (demoClient (map demoEncoded demoChain)) (js ''c1''))) (js ''c1'') = Inr (Some demoLog)"
proof -
  let ?cl = "demoClient (map demoEncoded demoChain)"
  have p: "pause demoEnv (?cl\<lparr>cl_calls := cs\<rparr>) = ?cl\<lparr>cl_calls := cs, cl_tick := 2\<rparr>" for cs
    by (simp add: pause_def demoEnv_def demoClient_def)
  have same: "chainOf c (js ''c1'') = chainOf ?cl (js ''c1'') \<Longrightarrow> cl_joinPins c = cl_joinPins ?cl \<Longrightarrow>
      membershipLogFor demoEnv c (js ''c1'') = Inr (Some demoLog)" for c
    using demoClient_log unfolding membershipLogFor_logOf by simp
  have "membershipLogFor demoEnv (syncRoster (?cl\<lparr>cl_calls := cs, cl_tick := 2\<rparr>) (js ''c1'') now raw mode) (js ''c1'') = Inr (Some demoLog)" for cs now raw mode
    by (rule same) (simp_all add: syncRoster_ops)
  moreover have "membershipLogFor demoEnv (?cl\<lparr>cl_calls := cs, cl_tick := 2\<rparr>) (js ''c1'') = Inr (Some demoLog)" for cs
    by (rule same) simp_all
  ultimately show ?thesis
    by (auto simp: listMembers_snd rest_def p awaitChainReady_def split: option.split)
qed

theorem sends_only_within_fold_witness:
  "\<exists>ws. wires (snd (sendRaw demoEnv (demoClient (map demoEncoded demoChain)) (js ''c1'') demoMessage)) = ws
     \<and> \<not> (\<exists>e. WsSend (js ''bob'') e \<in> set ws)"
proof -
  have "wires (demoClient (map demoEncoded demoChain)) = []" by (simp add: wires_def demoClient_def newClient_def)
  moreover have "js ''bob'' \<notin> set (members (foldOps (ml_ops demoLog)))"
    using demo_members by (simp add: demoLog_def js_def)
  ultimately show ?thesis
    using sends_only_within_fold [of demoEnv "demoClient (map demoEncoded demoChain)" "js ''c1''" demoMessage] demo_roster_log
    by fastforce
qed

end
