(* ===== verification/AgentSafety.thy ===== *)
theory AgentSafety
  imports AgentProps ClientChain
begin

section \<open>Theorems about the AI member\<close>

text \<open>
  Of every run: conversations stay isolated (\<open>agent_isolation\<close>) and apologies keep their distance
  (\<open>apology_cooldown\<close>). Of one message: when it is answered and what happens to the counter
  (\<open>reply_cadence\<close>). Of one reconcile: a roster that is empty because no chain is held counts as
  removal (\<open>empty_roster_purges\<close>).
\<close>

subsection \<open>Starting\<close>

definition fresh :: "Agent \<Rightarrow> bool" where
  "fresh ag \<longleftrightarrow> ag_requests ag = [] \<and> ag_replies ag = [] \<and> ag_apologies ag = [] \<and> ag_lastDegradeAt ag = [] \<and> queue_ok ag"

definition windowTexts :: "agent_env \<Rightarrow> AgentStore \<Rightarrow> jsstring \<Rightarrow> jsstring set" where
  "windowTexts A a conv = (case loadContext (av_seal A) (av_contextCodec A) a conv of Inl _ \<Rightarrow> {} | Inr w \<Rightarrow> cx_content ` set w)"

lemma calm_reconcileEach: "calm A ag (snd (reconcileEach A ag convs))"
  by (induction convs arbitrary: ag) (auto intro!: calm_abind calm_reconcile)

lemma calm_boot:
  assumes "boot A a k = Inr (r, ag)"
  shows "\<exists>cl. calm A (newAgent cl a k) ag"
proof -
  obtain ag1 where b: "bootClient A a k = Inr ag1" "abind (reconcileAll A ag1) (\<lambda>_ ag'. (Inr (), startReconcileSweep A ag')) = (r, ag)"
    using assms by (auto simp: boot_def split: sum.splits)
  have sw: "calm A ag' (startReconcileSweep A ag')" for ag' by (auto simp: calm_def startReconcileSweep_def)
  have "calm A ag1 (snd (abind (reconcileAll A ag1) (\<lambda>_ ag'. (Inr (), startReconcileSweep A ag'))))"
    unfolding reconcileAll_def using calm_reconcileEach sw by (auto intro!: calm_abind)
  then have "calm A ag1 ag" by (simp add: b(2))
  moreover have "\<exists>cl. calm A (newAgent cl a k) ag1"
    using b(1) by (auto simp: bootClient_def split: sum.splits option.splits prod.splits)
  ultimately show ?thesis using calm_trans by blast
qed

text \<open>A booted agent starts with what its store holds.\<close>

lemma boot_fresh:
  assumes "boot A a k = Inr (r, ag)"
  shows "fresh ag" "windowTexts A (ag_store ag) conv \<subseteq> windowTexts A a conv"
proof -
  obtain cl where c: "calm A (newAgent cl a k) ag" using calm_boot [OF assms] by blast
  then show "fresh ag" by (auto simp: calm_def fresh_def newAgent_def queue_ok_def)
  have "context_of A ag conv = Inr w \<Longrightarrow> w = [] \<or> loadContext (av_seal A) (av_contextCodec A) a conv = Inr w" for w
    using c by (auto simp: calm_def newAgent_def)
  then show "windowTexts A (ag_store ag) conv \<subseteq> windowTexts A a conv"
    by (cases "context_of A ag conv") (auto simp: windowTexts_def)
qed

lemma fresh_isolation: "fresh ag \<Longrightarrow> isolation A (windowTexts A (ag_store ag)) ag"
  by (auto simp: fresh_def isolation_def isolated_def spoken_def windowTexts_def queue_ok_def)

lemma fresh_spaced: "fresh ag \<Longrightarrow> spaced ag"
  by (simp add: fresh_def spaced_def apologyTimes_def)

subsection \<open>Isolation\<close>

text \<open>C33: conversations are isolated: in every run of an agent, each request it makes to the language model
  for a conversation holds only texts of that conversation (its stored window at the start, messages
  other users sent in it, replies the agent sent in it), its system prompt is the configured
  one, possibly with the local notes retrieved for such a text, and each reply sent in the conversation is the
  model's answer to a request of the same conversation.\<close>

theorem agent_isolation:
  assumes "agent_env_ok A" "fresh ag0" "agent_run A ag0 ag" "(conv, req) \<in> set (ag_requests ag)"
  shows "snd ` set (lr_messages req) \<subseteq> spoken (windowTexts A (ag_store ag0)) ag conv
    \<and> prompt_for A (spoken (windowTexts A (ag_store ag0)) ag conv) (lr_system req)
    \<and> (\<forall>t. (conv, t) \<in> set (ag_replies ag) \<longrightarrow> (\<exists>req' n. (conv, req') \<in> set (ag_requests ag) \<and> av_llm A n req' = Some t))"
proof -
  have "isolated A (windowTexts A (ag_store ag0)) ag"
    using iso.keep_run [OF assms(3) fresh_isolation [OF assms(2)]] assms(1) by (simp add: isolation_def)
  then show ?thesis using isolatedD(3,4) assms(4) by blast
qed

text \<open>In every run, two apologies for a failing language model in the same conversation are at least
  the cooldown of 30 seconds apart on the agent's clock.\<close>

theorem apology_cooldown:
  assumes "fresh ag0" "agent_run A ag0 ag"
  shows "successively (\<lambda>s t. s + DEGRADE_COOLDOWN_MS \<le> t) (apologyTimes ag conv)"
  using spc.keep_run [OF assms(2) fresh_spaced [OF assms(1)]] by (simp add: spaced_def)

subsection \<open>When a message is answered\<close>

lemma loadConvMeta_others [simp]:
  "loadConvMeta S C (saveState S' C' iv a s) = loadConvMeta S C a" "loadConvMeta S C (saveContext S' C'' iv a conv w) = loadConvMeta S C a"
  by (simp_all add: fun_eq_iff loadConvMeta_def saveState_def saveContext_def split: option.split)

lemma load_saveConvMeta:
  assumes "seal_ok S" "codec_ok C" "length iv = 12"
  shows "loadConvMeta S C (saveConvMeta S C iv a conv meta) c = (if c = conv then Inr meta else loadConvMeta S C a c)"
  by (auto simp: loadConvMeta_def saveConvMeta_def map_of_amap_set decode_encode [OF assms] split: option.splits)

lemma store_kept [simp]:
  "ag_store (queueReports ag) = ag_store ag" "ag_store (snd (onClient f ag)) = ag_store ag" "ag_store (handleInbox A ag) = ag_store ag"
  "ag_store (logPlaintext A msg ag) = ag_store ag" "ag_store (snd (degrade A ag conv)) = ag_store ag"
  by (simp_all add: snd_onClient queueReports_def Let_def handleInbox_def logPlaintext_def degrade_def)

lemma store_during [simp]: "ag_store (during A ag) = ag_store ag"
proof -
  have "ag_store ((handleInbox A ^^ n) ag') = ag_store ag'" for n ag' by (induction n) simp_all
  then show ?thesis by (simp add: during_def)
qed

lemma meta_saveMeta:
  "agent_env_ok A \<Longrightarrow> meta_of A (saveMeta A ag conv meta) conv = Inr meta"
  by (simp add: saveMeta_def agent_env_ok_def load_saveConvMeta)

lemma meta_appendTurn: "appendTurn A ag conv m = (r, ag') \<Longrightarrow> meta_of A ag' c = meta_of A ag c"
  by (auto simp: appendTurn_def appendContext_def Let_def split: option.splits sum.splits)

lemma abind_Inr: "abind r f = (Inr y, ag') \<longleftrightarrow> (\<exists>x ag1. r = (Inr x, ag1) \<and> f x ag1 = (Inr y, ag'))"
  by (auto simp: abind_def split: prod.splits sum.splits)

lemma abind_Pair: "abind (Inr x, ag) f = f x ag"
  by (simp add: abind_def)

lemma onClient_Inr:
  assumes "onClient f ag = (Inr x, ag')" "\<And>cl. evolves W cl (snd (f cl))"
  shows "calm A ag ag'" "ag_store ag' = ag_store ag"
  using calm_onClient [of W f A ag] assms store_kept(2) [of f ag] by simp_all

lemma sendReply_effect:
  assumes ok: "agent_env_ok A" and meta: "meta_of A ag conv = Inr meta" and s: "sendReply A ag conv text = (Inr (), ag')"
  shows "ag_requests ag' = ag_requests ag \<and> ag_replies ag' = ag_replies ag @ [(conv, text)]
    \<and> meta_of A ag' conv = Inr (meta\<lparr>me_humanSinceLastReply := 0\<rparr>)"
proof -
  obtain x ag1 ag2 ag3 where 1: "onClient (\<lambda>cl. clSend (av_client A) cl conv text []) ag = (Inr x, ag1)"
    and 2: "ag2 = logPlaintext A (js ''send '' @ conv @ js '': '' @ text) (ag1\<lparr>ag_replies := ag_replies ag1 @ [(conv, text)]\<rparr>)"
    and 3: "appendTurn A ag2 conv \<lparr>cx_role = Assistant, cx_content = text, cx_sentAt = en_now (av_client A) (cl_tick (ag_client ag2))\<rparr> = (Inr (), ag3)"
    and 4: "\<exists>meta'. meta_of A ag3 conv = Inr meta' \<and> ag' = saveMeta A ag3 conv (meta'\<lparr>me_humanSinceLastReply := 0\<rparr>)"
    using s by (auto simp: sendReply_def Let_def abind_Inr loadMeta_Inr)
  have c: "calm A ag ag1" "ag_store ag1 = ag_store ag" using onClient_Inr [OF 1 evolves_clSend] by auto
  have "meta_of A ag3 conv = Inr meta"
    using meta meta_appendTurn [OF 3, of conv] by (simp add: 2 c(2))
  then have ag': "ag' = saveMeta A ag3 conv (meta\<lparr>me_humanSinceLastReply := 0\<rparr>)" using 4 by simp
  have "ag_requests ag3 = ag_requests ag2" "ag_replies ag3 = ag_replies ag2"
    using appendTurn_frame(3,4) [of A ag2 conv] 3 by (metis snd_conv)+
  then show ?thesis
    using c(1) meta_saveMeta [OF ok] by (simp add: ag' 2 calm_def logPlaintext_def) (simp add: saveMeta_def)
qed

lemma reply_effect:
  assumes ok: "agent_env_ok A" and meta: "meta_of A ag conv = Inr meta" and r: "agReply A ag conv = (Inr (), ag')"
  shows "\<exists>w. context_of A ag conv = Inr w \<and> ag_requests ag' = ag_requests ag @ [(conv, requestFor A ag w)]
    \<and> ((\<exists>t. ag_replies ag' = ag_replies ag @ [(conv, t)] \<and> meta_of A ag' conv = Inr (meta\<lparr>me_humanSinceLastReply := 0\<rparr>))
       \<or> ag_replies ag' = ag_replies ag \<and> meta_of A ag' conv = Inr meta)"
proof -
  obtain w where w: "context_of A ag conv = Inr w" using r by (auto simp: agReply_def abind_Inr fromStore_Inr)
  define ag2 where "ag2 = ag\<lparr>ag_knowledge := snd (systemFor A ag w), ag_requests := ag_requests ag @ [(conv, requestFor A ag w)]\<rparr>"
  have d: "ag_requests (during A ag2) = ag_requests ag @ [(conv, requestFor A ag w)]" "ag_replies (during A ag2) = ag_replies ag"
    using calm_during [of A ag2] by (simp_all add: calm_def ag2_def)
  have m: "meta_of A (during A ag2) conv = Inr meta" using meta by (simp add: ag2_def)
  show ?thesis
  proof (cases "av_llm A (cl_tick (ag_client ag)) (requestFor A ag w)")
    case None
    then have "degrade A (during A ag2) conv = (Inr (), ag')"
      using r w by (simp add: agReply_def fromStore_def abind_def ag2_def [symmetric])
    then have "ag' = snd (degrade A (during A ag2) conv)" by simp
    moreover have "ag_requests (snd (degrade A b conv)) = ag_requests b" "ag_replies (snd (degrade A b conv)) = ag_replies b" for b
      by (auto simp: degrade_def Let_def snd_onClient queueReports_def)
    ultimately show ?thesis using w d m by simp
  next
    case (Some t)
    then have "sendReply A (during A ag2) conv t = (Inr (), ag')"
      using r w by (simp add: agReply_def fromStore_def abind_def ag2_def [symmetric])
    from sendReply_effect [OF ok m this] show ?thesis using w d by auto
  qed
qed

lemma appended_last:
  assumes ok: "agent_env_ok A" and limit: "1 \<le> ac_contextMaxMessages (av_config A)"
    and a: "appendTurn A ag conv m = (Inr (), ag')"
  shows "\<exists>w. context_of A ag' conv = Inr w \<and> w \<noteq> [] \<and> last w = m"
proof -
  obtain w where w: "context_of A ag conv = Inr w"
    using a by (cases "context_of A ag conv") (auto simp: appendTurn_def appendContext_def)
  let ?w = "trimTokens (ac_contextMaxTokens (av_config A)) (drop (length (w @ [m]) - nat (ac_contextMaxMessages (av_config A))) (w @ [m]))"
  have "ag_store ag' = saveContext (av_seal A) (av_contextCodec A) (av_iv A (ag_ivs ag)) (ag_store ag) conv ?w"
    using a w limit by (auto simp: appendTurn_def appendContext_def ctxOpts_def trimCount_eq Let_def)
  then have "context_of A ag' conv = Inr ?w" using ok by (simp add: load_saveContext agent_env_ok_def)
  then show ?thesis using window_spec [of "ac_contextMaxMessages (av_config A)", OF _ refl] limit by auto
qed

text \<open>A message first becomes a turn and a count; then the reply is asked for or not.\<close>

lemma onMemberMessage_stages:
  assumes ok: "agent_env_ok A" and meta: "meta_of A ag1 (im_conversationId m) = Inr meta" and mm: "onMemberMessage A ag1 c m = (Inr (), ag')"
    and cv: "cv = im_conversationId m" and turn: "turn = \<lparr>cx_role = User, cx_content = im_text m, cx_sentAt = im_sentAt m\<rparr>"
    and go: "go \<longleftrightarrow> isMentioned A (ag_client ag1) m \<or> cc_aiMode c \<and> int (Suc (me_humanSinceLastReply meta)) \<ge> ac_activeCapN (av_config A)"
    and meta': "meta' = meta\<lparr>me_humanSinceLastReply := Suc (me_humanSinceLastReply meta)\<rparr>"
  obtains ag2 ag3 ag4 where "appendTurn A (logPlaintext A (recvLine m) ag1) cv turn = (Inr (), ag2)"
    "ag_client ag3 = ag_client ag1" "ag_requests ag3 = ag_requests ag1" "ag_replies ag3 = ag_replies ag1"
    "context_of A ag3 cv = context_of A ag2 cv" "meta_of A ag3 cv = Inr meta'"
    "(if go then agReply A ag3 cv else (Inr (), ag3)) = (Inr (), ag4)"
    "ag_requests ag' = ag_requests ag4" "ag_replies ag' = ag_replies ag4" "ag_client ag' = ag_client ag4" "meta_of A ag' cv = meta_of A ag4 cv"
proof -
  obtain ag2 where a: "appendTurn A (logPlaintext A (recvLine m) ag1) cv turn = (Inr (), ag2)"
    using mm by (auto simp: onMemberMessage_def Let_def abind_Inr cv turn)
  have fr: "ag_client ag2 = ag_client ag1" "ag_requests ag2 = ag_requests ag1" "ag_replies ag2 = ag_replies ag1"
    using appendTurn_frame [of A "logPlaintext A (recvLine m) ag1" cv turn] a by (simp_all add: logPlaintext_def split: if_splits)
  have m2: "meta_of A ag2 cv = Inr meta" using meta_appendTurn [OF a, of cv] meta by (simp add: cv)
  define ag3 where "ag3 = saveMeta A ag2 cv meta'"
  have f3: "ag_client ag3 = ag_client ag1" "ag_requests ag3 = ag_requests ag1" "ag_replies ag3 = ag_replies ag1"
    "context_of A ag3 cv = context_of A ag2 cv"
    by (simp_all add: ag3_def saveMeta_def fr)
  have "loadMeta A ag2 cv = (Inr meta, ag2)" using m2 by (simp add: loadMeta_Inr)
  then have "onMemberMessage A ag1 c m = abind (if go then agReply A ag3 cv else (Inr (), ag3)) (\<lambda>_ ag4. (Inr (), persist A ag4))"
    unfolding onMemberMessage_def Let_def cv [symmetric] turn [symmetric] a abind_Pair go
    by (simp add: abind_Pair meta' [symmetric] ag3_def [symmetric] f3(1))
  then have "abind (if go then agReply A ag3 cv else (Inr (), ag3)) (\<lambda>_ ag4. (Inr (), persist A ag4)) = (Inr (), ag')"
    using mm by simp
  then obtain ag4 where r: "(if go then agReply A ag3 cv else (Inr (), ag3)) = (Inr (), ag4)" and ag': "ag' = persist A ag4"
    by (auto simp: abind_Inr)
  have "meta_of A ag3 cv = Inr meta'" unfolding ag3_def by (rule meta_saveMeta [OF ok])
  then show ?thesis using that [OF a f3 _ r] by (simp add: ag' persist_def)
qed

lemma onMemberMessage_effect:
  assumes ok: "agent_env_ok A" and limit: "1 \<le> ac_contextMaxMessages (av_config A)"
    and meta: "meta_of A ag1 (im_conversationId m) = Inr meta" and mm: "onMemberMessage A ag1 c m = (Inr (), ag')"
  shows "if isMentioned A (ag_client ag1) m \<or> cc_aiMode c \<and> int (Suc (me_humanSinceLastReply meta)) \<ge> ac_activeCapN (av_config A)
    then (\<exists>req. ag_requests ag' = ag_requests ag1 @ [(im_conversationId m, req)] \<and> lr_messages req \<noteq> [] \<and> last (lr_messages req) = (User, im_text m))
      \<and> ((\<exists>t. ag_replies ag' = ag_replies ag1 @ [(im_conversationId m, t)] \<and> meta_of A ag' (im_conversationId m) = Inr (meta\<lparr>me_humanSinceLastReply := 0\<rparr>))
         \<or> ag_replies ag' = ag_replies ag1 \<and> meta_of A ag' (im_conversationId m) = Inr (meta\<lparr>me_humanSinceLastReply := Suc (me_humanSinceLastReply meta)\<rparr>))
    else ag_requests ag' = ag_requests ag1 \<and> ag_replies ag' = ag_replies ag1 \<and> ag_client ag' = ag_client ag1
      \<and> meta_of A ag' (im_conversationId m) = Inr (meta\<lparr>me_humanSinceLastReply := Suc (me_humanSinceLastReply meta)\<rparr>)"
proof -
  define cv where "cv = im_conversationId m"
  define turn where "turn = \<lparr>cx_role = User, cx_content = im_text m, cx_sentAt = im_sentAt m\<rparr>"
  define go where "go \<longleftrightarrow> isMentioned A (ag_client ag1) m \<or> cc_aiMode c \<and> int (Suc (me_humanSinceLastReply meta)) \<ge> ac_activeCapN (av_config A)"
  define meta' where "meta' = meta\<lparr>me_humanSinceLastReply := Suc (me_humanSinceLastReply meta)\<rparr>"
  obtain ag2 ag3 ag4 where a: "appendTurn A (logPlaintext A (recvLine m) ag1) cv turn = (Inr (), ag2)"
    and f3: "ag_client ag3 = ag_client ag1" "ag_requests ag3 = ag_requests ag1" "ag_replies ag3 = ag_replies ag1"
      "context_of A ag3 cv = context_of A ag2 cv"
    and m3: "meta_of A ag3 cv = Inr meta'" and r: "(if go then agReply A ag3 cv else (Inr (), ag3)) = (Inr (), ag4)"
    and p: "ag_requests ag' = ag_requests ag4" "ag_replies ag' = ag_replies ag4" "ag_client ag' = ag_client ag4" "meta_of A ag' cv = meta_of A ag4 cv"
    by (rule onMemberMessage_stages [OF ok meta mm cv_def turn_def go_def meta'_def])
  show ?thesis
  proof (cases go)
    case False
    then have "ag4 = ag3" using r by simp
    then show ?thesis
      unfolding go_def [symmetric] cv_def [symmetric] meta'_def [symmetric] using False f3 m3 p by simp
  next
    case True
    then obtain w where w: "context_of A ag3 cv = Inr w" "ag_requests ag4 = ag_requests ag3 @ [(cv, requestFor A ag3 w)]"
      "(\<exists>t. ag_replies ag4 = ag_replies ag3 @ [(cv, t)] \<and> meta_of A ag4 cv = Inr (meta'\<lparr>me_humanSinceLastReply := 0\<rparr>))
       \<or> ag_replies ag4 = ag_replies ag3 \<and> meta_of A ag4 cv = Inr meta'"
      using reply_effect [OF ok m3, of ag4] r by auto
    have "w \<noteq> []" "last w = turn" using appended_last [OF ok limit a] w(1) f3(4) by auto
    then have "lr_messages (requestFor A ag3 w) \<noteq> []" "last (lr_messages (requestFor A ag3 w)) = (User, im_text m)"
      by (simp_all add: requestFor_def last_map turn_def)
    moreover have "meta'\<lparr>me_humanSinceLastReply := 0\<rparr> = meta\<lparr>me_humanSinceLastReply := 0\<rparr>" by (simp add: meta'_def)
    ultimately show ?thesis
      unfolding go_def [symmetric] cv_def [symmetric] meta'_def [symmetric] using True w f3 p by auto
  qed
qed

text \<open>C34: a message from another user is answered exactly when it mentions the agent or the conversation is in
  active mode and the configured number of human messages has passed since the last reply: then one request
  is made, from the window that ends with this message, and the counter becomes 0 if the reply is sent, one
  more if the model fails; otherwise nothing is asked or sent, and the counter grows by one.\<close>

theorem reply_cadence:
  assumes ok: "agent_env_ok A" and limit: "1 \<le> ac_contextMaxMessages (av_config A)"
    and other: "im_senderUserId m \<noteq> cl_userId (ag_client ag)"
    and rec: "reconcileConversation A ag (im_conversationId m) = (Inr (), ag1)"
    and conv: "map_of (conversations_of (ag_client ag1)) (im_conversationId m) = Some c" "map_of (cc_members c) (cl_userId (ag_client ag1)) \<noteq> None"
    and meta: "meta_of A ag1 (im_conversationId m) = Inr meta"
    and handled: "agOnMessage A ag m = (Inr (), ag')"
  shows "if isMentioned A (ag_client ag1) m \<or> cc_aiMode c \<and> int (Suc (me_humanSinceLastReply meta)) \<ge> ac_activeCapN (av_config A)
    then (\<exists>req. ag_requests ag' = ag_requests ag1 @ [(im_conversationId m, req)] \<and> lr_messages req \<noteq> [] \<and> last (lr_messages req) = (User, im_text m))
      \<and> ((\<exists>t. ag_replies ag' = ag_replies ag1 @ [(im_conversationId m, t)] \<and> meta_of A ag' (im_conversationId m) = Inr (meta\<lparr>me_humanSinceLastReply := 0\<rparr>))
         \<or> ag_replies ag' = ag_replies ag1 \<and> meta_of A ag' (im_conversationId m) = Inr (meta\<lparr>me_humanSinceLastReply := Suc (me_humanSinceLastReply meta)\<rparr>))
    else ag_requests ag' = ag_requests ag1 \<and> ag_replies ag' = ag_replies ag1 \<and> ag_client ag' = ag_client ag1
      \<and> meta_of A ag' (im_conversationId m) = Inr (meta\<lparr>me_humanSinceLastReply := Suc (me_humanSinceLastReply meta)\<rparr>)"
proof -
  have "onMemberMessage A ag1 c m = (Inr (), ag')"
    using handled other rec conv by (simp add: agOnMessage_def abind_def)
  then show ?thesis by (rule onMemberMessage_effect [OF ok limit meta])
qed

subsection \<open>An empty roster\<close>

lemma listMembers_empty:
  assumes "tr_members (en_transport E) (cl_tick cl) (RcListMembers (cl_token cl) conv) = Some (raw, mode)"
    and "membershipLogFor E (snd (clListMembers E cl conv)) conv = Inr None"
  shows "\<exists>cl'. clListMembers E cl conv = (Inr [], cl')"
proof -
  define cl1 where "cl1 = pause E (cl\<lparr>cl_calls := cl_calls cl @ [RcListMembers (cl_token cl) conv]\<rparr>)"
  obtain r cl2 where a: "awaitChainReady E (syncRoster cl1 conv (en_now E (cl_tick cl1)) raw mode) conv = (r, cl2)" by force
  have l: "clListMembers E cl conv = (case r of Inl e \<Rightarrow> (Inl (Thrown e), cl2) | Inr _ \<Rightarrow>
      (case membershipLogFor E cl2 conv of Inl e \<Rightarrow> (Inl (Thrown e), cl2) | Inr None \<Rightarrow> (Inr [], cl2)
       | Inr (Some log) \<Rightarrow> (case logMembers log of Inl e \<Rightarrow> (Inl (Thrown e), cl2)
           | Inr au \<Rightarrow> (case roster E cl2 conv au raw of None \<Rightarrow> (Inl UndefinedRead, cl2) | Some ms \<Rightarrow> (Inr ms, cl2)))))"
    by (simp add: clListMembers_def rest_def assms(1) cbind_def cl1_def [symmetric] a)
  then have cl2: "snd (clListMembers E cl conv) = cl2" by (simp split: sum.split option.split)
  have "r = membershipLogFor E cl2 conv"
    using a by (auto simp: awaitChainReady_def Let_def split: if_splits)
  then show ?thesis using assms(2) unfolding cl2 by (simp add: l)
qed

text \<open>C36: a roster that is empty because the client holds no verifying chain counts as removal: although the relay
  lists the agent as a member, reconciling the conversation purges its context window and its mode
  bookkeeping, the greeted flag with it, and drops the cached conversation.\<close>

theorem empty_roster_purges:
  assumes "tr_members (en_transport (av_client A)) (cl_tick (ag_client ag)) (RcListMembers (cl_token (ag_client ag)) conv) = Some (raw, mode)"
    and "cl_userId (ag_client ag) \<in> cm_userId ` set raw"
    and "membershipLogFor (av_client A) (snd (clListMembers (av_client A) (ag_client ag) conv)) conv = Inr None"
  shows "\<exists>ag'. reconcileConversation A ag conv = (Inr (), ag') \<and> context_of A ag' conv = Inr [] \<and> meta_of A ag' conv = Inr DEFAULT_META
    \<and> map_of (conversations_of (ag_client ag')) conv = None"
proof -
  obtain cl' where cl': "clListMembers (av_client A) (ag_client ag) conv = (Inr [], cl')"
    using listMembers_empty [OF assms(1,3)] by blast
  let ?ag = "queueReports (ag\<lparr>ag_client := cl'\<rparr>)"
  have "onClient (\<lambda>cl. clListMembers (av_client A) cl conv) ag = (Inr [], ?ag)"
    by (simp add: onClient_def cl')
  then have r: "reconcileConversation A ag conv = (Inr (), handleSelfRemoval A ?ag conv)"
    by (simp add: reconcileConversation_def)
  have "loadConvMeta S C (purgeContext a conv) conv = Inr DEFAULT_META" for S C a
    by (simp add: loadConvMeta_def purgeContext_def map_of_amap_del)
  then show ?thesis
    unfolding r by (simp add: handleSelfRemoval_def Let_def persist_def loadContext_purge map_of_amap_del)
qed

subsection \<open>A concrete agent\<close>

text \<open>Alice is the agent; Carol writes in \<^verbatim>\<open>c1\<close>, the relay does not answer and the language model fails.\<close>

definition demoMetaCodec :: "ConversationMeta codec" where
  "demoMetaCodec = \<lparr>cd_text = (\<lambda>m. (if me_greeted m then 1 else 0) # replicate (me_humanSinceLastReply m) 0),
     cd_value = (\<lambda>b. Some \<lparr>me_greeted = (hd b = 1), me_humanSinceLastReply = length (tl b)\<rparr>)\<rparr>"

definition demoAgentEnv :: "(ConversationMember list \<times> bool) option \<Rightarrow> agent_env" where
  "demoAgentEnv listed = \<lparr>av_client = demoEnv\<lparr>en_transport := demoTransport\<lparr>tr_members := (\<lambda>_ _. listed)\<rparr>, en_now := (\<lambda>_. 40000)\<rparr>,
     av_config = loadAgentConfig (\<lambda>_. None), av_seal = demoSeal,
     av_stateCodec = \<lparr>cd_text = (\<lambda>_. []), cd_value = (\<lambda>_. None)\<rparr>, av_contextCodec = demoCodec, av_metaCodec = demoMetaCodec,
     av_iv = (\<lambda>_. replicate 12 0), av_llm = (\<lambda>_ _. None), av_inbox = (\<lambda>_. 0), av_lower = (\<lambda>s. s), av_files = (\<lambda>_. None),
     av_keyPair = (\<lambda>_. []), av_readIdentity = (\<lambda>_ _. demoIdentity), av_readRecord = (\<lambda>_. None), av_newIdentity = demoIdentity\<rparr>"

definition demoAsk :: IncomingMessage where
  "demoAsk = \<lparr>im_conversationId = js ''c1'', im_senderUserId = js ''carol'', im_senderDeviceId = 1, im_text = js ''@ai hi'', im_mentions = [],
     im_sentAt = 5, im_msgId = js ''m1''\<rparr>"

definition demoConversation :: CachedConversation where
  "demoConversation = \<lparr>cc_members = [(js ''alice'', \<lparr>mc_deviceIds = [1], mc_joinedAt = 0\<rparr>)], cc_aiMode = False, cc_adminUserId = None, cc_membershipOps = []\<rparr>"

definition demoAgent :: Agent where
  "demoAgent = newAgent ((setConversation (demoClient []) (js ''c1'') demoConversation)\<lparr>cl_messages := [demoAsk]\<rparr>)
     \<lparr>as_db = emptyAgentDb, as_key = None\<rparr> None"

lemma demoAgentEnv_ok: "agent_env_ok (demoAgentEnv listed)"
proof -
  have "codec_ok demoMetaCodec" by (simp add: codec_ok_def demoMetaCodec_def)
  then show ?thesis by (simp add: agent_env_ok_def demoAgentEnv_def demoSeal_ok demoCodec_ok)
qed

lemma demoAgent_pause:
  "pause (av_client (demoAgentEnv listed)) ((ag_client demoAgent)\<lparr>cl_calls := cs\<rparr>) = (ag_client demoAgent)\<lparr>cl_calls := cs, cl_tick := 2\<rparr>"
  by (simp add: pause_def demoAgentEnv_def demoEnv_def demoAgent_def newAgent_def demoClient_def setConversation_def)

definition demoAfter :: Agent where
  "demoAfter = demoAgent\<lparr>ag_client := (ag_client demoAgent)\<lparr>cl_calls := [RcListMembers (js ''t'') (js ''c1'')], cl_tick := 2\<rparr>\<rparr>"

lemma demo_reconciled: "reconcileConversation (demoAgentEnv None) demoAgent (js ''c1'') = (Inr (), demoAfter)"
proof -
  have "clListMembers (av_client (demoAgentEnv None)) (ag_client demoAgent) (js ''c1'')
      = (Inl (RestFailed []), (ag_client demoAgent)\<lparr>cl_calls := [RcListMembers (js ''t'') (js ''c1'')], cl_tick := 2\<rparr>)"
    using demoAgent_pause [of None]
    by (simp add: clListMembers_def rest_def cbind_def)
      (simp add: demoAgentEnv_def demoAgent_def newAgent_def demoClient_def newClient_def demoTransport_def setConversation_def)
  moreover have "\<not> isForbidden (RestFailed [])"
    by (simp add: isForbidden_def status403_def js_includes_def js_def)
  ultimately show ?thesis
    by (simp add: reconcileConversation_def onClient_def queueReports_def Let_def demoAfter_def)
      (simp add: demoAgent_def newAgent_def)
qed

lemma demo_mentioned: "isMentioned (demoAgentEnv None) (ag_client demoAfter) demoAsk"
proof -
  have "js_includes (js ''@ai hi'') (js ''@ai'')" by code_simp
  then show ?thesis by (simp add: isMentioned_def demoAgentEnv_def loadAgentConfig_def orElse_def demoAsk_def)
qed

text \<open>A mention is handled to the end even if the language model fails.\<close>

lemma mention_degrades:
  assumes ok: "agent_env_ok A" and limit: "0 \<le> ac_contextMaxMessages (av_config A)"
    and ctx: "context_of A ag (im_conversationId m) = Inr w" and meta: "meta_of A ag (im_conversationId m) = Inr meta"
    and ment: "isMentioned A (ag_client ag) m" and llm: "\<And>n req. av_llm A n req = None"
  shows "\<exists>ag' req. onMemberMessage A ag c m = (Inr (), ag') \<and> ag_requests ag' = ag_requests ag @ [(im_conversationId m, req)]"
proof -
  let ?turn = "\<lparr>cx_role = User, cx_content = im_text m, cx_sentAt = im_sentAt m\<rparr>"
  let ?ag1 = "logPlaintext A (recvLine m) ag"
  obtain ag2 where a: "appendTurn A ?ag1 (im_conversationId m) ?turn = (Inr (), ag2)"
    using ctx limit by (simp add: appendTurn_def appendContext_def ctxOpts_def trimCount_eq Let_def)
  have fr: "ag_client ag2 = ag_client ag" "ag_requests ag2 = ag_requests ag"
    using appendTurn_frame [of A ?ag1 "im_conversationId m" ?turn] a by (simp_all add: logPlaintext_def split: if_splits)
  have m2: "loadMeta A ag2 (im_conversationId m) = (Inr meta, ag2)"
    using meta meta_appendTurn [OF a] by (simp add: loadMeta_Inr)
  let ?ag3 = "saveMeta A ag2 (im_conversationId m) (meta\<lparr>me_humanSinceLastReply := Suc (me_humanSinceLastReply meta)\<rparr>)"
  have f3: "ag_client ?ag3 = ag_client ag" "ag_requests ?ag3 = ag_requests ag" by (simp_all add: saveMeta_def fr)
  obtain w2 where "context_of A ag2 (im_conversationId m) = Inr w2"
    using appendTurn_spec [OF ok a] ok by (auto simp: load_saveContext agent_env_ok_def)
  then have "context_of A ?ag3 (im_conversationId m) = Inr w2" by (simp add: saveMeta_def)
  moreover have "\<exists>b'. degrade A b conv = (Inr (), b')" for b conv by (simp add: degrade_def Let_def)
  ultimately obtain ag4 where r: "agReply A ?ag3 (im_conversationId m) = (Inr (), ag4)"
    by (simp add: agReply_def fromStore_def abind_def llm Let_def) blast
  then have "onMemberMessage A ag c m = (Inr (), persist A ag4)"
    using a m2 ment f3(1) by (simp add: onMemberMessage_def Let_def abind_Pair)
  moreover have "\<exists>req. ag_requests ag4 = ag_requests ag @ [(im_conversationId m, req)]"
    using reply_effect [OF ok meta_saveMeta [OF ok] r] f3(2) by auto
  ultimately show ?thesis by (auto simp: persist_def)
qed

lemma demo_cached:
  "map_of (conversations_of (ag_client demoAfter)) (js ''c1'') = Some demoConversation"
  "map_of (cc_members demoConversation) (cl_userId (ag_client demoAfter)) \<noteq> None"
  "im_senderUserId demoAsk \<noteq> cl_userId (ag_client demoAgent)" "im_conversationId demoAsk = js ''c1''"
  by (simp_all add: demoAfter_def demoAgent_def newAgent_def setConversation_def demoClient_def newClient_def demoClientStores_def
      demoConversation_def demoAsk_def js_def)

lemma demo_stored:
  "context_of A demoAfter (js ''c1'') = Inr []" "meta_of A demoAfter (js ''c1'') = Inr DEFAULT_META"
  by (simp_all add: demoAfter_def demoAgent_def newAgent_def loadContext_def loadConvMeta_def emptyAgentDb_def)

lemma demo_limit: "ac_contextMaxMessages (av_config (demoAgentEnv listed)) = 50"
  by (simp add: demoAgentEnv_def loadAgentConfig_def intFromEnv_def)

lemma demo_llm: "av_llm (demoAgentEnv listed) n req = None"
  by (simp add: demoAgentEnv_def)

lemma demo_answered:
  "\<exists>ag' req. agOnMessage (demoAgentEnv None) demoAgent demoAsk = (Inr (), ag') \<and> ag_requests ag' = [(js ''c1'', req)]"
proof -
  have "ag_requests demoAfter = []" by (simp add: demoAfter_def demoAgent_def newAgent_def)
  then obtain ag' req where "onMemberMessage (demoAgentEnv None) demoAfter demoConversation demoAsk = (Inr (), ag')" "ag_requests ag' = [(js ''c1'', req)]"
    using mention_degrades [OF demoAgentEnv_ok, of None demoAfter demoAsk "[]" DEFAULT_META demoConversation] demo_limit [of None] demo_stored demo_cached(4)
      demo_mentioned demo_llm by auto
  then show ?thesis
    using demo_reconciled demo_cached by (auto simp: agOnMessage_def abind_Pair)
qed

definition demoQueued :: Agent where
  "demoQueued = demoAgent\<lparr>ag_queue := [OnMessage demoAsk]\<rparr>"

lemma demo_run: "agent_run (demoAgentEnv None) demoQueued (runNext (demoAgentEnv None) demoQueued)"
  by (intro agent_run.Next agent_run.Start) (simp add: demoQueued_def demoAgent_def newAgent_def)

lemma demoQueued_fresh: "fresh demoQueued"
  by (simp add: fresh_def queue_ok_def demoQueued_def demoAgent_def newAgent_def)

lemma demo_next: "\<exists>req. ag_requests (runNext (demoAgentEnv None) demoQueued) = [(js ''c1'', req)]"
proof -
  have "demoQueued\<lparr>ag_queue := []\<rparr> = demoAgent" "ag_queue demoQueued = [OnMessage demoAsk]" "\<not> ag_hung demoQueued"
    by (simp_all add: demoQueued_def demoAgent_def newAgent_def)
  then show ?thesis using demo_answered by (auto simp: runNext_def runTask_def settleTask_def)
qed

theorem agent_isolation_witness:
  "\<exists>req. (js ''c1'', req) \<in> set (ag_requests (runNext (demoAgentEnv None) demoQueued))
     \<and> snd ` set (lr_messages req) \<subseteq> spoken (windowTexts (demoAgentEnv None) (ag_store demoQueued)) (runNext (demoAgentEnv None) demoQueued) (js ''c1'')"
proof -
  obtain req where "(js ''c1'', req) \<in> set (ag_requests (runNext (demoAgentEnv None) demoQueued))" using demo_next by auto
  then show ?thesis using agent_isolation [OF demoAgentEnv_ok demoQueued_fresh demo_run] by blast
qed

theorem apology_cooldown_witness:
  "successively (\<lambda>s t. s + DEGRADE_COOLDOWN_MS \<le> t) (apologyTimes (runNext (demoAgentEnv None) demoQueued) (js ''c1''))"
  by (rule apology_cooldown [OF demoQueued_fresh demo_run])

theorem reply_cadence_witness:
  "\<exists>ag' req. agOnMessage (demoAgentEnv None) demoAgent demoAsk = (Inr (), ag') \<and> ag_requests ag' = ag_requests demoAfter @ [(js ''c1'', req)]
     \<and> last (lr_messages req) = (User, js ''@ai hi'')"
proof -
  obtain ag' where h: "agOnMessage (demoAgentEnv None) demoAgent demoAsk = (Inr (), ag')" using demo_answered by blast
  have "1 \<le> ac_contextMaxMessages (av_config (demoAgentEnv None))" by (simp add: demo_limit)
  from reply_cadence [OF demoAgentEnv_ok this demo_cached(3) demo_reconciled [folded demo_cached(4)] demo_cached(1) [folded demo_cached(4)]
      demo_cached(2) demo_stored(2) [folded demo_cached(4)] h]
  have "\<exists>req. ag_requests ag' = ag_requests demoAfter @ [(im_conversationId demoAsk, req)] \<and> last (lr_messages req) = (User, im_text demoAsk)"
    using demo_mentioned by auto
  then show ?thesis using h by (auto simp: demoAsk_def)
qed

theorem empty_roster_purges_witness:
  "\<exists>ag'. reconcileConversation (demoAgentEnv (Some ([\<lparr>cm_userId = js ''alice'', cm_deviceIds = [1]\<rparr>], True))) demoAgent (js ''c1'') = (Inr (), ag')
     \<and> map_of (conversations_of (ag_client ag')) (js ''c1'') = None"
proof -
  let ?raw = "[\<lparr>cm_userId = js ''alice'', cm_deviceIds = [1]\<rparr>]"
  let ?A = "demoAgentEnv (Some (?raw, True))"
  have l: "tr_members (en_transport (av_client ?A)) n call = Some (?raw, True)" for n call by (simp add: demoAgentEnv_def)
  have u: "cl_userId (ag_client demoAgent) = js ''alice''"
    by (simp add: demoAgent_def newAgent_def setConversation_def demoClient_def newClient_def)
  have off: "\<not> linkReady (syncRoster ((ag_client demoAgent)\<lparr>cl_calls := cs, cl_tick := 2\<rparr>) (js ''c1'') now raw mode)" for cs now raw mode
    by (simp add: demoAgent_def newAgent_def setConversation_def demoClient_def newClient_def linkReady_def currentLink_def syncRoster_def Let_def
        split: prod.split)
  have "chainOf ((ag_client demoAgent)\<lparr>cl_calls := cs, cl_tick := 2\<rparr>) (js ''c1'') = []" for cs
    by (simp add: cachedOps_def demoAgent_def newAgent_def setConversation_def demoClient_def demoClientStores_def demoConversation_def map_of_amap_set)
  then have "membershipLogFor (av_client ?A) (snd (clListMembers (av_client ?A) (ag_client demoAgent) (js ''c1''))) (js ''c1'') = Inr None"
    by (simp add: listMembers_snd rest_def l demoAgent_pause awaitChainReady_def off membershipLogFor_logOf syncRoster_ops logOf_def)
  from empty_roster_purges [OF l _ this] show ?thesis using u by auto
qed

end
