(* ===== verification/RelayProps.thy ===== *)
theory RelayProps
  imports RestProps
begin

section \<open>What the relay guarantees\<close>

text \<open>
  The op store keeps the contract \<open>dense_log\<close>. A connection is told apart from its
  neighbours by an invariant on the registry (\<open>relay_inv\<close>), kept by every event of the
  relation \<open>relay_step\<close>; \<open>emits\<close> says what a handler may write to a connection.
\<close>

subsection \<open>The op store is a dense log\<close>

interpretation opstore: dense_log opsOf storeOp "\<lambda>_ _. True"
  by unfold_locales (auto simp: storeOp_def opsOf_def map_of_amap_set Let_def)

subsection \<open>Sending\<close>

text \<open>The conversation a delivery frame belongs to.\<close>

definition frame_conv :: "WsFrame \<Rightarrow> jsstring option" where
  "frame_conv f = (case f of WsDeliver e \<Rightarrow> Some (env_conversationId e) | WsOpDeliver conv _ _ \<Rightarrow> Some conv | _ \<Rightarrow> None)"

definition allowed :: "Db \<Rightarrow> jsstring option \<Rightarrow> WsFrame \<Rightarrow> bool" where
  "allowed db u f \<longleftrightarrow> pred_option (\<lambda>conv. \<exists>x. u = Some x \<and> x \<in> active_members db conv) (frame_conv f)"

lemma allowedD: "allowed db u f \<Longrightarrow> frame_conv f = Some conv \<Longrightarrow> \<exists>x. u = Some x \<and> x \<in> active_members db conv"
  by (simp add: allowed_def)

definition emits :: "Db \<Rightarrow> Conn \<Rightarrow> Conn \<Rightarrow> bool" where
  "emits db c c' \<longleftrightarrow> (\<exists>new. cn_out c' = cn_out c @ new \<and> (\<forall>f \<in> set new. allowed db (cn_userId c') f))"

lemma emits_same: "cn_out c' = cn_out c \<Longrightarrow> emits db c c'"
  by (auto simp: emits_def)

lemma emits_trans: "emits db a b \<Longrightarrow> emits db b c \<Longrightarrow> cn_userId c = cn_userId b \<Longrightarrow> emits db a c"
  by (auto simp: emits_def)

text \<open>\<open>same_owner\<close>: everything but the output, the buffer and the close is left alone.\<close>

definition same_owner :: "Conn \<Rightarrow> Conn \<Rightarrow> bool" where
  "same_owner c c' \<longleftrightarrow> cn_userId c' = cn_userId c \<and> cn_deviceId c' = cn_deviceId c"

lemma same_owner_refl [simp]: "same_owner c c"
  by (simp add: same_owner_def)

lemma pushAll_fixed:
  "pushAll fs c = (b, c') \<Longrightarrow> same_owner c c' \<and> cn_draining c' = cn_draining c \<and> cn_liveBuffer c' = cn_liveBuffer c
     \<and> cn_open c' = cn_open c \<and> cn_listening c' = cn_listening c"
  by (induction fs c rule: pushAll.induct) (auto simp: same_owner_def split: if_splits option.splits)

lemma pushAll_emits:
  "pushAll fs c = (b, c') \<Longrightarrow> \<forall>x. Some x \<in> set fs \<longrightarrow> allowed db (cn_userId c) x \<Longrightarrow> emits db c c'"
proof (induction fs c rule: pushAll.induct)
  case (2 f fs c)
  show ?case
  proof (cases "cn_open c")
    case False
    then show ?thesis using 2 by simp
  next
    case True
    show ?thesis
    proof (cases f)
      case None
      then show ?thesis using 2(3) True by (simp add: emits_same)
    next
      case (Some x)
      let ?c = "c\<lparr>cn_out := cn_out c @ [x]\<rparr>"
      have push: "pushAll fs ?c = (b, c')" using 2(3) True Some by simp
      have "emits db ?c c'" using 2(2) [OF _ Some push] 2(4) True by simp
      moreover have "cn_userId c' = cn_userId ?c" using pushAll_fixed [OF push] by (simp add: same_owner_def)
      moreover have "emits db c ?c" using 2(4) Some by (auto simp: emits_def)
      ultimately show ?thesis using emits_trans by blast
    qed
  qed
qed (simp add: emits_same)

lemma pushAll_all:
  "cn_open c \<Longrightarrow> pushAll (map Some xs) c = (False, c\<lparr>cn_out := cn_out c @ xs\<rparr>)"
  by (induction xs arbitrary: c) simp_all

lemma buildDeliverFrame_Some:
  "buildDeliverFrame env = Some f \<Longrightarrow> f = WsDeliver \<lparr>env_conversationId = se_conversationId env,
     env_senderUserId = se_senderUserId env, env_senderDeviceId = se_senderDeviceId env,
     env_recipientDeviceId = se_recipientDeviceId env, env_seq = se_seq env,
     env_ciphertext = base64Encode (se_ciphertext env), env_type = se_type env\<rparr>"
  by (auto simp: buildDeliverFrame_def js_of_frame_def WsDeliverFrameSchema_def envelope_roundtrip split: if_splits)

lemma buildDeliverFrame_None:
  "buildDeliverFrame env = None \<longleftrightarrow> \<not> envelope_ok \<lparr>env_conversationId = se_conversationId env,
     env_senderUserId = se_senderUserId env, env_senderDeviceId = se_senderDeviceId env,
     env_recipientDeviceId = se_recipientDeviceId env, env_seq = se_seq env,
     env_ciphertext = base64Encode (se_ciphertext env), env_type = se_type env\<rparr>"
  by (simp add: buildDeliverFrame_def js_of_frame_def WsDeliverFrameSchema_def envelope_roundtrip)

lemma buildOpDeliverFrame_Some: "buildOpDeliverFrame conv sq op = Some f \<Longrightarrow> f = WsOpDeliver conv sq op"
  by (auto simp: buildOpDeliverFrame_def js_of_frame_def WsOpDeliverFrameSchema_def split: if_splits)

lemma frame_conv_built:
  "buildDeliverFrame env = Some f \<Longrightarrow> frame_conv f = Some (se_conversationId env)"
  "buildOpDeliverFrame conv sq op = Some f \<Longrightarrow> frame_conv f = Some conv"
  by (auto dest!: buildDeliverFrame_Some buildOpDeliverFrame_Some simp: frame_conv_def)

lemma deliver_emits:
  assumes "cn_userId c = Some u" "u \<in> active_members db (se_conversationId env)"
  shows "emits db c (deliver env c) \<and> same_owner c (deliver env c)"
proof (cases "cn_draining c")
  case False
  obtain b c' where p: "pushAll [buildDeliverFrame env] c = (b, c')" by force
  then have "emits db c c'"
    using assms by (intro pushAll_emits [OF p]) (auto simp: allowed_def dest!: frame_conv_built(1) [OF sym])
  then show ?thesis using False p pushAll_fixed [OF p] by (simp add: deliver_def)
qed (simp add: deliver_def emits_same same_owner_def)

lemma deliverOp_emits:
  assumes "cn_userId c = Some u" "u \<in> active_members db conv"
  shows "emits db c (deliverOp conv sq op c) \<and> same_owner c (deliverOp conv sq op c)"
proof -
  obtain b c' where p: "pushAll [buildOpDeliverFrame conv sq op] c = (b, c')" by force
  then have "emits db c c'"
    using assms by (intro pushAll_emits [OF p]) (auto simp: allowed_def dest!: frame_conv_built(2) [OF sym])
  then show ?thesis using p pushAll_fixed [OF p] by (simp add: deliverOp_def)
qed

lemma drained_allowed:
  assumes "mail_inv db" "convs = listActiveConversationIds db u"
  shows "Some x \<in> set (map buildDeliverFrame (mbDrain db \<lparr>dr_recipientUserId = u, dr_recipientDeviceId = d, dr_conversationIds = convs\<rparr>))
      \<Longrightarrow> allowed db (Some u) x" (is "?envelope \<Longrightarrow> _")
    and "Some x \<in> set (concat (map (\<lambda>conv. map (\<lambda>(sq, op). buildOpDeliverFrame conv sq op) (drainOps ops conv)) convs))
      \<Longrightarrow> allowed db (Some u) x" (is "?op \<Longrightarrow> _")
proof -
  have act: "u \<in> active_members db conv" if "conv \<in> set convs" for conv
    using that by (simp add: assms(2) listActiveConversationIds_iff)
  show "allowed db (Some u) x" if frame: ?envelope
  proof -
    obtain env where env: "env \<in> set (mbDrain db \<lparr>dr_recipientUserId = u, dr_recipientDeviceId = d, dr_conversationIds = convs\<rparr>)"
      "buildDeliverFrame env = Some x" using frame by auto
    then have "se_conversationId env \<in> set convs" using mbDrain_filter [OF assms(1)] by (auto simp: mbAddressed_def)
    then show ?thesis using act frame_conv_built(1) [OF env(2)] by (simp add: allowed_def)
  qed
  show "allowed db (Some u) x" if ?op
    using that act frame_conv_built(2) by (fastforce simp: allowed_def)
qed

lemma drainAndPush_emits:
  assumes "mail_inv db" "drainAndPush db ops c = (b, c')"
  shows "emits db c c' \<and> same_owner c c' \<and> cn_liveBuffer c' = cn_liveBuffer c \<and> cn_draining c' = cn_draining c"
proof (cases "cn_userId c = None \<or> cn_deviceId c = None")
  case True
  then show ?thesis using assms(2) by (auto simp: drainAndPush_def emits_same split: option.splits)
next
  case False
  then obtain u d where u: "cn_userId c = Some u" "cn_deviceId c = Some d" by auto
  define convs where "convs = listActiveConversationIds db u"
  note allowed = drained_allowed [OF assms(1) convs_def]
  obtain b1 c1 where p1: "pushAll (map buildDeliverFrame (mbDrain db \<lparr>dr_recipientUserId = u, dr_recipientDeviceId = d,
      dr_conversationIds = convs\<rparr>)) c = (b1, c1)" by force
  have e1: "emits db c c1" by (rule pushAll_emits [OF p1]) (use allowed(1) u in auto)
  note f1 = pushAll_fixed [OF p1]
  show ?thesis
  proof (cases b1)
    case True
    then show ?thesis using u p1 assms(2) e1 f1 by (auto simp: drainAndPush_def convs_def)
  next
    case False
    then have p2: "pushAll (concat (map (\<lambda>conv. map (\<lambda>(sq, op). buildOpDeliverFrame conv sq op) (drainOps ops conv)) convs)) c1 = (b, c')"
      using u p1 assms(2) by (simp add: drainAndPush_def convs_def Let_def)
    have "emits db c1 c'" by (rule pushAll_emits [OF p2]) (use allowed(2) u f1 in \<open>auto simp: same_owner_def\<close>)
    then show ?thesis
      using e1 f1 pushAll_fixed [OF p2] emits_trans [of db c c1 c'] by (auto simp: same_owner_def)
  qed
qed

subsection \<open>Connections across one handler\<close>

definition conn_rel :: "Db \<Rightarrow> Conn \<Rightarrow> Conn \<Rightarrow> bool" where
  "conn_rel db c c' \<longleftrightarrow> emits db c c' \<and> same_owner c c'
     \<and> (authenticated c \<or> cn_liveBuffer c' = cn_liveBuffer c \<and> cn_draining c' = cn_draining c)"

definition conns_step :: "Db \<Rightarrow> Relay \<Rightarrow> Relay \<Rightarrow> bool" where
  "conns_step db r r' \<longleftrightarrow> (\<forall>j. rel_option (conn_rel db) (map_of (rl_conns r) j) (map_of (rl_conns r') j))"

lemma conn_rel_refl [simp]: "conn_rel db c c"
  by (simp add: conn_rel_def emits_same)

lemma conn_rel_trans: "conn_rel db a b \<Longrightarrow> conn_rel db b c \<Longrightarrow> conn_rel db a c"
  using emits_trans [of db a b c] by (auto simp: conn_rel_def same_owner_def authenticated_def)

lemma conns_step_refl [simp]: "rl_conns r' = rl_conns r \<Longrightarrow> conns_step db r r'"
  by (simp add: conns_step_def option.rel_refl)

lemma conns_step_trans: "conns_step db a b \<Longrightarrow> conns_step db b c \<Longrightarrow> conns_step db a c"
  using option.rel_transp [of "conn_rel db"] conn_rel_trans unfolding conns_step_def transp_def by blast

lemma conns_step_set:
  "map_of (rl_conns r) i = Some c \<Longrightarrow> conn_rel db c c' \<Longrightarrow> conns_step db r (setConn r i c')"
  by (auto simp: conns_step_def setConn_def map_of_amap_set option.rel_refl)

lemma setConn_simps [simp]:
  "rl_db (setConn r i c) = rl_db r" "rl_ops (setConn r i c) = rl_ops r" "rl_live (setConn r i c) = rl_live r"
  "rl_lockout (setConn r i c) = rl_lockout r" "map_of (rl_conns (setConn r i c)) = (map_of (rl_conns r))(i \<mapsto> c)"
  by (simp_all add: setConn_def map_of_amap_set)

lemma conn_rel_close: "conn_rel db c (closeConn code c)"
  by (simp add: conn_rel_def closeConn_def emits_same same_owner_def)

lemma conn_rel_tick: "conn_rel db c (tick now c)"
  by (simp add: conn_rel_def tick_def Let_def emits_same same_owner_def)

lemma authenticated_tick [simp]: "authenticated (tick now c) = authenticated c"
  by (simp add: authenticated_def tick_def Let_def)

lemma conn_rel_deliver:
  assumes "cn_userId c = Some u" "cn_deviceId c = Some d" "u \<in> active_members db (se_conversationId env)"
  shows "conn_rel db c (deliver env c)"
  using deliver_emits [OF assms(1,3)] assms(1,2) by (simp add: conn_rel_def authenticated_def)

lemma conn_rel_deliverOp:
  assumes "cn_userId c = Some u" "cn_deviceId c = Some d" "u \<in> active_members db conv"
  shows "conn_rel db c (deliverOp conv sq op c)"
  using deliverOp_emits [OF assms(1,3)] assms(1,2) by (simp add: conn_rel_def authenticated_def)

lemma conn_rel_drain: "mail_inv db \<Longrightarrow> drainAndPush db ops c = (b, c') \<Longrightarrow> conn_rel db c c'"
  using drainAndPush_emits by (auto simp: conn_rel_def)

text \<open>The registry points at connections of the key's owner.\<close>

definition live_ok :: "Relay \<Rightarrow> bool" where
  "live_ok r \<longleftrightarrow> (\<forall>((u, d), j) \<in> set (rl_live r). \<exists>c. map_of (rl_conns r) j = Some c \<and> cn_userId c = Some u \<and> cn_deviceId c = Some d)"

lemma live_okD:
  "live_ok r \<Longrightarrow> ((u, d), j) \<in> set (rl_live r) \<Longrightarrow> \<exists>c. map_of (rl_conns r) j = Some c \<and> cn_userId c = Some u \<and> cn_deviceId c = Some d"
  by (fastforce simp: live_ok_def)

lemma conns_stepD:
  "conns_step db r r' \<Longrightarrow> map_of (rl_conns r) j = Some c \<Longrightarrow> \<exists>c'. map_of (rl_conns r') j = Some c' \<and> conn_rel db c c'"
  unfolding conns_step_def by (metis option_rel_Some1)

lemma live_ok_step:
  assumes "live_ok r" "conns_step db r r'" "set (rl_live r') \<subseteq> set (rl_live r)"
  shows "live_ok r'"
  unfolding live_ok_def
proof clarsimp
  fix u d j assume "((u, d), j) \<in> set (rl_live r')"
  then obtain c where "map_of (rl_conns r) j = Some c" "cn_userId c = Some u" "cn_deviceId c = Some d"
    using live_okD [OF assms(1)] assms(3) by blast
  then show "\<exists>c. map_of (rl_conns r') j = Some c \<and> cn_userId c = Some u \<and> cn_deviceId c = Some d"
    using conns_stepD [OF assms(2)] by (fastforce simp: conn_rel_def same_owner_def)
qed

subsection \<open>The handlers\<close>

lemma fanOutOp_step:
  assumes "live_ok r" "set live \<subseteq> set (rl_live r)"
  shows "conns_step (rl_db r) r (fanOutOp pick r self conv sq op live)
    \<and> rl_db (fanOutOp pick r self conv sq op live) = rl_db r \<and> rl_ops (fanOutOp pick r self conv sq op live) = rl_ops r
    \<and> rl_live (fanOutOp pick r self conv sq op live) = rl_live r"
  using assms
proof (induction pick r self conv sq op live rule: fanOutOp.induct)
  case (2 pick r self conv sq op key j live)
  obtain u d where key: "key = (u, d)" by force
  obtain c where c: "map_of (rl_conns r) j = Some c" "cn_userId c = Some u" "cn_deviceId c = Some d"
    using live_okD [OF 2(2), of u d j] 2(3) key by auto
  define r1 where "r1 = (if key = self then r else if isActiveMember pick (rl_db r) conv u
      then setConn r j (deliverOp conv sq op c) else r)"
  have eq: "fanOutOp pick r self conv sq op ((key, j) # live) = fanOutOp pick r1 self conv sq op live"
    using c key by (simp add: r1_def)
  have step: "conns_step (rl_db r) r r1" "rl_db r1 = rl_db r" "rl_ops r1 = rl_ops r" "rl_live r1 = rl_live r"
    using c conns_step_set [OF c(1) conn_rel_deliverOp [OF c(2,3)]] by (auto simp: r1_def isActiveMember_iff)
  then have "live_ok r1" using live_ok_step [OF 2(2)] by simp
  then have "conns_step (rl_db r1) r1 (fanOutOp pick r1 self conv sq op live)
      \<and> rl_db (fanOutOp pick r1 self conv sq op live) = rl_db r1 \<and> rl_ops (fanOutOp pick r1 self conv sq op live) = rl_ops r1
      \<and> rl_live (fanOutOp pick r1 self conv sq op live) = rl_live r1"
    using 2(1) [of r1] 2(3) step c key by (simp add: r1_def)
  then show ?case using step conns_step_trans unfolding eq by auto
qed simp

text \<open>\<open>stores db db' c\<close>: one envelope was appended, from the owner of \<open>c\<close>, an active member of its conversation.\<close>

definition stores :: "Db \<Rightarrow> Db \<Rightarrow> Conn \<Rightarrow> bool" where
  "stores db db' c \<longleftrightarrow> (\<exists>e. db' = db\<lparr>db_envelopes := db_envelopes db @ [e], db_seq := db_seq db + 1\<rparr> \<and> se_seq e = db_seq db
     \<and> cn_userId c = Some (se_senderUserId e) \<and> cn_deviceId c = Some (se_senderDeviceId e)
     \<and> se_senderUserId e \<in> active_members db (se_conversationId e))"

lemma stores_members: "stores db db' c \<Longrightarrow> active_members db' conv = active_members db conv"
  by (auto simp: stores_def active_members_def)

lemma mbStore_stores:
  assumes "mbStore db p = Inr (e, db')" "cn_userId c = Some (sp_senderUserId p)" "cn_deviceId c = Some (sp_senderDeviceId p)"
    and "sp_senderUserId p \<in> active_members db (sp_conversationId p)"
  shows "stores db db' c \<and> se_conversationId e = sp_conversationId p"
  using assms by (auto simp: stores_def mbStore_def enqueueEnvelope_def Let_def split: if_splits)

definition same_registry :: "Relay \<Rightarrow> Relay \<Rightarrow> bool" where
  "same_registry r r' \<longleftrightarrow> rl_live r' = rl_live r \<and> rl_lockout r' = rl_lockout r"

text \<open>A live push to the recipient's registered connection.\<close>

lemma push_live_step:
  assumes "live_ok r" "map_of (rl_live r) (rcpt, dev) = Some j" "map_of (rl_conns r) j = Some t"
    and "rcpt \<in> active_members db (se_conversationId se)"
  shows "conns_step db r (setConn r j (deliver se t))"
proof -
  have "cn_userId t = Some rcpt" "cn_deviceId t = Some dev"
    using live_okD [OF assms(1) map_of_SomeD [OF assms(2)]] assms(3) by auto
  then show ?thesis using conns_step_set [OF assms(3) conn_rel_deliver] assms(4) by simp
qed

lemma handleSend_step:
  assumes live: "live_ok r" and c0: "map_of (rl_conns r) i = Some c0" "conn_rel (rl_db r) c0 c"
    and r': "handleSend pick r i c rcpt e = r'"
  shows "conns_step (rl_db r) r r' \<and> same_registry r r' \<and> rl_ops r' = rl_ops r \<and> (rl_db r' = rl_db r \<or> stores (rl_db r) (rl_db r') c)"
proof (cases "Some (env_senderUserId e) \<noteq> cn_userId c \<or> Some (env_senderDeviceId e) \<noteq> cn_deviceId c
    \<or> \<not> isActiveMember pick (rl_db r) (env_conversationId e) (env_senderUserId e)")
  case True
  then have "r' = setConn r i (closeConn 4003 c)" using r' by (auto simp: handleSend_def)
  then show ?thesis
    using conns_step_set [OF c0(1) conn_rel_trans [OF c0(2) conn_rel_close]] by (simp add: same_registry_def)
next
  case False
  define p where "p = \<lparr>sp_conversationId = env_conversationId e, sp_recipientUserId = rcpt,
    sp_recipientDeviceId = env_recipientDeviceId e, sp_senderUserId = env_senderUserId e,
    sp_senderDeviceId = env_senderDeviceId e, sp_type = env_type e, sp_ciphertext = env_ciphertext e\<rparr>"
  have set_c: "conns_step (rl_db r) r (setConn r i c)" using conns_step_set [OF c0] .
  show ?thesis
  proof (cases "mbStore (rl_db r) p")
    case (Inl err)
    then have "r' = setConn r i c" using r' False by (simp add: handleSend_def p_def)
    then show ?thesis using set_c by (simp add: same_registry_def)
  next
    case (Inr res)
    obtain se db1 where res: "res = (se, db1)" by force
    have st: "stores (rl_db r) db1 c" "se_conversationId se = env_conversationId e"
      using mbStore_stores [of "rl_db r" p se db1 c] Inr res False by (auto simp: p_def isActiveMember_iff)
    define r1 where "r1 = setConn (r\<lparr>rl_db := db1\<rparr>) i c"
    have step1: "conns_step (rl_db r) r r1" using set_c by (simp add: conns_step_def r1_def setConn_def)
    have live1: "live_ok r1" using live_ok_step [OF live step1] by (simp add: r1_def)
    have "r' = r1 \<or> (\<exists>j t. map_of (rl_live r1) (rcpt, env_recipientDeviceId e) = Some j \<and> map_of (rl_conns r1) j = Some t
        \<and> rcpt \<in> active_members (rl_db r) (env_conversationId e) \<and> r' = setConn r1 j (deliver se t))"
      using r' False Inr res stores_members [OF st(1)]
      by (auto simp: handleSend_def p_def r1_def Let_def isActiveMember_iff split: option.splits if_splits)
    then have "conns_step (rl_db r) r r' \<and> rl_db r' = db1 \<and> rl_ops r' = rl_ops r \<and> same_registry r r'"
      using step1 conns_step_trans [OF step1 push_live_step [OF live1]] st(2) by (auto simp: r1_def same_registry_def)
    then show ?thesis using st(1) by simp
  qed
qed

lemma handleOpSend_step:
  assumes live: "live_ok r" and c0: "map_of (rl_conns r) i = Some c0" "conn_rel (rl_db r) c0 c"
    and r': "handleOpSend pick r i c conv sq op = r'"
  shows "conns_step (rl_db r) r r' \<and> same_registry r r' \<and> rl_db r' = rl_db r \<and> rl_ops r' = snd (storeOp (rl_ops r) conv sq op)"
proof -
  define r1 where "r1 = setConn (r\<lparr>rl_ops := snd (storeOp (rl_ops r) conv sq op)\<rparr>) i c"
  have step1: "conns_step (rl_db r) r r1" using conns_step_set [OF c0] by (simp add: conns_step_def r1_def setConn_def)
  have live1: "live_ok r1" using live_ok_step [OF live step1] by (simp add: r1_def)
  have lock: "rl_lockout (fanOutOp pick r1 self conv sq op live') = rl_lockout r1" for live' self and r1 :: Relay
    by (induction pick r1 self conv sq op live' rule: fanOutOp.induct) (auto simp: Let_def split: option.splits)
  show ?thesis
    using r' step1 fanOutOp_step [OF live1 order_refl, of pick _ conv sq op] conns_step_trans [OF step1] lock
    by (auto simp: handleOpSend_def r1_def [symmetric] same_registry_def Let_def split: option.splits) (auto simp: r1_def)
qed

text \<open>\<open>acks db db' c\<close>: an ack of the owner of \<open>c\<close> was applied.\<close>

definition acks :: "Db \<Rightarrow> Db \<Rightarrow> Conn \<Rightarrow> bool" where
  "acks db db' c \<longleftrightarrow> (\<exists>a. db' = mbAckDb db a \<and> cn_userId c = Some (ak_recipientUserId a) \<and> cn_deviceId c = Some (ak_recipientDeviceId a))"

lemma handleOther_step:
  assumes mail: "mail_inv (rl_db r)" and c0: "map_of (rl_conns r) i = Some c0" "conn_rel (rl_db r) c0 c"
    and r': "handleOther pick r i c parsed = r'"
  shows "conns_step (rl_db r) r r' \<and> same_registry r r' \<and> rl_ops r' = rl_ops r \<and> (rl_db r' = rl_db r \<or> acks (rl_db r) (rl_db r') c)"
proof -
  have eff: "conns_step (rl_db r) r (setConn (r\<lparr>rl_db := db\<rparr>) i c')" if "conn_rel (rl_db r) c c'" for c' db
    using conns_step_set [OF c0(1) conn_rel_trans [OF c0(2) that]] by (simp add: conns_step_def setConn_def)
  have "\<exists>c' db. r' = setConn (r\<lparr>rl_db := db\<rparr>) i c' \<and> conn_rel (rl_db r) c c' \<and> (db = rl_db r \<or> acks (rl_db r) db c)"
    using r' conn_rel_close [of "rl_db r" c] conn_rel_drain [OF mail, of "rl_ops r" c] conn_rel_refl [of "rl_db r" c]
    by (cases "drainAndPush (rl_db r) (rl_ops r) c")
      (fastforce simp: handleOther_def acks_def split: option.splits WsFrame.splits if_splits intro: exI [of _ "rl_db r"])
  then show ?thesis using eff by (auto simp: same_registry_def)
qed

text \<open>The handshake: an unauthenticated connection has nothing buffered.\<close>

definition conn_ok :: "Db \<Rightarrow> Conn \<Rightarrow> bool" where
  "conn_ok db c \<longleftrightarrow> (\<forall>u. cn_userId c = Some u \<longrightarrow> user_exists db u)
     \<and> (\<not> authenticated c \<longrightarrow> cn_liveBuffer c = [] \<and> \<not> cn_draining c)"

lemma authenticateToken_user: "authenticateToken K db t = Some u \<Longrightarrow> user_exists db u"
  unfolding authenticateToken_find by (auto simp: user_exists_def find_Some_iff)

lemma onFirstFrames_spec:
  assumes "conn_ok db c" "onFirstFrames K db raw c = (ok, c1)"
  shows "cn_out c1 = cn_out c \<and> cn_liveBuffer c1 = cn_liveBuffer c \<and> cn_draining c1 = cn_draining c
    \<and> (\<forall>u. cn_userId c1 = Some u \<longrightarrow> user_exists db u) \<and> (\<not> ok \<longrightarrow> same_owner c c1)"
  using assms
  by (auto simp: onFirstFrames_def conn_ok_def closeConn_def same_owner_def authenticateToken_user split: option.splits if_splits prod.splits)

lemma flushLive_empty: "cn_liveBuffer c = [] \<Longrightarrow> flushLive c = c\<lparr>cn_draining := False\<rparr>"
  by (simp add: flushLive_def)

lemma handleFirst_step:
  assumes mail: "mail_inv (rl_db r)" and c: "conn_ok (rl_db r) c" "\<not> authenticated c"
    and r': "handleFirst K r i c raw = r'"
  shows "\<exists>c'. rl_conns r' = rl_conns (setConn r i c') \<and> emits (rl_db r) c c' \<and> conn_ok (rl_db r) c'
    \<and> rl_db r' = rl_db r \<and> rl_ops r' = rl_ops r
    \<and> (rl_live r' = rl_live r \<or> (\<exists>u d. cn_userId c' = Some u \<and> cn_deviceId c' = Some d \<and> rl_live r' = amap_set (rl_live r) (u, d) i))"
proof -
  obtain ok c1 where f: "onFirstFrames K (rl_db r) raw c = (ok, c1)" by force
  note f1 = onFirstFrames_spec [OF c(1) f]
  show ?thesis
  proof (cases "ok \<and> authenticated c1")
    case False
    then have "r' = setConn r i c1" using r' f by (auto simp: handleFirst_def split: if_splits)
    moreover have "conn_ok (rl_db r) c1" using f1 c by (auto simp: conn_ok_def)
    ultimately show ?thesis using f1 emits_same [of c1 c] by auto
  next
    case True
    obtain b c2 where p2: "pushAll [Some WsReady] c1 = (b, c2)" by force
    define c3 where "c3 = c2\<lparr>cn_draining := True\<rparr>"
    obtain b4 c4 where d4: "drainAndPush (rl_db r) (rl_ops r) c3 = (b4, c4)" by force
    define c5 where "c5 = (if b4 then c4 else flushLive c4)"
    note p2' = pushAll_fixed [OF p2]
    note d4' = drainAndPush_emits [OF mail d4]
    have buf: "cn_liveBuffer c4 = []" using d4' p2' f1 c by (simp add: c3_def conn_ok_def)
    have out: "emits (rl_db r) c c3"
    proof -
      have "emits (rl_db r) c1 c2" by (rule pushAll_emits [OF p2]) (simp add: allowed_def frame_conv_def)
      then show ?thesis using f1 by (simp add: emits_def c3_def)
    qed
    have own: "same_owner c1 c5" "cn_out c5 = cn_out c4" "cn_userId c5 = cn_userId c4"
      using d4' p2' buf by (auto simp: c5_def c3_def same_owner_def flushLive_empty)
    have e5: "emits (rl_db r) c c5"
      using emits_trans [OF out, of c4] d4' own by (auto simp: emits_def same_owner_def)
    have r5: "r' = setConn (registerLive r i c3) i c5"
      using r' f True p2 d4 by (auto simp: handleFirst_def c3_def c5_def Let_def)
    obtain u d where ud: "cn_userId c1 = Some u" "cn_deviceId c1 = Some d"
      using True by (auto simp: authenticated_def)
    have "cn_userId c3 = Some u" "cn_deviceId c3 = Some d" "cn_userId c5 = Some u" "cn_deviceId c5 = Some d"
      using ud p2' own by (auto simp: c3_def same_owner_def)
    then show ?thesis
      using r5 e5 f1 ud by (intro exI [of _ c5]) (auto simp: registerLive_def setConn_def conn_ok_def authenticated_def)
  qed
qed

lemma handleFirst_owner:
  assumes "mail_inv (rl_db r)" "onFirstFrames K (rl_db r) raw c = (True, c1)" "authenticated c1"
  shows "\<exists>c'. map_of (rl_conns (handleFirst K r i c raw)) i = Some c' \<and> same_owner c1 c' \<and> rl_ops (handleFirst K r i c raw) = rl_ops r"
proof -
  obtain b c2 where p2: "pushAll [Some WsReady] c1 = (b, c2)" by force
  define c3 where "c3 = c2\<lparr>cn_draining := True\<rparr>"
  obtain b4 c4 where d4: "drainAndPush (rl_db r) (rl_ops r) c3 = (b4, c4)" by force
  have "same_owner c4 (flushLive c4)"
    unfolding flushLive_def
    by (cases "pushAll (map buildDeliverFrame (cn_liveBuffer c4)) (c4\<lparr>cn_liveBuffer := [], cn_draining := False\<rparr>)")
      (auto simp: same_owner_def dest!: pushAll_fixed)
  moreover have "handleFirst K r i c raw = setConn (registerLive r i c3) i (if b4 then c4 else flushLive c4)"
    using assms(2,3) p2 d4 by (auto simp: handleFirst_def c3_def Let_def)
  moreover have "rl_ops (registerLive r i c3) = rl_ops r"
    by (simp add: registerLive_def split: option.splits)
  ultimately show ?thesis
    using pushAll_fixed [OF p2] drainAndPush_emits [OF assms(1) d4] by (auto simp: same_owner_def c3_def)
qed

subsection \<open>One frame, whole state\<close>

definition relay_inv :: "Relay \<Rightarrow> bool" where
  "relay_inv r \<longleftrightarrow> db_inv (rl_db r) \<and> live_ok r \<and> (\<forall>j c. map_of (rl_conns r) j = Some c \<longrightarrow> conn_ok (rl_db r) c)"

text \<open>What one frame on connection \<open>i\<close> may do.\<close>

definition frame_effect :: "nat \<Rightarrow> Relay \<Rightarrow> Relay \<Rightarrow> bool" where
  "frame_effect i r r' \<longleftrightarrow>
     (\<forall>j c. map_of (rl_conns r) j = Some c \<longrightarrow> (\<exists>c'. map_of (rl_conns r') j = Some c' \<and> emits (rl_db r) c c'))
     \<and> (rl_db r' = rl_db r \<or> (\<exists>c. map_of (rl_conns r) i = Some c \<and> (stores (rl_db r) (rl_db r') c \<or> acks (rl_db r) (rl_db r') c)))
     \<and> (rl_ops r' = rl_ops r \<or> (\<exists>c conv sq op. map_of (rl_conns r) i = Some c \<and> authenticated c
          \<and> rl_ops r' = snd (storeOp (rl_ops r) conv sq op)))"

lemma acks_frame: "acks db db' c \<Longrightarrow> db_memberships db' = db_memberships db \<and> db_conversations db' = db_conversations db
    \<and> db_users db' = db_users db \<and> db_next db' = db_next db \<and> db_devices db' = db_devices db \<and> db_otps db' = db_otps db
    \<and> db_signed db' = db_signed db \<and> db_kyber db' = db_kyber db"
  by (auto simp: acks_def mbAckDb_def mbAck_def ackEnvelopes_def Let_def)

lemma stores_frame: "stores db db' c \<Longrightarrow> db_memberships db' = db_memberships db \<and> db_conversations db' = db_conversations db
    \<and> db_users db' = db_users db \<and> db_next db' = db_next db \<and> db_devices db' = db_devices db \<and> db_otps db' = db_otps db
    \<and> db_signed db' = db_signed db \<and> db_kyber db' = db_kyber db"
  by (auto simp: stores_def)

lemma mail_steps_inv:
  assumes "db_inv db" "stores db db' c \<or> acks db db' c"
  shows "db_inv db' \<and> db_users db' = db_users db"
proof -
  have fr: "db_memberships db' = db_memberships db \<and> db_conversations db' = db_conversations db
    \<and> db_users db' = db_users db \<and> db_next db' = db_next db \<and> db_devices db' = db_devices db \<and> db_otps db' = db_otps db
    \<and> db_signed db' = db_signed db \<and> db_kyber db' = db_kyber db"
    using assms(2) acks_frame stores_frame by blast
  have mail: "mail_inv db" using assms(1) by (simp add: db_inv_def)
  have "mail_inv db'" if "stores db db' c"
    using that mail by (auto simp: stores_def mail_inv_def sorted_wrt_append less_imp_le)
  moreover have "mail_inv db'" if "acks db db' c"
    using that box.ack_inv [OF mail] by (auto simp: acks_def)
  ultimately have "mail_inv db'" using assms(2) by blast
  then show ?thesis
    using fr assms(1) memberships_inv_frame [of db db'] devices_inv_frame [of db db'] by (auto simp: db_inv_def)
qed

lemma frame_effect_quiet: "r' = r \<Longrightarrow> frame_effect i r r'"
  by (auto simp: frame_effect_def emits_same)

lemma conn_ok_step:
  "conn_ok db c \<Longrightarrow> conn_rel db' c c' \<Longrightarrow> conn_ok db c'"
  by (auto simp: conn_ok_def conn_rel_def same_owner_def authenticated_def)

lemma conns_step_back:
  "conns_step db r r' \<Longrightarrow> map_of (rl_conns r') j = Some c' \<Longrightarrow> \<exists>c. map_of (rl_conns r) j = Some c \<and> conn_rel db c c'"
  unfolding conns_step_def by (metis option_rel_Some2)

text \<open>A handler that keeps every owner: invariant and effect.\<close>

lemma steady_step:
  assumes inv: "relay_inv r" and st: "conns_step (rl_db r) r r'" "same_registry r r'"
    and db: "rl_db r' = rl_db r \<or> (\<exists>c. map_of (rl_conns r) i = Some c \<and> (stores (rl_db r) (rl_db r') c \<or> acks (rl_db r) (rl_db r') c))"
    and ops: "rl_ops r' = rl_ops r \<or> (\<exists>c conv sq op. map_of (rl_conns r) i = Some c \<and> authenticated c
          \<and> rl_ops r' = snd (storeOp (rl_ops r) conv sq op))"
  shows "relay_inv r' \<and> frame_effect i r r'"
proof
  have users: "db_inv (rl_db r') \<and> db_users (rl_db r') = db_users (rl_db r)"
    using db mail_steps_inv inv by (auto simp: relay_inv_def)
  have "conn_ok (rl_db r') c'" if c': "map_of (rl_conns r') j = Some c'" for j c'
  proof -
    obtain c where c: "map_of (rl_conns r) j = Some c" "conn_rel (rl_db r) c c'"
      using conns_step_back [OF st(1) c'] by blast
    then have "conn_ok (rl_db r) c'" using inv conn_ok_step unfolding relay_inv_def by blast
    then show ?thesis using users by (simp add: conn_ok_def user_exists_def)
  qed
  then show "relay_inv r'"
    using users inv live_ok_step [OF _ st(1)] st(2) by (auto simp: relay_inv_def same_registry_def)
  show "frame_effect i r r'"
    using conns_stepD [OF st(1)] db ops by (fastforce simp: frame_effect_def conn_rel_def)
qed

lemma owner_rel: "same_owner c0 c \<Longrightarrow> stores db db' c = stores db db' c0 \<and> acks db db' c = acks db db' c0"
  by (simp add: stores_def acks_def same_owner_def)

lemma amap_set_subset: "set (amap_set m k v) \<subseteq> insert (k, v) (set m)"
  by (induction m) auto

lemma first_step:
  assumes inv: "relay_inv r" and c0: "map_of (rl_conns r) i = Some c0" and na: "\<not> authenticated c0"
    and c: "conn_rel (rl_db r) c0 c" "cn_out c = cn_out c0" and r': "handleFirst K r i c raw = r'"
  shows "relay_inv r' \<and> frame_effect i r r'"
proof -
  have ok: "conn_ok (rl_db r) c" "\<not> authenticated c"
    using inv c0 c(1) na conn_ok_step [of "rl_db r" c0 "rl_db r" c] by (auto simp: relay_inv_def conn_rel_def same_owner_def authenticated_def)
  have mail: "mail_inv (rl_db r)" using inv by (simp add: relay_inv_def db_inv_def)
  obtain c' where c': "rl_conns r' = rl_conns (setConn r i c')" "emits (rl_db r) c c'" "conn_ok (rl_db r) c'"
    "rl_db r' = rl_db r" "rl_ops r' = rl_ops r"
    and live: "rl_live r' = rl_live r \<or> (\<exists>u d. cn_userId c' = Some u \<and> cn_deviceId c' = Some d \<and> rl_live r' = amap_set (rl_live r) (u, d) i)"
    using handleFirst_step [OF mail ok r'] by blast
  have conns: "map_of (rl_conns r') = (map_of (rl_conns r))(i \<mapsto> c')" using c'(1) by simp
  have "((u, d), i) \<notin> set (rl_live r)" for u d
    using inv live_okD [of r u d i] c0 na by (auto simp: relay_inv_def authenticated_def)
  then have "live_ok r'"
    using inv live amap_set_subset [of "rl_live r"] unfolding live_ok_def conns relay_inv_def by fastforce
  then have "relay_inv r'"
    using inv c' by (auto simp: relay_inv_def)
  moreover have "emits (rl_db r) c0 c'" using c(2) c'(2) by (simp add: emits_def)
  ultimately show ?thesis using c0 c' emits_same by (auto simp: frame_effect_def)
qed

lemma handleFrame_step [inv_intros]:
  assumes inv: "relay_inv r"
  shows "relay_inv (handleFrame K pick now r i n json) \<and> frame_effect i r (handleFrame K pick now r i n json)"
proof (cases "map_of (rl_conns r) i")
  case None
  then show ?thesis using inv frame_effect_quiet by (simp add: handleFrame_def)
next
  case (Some c0)
  define c where "c = tick now c0"
  have rel: "conn_rel (rl_db r) c0 c" by (simp add: c_def conn_rel_tick)
  have live: "live_ok r" and mail: "mail_inv (rl_db r)" using inv by (simp_all add: relay_inv_def db_inv_def)
  have au: "authenticated c = authenticated c0" by (simp add: c_def)
  have own: "stores (rl_db r) db' c = stores (rl_db r) db' c0" "acks (rl_db r) db' c = acks (rl_db r) db' c0" for db'
    using rel owner_rel by (auto simp: conn_rel_def)
  have quiet: "relay_inv (setConn r i (closeConn code c)) \<and> frame_effect i r (setConn r i (closeConn code c))" for code
    using conns_step_set [OF Some conn_rel_trans [OF rel conn_rel_close]] by (intro steady_step [OF inv]) (auto simp: same_registry_def)
  have first: "relay_inv (handleFirst K r i c raw) \<and> frame_effect i r (handleFirst K r i c raw)" if "\<not> authenticated c" for raw
    using first_step [OF inv Some _ rel _ refl] that au by (simp add: c_def tick_def Let_def)
  have send: "relay_inv (handleSend pick r i c u e) \<and> frame_effect i r (handleSend pick r i c u e)" for u e
    using handleSend_step [OF live Some rel refl] own Some by (intro steady_step [OF inv]) auto
  have opsend: "relay_inv (handleOpSend pick r i c conv sq op) \<and> frame_effect i r (handleOpSend pick r i c conv sq op)"
    if "authenticated c" for conv sq op
    using handleOpSend_step [OF live Some rel refl, of pick conv sq op] that au Some
    by (intro steady_step [OF inv]) blast+
  have other: "relay_inv (handleOther pick r i c raw) \<and> frame_effect i r (handleOther pick r i c raw)" for raw
    using handleOther_step [OF mail Some rel refl] own Some by (intro steady_step [OF inv]) auto
  show ?thesis
    using Some inv frame_effect_quiet [OF refl, of i r] quiet first send opsend other
    by (auto simp: handleFrame_def c_def [symmetric] Let_def split: option.splits WsFrame.splits)
qed

subsection \<open>Reachable states\<close>

text \<open>
  The events of a running relay: a socket connects, a frame arrives, a socket is closed by
  either side, a REST request is served (with a row id no conversation has). Handlers run one
  after the other; what may happen inside the drain of one connection is the subject of
  \<open>live_push_never_overtakes_drain\<close> below.
\<close>

inductive relay_step :: "crypto_lib \<Rightarrow> RelayConfig \<Rightarrow> Relay \<Rightarrow> Relay \<Rightarrow> bool" for K :: crypto_lib and cfg :: RelayConfig where
  step_connect: "map_of (rl_conns r) i = None \<Longrightarrow> relay_step K cfg r (setConn r i (openConn K (rl_db r) now queryToken (headerTokenOf protoHeader)))"
| step_frame: "relay_step K cfg r (handleFrame K pick now r i n json)"
| step_close: "map_of (rl_conns r) i = Some c \<Longrightarrow> relay_step K cfg r (onClose (setConn r i (c\<lparr>cn_open := False\<rparr>)) i)"
| step_rest: "routed route rq \<Longrightarrow> \<not> conversation_exists (rl_db r) (fr_id fr) \<Longrightarrow>
    serve K cfg dbUp pick fr route rq r = (rep, r') \<Longrightarrow> relay_step K cfg r r'"

inductive_cases relay_stepE: "relay_step K cfg r r'"

inductive reachable :: "crypto_lib \<Rightarrow> RelayConfig \<Rightarrow> Relay \<Rightarrow> bool" for K :: crypto_lib and cfg :: RelayConfig where
  reach_init: "db_inv db \<Longrightarrow> reachable K cfg \<lparr>rl_db = db, rl_ops = [], rl_lockout = newLockout, rl_conns = [], rl_live = []\<rparr>"
| reach_step: "reachable K cfg r \<Longrightarrow> relay_step K cfg r r' \<Longrightarrow> reachable K cfg r'"

lemma openConn_ok: "conn_ok db (openConn K db now q h)"
  by (auto simp: openConn_def conn_ok_def closeConn_def Let_def authenticateToken_user split: option.splits if_splits)

lemma connect_inv:
  assumes "relay_inv r" "map_of (rl_conns r) i = None" "conn_ok (rl_db r) c"
  shows "relay_inv (setConn r i c)"
proof -
  have "live_ok (setConn r i c)"
    using assms unfolding relay_inv_def live_ok_def by fastforce
  then show ?thesis using assms by (auto simp: relay_inv_def)
qed

lemma onClose_simps:
  "rl_db (onClose r i) = rl_db r" "rl_conns (onClose r i) = rl_conns r" "set (rl_live (onClose r i)) \<subseteq> set (rl_live r)"
  "rl_ops (onClose r i) = rl_ops r"
  by (auto simp: onClose_def amap_del_def split: option.splits)

lemma close_inv:
  assumes "relay_inv r" "map_of (rl_conns r) i = Some c"
  shows "relay_inv (onClose (setConn r i (c\<lparr>cn_open := False\<rparr>)) i)"
proof -
  define r1 where "r1 = setConn r i (c\<lparr>cn_open := False\<rparr>)"
  have "conn_rel (rl_db r) c (c\<lparr>cn_open := False\<rparr>)" by (simp add: conn_rel_def emits_same same_owner_def)
  then have st: "conns_step (rl_db r) r r1" using conns_step_set [OF assms(2)] by (simp add: r1_def)
  then have inv1: "relay_inv r1"
    using steady_step [OF assms(1) st, of 0] by (simp add: r1_def same_registry_def)
  then have "live_ok (onClose r1 i)"
    using onClose_simps(3) live_ok_step [of r1 "rl_db r1" "onClose r1 i"] by (simp add: relay_inv_def onClose_simps(2))
  then show ?thesis using inv1 unfolding r1_def [symmetric] relay_inv_def onClose_simps by blast
qed

lemma rest_inv:
  assumes "relay_inv r" "routed route rq" "\<not> conversation_exists (rl_db r) (fr_id fr)" "serve K cfg dbUp pick fr route rq r = (rep, r')"
  shows "relay_inv r'"
proof -
  have ok: "rest_ok pick fr (authenticate K (rl_db r) (rq_authorization rq)) r r'" using serve_effect [OF assms(2,4)] by blast
  then have "db_inv (rl_db r') \<and> us_id ` set (db_users (rl_db r)) \<subseteq> us_id ` set (db_users (rl_db r'))"
    using rest_effect_inv assms(1,3) unfolding rest_ok_def relay_inv_def by blast
  then show ?thesis using ok assms(1) unfolding relay_inv_def conn_ok_def live_ok_def rest_ok_def user_exists_def by auto
qed

lemma relay_step_inv [inv_intros]: "relay_step K cfg r r' \<Longrightarrow> relay_inv r \<Longrightarrow> relay_inv r'"
  by (induction rule: relay_step.induct)
    (auto intro: connect_inv openConn_ok close_inv rest_inv handleFrame_step [THEN conjunct1])

lemma reachable_inv: "reachable K cfg r \<Longrightarrow> relay_inv r"
proof (induction rule: reachable.induct)
  case (reach_init db)
  then show ?case by (simp add: relay_inv_def live_ok_def)
qed (rule relay_step_inv)

subsection \<open>The op store over a run\<close>

lemma storeOp_grows: "\<exists>suf. opsOf (snd (storeOp ops conv sq op)) c = opsOf ops c @ suf"
  by (simp add: opstore.put_entries)

lemma step_ops_grow:
  assumes "relay_step K cfg r r'" "relay_inv r"
  shows "\<exists>suf. opsOf (rl_ops r') c = opsOf (rl_ops r) c @ suf"
  using assms(1)
proof (elim relay_stepE)
  fix pick now i n json
  assume "r' = handleFrame K pick now r i n json"
  then have "frame_effect i r r'" using handleFrame_step [OF assms(2)] by simp
  then show ?thesis using storeOp_grows by (auto simp: frame_effect_def)
qed (use serve_effect in \<open>auto simp: rest_ok_def onClose_simps\<close>)

lemma run_ops_grow:
  "(relay_step K cfg)\<^sup>*\<^sup>* r r' \<Longrightarrow> relay_inv r \<Longrightarrow> relay_inv r' \<and> (\<exists>suf. opsOf (rl_ops r') c = opsOf (rl_ops r) c @ suf)"
proof (induction rule: rtranclp_induct)
  case (step y z)
  then obtain suf where y: "relay_inv y" "opsOf (rl_ops y) c = opsOf (rl_ops r) c @ suf" by blast
  moreover obtain suf' where "opsOf (rl_ops z) c = opsOf (rl_ops y) c @ suf'"
    using step_ops_grow [OF step(2) y(1)] by blast
  ultimately show ?case using relay_step_inv [OF step(2)] by simp
qed simp

subsection \<open>Delivering around a drain\<close>

lemma pushAll_built:
  assumes "cn_open c" "\<forall>f \<in> set fs. f \<noteq> None"
  shows "pushAll fs c = (False, c\<lparr>cn_out := cn_out c @ map the fs\<rparr>)"
  using assms by (induction fs arbitrary: c) auto

definition deliverAll :: "StoredEnvelope list \<Rightarrow> Conn \<Rightarrow> Conn" where
  "deliverAll es c = foldl (\<lambda>c e. deliver e c) c es"

lemma deliverAll_draining:
  "cn_draining c \<Longrightarrow> deliverAll es c = c\<lparr>cn_liveBuffer := cn_liveBuffer c @ es\<rparr>"
  by (induction es arbitrary: c) (simp_all add: deliverAll_def deliver_def)

lemma deliverAll_live:
  assumes "\<not> cn_draining c" "cn_open c" "\<forall>e \<in> set es. buildDeliverFrame e \<noteq> None"
  shows "cn_out (deliverAll es c) = cn_out c @ map (the \<circ> buildDeliverFrame) es"
  using assms
proof (induction es arbitrary: c)
  case (Cons e es)
  have "deliver e c = c\<lparr>cn_out := cn_out c @ [the (buildDeliverFrame e)]\<rparr>"
    using Cons.prems pushAll_built [of c "[buildDeliverFrame e]"] by (simp add: deliver_def)
  then show ?case using Cons.IH [of "deliver e c"] Cons.prems by (simp add: deliverAll_def)
qed (simp add: deliverAll_def)

subsection \<open>Properties\<close>

text \<open>C5: a removed member receives nothing: in every reachable state and for every frame on any
  connection, what the relay writes to a connection (envelopes and ops, from the drain, the
  live push or the fan-out) belongs to conversations the connection's user is an active member
  of at that moment.\<close>

theorem delivery_respects_membership:
  assumes "reachable K cfg r" "map_of (rl_conns r) j = Some c"
  shows "\<exists>c' new. map_of (rl_conns (handleFrame K pick now r i n json)) j = Some c' \<and> cn_out c' = cn_out c @ new
    \<and> (\<forall>f \<in> set new. \<forall>conv. frame_conv f = Some conv \<longrightarrow> (\<exists>u. cn_userId c' = Some u \<and> u \<in> active_members (rl_db r) conv))"
proof -
  have "frame_effect i r (handleFrame K pick now r i n json)"
    using handleFrame_step [OF reachable_inv [OF assms(1)]] by simp
  then obtain c' where "map_of (rl_conns (handleFrame K pick now r i n json)) j = Some c'" "emits (rl_db r) c c'"
    using assms(2) by (auto simp: frame_effect_def)
  then show ?thesis using allowedD unfolding emits_def by blast
qed

definition demoRun :: Relay where
  "demoRun = setConn demoTokens 0 (openConn demoLib (rl_db demoTokens) 0 False None)"

lemma demoRun_reachable: "reachable demoLib demoConfig demoRun"
proof -
  have "reachable demoLib demoConfig demoTokens"
    using reach_init [OF demo_db_inv] by (simp add: demoTokens_def demoRelay_def)
  then show ?thesis
    using reach_step [OF _ step_connect [of demoTokens 0 demoLib demoConfig 0 False None]]
    by (simp add: demoRun_def headerTokenOf_def demoTokens_def demoRelay_def)
qed

definition demoAuthFrame :: json where
  "demoAuthFrame = JObj [(js ''type'', JStr (js ''auth'')), (js ''token'', JStr (js ''tok-bob'')), (js ''deviceId'', JInt 1)]"

theorem delivery_respects_membership_witness:
  "\<exists>c' new. map_of (rl_conns (handleFrame demoLib (\<lambda>_. 0) 5 demoRun 0 80 (Some demoAuthFrame))) 0 = Some c'
    \<and> cn_out c' = cn_out (openConn demoLib (rl_db demoTokens) 0 False None) @ new
    \<and> (\<forall>f \<in> set new. \<forall>conv. frame_conv f = Some conv \<longrightarrow> (\<exists>u. cn_userId c' = Some u \<and> u \<in> active_members (rl_db demoRun) conv))"
  by (rule delivery_respects_membership [OF demoRun_reachable]) (simp add: demoRun_def)

text \<open>C18: only a sender's own connection stores its envelopes and only the recipient device's own
  connection removes them: a frame that adds an envelope comes from a connection authenticated
  as its sender, who is an active member of the conversation; one that deletes an envelope from
  a connection of the device it is addressed to; memberships, users and devices never change,
  and the op store changes from authenticated connections only.\<close>

theorem frames_act_for_their_owner:
  assumes "reachable K cfg r" "handleFrame K pick now r i n json = r'"
  shows "db_memberships (rl_db r') = db_memberships (rl_db r) \<and> db_users (rl_db r') = db_users (rl_db r)
    \<and> db_devices (rl_db r') = db_devices (rl_db r)
    \<and> (\<forall>e \<in> set (db_envelopes (rl_db r')) - set (db_envelopes (rl_db r)). \<exists>c. map_of (rl_conns r) i = Some c
        \<and> cn_userId c = Some (se_senderUserId e) \<and> cn_deviceId c = Some (se_senderDeviceId e)
        \<and> se_senderUserId e \<in> active_members (rl_db r) (se_conversationId e))
    \<and> (\<forall>e \<in> set (db_envelopes (rl_db r)) - set (db_envelopes (rl_db r')). \<exists>c. map_of (rl_conns r) i = Some c
        \<and> cn_userId c = Some (se_recipientUserId e) \<and> cn_deviceId c = Some (se_recipientDeviceId e))
    \<and> (rl_ops r' \<noteq> rl_ops r \<longrightarrow> (\<exists>c. map_of (rl_conns r) i = Some c \<and> authenticated c))"
proof -
  have eff: "frame_effect i r r'" using handleFrame_step [OF reachable_inv [OF assms(1)]] assms(2) by blast
  then consider "rl_db r' = rl_db r"
    | c where "map_of (rl_conns r) i = Some c" "stores (rl_db r) (rl_db r') c"
    | c where "map_of (rl_conns r) i = Some c" "acks (rl_db r) (rl_db r') c"
    by (auto simp: frame_effect_def)
  then show ?thesis
  proof cases
    case 2
    then show ?thesis using eff stores_frame [OF 2(2)] by (auto simp: stores_def frame_effect_def)
  next
    case 3
    then show ?thesis
      using eff acks_frame [OF 3(2)]
      by (auto simp: acks_def frame_effect_def mbAckDb_def mbAck_def ackEnvelopes_def Let_def)
  qed (use eff in \<open>auto simp: frame_effect_def\<close>)
qed

theorem frames_act_for_their_owner_witness:
  "db_memberships (rl_db (handleFrame demoLib (\<lambda>_. 0) 5 demoRun 0 80 (Some demoAuthFrame))) = db_memberships demoDb
   \<and> db_users (rl_db (handleFrame demoLib (\<lambda>_. 0) 5 demoRun 0 80 (Some demoAuthFrame))) = db_users (rl_db demoTokens)"
  using frames_act_for_their_owner [OF demoRun_reachable refl, of "\<lambda>_. 0" 5 0 80 "Some demoAuthFrame"]
  by (simp add: demoRun_def demoTokens_def demoRelay_def)


definition demoConn :: Conn where
  "demoConn = \<lparr>cn_userId = Some (js ''bob''), cn_deviceId = Some 1, cn_open = True, cn_listening = True, cn_draining = True,
     cn_liveBuffer = [], cn_windowStart = 0, cn_framesInWindow = 1, cn_out = [WsReady], cn_closeCode = None\<rparr>"

definition demoEnvelope :: "int \<Rightarrow> StoredEnvelope" where
  "demoEnvelope n = \<lparr>se_conversationId = js ''c1'', se_recipientUserId = js ''bob'', se_recipientDeviceId = 1,
     se_senderUserId = js ''alice'', se_senderDeviceId = 1, se_seq = n, se_type = 2, se_ciphertext = [7, 8, 9]\<rparr>"

lemma demoEnvelope_built: "0 \<le> n \<Longrightarrow> \<exists>f. buildDeliverFrame (demoEnvelope n) = Some f"
  using buildDeliverFrame_None [of "demoEnvelope n"] by (simp add: envelope_ok_def demoEnvelope_def js_def)


text \<open>C23: an envelope that decodes to no bytes blocks its mailbox: the relay accepts any non-empty
  base64 text, and \<open>"="\<close> is stored as the empty byte string, which the outgoing schema refuses.
  When such a row is first in a device's mailbox, the handshake sends \<^verbatim>\<open>ready\<close> and nothing else,
  leaves the connection in its draining state, and every later live push is only buffered.\<close>

theorem empty_ciphertext_blocks_mailbox:
  assumes f: "onFirstFrames K (rl_db r) raw c = (True, c1)" and c1: "cn_open c1" "cn_userId c1 = Some u" "cn_deviceId c1 = Some d"
    and pending: "mbDrain (rl_db r) \<lparr>dr_recipientUserId = u, dr_recipientDeviceId = d, dr_conversationIds = listActiveConversationIds (rl_db r) u\<rparr> = e # rest"
    and empty: "se_ciphertext e = base64Decode (js ''='')"
  shows "\<exists>c'. map_of (rl_conns (handleFirst K r i c raw)) i = Some c' \<and> cn_out c' = cn_out c1 @ [WsReady]
    \<and> cn_draining c' \<and> (\<forall>es. cn_out (deliverAll es c') = cn_out c')"
proof -
  have "base64Decode (js ''='') = []" by (simp add: base64Decode_def js_def b64val_def)
  then have none: "buildDeliverFrame e = None"
    using empty by (simp add: buildDeliverFrame_None envelope_ok_def)
  define c3 where "c3 = c1\<lparr>cn_out := cn_out c1 @ [WsReady], cn_draining := True\<rparr>"
  have "drainAndPush (rl_db r) (rl_ops r) c3 = (True, c3)"
    using c1 pending none by (simp add: drainAndPush_def c3_def Let_def)
  then have "rl_conns (handleFirst K r i c raw) = amap_set (rl_conns r) i c3"
    using f c1 by (simp add: handleFirst_def authenticated_def c3_def setConn_def registerLive_def)
  then show ?thesis
    by (auto simp: map_of_amap_set c3_def deliverAll_draining)
qed

theorem empty_ciphertext_blocks_mailbox_witness:
  "\<exists>c'. map_of (rl_conns (handleFirst demoLib (demoTokens\<lparr>rl_db := (rl_db demoTokens)\<lparr>db_envelopes :=
        [(demoEnvelope 1)\<lparr>se_ciphertext := []\<rparr>, demoEnvelope 2]\<rparr>\<rparr>) 0 (demoConn\<lparr>cn_deviceId := None, cn_draining := False, cn_out := []\<rparr>)
        (JObj [(js ''type'', JStr (js ''hello'')), (js ''deviceId'', JInt 1)]))) 0 = Some c'
     \<and> cn_out c' = [WsReady] \<and> cn_draining c'"
proof -
  let ?r = "demoTokens\<lparr>rl_db := (rl_db demoTokens)\<lparr>db_envelopes := [(demoEnvelope 1)\<lparr>se_ciphertext := []\<rparr>, demoEnvelope 2]\<rparr>\<rparr>"
  let ?c = "demoConn\<lparr>cn_deviceId := None, cn_draining := False, cn_out := []\<rparr>"
  have f: "onFirstFrames demoLib (rl_db ?r) (JObj [(js ''type'', JStr (js ''hello'')), (js ''deviceId'', JInt 1)]) ?c = (True, ?c\<lparr>cn_deviceId := Some 1\<rparr>)"
    by (simp add: onFirstFrames_def WsHelloFrameSchema_def z_object_def z_literal_def z_uint_def demoConn_def js_def)
  have e: "se_ciphertext ((demoEnvelope 1)\<lparr>se_ciphertext := []\<rparr>) = base64Decode (js ''='')"
    by (simp add: base64Decode_def js_def b64val_def)
  have p: "mbDrain (rl_db ?r) \<lparr>dr_recipientUserId = js ''bob'', dr_recipientDeviceId = 1, dr_conversationIds = listActiveConversationIds (rl_db ?r) (js ''bob'')\<rparr>
      = [(demoEnvelope 1)\<lparr>se_ciphertext := []\<rparr>, demoEnvelope 2]"
    by (simp add: mbDrain_def drainPendingEnvelopes_def listActiveConversationIds_def demoTokens_def demoRelay_def demoDb_def demoEnvelope_def js_def)
  show ?thesis
    using empty_ciphertext_blocks_mailbox [OF f _ _ _ p e, of 0] by (auto simp: demoConn_def)
qed

text \<open>C24: the first op sent for a position wins, whoever sends it: an op-send frame whose sequence
  number is the length of the conversation's log is stored with no regard to who sends it, and
  no later event of the relay replaces it, so that the op the founder signs for that position is
  never stored.\<close>

theorem first_op_sent_wins:
  assumes "reachable K cfg r" "map_of (rl_conns r) i = Some c" "authenticated c"
    and "n = length (opsOf (rl_ops r) conv)" "(relay_step K cfg)\<^sup>*\<^sup>* (handleOpSend pick r i c conv (int n) op) r'"
  shows "n < length (opsOf (rl_ops r') conv) \<and> opsOf (rl_ops r') conv ! n = op
    \<and> take n (opsOf (rl_ops r') conv) = opsOf (rl_ops r) conv"
proof -
  let ?r = "handleOpSend pick r i c conv (int n) op"
  have inv: "relay_inv r" using reachable_inv [OF assms(1)] .
  then have live: "live_ok r" by (simp add: relay_inv_def)
  have st: "conns_step (rl_db r) r ?r \<and> same_registry r ?r \<and> rl_db ?r = rl_db r
      \<and> rl_ops ?r = snd (storeOp (rl_ops r) conv (int n) op)"
    by (rule handleOpSend_step [OF live assms(2) conn_rel_refl refl])
  then have inv': "relay_inv ?r"
    using steady_step [OF inv, of ?r i] assms(2,3) by blast
  have "opsOf (rl_ops ?r) conv = opsOf (rl_ops r) conv @ [op]"
    using st assms(4) by (simp add: opstore.put_entries)
  then show ?thesis
    using run_ops_grow [OF assms(5) inv', of conv] assms(4) by auto
qed

definition demoAuthed :: Relay where
  "demoAuthed = handleFrame demoLib (\<lambda>_. 0) 5 demoRun 0 80 (Some demoAuthFrame)"

lemma demoAuthed_conn: "\<exists>c. map_of (rl_conns demoAuthed) 0 = Some c \<and> authenticated c \<and> rl_ops demoAuthed = []"
proof -
  have a: "WsAuthFrameSchema demoAuthFrame = Some (js ''tok-bob'', 1)" "WsHelloFrameSchema demoAuthFrame = None"
    by (simp_all add: WsAuthFrameSchema_def WsHelloFrameSchema_def demoAuthFrame_def z_object_def z_literal_def z_str1_def z_uint_def js_def)
  define c where "c = tick 5 (openConn demoLib (rl_db demoTokens) 0 False None)"
  have c: "cn_userId c = None" "cn_deviceId c = None" "cn_open c" "cn_framesInWindow c = 1" "\<not> authenticated c"
    by (simp_all add: c_def tick_def openConn_def Let_def RATE_WINDOW_MS_def authenticated_def)
  have "demoAuthed = handleFirst demoLib demoRun 0 c demoAuthFrame"
    using c by (simp add: demoAuthed_def handleFrame_def demoRun_def Let_def MAX_FRAMES_PER_WINDOW_def MAX_ENVELOPE_BYTES_def
        flip: c_def) (simp add: openConn_def Let_def)
  moreover have "rl_db demoRun = rl_db demoTokens" "rl_ops demoRun = []"
    by (simp_all add: demoRun_def demoTokens_def demoRelay_def)
  moreover have "onFirstFrames demoLib (rl_db demoTokens) demoAuthFrame c = (True, c\<lparr>cn_userId := Some (js ''bob''), cn_deviceId := Some 1\<rparr>)"
    using a demo_token by (simp add: onFirstFrames_def)
  ultimately show ?thesis
    using handleFirst_owner [of demoRun demoLib demoAuthFrame c _ 0] demo_db_inv
    by (fastforce simp: authenticated_def same_owner_def db_inv_def)
qed

theorem first_op_sent_wins_witness:
  "\<exists>c. map_of (rl_conns demoAuthed) 0 = Some c \<and> authenticated c
     \<and> opsOf (rl_ops (handleOpSend (\<lambda>_. 0) demoAuthed 0 c (js ''private'') (int 0) (js ''AA=='')))  (js ''private'') ! 0 = js ''AA==''"
proof -
  obtain c where c: "map_of (rl_conns demoAuthed) 0 = Some c" "authenticated c" "rl_ops demoAuthed = []"
    using demoAuthed_conn by blast
  have r: "reachable demoLib demoConfig demoAuthed"
    unfolding demoAuthed_def using demoRun_reachable by (rule reach_step) (rule step_frame)
  show ?thesis
    using first_op_sent_wins [OF r c(1,2), of 0 "js ''private''"] c by (auto simp: opsOf_def)
qed

text \<open>C35: every reachable state of the relay is well-formed: one membership row per user and
  conversation and one row per conversation, the mailbox in increasing sequence order, at most
  one active row per device id of a user; a live registry entry points to a registered
  connection of exactly that user and device, a connection speaks for an existing user only,
  and before authentication nothing is buffered on it.\<close>

theorem relay_state_wellformed:
  assumes "reachable K cfg r"
  shows "distinct (map (\<lambda>m. (mb_conversationId m, mb_userId m)) (db_memberships (rl_db r)))
    \<and> distinct (map cv_id (db_conversations (rl_db r)))
    \<and> sorted_wrt (\<lambda>e f. se_seq e < se_seq f) (db_envelopes (rl_db r))
    \<and> distinct (map (\<lambda>d. (dv_userId d, dv_deviceId d)) (filter (\<lambda>d. dv_replacedAt d = None) (db_devices (rl_db r))))
    \<and> (\<forall>u d j. ((u, d), j) \<in> set (rl_live r) \<longrightarrow>
          (\<exists>c. map_of (rl_conns r) j = Some c \<and> cn_userId c = Some u \<and> cn_deviceId c = Some d))
    \<and> (\<forall>j c. map_of (rl_conns r) j = Some c \<longrightarrow>
          (\<forall>u. cn_userId c = Some u \<longrightarrow> u \<in> us_id ` set (db_users (rl_db r)))
          \<and> (\<not> authenticated c \<longrightarrow> cn_liveBuffer c = [] \<and> \<not> cn_draining c))"
proof -
  have inv: "relay_inv r" by (rule reachable_inv [OF assms])
  let ?as = "filter (\<lambda>d. dv_replacedAt d = None) (db_devices (rl_db r))"
  have "devices_inv (rl_db r)" using inv by (simp add: relay_inv_def db_inv_def)
  then have dv: "distinct ?as" "inj_on (\<lambda>d. (dv_userId d, dv_deviceId d)) (set ?as)"
    by (auto simp: devices_inv_def distinct_map inj_on_def)
  then have "distinct (map (\<lambda>d. (dv_userId d, dv_deviceId d)) ?as)" by (simp add: distinct_map)
  then show ?thesis
    using inv live_okD [of r]
    unfolding relay_inv_def db_inv_def memberships_inv_def mail_inv_def conn_ok_def user_exists_def by fastforce
qed

theorem relay_state_wellformed_witness:
  "cn_liveBuffer (openConn demoLib (rl_db demoTokens) 0 False None) = []
    \<and> distinct (map (\<lambda>m. (mb_conversationId m, mb_userId m)) (db_memberships (rl_db demoRun)))"
proof -
  have "\<not> authenticated (openConn demoLib (rl_db demoTokens) 0 False None)"
    by (simp add: openConn_def Let_def authenticated_def)
  moreover have "map_of (rl_conns demoRun) 0 = Some (openConn demoLib (rl_db demoTokens) 0 False None)"
    by (simp add: demoRun_def)
  ultimately show ?thesis using relay_state_wellformed [OF demoRun_reachable] by blast
qed

end
