(* ===== verification/EndToEnd.thy ===== *)
theory EndToEnd
  imports RelayProps ClientSafety
begin

section \<open>A message from sender to recipient\<close>

text \<open>
  The relay (\<^verbatim>\<open>apps/node\<close>) and a client (\<^verbatim>\<open>client-sdk\<close>) composed over the wire: the frame a sender
  puts on its socket is handled by the relay, what the relay writes to the recipient's socket is the
  message event of the recipient's link, and the ack this client sends is handled by the relay
  again. No definition of the program is added here, only predicates that name the situations.
\<close>

subsection \<open>The relay's side\<close>

text \<open>A frame of \<open>n\<close> bytes passes the guards at the top of \<open>handleFrame\<close>.\<close>

definition admitted :: "int \<Rightarrow> nat \<Rightarrow> Conn \<Rightarrow> bool" where
  "admitted now n c \<longleftrightarrow> cn_listening c \<and> cn_framesInWindow (tick now c) \<le> MAX_FRAMES_PER_WINDOW \<and> n \<le> MAX_ENVELOPE_BYTES"

text \<open>The device has a registered connection that is past its drain.\<close>

definition online_at :: "Relay \<Rightarrow> jsstring \<Rightarrow> int \<Rightarrow> nat \<Rightarrow> Conn \<Rightarrow> bool" where
  "online_at r u d j t \<longleftrightarrow> map_of (rl_live r) (u, d) = Some j \<and> map_of (rl_conns r) j = Some t \<and> cn_open t \<and> \<not> cn_draining t"

text \<open>What the relay makes of an envelope: its own sequence number and its own base64.\<close>

definition relayed :: "int \<Rightarrow> Envelope \<Rightarrow> Envelope" where
  "relayed sq e = e\<lparr>env_seq := sq, env_ciphertext := base64Encode (base64Decode (env_ciphertext e))\<rparr>"

definition storedOf :: "int \<Rightarrow> jsstring \<Rightarrow> Envelope \<Rightarrow> StoredEnvelope" where
  "storedOf sq rcpt e = \<lparr>se_conversationId = env_conversationId e, se_recipientUserId = rcpt,
     se_recipientDeviceId = env_recipientDeviceId e, se_senderUserId = env_senderUserId e,
     se_senderDeviceId = env_senderDeviceId e, se_seq = sq, se_type = env_type e,
     se_ciphertext = base64Decode (env_ciphertext e)\<rparr>"

lemma relayed_simps [simp]:
  "env_conversationId (relayed sq e) = env_conversationId e" "env_senderUserId (relayed sq e) = env_senderUserId e"
  "env_senderDeviceId (relayed sq e) = env_senderDeviceId e" "env_seq (relayed sq e) = sq"
  "toIncoming (relayed sq e) m = toIncoming e m"
  by (simp_all add: relayed_def toIncoming_def)

lemma base64_nonempty: "bs \<noteq> [] \<Longrightarrow> base64Encode bs \<noteq> []"
  using base64_roundtrip [of bs] by (auto simp: base64Decode_def)

lemma relayed_ok: "envelope_ok e \<Longrightarrow> base64Decode (env_ciphertext e) \<noteq> [] \<Longrightarrow> 0 \<le> sq \<Longrightarrow> envelope_ok (relayed sq e)"
  by (auto simp: envelope_ok_def relayed_def base64_nonempty)

lemma buildDeliverFrame_relayed:
  assumes "envelope_ok e" "base64Decode (env_ciphertext e) \<noteq> []" "0 \<le> sq"
  shows "buildDeliverFrame (storedOf sq rcpt e) = Some (WsDeliver (relayed sq e))"
  using relayed_ok [OF assms]
  by (cases e) (simp add: buildDeliverFrame_def storedOf_def js_of_frame_def WsDeliverFrameSchema_def envelope_roundtrip relayed_def)

text \<open>The dispatch of a frame that is admitted on an authenticated connection.\<close>

lemma admitted_frame:
  assumes "map_of (rl_conns r) i = Some c" "admitted now n c" "authenticated c"
  shows "frame_ok (WsSend rcpt e) \<Longrightarrow> handleFrame K pick now r i n (Some (js_of_frame (WsSend rcpt e)))
      = handleSend pick r i (tick now c) rcpt e"
    and "frame_ok (WsAck conv sq) \<Longrightarrow> handleFrame K pick now r i n (Some (js_of_frame (WsAck conv sq)))
      = handleOther pick r i (tick now c) (js_of_frame (WsAck conv sq))"
  using assms by (auto simp: handleFrame_def admitted_def Let_def js_of_frame_def frame_schemas envelope_roundtrip frame_ok_def)

lemma tick_simps [simp]:
  "cn_userId (tick now c) = cn_userId c" "cn_deviceId (tick now c) = cn_deviceId c" "cn_open (tick now c) = cn_open c"
  "cn_out (tick now c) = cn_out c"
  by (simp_all add: tick_def Let_def)

text \<open>The send: the envelope is stored and pushed.\<close>

lemma relay_send:
  assumes c: "map_of (rl_conns r) i = Some c" "admitted now n c" "cn_userId c = Some (env_senderUserId e)"
      "cn_deviceId c = Some (env_senderDeviceId e)"
    and inv: "memberships_inv (rl_db r)" "0 \<le> db_seq (rl_db r)"
    and mem: "env_senderUserId e \<in> active_members (rl_db r) (env_conversationId e)" "rcpt \<in> active_members (rl_db r) (env_conversationId e)"
    and ok: "frame_ok (WsSend rcpt e)" "base64Decode (env_ciphertext e) \<noteq> []"
    and t: "online_at r rcpt (env_recipientDeviceId e) j t" "j \<noteq> i"
    and r1: "r1 = handleFrame K pick now r i n (Some (js_of_frame (WsSend rcpt e)))"
  shows "map_of (rl_conns r1) j = Some (t\<lparr>cn_out := cn_out t @ [WsDeliver (relayed (db_seq (rl_db r)) e)]\<rparr>)
    \<and> rl_db r1 = (rl_db r)\<lparr>db_envelopes := db_envelopes (rl_db r) @ [storedOf (db_seq (rl_db r)) rcpt e], db_seq := db_seq (rl_db r) + 1\<rparr>"
proof -
  define db1 where "db1 = (rl_db r)\<lparr>db_envelopes := db_envelopes (rl_db r) @ [storedOf (db_seq (rl_db r)) rcpt e], db_seq := db_seq (rl_db r) + 1\<rparr>"
  have st: "mbStore (rl_db r) \<lparr>sp_conversationId = env_conversationId e, sp_recipientUserId = rcpt,
      sp_recipientDeviceId = env_recipientDeviceId e, sp_senderUserId = env_senderUserId e,
      sp_senderDeviceId = env_senderDeviceId e, sp_type = env_type e, sp_ciphertext = env_ciphertext e\<rparr>
      = Inr (storedOf (db_seq (rl_db r)) rcpt e, db1)"
    using active_conversation_exists [OF inv(1) mem(1)] by (simp add: mbStore_def enqueueEnvelope_def storedOf_def db1_def Let_def)
  have mem1: "isActiveMember pick db1 (env_conversationId e) rcpt"
    using mem(2) by (simp add: isActiveMember_iff db1_def active_members_def)
  have d: "deliver (storedOf (db_seq (rl_db r)) rcpt e) t = t\<lparr>cn_out := cn_out t @ [WsDeliver (relayed (db_seq (rl_db r)) e)]\<rparr>"
    using t(1) ok buildDeliverFrame_relayed [OF _ ok(2) inv(2), of rcpt] by (simp add: deliver_def online_at_def frame_ok_def)
  have "r1 = setConn (setConn (r\<lparr>rl_db := db1\<rparr>) i (tick now c)) j (deliver (storedOf (db_seq (rl_db r)) rcpt e) t)"
    using t c(3,4) mem(1) mem1 st ok
    by (simp add: r1 admitted_frame(1) [OF c(1,2)] authenticated_def handleSend_def isActiveMember_iff online_at_def Let_def)
  then show ?thesis by (simp add: d db1_def)
qed

text \<open>The ack: the envelope is gone.\<close>

lemma relay_ack:
  assumes t: "map_of (rl_conns r) j = Some t" "admitted now n t" "cn_userId t = Some rcpt" "cn_deviceId t = Some dev"
    and ok: "frame_ok (WsAck conv sq)"
  shows "rl_db (handleFrame K pick now r j n (Some (js_of_frame (WsAck conv sq))))
    = mbAckDb (rl_db r) \<lparr>ak_recipientUserId = rcpt, ak_recipientDeviceId = dev, ak_conversationId = conv, ak_seq = sq\<rparr>"
  using t ok by (simp add: admitted_frame(2) authenticated_def handleOther_def js_of_frame_parse)

lemma ack_undoes_store:
  assumes "mail_inv db" "db1 = db\<lparr>db_envelopes := db_envelopes db @ [storedOf (db_seq db) rcpt e], db_seq := db_seq db + 1\<rparr>"
  shows "db_envelopes (mbAckDb db1 \<lparr>ak_recipientUserId = rcpt, ak_recipientDeviceId = env_recipientDeviceId e,
      ak_conversationId = env_conversationId e, ak_seq = db_seq db\<rparr>) = db_envelopes db"
proof -
  have "\<forall>x \<in> set (db_envelopes db). se_seq x \<noteq> db_seq db" using assms(1) by (auto simp: mail_inv_def)
  then have "filter (\<lambda>x. A x \<longrightarrow> B x \<longrightarrow> C x \<longrightarrow> se_seq x \<noteq> db_seq db) (db_envelopes db) = db_envelopes db" for A B C
    by (simp add: filter_id_conv)
  then show ?thesis by (simp add: assms(2) mbAckDb_def mbAck_def ackEnvelopes_def storedOf_def Let_def)
qed

subsection \<open>The recipient's side\<close>

text \<open>The client's current link has an open, acknowledged socket \<open>s\<close>, and nothing waits to be handled.\<close>

definition connected_at :: "Client \<Rightarrow> nat \<Rightarrow> nat \<Rightarrow> bool" where
  "connected_at cl k s \<longleftrightarrow> cl_links cl \<noteq> [] \<and> k = length (cl_links cl) - 1 \<and> lk_ready (last (cl_links cl))
     \<and> lk_socket (last (cl_links cl)) = Some s \<and> map_of (lk_sockets (last (cl_links cl))) s \<noteq> None \<and> cl_inbox cl = []"

lemma deliver_event:
  assumes "connected_at cl k s" "envelope_ok e"
  shows "\<exists>l. onLinkEvent E cl (k, EvMessage s (Some (js_of_frame (WsDeliver e))))
      = cl\<lparr>cl_links := butlast (cl_links cl) @ [l], cl_inbox := [e]\<rparr>
    \<and> lk_ready l \<and> lk_socket l = Some s \<and> linkWires l = linkWires (last (cl_links cl))"
proof -
  obtain ls l where l: "cl_links cl = ls @ [l]" using assms(1) by (cases "cl_links cl" rule: rev_cases) (auto simp: connected_at_def)
  then have k: "k = length ls" and so: "lk_ready l" "lk_socket l = Some s" "map_of (lk_sockets l) s \<noteq> None" "cl_inbox cl = []"
    using assms(1) by (auto simp: connected_at_def)
  then have "link_step l (EvMessage s (Some (js_of_frame (WsDeliver e)))) = l\<lparr>lk_delivered := lk_delivered l @ [WsDeliver e]\<rparr>"
    using assms(2) by (auto simp: link_step_def onSocket_def onSocketMessage_def js_of_frame_def frame_schemas envelope_roundtrip)
  then show ?thesis
    using l k so by (intro exI [of _ "l\<lparr>lk_delivered := lk_delivered l @ [WsDeliver e]\<rparr>"])
      (simp add: onLinkEvent_def fires_def Let_def receiveFrame_def lastState_def nth_append linkWires_def)
qed

lemma safeAck_sends:
  assumes "cl_links cl = ls @ [l]" "lk_ready l" "lk_socket l = Some s"
  shows "wires (safeAck cl conv sq) = wires cl @ [WsAck conv sq]"
proof -
  have "sendFrame cl (WsAck conv sq) \<noteq> None" and "linkReady cl"
    using assms by (simp_all add: sendFrame_def currentLink_def sendLink_def linkReady_def)
  then show ?thesis using sendFrame_spec(1) by (auto simp: safeAck_def)
qed

text \<open>A quiet pause only counts.\<close>

lemma quiet_pause: "en_arrivals E (cl_tick cl) = [] \<Longrightarrow> pause E cl = cl\<lparr>cl_tick := Suc (cl_tick cl)\<rparr>"
  by (simp add: pause_def)

lemma client_accepts:
  assumes link: "cl_links cl = ls @ [l]" "lk_ready l" "lk_socket l = Some s"
    and quiet: "en_arrivals E (cl_tick cl) = []"
    and plain: "decryptEnvelope (en_signal E) (cl_tick cl) (selfAddress cl) (st_core (cl_stores cl)) e = (Inr bytes, core)"
      "parsePlaintext E bytes = Some m"
    and log: "membershipLogFor E cl (env_conversationId e) = Inr (Some log)" "pm_membershipHead m = Some h"
      "contains (en_crypto E) (ml_ops log) h" "env_senderUserId e \<in> set (members (foldOps (ml_ops log)))"
    and new: "pm_msgId m \<notin> set (st_seenMsgIds (cl_stores cl))"
  shows "cl_messages (handleIncomingEnvelope E cl e) = cl_messages cl @ [toIncoming e m]
    \<and> wires (handleIncomingEnvelope E cl e) = wires cl @ [WsAck (env_conversationId e) (env_seq e)]"
proof -
  define cl1 where "cl1 = drainIdentityChangeLog (pause E (setCore cl core))"
  have p: "pause E (setCore cl core) = (setCore cl core)\<lparr>cl_tick := Suc (cl_tick cl)\<rparr>"
    using quiet_pause [of E "setCore cl core"] quiet by (simp add: setCore_def)
  have f: "cl_links cl1 = cl_links cl" "cl_messages cl1 = cl_messages cl" "conversations_of cl1 = conversations_of cl"
      "cl_joinPins cl1 = cl_joinPins cl" "st_seenMsgIds (cl_stores cl1) = st_seenMsgIds (cl_stores cl)"
    unfolding cl1_def p by (simp_all add: drainIdentityChangeLog_def setCore_def Let_def)
  have held: "membershipLogFor E cl1 (env_conversationId e) = Inr (Some log)"
    using log(1) membershipLogFor_cong [OF f(3,4)] by simp
  have "enforceInbound (en_crypto E) log (env_senderUserId e) (Some h) provider = Inr (Accepted, log)" for provider
    by (rule member_accepted [OF membershipLogFor_own(1) [OF held] log(3,4)])
  then have "handleIncomingEnvelope E cl e = dispatchMessage E cl1 e m"
    by (simp add: handleIncomingEnvelope_def plain held flip: cl1_def) (simp add: gateMessage_def log(2) cl1_def [symmetric] held plain Let_def)
  moreover define cl2 where "cl2 = cl1\<lparr>cl_stores := (cl_stores cl1)\<lparr>st_seenMsgIds := js_set_add (st_seenMsgIds (cl_stores cl1)) (pm_msgId m)\<rparr>,
      cl_messages := cl_messages cl1 @ [toIncoming e m]\<rparr>"
  ultimately have h: "handleIncomingEnvelope E cl e = safeAck cl2 (env_conversationId e) (env_seq e)"
    using new membershipLogFor_own(3) [OF held] f(5) by (simp add: dispatchMessage_def Let_def)
  have "cl_links cl2 = ls @ [l]" "wires cl2 = wires cl" using f(1) link(1) by (simp_all add: cl2_def wires_def)
  then show ?thesis using safeAck_sends [OF _ link(2,3), of cl2] f(2) by (simp add: h cl2_def)
qed

subsection \<open>The property\<close>

text \<open>C6: a message reaches its recipient and leaves the mailbox: in every reachable state of the relay,
  when an active member sends an envelope to an active member that is online, the relay stores it
  and writes one frame to that member's socket; when the recipient's client gets this frame, can
  decrypt the envelope as it was sent, and holds a chain that contains the cited head and has the
  sender in its fold, it dispatches exactly the message that was encrypted and puts one ack on the
  wire; and once the relay has handled that ack its mailbox is what it was before the send.\<close>

theorem message_end_to_end:
  assumes relay: "reachable K cfg r" "0 \<le> db_seq (rl_db r)"
    and sender: "map_of (rl_conns r) i = Some c" "admitted now n c" "cn_userId c = Some (env_senderUserId e)"
      "cn_deviceId c = Some (env_senderDeviceId e)"
    and mem: "env_senderUserId e \<in> active_members (rl_db r) (env_conversationId e)" "rcpt \<in> active_members (rl_db r) (env_conversationId e)"
    and frame: "frame_ok (WsSend rcpt e)" "base64Decode (env_ciphertext e) \<noteq> []"
    and recipient: "online_at r rcpt (env_recipientDeviceId e) j t" "j \<noteq> i" "admitted now' n' t"
    and client: "connected_at cl k s" "en_arrivals E (cl_tick cl) = []"
    and plain: "decryptEnvelope (en_signal E) (cl_tick cl) (selfAddress cl) (st_core (cl_stores cl)) e = (Inr bytes, core)"
      "parsePlaintext E bytes = Some m" "pm_msgId m \<notin> set (st_seenMsgIds (cl_stores cl))"
    and log: "membershipLogFor E cl (env_conversationId e) = Inr (Some log)" "pm_membershipHead m = Some h"
      "contains (en_crypto E) (ml_ops log) h" "env_senderUserId e \<in> set (members (foldOps (ml_ops log)))"
  shows "\<exists>r1 t1 f cl1 ack. r1 = handleFrame K pick now r i n (Some (js_of_frame (WsSend rcpt e)))
    \<and> length (db_envelopes (rl_db r1)) = Suc (length (db_envelopes (rl_db r)))
    \<and> map_of (rl_conns r1) j = Some t1 \<and> cn_out t1 = cn_out t @ [f]
    \<and> cl1 = processInbox E (onLinkEvent E cl (k, EvMessage s (Some (js_of_frame f))))
    \<and> cl_messages cl1 = cl_messages cl @ [toIncoming e m] \<and> wires cl1 = wires cl @ [ack]
    \<and> db_envelopes (rl_db (handleFrame K pick now' r1 j n' (Some (js_of_frame ack)))) = db_envelopes (rl_db r)"
proof -
  define sq where "sq = db_seq (rl_db r)"
  define r1 where "r1 = handleFrame K pick now r i n (Some (js_of_frame (WsSend rcpt e)))"
  have inv: "relay_inv r" by (rule reachable_inv [OF relay(1)])
  then have mb: "memberships_inv (rl_db r)" "mail_inv (rl_db r)" by (simp_all add: relay_inv_def db_inv_def)
  note sent = relay_send [OF sender mb(1) relay(2) mem frame recipient(1,2) r1_def, folded sq_def]
  define t1 where "t1 = t\<lparr>cn_out := cn_out t @ [WsDeliver (relayed sq e)]\<rparr>"
  have t: "cn_userId t1 = Some rcpt" "cn_deviceId t1 = Some (env_recipientDeviceId e)" "admitted now' n' t1"
    using inv recipient(1,3) live_okD [of r rcpt "env_recipientDeviceId e" j]
    by (auto simp: relay_inv_def online_at_def t1_def admitted_def tick_def Let_def dest: map_of_SomeD)
  have ok: "envelope_ok (relayed sq e)" "frame_ok (WsAck (env_conversationId e) sq)"
    using frame relay(2) relayed_ok by (auto simp: frame_ok_def sq_def envelope_ok_def)
  obtain l where l: "onLinkEvent E cl (k, EvMessage s (Some (js_of_frame (WsDeliver (relayed sq e)))))
      = cl\<lparr>cl_links := butlast (cl_links cl) @ [l], cl_inbox := [relayed sq e]\<rparr>"
    "lk_ready l" "lk_socket l = Some s" "linkWires l = linkWires (last (cl_links cl))"
    using deliver_event [OF client(1) ok(1)] by blast
  define cl0 where "cl0 = cl\<lparr>cl_links := butlast (cl_links cl) @ [l], cl_inbox := []\<rparr>"
  have proc: "processInbox E (onLinkEvent E cl (k, EvMessage s (Some (js_of_frame (WsDeliver (relayed sq e))))))
      = handleIncomingEnvelope E cl0 (relayed sq e)" by (simp add: l(1) processInbox_def cl0_def)
  have d: "decryptEnvelope (en_signal E) (cl_tick cl0) (selfAddress cl0) (st_core (cl_stores cl0)) (relayed sq e) = (Inr bytes, core)"
    using plain(1) by (simp add: decryptEnvelope_def cl0_def selfAddress_def relayed_def base64_roundtrip)
  have held: "membershipLogFor E cl0 (env_conversationId (relayed sq e)) = Inr (Some log)"
    using log(1) membershipLogFor_cong [of cl0 cl] by (simp add: cl0_def)
  have w: "wires cl0 = wires cl"
    using client(1) l(4) by (cases "cl_links cl" rule: rev_cases) (simp_all add: connected_at_def wires_def cl0_def)
  have "cl_messages (handleIncomingEnvelope E cl0 (relayed sq e)) = cl_messages cl @ [toIncoming e m]
      \<and> wires (handleIncomingEnvelope E cl0 (relayed sq e)) = wires cl @ [WsAck (env_conversationId e) sq]"
    using client_accepts [OF _ l(2,3) _ d plain(2) held log(2,3)] client(2) log(4) plain(3) w by (simp add: cl0_def)
  moreover have "db_envelopes (rl_db (handleFrame K pick now' r1 j n' (Some (js_of_frame (WsAck (env_conversationId e) sq)))))
      = db_envelopes (rl_db r)"
    using sent t ok(2) ack_undoes_store [OF mb(2)] by (simp add: relay_ack [of r1 j t1] t1_def sq_def)
  ultimately show ?thesis
    unfolding r1_def [symmetric] using sent proc by (intro exI [of _ r1] exI [of _ t1] exI) (auto simp: t1_def)
qed

text \<open>Carol and Alice log in at an empty relay; Carol sends Alice the message of the demonstration.\<close>

definition authFrame :: "jsstring \<Rightarrow> json" where
  "authFrame tok = JObj [(js ''type'', JStr (js ''auth'')), (js ''token'', JStr tok), (js ''deviceId'', JInt 1)]"

definition loggedIn :: "jsstring \<Rightarrow> Conn" where
  "loggedIn u = \<lparr>cn_userId = Some u, cn_deviceId = Some 1, cn_open = True, cn_listening = True, cn_draining = False, cn_liveBuffer = [],
     cn_windowStart = 0, cn_framesInWindow = 1, cn_out = [WsReady], cn_closeCode = None\<rparr>"

definition login :: "Relay \<Rightarrow> nat \<Rightarrow> jsstring \<Rightarrow> Relay" where
  "login r i tok = handleFrame demoLib (\<lambda>_. 0) 0 (setConn r i (openConn demoLib (rl_db r) 0 False None)) i 60 (Some (authFrame tok))"

lemma login_reachable: "reachable demoLib demoConfig r \<Longrightarrow> map_of (rl_conns r) i = None \<Longrightarrow> reachable demoLib demoConfig (login r i tok)"
  using reach_step [OF reach_step [OF _ step_connect [of r i demoLib demoConfig 0 False None]] step_frame]
  by (simp add: login_def headerTokenOf_def)

lemma auth_accepted:
  assumes "authenticateToken demoLib db tok = Some u" "tok \<noteq> []"
  shows "onFirstFrames demoLib db (authFrame tok) c = (True, c\<lparr>cn_userId := Some u, cn_deviceId := Some 1\<rparr>)"
  using assms by (simp add: onFirstFrames_def authFrame_def WsAuthFrameSchema_def WsHelloFrameSchema_def z_object_def
      z_literal_def z_str1_def z_uint_def js_def)

lemma login_state:
  assumes "authenticateToken demoLib (rl_db r) tok = Some u" "tok \<noteq> []" "db_envelopes (rl_db r) = []" "rl_ops r = []"
  shows "rl_db (login r i tok) = rl_db r \<and> rl_ops (login r i tok) = [] \<and> map_of (rl_live (login r i tok)) = (map_of (rl_live r))((u, 1) \<mapsto> i)
    \<and> map_of (rl_conns (login r i tok)) = (map_of (rl_conns r))(i \<mapsto> loggedIn u)"
proof -
  define c where "c = tick 0 (openConn demoLib (rl_db r) 0 False None)"
  define c1 where "c1 = c\<lparr>cn_userId := Some u, cn_deviceId := Some 1\<rparr>"
  have c: "c = \<lparr>cn_userId = None, cn_deviceId = None, cn_open = True, cn_listening = True, cn_draining = False,
      cn_liveBuffer = [], cn_windowStart = 0, cn_framesInWindow = 1, cn_out = [], cn_closeCode = None\<rparr>"
    by (simp add: c_def openConn_def tick_def RATE_WINDOW_MS_def)
  have f: "onFirstFrames demoLib (rl_db r) (authFrame tok) c = (True, c1)"
    using auth_accepted [OF assms(1,2)] by (simp add: c1_def)
  have first: "login r i tok = handleFirst demoLib (setConn r i (openConn demoLib (rl_db r) 0 False None)) i c (authFrame tok)"
    by (simp add: login_def handleFrame_def Let_def flip: c_def)
      (simp add: c openConn_def authenticated_def MAX_FRAMES_PER_WINDOW_def MAX_ENVELOPE_BYTES_def)
  have none: "concat (map (\<lambda>_. []) xs) = []" for xs :: "jsstring list" by (induction xs) simp_all
  have drain: "drainAndPush (rl_db r) (rl_ops r) c' = (False, c')" for c'
    using assms(3,4) by (simp add: none drainAndPush_def mbDrain_def drainPendingEnvelopes_def drainOps_def opsOf_def Let_def split: option.splits)
  show ?thesis
    by (simp add: first handleFirst_def f drain)
      (simp add: c1_def c assms(4) authenticated_def registerLive_def flushLive_def loggedIn_def map_of_amap_set Let_def)
qed

definition twoDb :: Db where
  "twoDb = demoDb\<lparr>db_users := [(demoUser (js ''carol''))\<lparr>us_tokenHash := hashToken demoLib (js ''tcc'')\<rparr>,
       (demoUser (js ''alice''))\<lparr>us_tokenHash := hashToken demoLib (js ''ta'')\<rparr>],
     db_memberships := [\<lparr>mb_id = 0, mb_conversationId = js ''c1'', mb_userId = js ''alice'', mb_admin = True, mb_removedAt = None\<rparr>,
       \<lparr>mb_id = 1, mb_conversationId = js ''c1'', mb_userId = js ''carol'', mb_admin = False, mb_removedAt = None\<rparr>]\<rparr>"

definition carolOnline :: Relay where
  "carolOnline = login \<lparr>rl_db = twoDb, rl_ops = [], rl_lockout = newLockout, rl_conns = [], rl_live = []\<rparr> 0 (js ''tcc'')"

definition twoOnline :: Relay where
  "twoOnline = login carolOnline 1 (js ''ta'')"

lemma twoDb_tokens:
  "authenticateToken demoLib twoDb (js ''tcc'') = Some (js ''carol'')" "authenticateToken demoLib twoDb (js ''ta'') = Some (js ''alice'')"
proof -
  have "hashToken demoLib (js ''tcc'') \<noteq> hashToken demoLib (js ''ta'')"
    by (simp add: hashToken_def demoLib_def toHex_inj length_utf8Encode_js be_bytes_inj del: be_bytes.simps)
  then show "authenticateToken demoLib twoDb (js ''tcc'') = Some (js ''carol'')" "authenticateToken demoLib twoDb (js ''ta'') = Some (js ''alice'')"
    by (simp_all add: authenticateToken_find twoDb_def demoUser_def)
qed

lemma twoDb_state:
  "db_inv twoDb" "db_envelopes twoDb = []" "db_seq twoDb = 1" "active_members twoDb (js ''c1'') = {js ''alice'', js ''carol''}"
proof -
  show "db_inv twoDb" "db_envelopes twoDb = []" "db_seq twoDb = 1"
    by (auto simp: twoDb_def db_inv_def memberships_inv_def mail_inv_def devices_inv_def demoDb_def js_def)
  show "active_members twoDb (js ''c1'') = {js ''alice'', js ''carol''}"
    by (simp add: active_members_def twoDb_def conj_disj_distribR Collect_disj_eq Collect_conv_if insert_commute)
qed

lemma carolOnline_state:
  "reachable demoLib demoConfig carolOnline" "rl_db carolOnline = twoDb" "rl_ops carolOnline = []"
  "map_of (rl_live carolOnline) = [(js ''carol'', 1) \<mapsto> 0]" "map_of (rl_conns carolOnline) = [0 \<mapsto> loggedIn (js ''carol'')]"
proof -
  show "reachable demoLib demoConfig carolOnline"
    unfolding carolOnline_def using reach_init [OF twoDb_state(1)] by (intro login_reachable) simp_all
  show "rl_db carolOnline = twoDb" "rl_ops carolOnline = []" "map_of (rl_live carolOnline) = [(js ''carol'', 1) \<mapsto> 0]"
    "map_of (rl_conns carolOnline) = [0 \<mapsto> loggedIn (js ''carol'')]"
    using login_state [of "\<lparr>rl_db = twoDb, rl_ops = [], rl_lockout = newLockout, rl_conns = [], rl_live = []\<rparr>" "js ''tcc''" _ 0]
      twoDb_tokens(1) twoDb_state(2) by (simp_all add: carolOnline_def js_def)
qed

lemma twoOnline_state:
  "reachable demoLib demoConfig twoOnline" "map_of (rl_conns twoOnline) 0 = Some (loggedIn (js ''carol''))"
  "online_at twoOnline (js ''alice'') 1 1 (loggedIn (js ''alice''))" "db_seq (rl_db twoOnline) = 1"
  "active_members (rl_db twoOnline) (js ''c1'') = {js ''alice'', js ''carol''}"
proof -
  have two: "rl_db twoOnline = twoDb \<and> map_of (rl_live twoOnline) = [(js ''carol'', 1) \<mapsto> 0, (js ''alice'', 1) \<mapsto> 1]
      \<and> map_of (rl_conns twoOnline) = [0 \<mapsto> loggedIn (js ''carol''), 1 \<mapsto> loggedIn (js ''alice'')]"
    unfolding twoOnline_def using login_state [of carolOnline "js ''ta''" _ 1] carolOnline_state twoDb_tokens(2) twoDb_state(2)
    by (simp add: js_def)
  show "reachable demoLib demoConfig twoOnline"
    unfolding twoOnline_def using carolOnline_state by (intro login_reachable) simp_all
  show "map_of (rl_conns twoOnline) 0 = Some (loggedIn (js ''carol''))" "online_at twoOnline (js ''alice'') 1 1 (loggedIn (js ''alice''))"
    "db_seq (rl_db twoOnline) = 1" "active_members (rl_db twoOnline) (js ''c1'') = {js ''alice'', js ''carol''}"
    using two twoDb_state(3,4) by (simp_all add: online_at_def loggedIn_def)
qed

definition readyLink :: Link where
  "readyLink = foldl link_step (newLink (js ''t'') 1) [EvConnect, EvOpen 0, EvMessage 0 (Some (js_of_frame WsReady))]"

definition aliceOnline :: Client where
  "aliceOnline = (demoClient (map demoEncoded demoChain))\<lparr>cl_links := [readyLink]\<rparr>"

theorem message_end_to_end_witness:
  "\<exists>r1 t1 f. r1 = handleFrame demoLib (\<lambda>_. 0) 5 twoOnline 0 200 (Some (js_of_frame (WsSend (js ''alice'') ClientSafety.demoEnvelope)))
    \<and> map_of (rl_conns r1) 1 = Some t1 \<and> cn_out t1 = [WsReady, f]
    \<and> cl_messages (processInbox demoEnv (onLinkEvent demoEnv aliceOnline (0, EvMessage 0 (Some (js_of_frame f)))))
        = [toIncoming ClientSafety.demoEnvelope demoMessage]"
proof -
  have adm: "admitted 5 200 (loggedIn u)" for u
    by (simp add: admitted_def tick_def loggedIn_def RATE_WINDOW_MS_def MAX_FRAMES_PER_WINDOW_def MAX_ENVELOPE_BYTES_def)
  have "lk_ready readyLink \<and> lk_socket readyLink = Some 0 \<and> map_of (lk_sockets readyLink) 0 \<noteq> None"
    by (simp add: readyLink_def newLink_def link_defs js_of_frame_def frame_schemas map_of_amap_set)
  then have con: "connected_at aliceOnline 0 0" by (simp add: connected_at_def aliceOnline_def demoClient_def newClient_def)
  have log: "membershipLogFor demoEnv aliceOnline (js ''c1'') = Inr (Some demoLog)"
    unfolding demoClient_log [symmetric] by (rule membershipLogFor_cong) (simp_all add: aliceOnline_def)
  have chain: "contains demoLib (ml_ops demoLog) \<lparr>head_seq = 2, head_hash = toHex (be_bytes 32 144)\<rparr>"
    "js ''carol'' \<in> set (members (foldOps (ml_ops demoLog)))"
    using contains_headOf [OF demo_valid demo_head] demo_members by (simp_all add: demoLog_def)
  have e: "frame_ok (WsSend (js ''alice'') ClientSafety.demoEnvelope)" "base64Decode (env_ciphertext ClientSafety.demoEnvelope) \<noteq> []"
    "env_recipientDeviceId ClientSafety.demoEnvelope = 1" "env_senderDeviceId ClientSafety.demoEnvelope = 1"
    by (simp_all add: frame_ok_def envelope_ok_def ClientSafety.demoEnvelope_def js_def base64Decode_def b64val_def)
  have cl: "en_arrivals demoEnv (cl_tick aliceOnline) = []" "pm_msgId demoMessage \<notin> set (st_seenMsgIds (cl_stores aliceOnline))"
    "cl_messages aliceOnline = []"
    by (simp_all add: aliceOnline_def demoClient_def newClient_def demoEnv_def demoClientStores_def createClientStores_def)
  show ?thesis
    using message_end_to_end [of demoLib demoConfig twoOnline 0 "loggedIn (js ''carol'')" 5 200 ClientSafety.demoEnvelope "js ''alice''" 1
        "loggedIn (js ''alice'')" 5 200 aliceOnline 0 0 demoEnv "[0]" "st_core (cl_stores aliceOnline)" demoMessage demoLog _ "\<lambda>_. 0"]
      twoOnline_state adm con log chain e cl demo_decrypts demo_parses demo_fields
    by (simp add: loggedIn_def) blast
qed

end
