(* ===== verification/LateJoin.thy ===== *)
theory LateJoin
  imports EndToEnd ClientChain
begin

section \<open>A late joiner and the relay\<close>

text \<open>
  The handshake of the relay (\<^verbatim>\<open>apps/node\<close>) composed with the link and the op handler of a client: what
  the relay drains to a device that logs in is fed, frame by frame, to the device's link. Frames of
  other conversations and envelopes leave the chain of a conversation alone, so the client sees the
  ops of its conversation in the order of the relay's log.
\<close>

subsection \<open>The frames of a handshake\<close>

lemma first_frame:
  assumes r: "relay_inv r" "map_of (rl_conns r) i = Some c0" "admitted now n c0" "\<not> authenticated c0"
    and f: "onFirstFrames K (rl_db r) raw (tick now c0) = (True, c1)" "cn_userId c1 = Some u" "cn_deviceId c1 = Some d" "cn_open c1"
    and convs: "convs = listActiveConversationIds (rl_db r) u"
    and pending: "pending = mbDrain (rl_db r) \<lparr>dr_recipientUserId = u, dr_recipientDeviceId = d, dr_conversationIds = convs\<rparr>"
    and built: "\<forall>e \<in> set pending. buildDeliverFrame e \<noteq> None"
      "\<forall>cv \<in> set convs. \<forall>(sq, op) \<in> set (drainOps (rl_ops r) cv). buildOpDeliverFrame cv sq op \<noteq> None"
  shows "\<exists>c'. map_of (rl_conns (handleFrame K pick now r i n (Some raw))) i = Some c'
    \<and> cn_out c' = cn_out c0 @ WsReady # map (the \<circ> buildDeliverFrame) pending
        @ concat (map (\<lambda>cv. map (\<lambda>(sq, op). WsOpDeliver cv sq op) (drainOps (rl_ops r) cv)) convs)"
proof -
  have "conn_ok (rl_db r) c0" using r(1,2) by (simp add: relay_inv_def)
  then have "conn_ok (rl_db r) (tick now c0)" "cn_liveBuffer c0 = []" using r(4) by (auto simp: conn_ok_def tick_def Let_def)
  then have c1: "cn_out c1 = cn_out c0" "cn_liveBuffer c1 = []"
    using onFirstFrames_spec [OF _ f(1)] by (simp_all add: tick_def Let_def)
  define opf where "opf = concat (map (\<lambda>cv. map (\<lambda>(sq, op). buildOpDeliverFrame cv sq op) (drainOps (rl_ops r) cv)) convs)"
  have "buildOpDeliverFrame cv sq op = Some (WsOpDeliver cv sq op)" if "cv \<in> set convs" "(sq, op) \<in> set (drainOps (rl_ops r) cv)" for cv sq op
    using bspec [OF bspec [OF built(2) that(1)] that(2)] buildOpDeliverFrame_Some by fastforce
  then have "opf = concat (map (\<lambda>cv. map (\<lambda>(sq, op). Some (WsOpDeliver cv sq op)) (drainOps (rl_ops r) cv)) convs)"
    unfolding opf_def by (intro arg_cong [where f = concat] map_cong) auto
  then have opf: "\<forall>x \<in> set opf. x \<noteq> None"
    "map the opf = concat (map (\<lambda>cv. map (\<lambda>(sq, op). WsOpDeliver cv sq op) (drainOps (rl_ops r) cv)) convs)"
    by (auto simp: map_concat comp_def case_prod_unfold)
  define c2 where "c2 = c1\<lparr>cn_out := cn_out c1 @ [WsReady], cn_draining := True\<rparr>"
  define c3 where "c3 = c2\<lparr>cn_out := cn_out c2 @ map (the \<circ> buildDeliverFrame) pending\<rparr>"
  have p1: "pushAll (map buildDeliverFrame pending) c2 = (False, c3)"
    using pushAll_built [of c2 "map buildDeliverFrame pending"] f(4) built(1) by (simp add: c2_def c3_def)
  have p2: "pushAll opf c3 = (False, c3\<lparr>cn_out := cn_out c3 @ map the opf\<rparr>)"
    using pushAll_built [OF _ opf(1), of c3] f(4) by (simp add: c3_def c2_def)
  have "cn_userId c2 = Some u" "cn_deviceId c2 = Some d" using f(2,3) by (simp_all add: c2_def)
  then have "drainAndPush (rl_db r) (rl_ops r) c2 = (False, c3\<lparr>cn_out := cn_out c3 @ map the opf\<rparr>)"
    using p1 p2 unfolding drainAndPush_def by (simp add: convs [symmetric] pending [symmetric] opf_def [symmetric])
  moreover have "handleFrame K pick now r i n (Some raw) = handleFirst K r i (tick now c0) raw"
    using r(2-4) by (simp add: handleFrame_def admitted_def Let_def)
  ultimately show ?thesis
    using f c1 by (simp add: handleFirst_def authenticated_def Let_def flip: c2_def) (simp add: c3_def c2_def flushLive_def opf(2))
qed

subsection \<open>Feeding frames to a client\<close>

definition feed :: "client_env \<Rightarrow> nat \<Rightarrow> nat \<Rightarrow> Client \<Rightarrow> WsFrame \<Rightarrow> Client" where
  "feed E k s cl f = onLinkEvent E cl (k, EvMessage s (Some (js_of_frame f)))"

definition has_socket :: "Client \<Rightarrow> nat \<Rightarrow> nat \<Rightarrow> bool" where
  "has_socket cl k s \<longleftrightarrow> k < length (cl_links cl) \<and> map_of (lk_sockets (cl_links cl ! k)) s \<noteq> None"

text \<open>What the relay sends in a handshake.\<close>

definition drained :: "WsFrame \<Rightarrow> bool" where
  "drained f \<longleftrightarrow> frame_ok f \<and> (case f of WsReady \<Rightarrow> True | WsDeliver _ \<Rightarrow> True | WsOpDeliver _ _ _ \<Rightarrow> True | _ \<Rightarrow> False)"

lemma feed_receives:
  assumes "has_socket cl k s" "drained f"
  shows "\<exists>l st. feed E k s cl f = receiveFrame E (cl\<lparr>cl_links := (cl_links cl)[k := l], cl_connectionState := st\<rparr>) f
    \<and> map_of (lk_sockets l) s \<noteq> None"
proof -
  obtain so where so: "map_of (lk_sockets (cl_links cl ! k)) s = Some so" "k < length (cl_links cl)"
    using assms(1) by (auto simp: has_socket_def)
  define l where "l = link_step (cl_links cl ! k) (EvMessage s (Some (js_of_frame f)))"
  have "drop (length (lk_delivered (cl_links cl ! k))) (lk_delivered l) = (if f = WsReady then [] else [f]) \<and> map_of (lk_sockets l) s \<noteq> None"
    using assms(2) so(1)
    by (cases f) (auto simp: l_def drained_def link_step_def onSocket_def onSocketMessage_def settle_def js_of_frame_def frame_schemas
        frame_ok_def envelope_roundtrip map_of_amap_set)
  then show ?thesis
    using so(2) by (intro exI [of _ l] exI [of _ "lastState (cl_connectionState cl) (cl_links cl ! k) l"])
      (auto simp: feed_def onLinkEvent_def fires_def Let_def receiveFrame_def simp flip: l_def)
qed

lemma feed_socket: "has_socket cl k s \<Longrightarrow> drained f \<Longrightarrow> has_socket (feed E k s cl f) k s"
  using feed_receives [of cl k s f E] by (auto simp: has_socket_def)

text \<open>The chain and the pin of a conversation are all its ops depend on.\<close>

definition same_chain :: "jsstring \<Rightarrow> Client \<Rightarrow> Client \<Rightarrow> bool" where
  "same_chain conv a b \<longleftrightarrow> chainOf a conv = chainOf b conv \<and> pinOf a conv = pinOf b conv"

fun opOf :: "jsstring \<Rightarrow> WsFrame \<Rightarrow> bool" where
  "opOf conv (WsOpDeliver cv _ _) = (cv = conv)"
| "opOf conv _ = False"

lemma receive_same:
  assumes "same_chain conv a b"
  shows "opOf conv f \<Longrightarrow> same_chain conv (receiveFrame E a f) (receiveFrame E b f)"
    and "\<not> opOf conv f \<Longrightarrow> same_chain conv (receiveFrame E a f) b"
  using assms by (cases f; simp add: same_chain_def receiveFrame_def handleIncomingOp_ops)+

lemma feed_filter:
  assumes "has_socket cl k s" "\<forall>f \<in> set fs. drained f" "same_chain conv cl cl'"
  shows "same_chain conv (foldl (feed E k s) cl fs) (foldl (receiveFrame E) cl' (filter (opOf conv) fs))"
  using assms
proof (induction fs arbitrary: cl cl')
  case (Cons f fs)
  obtain l st where "feed E k s cl f = receiveFrame E (cl\<lparr>cl_links := (cl_links cl)[k := l], cl_connectionState := st\<rparr>) f"
    using feed_receives [of cl k s f E] Cons.prems(1,2) by auto
  moreover have "same_chain conv (cl\<lparr>cl_links := (cl_links cl)[k := l], cl_connectionState := st\<rparr>) cl'"
    using Cons.prems(3) by (simp add: same_chain_def)
  ultimately have "same_chain conv (feed E k s cl f) (if opOf conv f then receiveFrame E cl' f else cl')"
    using receive_same by simp
  then show ?case
    using Cons.IH [OF feed_socket] Cons.prems(1,2) by (cases "opOf conv f") simp_all
qed simp

lemma filter_ops:
  assumes "distinct convs" "conv \<in> set convs"
  shows "filter (opOf conv) (concat (map (\<lambda>cv. map (\<lambda>(sq, op). WsOpDeliver cv sq op) (g cv)) convs)) = map (\<lambda>(sq, op). WsOpDeliver conv sq op) (g conv)"
proof -
  have own: "filter (opOf conv) (map (\<lambda>(sq, op). WsOpDeliver cv sq op) xs) = (if cv = conv then map (\<lambda>(sq, op). WsOpDeliver conv sq op) xs else [])" for cv xs
    by (induction xs) auto
  have none: "filter (opOf conv) (concat (map (\<lambda>cv. map (\<lambda>(sq, op). WsOpDeliver cv sq op) (g cv)) cvs)) = []" if "conv \<notin> set cvs" for cvs
    using that by (induction cvs) (auto simp: own)
  show ?thesis using assms by (induction convs) (auto simp: own none)
qed

subsection \<open>The stored ops build their frames\<close>

text \<open>
  Ops enter the store only through a checked \<^verbatim>\<open>op-send\<close> frame, so in every reachable state each stored
  op can be drained. (An envelope need not: \<open>RelayProps.empty_ciphertext_blocks_mailbox\<close>.)
\<close>

definition ops_sendable :: "OpStore \<Rightarrow> bool" where
  "ops_sendable ops \<longleftrightarrow> (\<forall>cv. \<forall>op \<in> set (opsOf ops cv). cv \<noteq> [] \<and> op \<noteq> [])"

lemma storeOp_sendable: "ops_sendable ops \<Longrightarrow> conv \<noteq> [] \<Longrightarrow> op \<noteq> [] \<Longrightarrow> ops_sendable (snd (storeOp ops conv sq op))"
  by (auto simp: ops_sendable_def opstore.put_entries)

lemma fanOutOp_ops: "rl_ops (fanOutOp pick r self conv sq op live) = rl_ops r"
  by (induction pick r self conv sq op live rule: fanOutOp.induct) (auto simp: Let_def split: option.splits)

lemma handlers_ops:
  "rl_ops (handleFirst K r i c raw) = rl_ops r" "rl_ops (handleSend pick r i c u e) = rl_ops r" "rl_ops (handleOther pick r i c raw) = rl_ops r"
  "rl_ops (handleOpSend pick r i c conv sq op) = snd (storeOp (rl_ops r) conv sq op)"
  by (auto simp: handleFirst_def registerLive_def handleSend_def handleOther_def handleOpSend_def fanOutOp_ops Let_def
      split: option.split prod.split sum.split bool.split WsFrame.split)

lemma handleFrame_sendable:
  assumes "ops_sendable (rl_ops r)"
  shows "ops_sendable (rl_ops (handleFrame K pick now r i n json))"
proof -
  have "ops_sendable (snd (storeOp (rl_ops r) conv sq op))" if "WsOpSendFrameSchema v = Some (WsOpSend conv sq op)" for v conv sq op
    using frame_schema_ok(6) [OF that] assms by (simp add: frame_ok_def storeOp_sendable)
  then show ?thesis
    using assms by (auto simp: handleFrame_def Let_def handlers_ops split: option.split WsFrame.split)
qed

lemma step_sendable:
  assumes "relay_step K cfg r r'" "ops_sendable (rl_ops r)"
  shows "ops_sendable (rl_ops r')"
  using assms
proof (elim relay_stepE)
  fix pick now i n json
  assume "r' = handleFrame K pick now r i n json"
  then show ?thesis using handleFrame_sendable [OF assms(2)] by simp
qed (use serve_effect in \<open>auto simp: rest_ok_def onClose_simps\<close>)

lemma reachable_sendable: "reachable K cfg r \<Longrightarrow> ops_sendable (rl_ops r)"
proof (induction rule: reachable.induct)
  case (reach_init db)
  then show ?case by (simp add: ops_sendable_def opsOf_def)
qed (rule step_sendable)

lemma sendable_built:
  assumes "ops_sendable ops" "(sq, op) \<in> set (drainOps ops cv)"
  shows "buildOpDeliverFrame cv sq op \<noteq> None"
proof -
  have "op \<in> set (opsOf ops cv)" "0 \<le> sq" using assms(2) by (auto simp: drainOps_def in_set_enumerate_eq)
  then have "frame_ok (WsOpDeliver cv sq op)" using assms(1) by (auto simp: ops_sendable_def frame_ok_def)
  then show ?thesis by (simp add: buildOpDeliverFrame_def js_of_frame_def frame_schemas frame_ok_def)
qed

subsection \<open>The property\<close>

lemma drained_ops: "map (\<lambda>(sq, op). WsOpDeliver conv sq op) (drainOps ops conv) = map (\<lambda>i. WsOpDeliver conv (int i) (opsOf ops conv ! i)) [0..<length (opsOf ops conv)]"
  by (rule nth_equalityI) (simp_all add: drainOps_def nth_enumerate_eq)

lemma convs_distinct: "memberships_inv db \<Longrightarrow> distinct (listActiveConversationIds db u)"
  unfolding memberships_inv_def listActiveConversationIds_def distinct_map by (auto simp: inj_on_def)

lemma drained_built:
  "buildDeliverFrame e = Some f \<Longrightarrow> drained f" "buildOpDeliverFrame cv sq op = Some g \<Longrightarrow> drained g"
proof -
  assume b: "buildDeliverFrame e = Some f"
  then have "frame_ok f" unfolding buildDeliverFrame_def by (rule frame_schema_ok)
  then show "drained f" using buildDeliverFrame_Some [OF b] by (simp add: drained_def)
next
  assume b: "buildOpDeliverFrame cv sq op = Some g"
  then have "frame_ok g" unfolding buildOpDeliverFrame_def by (rule frame_schema_ok)
  then show "drained g" using buildOpDeliverFrame_Some [OF b] by (simp add: drained_def)
qed

text \<open>C26: a late joiner gets the chain: in every reachable state of the relay, when a device of an active member
  logs in, all of whose pending envelopes build a deliver frame, and the op log of the conversation
  decodes to a verifying chain, the relay writes one sequence of frames, the ready frame first;
  and when the device's client, which has no pin and holds any first part of the chain, possibly
  none of it, is given these frames on its socket, it ends with a log of exactly that chain,
  whatever such envelopes and whatever ops of other conversations come between. An envelope that
  does not build stops the drain before the ops, which is \<open>empty_ciphertext_blocks_mailbox\<close>.\<close>

theorem late_joiner_gets_chain:
  assumes relay: "reachable K cfg r" "map_of (rl_conns r) i = Some c0" "admitted now n c0" "\<not> authenticated c0"
    and login: "onFirstFrames K (rl_db r) raw (tick now c0) = (True, c1)" "cn_userId c1 = Some u" "cn_deviceId c1 = Some d" "cn_open c1"
    and built: "\<forall>e \<in> set (mbDrain (rl_db r) \<lparr>dr_recipientUserId = u, dr_recipientDeviceId = d,
        dr_conversationIds = listActiveConversationIds (rl_db r) u\<rparr>). buildDeliverFrame e \<noteq> None"
    and chain: "u \<in> active_members (rl_db r) conv" "decodeOps (opsOf (rl_ops r) conv) = Inr c" "verifyChain (en_crypto E) c = Inr ()"
    and client: "has_socket cl k s" "pinOf cl conv = None" "chainOf cl conv = take m (opsOf (rl_ops r) conv)" "m \<le> length (opsOf (rl_ops r) conv)"
  shows "\<exists>c' fs log. map_of (rl_conns (handleFrame K pick now r i n (Some raw))) i = Some c' \<and> cn_out c' = cn_out c0 @ WsReady # fs
    \<and> membershipLogFor E (foldl (\<lambda>cl f. onLinkEvent E cl (k, EvMessage s (Some (js_of_frame f)))) cl (WsReady # fs)) conv = Inr (Some log)
    \<and> ml_ops log = c"
proof -
  define es where "es = opsOf (rl_ops r) conv"
  define convs where "convs = listActiveConversationIds (rl_db r) u"
  define pending where "pending = mbDrain (rl_db r) \<lparr>dr_recipientUserId = u, dr_recipientDeviceId = d, dr_conversationIds = convs\<rparr>"
  define opf where "opf = concat (map (\<lambda>cv. map (\<lambda>(sq, op). WsOpDeliver cv sq op) (drainOps (rl_ops r) cv)) convs)"
  define fs where "fs = map (the \<circ> buildDeliverFrame) pending @ opf"
  have inv: "relay_inv r" by (rule reachable_inv [OF relay(1)])
  then have "memberships_inv (rl_db r)" by (simp add: relay_inv_def db_inv_def)
  then have convs: "distinct convs" "conv \<in> set convs"
    using chain(1) convs_distinct by (simp_all add: convs_def listActiveConversationIds_iff)
  have built': "\<forall>e \<in> set pending. buildDeliverFrame e \<noteq> None"
      "\<forall>cv \<in> set convs. \<forall>(sq, op) \<in> set (drainOps (rl_ops r) cv). buildOpDeliverFrame cv sq op \<noteq> None"
    using built sendable_built [OF reachable_sendable [OF relay(1)]] by (auto simp: convs_def pending_def)
  obtain c' where c': "map_of (rl_conns (handleFrame K pick now r i n (Some raw))) i = Some c'" "cn_out c' = cn_out c0 @ WsReady # fs"
    using first_frame [OF inv relay(2-4) login convs_def pending_def built', of pick] unfolding fs_def opf_def by auto
  have "drained f" if "f \<in> set fs" for f
    using that built' buildOpDeliverFrame_Some drained_built unfolding fs_def opf_def by fastforce
  then have fed: "\<forall>f \<in> set (WsReady # fs). drained f" by (simp add: drained_def frame_ok_def)
  have "\<not> opOf conv (the (buildDeliverFrame e))" if e: "e \<in> set pending" for e
  proof -
    obtain f where f: "buildDeliverFrame e = Some f" using built'(1) e by auto
    then show ?thesis using buildDeliverFrame_Some [OF f] by simp
  qed
  then have "filter (opOf conv) (map (the \<circ> buildDeliverFrame) pending) = []" by (auto simp: filter_empty_conv)
  then have "filter (opOf conv) (WsReady # fs) = map (\<lambda>i. WsOpDeliver conv (int i) (es ! i)) [0..<length es]"
    using filter_ops [OF convs, of "drainOps (rl_ops r)"] by (simp add: fs_def opf_def drained_ops es_def)
  then have same: "same_chain conv (foldl (feed E k s) cl (WsReady # fs)) (deliverChain E cl conv es (length es))"
    using feed_filter [OF client(1) fed, of conv cl E] by (simp add: same_chain_def deliverChain_def)
  have v: "valid_chain (en_crypto E) c" using chain(3) by (simp add: verifyChain_iff)
  have "chainOf (deliverChain E cl conv es (length es)) conv = es \<and> pinOf (deliverChain E cl conv es (length es)) conv = None"
    using deliverChain_take [OF chain(2) v client(2-4), of "length es"] client(4) by (simp add: es_def max_def)
  then have "chainOf (foldl (feed E k s) cl (WsReady # fs)) conv = es" "pinOf (foldl (feed E k s) cl (WsReady # fs)) conv = None"
    using same by (simp_all add: same_chain_def)
  moreover have "0 < length es" "take (length es) c = c"
    using valid_chain_nonempty [OF v] decodeOps_length [OF chain(2)] by (simp_all add: es_def)
  ultimately obtain log where "membershipLogFor E (foldl (feed E k s) cl (WsReady # fs)) conv = Inr (Some log)" "ml_ops log = c"
    using logOf_prefix [OF chain(2) v, of "length es"] by (auto simp: membershipLogFor_logOf es_def)
  then show ?thesis using c' unfolding feed_def [abs_def] by blast
qed

text \<open>Carol publishes the first op of the conversation; Alice's device connects, and then sends its token.\<close>

definition published :: Relay where
  "published = handleFrame demoLib (\<lambda>_. 0) 0 carolOnline 0 200 (Some (js_of_frame (WsOpSend (js ''c1'') 0 (demoEncoded demoCreate))))"

definition beforeAuth :: Relay where
  "beforeAuth = setConn published 1 (openConn demoLib twoDb 0 False None)"

lemma demo_create: "decodeOps [demoEncoded demoCreate] = Inr [demoCreate]" "verifyChain demoLib [demoCreate] = Inr ()" "demoEncoded demoCreate \<noteq> []"
proof -
  show d: "decodeOps [demoEncoded demoCreate] = Inr [demoCreate]"
    using demoEncoded_decodes [OF demo_wf(1) demo_hashes(1)] by simp
  have "prefix [demoCreate] demoChain" by (simp add: demoChain_def)
  then show "verifyChain demoLib [demoCreate] = Inr ()"
    using valid_chain_prefix [OF demo_valid] by (simp add: verifyChain_iff)
  have "decodeOp [] \<noteq> Inr demoCreate" by (simp add: decodeOp_def r_str_def r_header_def)
  then show "demoEncoded demoCreate \<noteq> []" using d by (auto simp: rbind_Inr_iff base64Decode_def)
qed

lemma published_state:
  "reachable demoLib demoConfig published" "rl_db published = twoDb" "map_of (rl_conns published) 1 = None"
  "opsOf (rl_ops published) cv = (if cv = js ''c1'' then [demoEncoded demoCreate] else [])"
proof -
  have carol: "map_of (rl_conns carolOnline) 0 = Some (loggedIn (js ''carol''))" "reachable demoLib demoConfig carolOnline"
    "rl_db carolOnline = twoDb" "rl_ops carolOnline = []" using carolOnline_state by simp_all
  show "reachable demoLib demoConfig published" unfolding published_def by (rule reach_step [OF carol(2) step_frame])
  have "frame_ok (WsOpSend (js ''c1'') 0 (demoEncoded demoCreate))" using demo_create(3) by (simp add: frame_ok_def js_def)
  then have h: "published = handleOpSend (\<lambda>_. 0) carolOnline 0 (tick 0 (loggedIn (js ''carol''))) (js ''c1'') 0 (demoEncoded demoCreate)"
    using carol(1) by (simp add: published_def handleFrame_def Let_def js_of_frame_def frame_schemas frame_ok_def)
      (simp add: loggedIn_def tick_def authenticated_def RATE_WINDOW_MS_def MAX_FRAMES_PER_WINDOW_def MAX_ENVELOPE_BYTES_def)
  have "live_ok carolOnline" using reachable_inv [OF carol(2)] by (simp add: relay_inv_def)
  from handleOpSend_step [OF this carol(1) conn_rel_tick h [symmetric]]
  have st: "conns_step twoDb carolOnline published" "rl_db published = twoDb"
      "rl_ops published = snd (storeOp [] (js ''c1'') 0 (demoEncoded demoCreate))" using carol by simp_all
  show "rl_db published = twoDb" by (rule st(2))
  have "rel_option (conn_rel twoDb) (map_of (rl_conns carolOnline) 1) (map_of (rl_conns published) 1)"
    using st(1) unfolding conns_step_def by blast
  then show "map_of (rl_conns published) 1 = None"
    using carolOnline_state(5) by (cases "map_of (rl_conns published) 1") simp_all
  show "opsOf (rl_ops published) cv = (if cv = js ''c1'' then [demoEncoded demoCreate] else [])"
    by (simp add: st(3) storeOp_def opsOf_def Let_def map_of_amap_set)
qed

definition aliceJoining :: Client where
  "aliceJoining = (demoClient [])\<lparr>cl_links := [readyLink]\<rparr>"

theorem late_joiner_gets_chain_witness:
  "\<exists>c' fs log. map_of (rl_conns (handleFrame demoLib (\<lambda>_. 0) 0 beforeAuth 1 60 (Some (authFrame (js ''ta''))))) 1 = Some c' \<and> cn_out c' = WsReady # fs
    \<and> membershipLogFor demoEnv (foldl (\<lambda>cl f. onLinkEvent demoEnv cl (0, EvMessage 0 (Some (js_of_frame f)))) aliceJoining (WsReady # fs)) (js ''c1'') = Inr (Some log)
    \<and> ml_ops log = [demoCreate]"
proof -
  define c0 where "c0 = openConn demoLib twoDb 0 False None"
  have c0: "map_of (rl_conns beforeAuth) 1 = Some c0" "cn_out c0 = []" "cn_open (tick 0 c0)" "\<not> authenticated c0" "admitted 0 60 c0"
    by (simp_all add: beforeAuth_def c0_def openConn_def tick_def authenticated_def admitted_def RATE_WINDOW_MS_def
        MAX_FRAMES_PER_WINDOW_def MAX_ENVELOPE_BYTES_def)
  have r: "reachable demoLib demoConfig beforeAuth" "rl_db beforeAuth = twoDb" "rl_ops beforeAuth = rl_ops published"
    using reach_step [OF published_state(1) step_connect [of published 1 demoLib demoConfig 0 False None]] published_state(2,3)
    by (simp_all add: beforeAuth_def headerTokenOf_def)
  have ops: "opsOf (rl_ops beforeAuth) cv = (if cv = js ''c1'' then [demoEncoded demoCreate] else [])" for cv
    unfolding r(3) by (rule published_state(4))
  have login: "onFirstFrames demoLib (rl_db beforeAuth) (authFrame (js ''ta'')) (tick 0 c0)
      = (True, (tick 0 c0)\<lparr>cn_userId := Some (js ''alice''), cn_deviceId := Some 1\<rparr>)"
    unfolding r(2) by (rule auth_accepted [OF twoDb_tokens(2)]) (simp add: js_def)
  have built: "\<forall>e \<in> set (mbDrain (rl_db beforeAuth) b). buildDeliverFrame e \<noteq> None" for b
    using twoDb_state(2) by (simp add: r(2) mbDrain_def drainPendingEnvelopes_def)
  have "map_of (lk_sockets readyLink) 0 \<noteq> None"
    by (simp add: readyLink_def newLink_def link_defs js_of_frame_def frame_schemas map_of_amap_set)
  then have client: "has_socket aliceJoining 0 0" "pinOf aliceJoining (js ''c1'') = None" "chainOf aliceJoining (js ''c1'') = take 0 (opsOf (rl_ops beforeAuth) (js ''c1''))"
    by (simp_all add: has_socket_def aliceJoining_def demoClient_def newClient_def cachedOps_def demoClientStores_def)
  have chain: "js ''alice'' \<in> active_members (rl_db beforeAuth) (js ''c1'')" "decodeOps (opsOf (rl_ops beforeAuth) (js ''c1'')) = Inr [demoCreate]"
    "verifyChain (en_crypto demoEnv) [demoCreate] = Inr ()"
    using twoDb_state(4) demo_create(1,2) by (simp_all add: r(2) ops demo_fields)
  show ?thesis
    using late_joiner_gets_chain [OF r(1) c0(1,5,4) login _ _ _ built chain client] c0(2,3) by simp
qed

end
