(* ===== verification/TrustStore.thy ===== *)
theory TrustStore
  imports AgentStore Utf8
begin

section \<open>The CLI's trust store (\<^verbatim>\<open>apps/cli/src/trust-store.ts\<close>)\<close>

text \<open>
  The three tables of the trust database: the fingerprints a user has verified, the AI member of a
  conversation, and the names of users. Their value columns are sealed the way the durable store
  seals its payloads, with the UTF-8 bytes of a string in place of JSON text; the primary keys are in the clear.
\<close>

definition stringCodec :: "jsstring codec" where
  "stringCodec = \<lparr>cd_text = utf8Encode, cd_value = (\<lambda>b. Some (utf8Decode b))\<rparr>"

record TrustDb =
  td_salt :: "bytes option"
  td_encrypted :: bool
  td_verified :: "((jsstring \<times> jsstring) \<times> payload) list"
  td_aiMember :: "(jsstring \<times> payload) list"
  td_directory :: "(jsstring \<times> payload) list"

record CliTrustStore =
  ts_db :: TrustDb
  ts_key :: "bytes option"

definition emptyTrustDb :: TrustDb where
  "emptyTrustDb = \<lparr>td_salt = None, td_encrypted = False, td_verified = [], td_aiMember = [], td_directory = []\<rparr>"

text \<open>\<^verbatim>\<open>Sealer.forDatabase\<close> and \<^verbatim>\<open>CliTrustStore.open\<close>; an empty passphrase is falsy.\<close>

definition openTrustStore :: "seal_lib \<Rightarrow> TrustDb \<Rightarrow> jsstring option \<Rightarrow> bytes \<Rightarrow> agent_error + CliTrustStore" where
  "openTrustStore S db passphrase freshSalt =
     (let withKey = (case passphrase of None \<Rightarrow> False | Some p \<Rightarrow> p \<noteq> []);
          finish = (\<lambda>db salt. Inr \<lparr>ts_db = db, ts_key = (if withKey then Some (sl_scrypt S (the passphrase) salt) else None)\<rparr>)
      in case td_salt db of
           None \<Rightarrow> finish (db\<lparr>td_salt := Some freshSalt, td_encrypted := withKey\<rparr>) freshSalt
         | Some salt \<Rightarrow>
             if td_encrypted db \<and> \<not> withKey then Inl EncryptedNeedsKey
             else if \<not> td_encrypted db \<and> withKey then Inl PlaintextWithKey
             else finish db salt)"

definition sealValue :: "seal_lib \<Rightarrow> bytes \<Rightarrow> CliTrustStore \<Rightarrow> jsstring \<Rightarrow> payload" where
  "sealValue S iv t v = encodePayload S stringCodec (ts_key t) iv v"

definition openValue :: "seal_lib \<Rightarrow> CliTrustStore \<Rightarrow> payload \<Rightarrow> agent_error + jsstring" where
  "openValue S t p = decodePayload S stringCodec (ts_key t) p"

text \<open>The value of a row, \<open>None\<close> without one.\<close>

definition openRow :: "seal_lib \<Rightarrow> CliTrustStore \<Rightarrow> payload option \<Rightarrow> agent_error + jsstring option" where
  "openRow S t row = (case row of None \<Rightarrow> Inr None | Some p \<Rightarrow> rbind (openValue S t p) (\<lambda>v. Inr (Some v)))"

definition setDirectory :: "seal_lib \<Rightarrow> bytes \<Rightarrow> CliTrustStore \<Rightarrow> jsstring \<Rightarrow> jsstring \<Rightarrow> CliTrustStore" where
  "setDirectory S iv t userId username =
     t\<lparr>ts_db := (ts_db t)\<lparr>td_directory := amap_set (td_directory (ts_db t)) userId (sealValue S iv t username)\<rparr>\<rparr>"

definition getUsername :: "seal_lib \<Rightarrow> CliTrustStore \<Rightarrow> jsstring \<Rightarrow> agent_error + jsstring option" where
  "getUsername S t userId = openRow S t (map_of (td_directory (ts_db t)) userId)"

definition setAiMember :: "seal_lib \<Rightarrow> bytes \<Rightarrow> CliTrustStore \<Rightarrow> jsstring \<Rightarrow> jsstring \<Rightarrow> CliTrustStore" where
  "setAiMember S iv t conv userId =
     t\<lparr>ts_db := (ts_db t)\<lparr>td_aiMember := amap_set (td_aiMember (ts_db t)) conv (sealValue S iv t userId)\<rparr>\<rparr>"

definition getAiMember :: "seal_lib \<Rightarrow> CliTrustStore \<Rightarrow> jsstring \<Rightarrow> agent_error + jsstring option" where
  "getAiMember S t conv = openRow S t (map_of (td_aiMember (ts_db t)) conv)"

definition deleteAiMember :: "CliTrustStore \<Rightarrow> jsstring \<Rightarrow> CliTrustStore" where
  "deleteAiMember t conv = t\<lparr>ts_db := (ts_db t)\<lparr>td_aiMember := amap_del (td_aiMember (ts_db t)) conv\<rparr>\<rparr>"

definition setVerified :: "seal_lib \<Rightarrow> bytes \<Rightarrow> CliTrustStore \<Rightarrow> jsstring \<Rightarrow> jsstring \<Rightarrow> jsstring \<Rightarrow> CliTrustStore" where
  "setVerified S iv t conv userId fingerprint =
     t\<lparr>ts_db := (ts_db t)\<lparr>td_verified := amap_set (td_verified (ts_db t)) (conv, userId) (sealValue S iv t fingerprint)\<rparr>\<rparr>"

definition getVerifiedFingerprint :: "seal_lib \<Rightarrow> CliTrustStore \<Rightarrow> jsstring \<Rightarrow> jsstring \<Rightarrow> agent_error + jsstring option" where
  "getVerifiedFingerprint S t conv userId = openRow S t (map_of (td_verified (ts_db t)) (conv, userId))"

definition isVerified :: "seal_lib \<Rightarrow> CliTrustStore \<Rightarrow> jsstring \<Rightarrow> jsstring \<Rightarrow> jsstring \<Rightarrow> agent_error + bool" where
  "isVerified S t conv userId current =
     rbind (getVerifiedFingerprint S t conv userId) (\<lambda>stored. Inr (stored = Some current))"

definition deleteVerifiedForUser :: "CliTrustStore \<Rightarrow> jsstring \<Rightarrow> CliTrustStore" where
  "deleteVerifiedForUser t userId = t\<lparr>ts_db := (ts_db t)\<lparr>td_verified := filter (\<lambda>row. snd (fst row) \<noteq> userId) (td_verified (ts_db t))\<rparr>\<rparr>"

subsection \<open>Laws\<close>

lemma openValue_sealValue:
  assumes "seal_ok S" "length iv = 12" "wfString v"
  shows "openValue S (t\<lparr>ts_db := db\<rparr>) (sealValue S iv t v) = Inr v"
proof (cases "ts_key t")
  case None
  then show ?thesis
    using assms(3) by (simp add: openValue_def sealValue_def encodePayload_def decodePayload_def stringCodec_def utf8_roundtrip)
next
  case (Some k)
  obtain tag enc where s: "sl_seal S k iv (utf8Encode v) = (tag, enc)" by force
  then have "length tag = 16" "sl_open S k iv tag enc = Some (utf8Encode v)" using assms(1) by (auto simp: seal_ok_def)
  then show ?thesis
    using assms(2,3) s Some
    by (simp add: openValue_def sealValue_def encodePayload_def decodePayload_def stringCodec_def utf8_roundtrip)
qed

lemma openRow_db [simp]: "openRow S (t\<lparr>ts_db := db\<rparr>) row = openRow S t row"
  by (simp add: openRow_def openValue_def split: option.split)

lemma verified_set:
  assumes "seal_ok S" "length iv = 12" "wfString fp"
  shows "getVerifiedFingerprint S (setVerified S iv t conv u fp) c v = (if c = conv \<and> v = u then Inr (Some fp) else getVerifiedFingerprint S t c v)"
  using openValue_sealValue [OF assms, where t = t]
  by (auto simp: getVerifiedFingerprint_def setVerified_def map_of_amap_set openRow_def rbind_def openValue_def split: option.split)

lemma map_of_filter_keys: "map_of (filter (\<lambda>row. P (fst row)) m) k = (if P k then map_of m k else None)"
  by (induction m) auto

lemma verified_deleted:
  "getVerifiedFingerprint S (deleteVerifiedForUser t u) c v = (if v = u then Inr None else getVerifiedFingerprint S t c v)"
  using map_of_filter_keys [of "\<lambda>k. snd k \<noteq> u" "td_verified (ts_db t)" "(c, v)"]
  by (simp add: getVerifiedFingerprint_def deleteVerifiedForUser_def) (simp add: openRow_def)

lemma verified_others [simp]:
  "getVerifiedFingerprint S (setDirectory S' iv t u n) = getVerifiedFingerprint S t"
  "getVerifiedFingerprint S (setAiMember S' iv t conv u) = getVerifiedFingerprint S t"
  "getVerifiedFingerprint S (deleteAiMember t conv) = getVerifiedFingerprint S t"
  by (simp_all add: fun_eq_iff getVerifiedFingerprint_def setDirectory_def setAiMember_def deleteAiMember_def)

end
