(* ===== verification/CliApp.thy ===== *)
theory CliApp
  imports ClientProps TrustStore Knowledge
begin

section \<open>The command-line client (\<^verbatim>\<open>apps/cli/src\<close>: app, render, session, config, main)\<close>

text \<open>
  \<^verbatim>\<open>CliApp\<close> turns a line of input into rendered lines and pushes lines for what the client reports.
  The client's two report handlers run as soon as the client call that caused the reports
  returns; only the snapshot they persist could tell the difference. A trust row that cannot
  be opened makes a handler throw, which ends that handler; the client's own call is not affected
  here. The local time of a clock reading is the parameter \<open>ce_local\<close>, the message of an error
  \<open>ce_message\<close>.
\<close>

subsection \<open>Configuration and arguments\<close>

record CliConfig =
  cf_relayUrl :: jsstring
  cf_stateDir :: jsstring
  cf_dbKey :: "jsstring option"
  cf_aiUsername :: "jsstring option"
  cf_debugPlaintext :: bool

text \<open>\<open>joinp\<close> is the platform's path join and \<open>home\<close> the home directory.\<close>

definition defaultStateDir :: "(jsstring \<Rightarrow> jsstring \<Rightarrow> jsstring) \<Rightarrow> jsstring \<Rightarrow> (jsstring \<Rightarrow> jsstring option) \<Rightarrow> jsstring" where
  "defaultStateDir joinp home env =
     (case env (js ''SIGNALAI_STATE_DIR'') of
        Some (u # us) \<Rightarrow> u # us
      | _ \<Rightarrow>
          (case env (js ''XDG_STATE_HOME'') of
             Some (u # us) \<Rightarrow> joinp (u # us) (js ''signalai'')
           | _ \<Rightarrow> joinp (joinp (joinp home (js ''.local'')) (js ''state'')) (js ''signalai'')))"

definition orDefault :: "'a option \<Rightarrow> 'a \<Rightarrow> 'a" where
  "orDefault x d = (case x of None \<Rightarrow> d | Some y \<Rightarrow> y)"

definition loadCliConfig :: "(jsstring \<Rightarrow> jsstring \<Rightarrow> jsstring) \<Rightarrow> jsstring \<Rightarrow> (jsstring \<Rightarrow> jsstring option) \<Rightarrow> CliConfig" where
  "loadCliConfig joinp home env =
     \<lparr>cf_relayUrl = orDefault (env (js ''SIGNALAI_RELAY_URL'')) (js ''https://relay-production-fe4c.up.railway.app''),
      cf_stateDir = defaultStateDir joinp home env,
      cf_dbKey = env (js ''SIGNALAI_DB_KEY''),
      cf_aiUsername = env (js ''SIGNALAI_AI_USERNAME''),
      cf_debugPlaintext = (env (js ''DEBUG_PLAINTEXT'') = Some (js ''1'') \<or> env (js ''DEBUG_PLAINTEXT'') = Some (js ''true''))\<rparr>"

definition accountDbPath :: "(jsstring \<Rightarrow> jsstring \<Rightarrow> jsstring) \<Rightarrow> CliConfig \<Rightarrow> jsstring \<Rightarrow> jsstring" where
  "accountDbPath joinp c username = joinp (cf_stateDir c) (username @ js ''.sqlite'')"

definition trustDbPath :: "(jsstring \<Rightarrow> jsstring \<Rightarrow> jsstring) \<Rightarrow> CliConfig \<Rightarrow> jsstring \<Rightarrow> jsstring" where
  "trustDbPath joinp c username = joinp (cf_stateDir c) (username @ js ''.trust.sqlite'')"

record ParsedArgs =
  pa_command :: "jsstring option"
  pa_flags :: "(jsstring \<times> jsstring) list"

definition isFlag :: "jsstring \<Rightarrow> bool" where
  "isFlag t = (take 2 t = js ''--'')"

fun parseFlags :: "(jsstring \<times> jsstring) list \<Rightarrow> jsstring list \<Rightarrow> (jsstring \<times> jsstring) list" where
  "parseFlags flags [] = flags"
| "parseFlags flags [t] = (if isFlag t then amap_set flags (drop 2 t) (js ''true'') else flags)"
| "parseFlags flags (t # n # ts) =
     (if isFlag t then
        if isFlag n then parseFlags (amap_set flags (drop 2 t) (js ''true'')) (n # ts)
        else parseFlags (amap_set flags (drop 2 t) n) ts
      else parseFlags flags (n # ts))"

definition parseArgs :: "jsstring list \<Rightarrow> ParsedArgs" where
  "parseArgs argv =
     (let cleaned = (if argv \<noteq> [] \<and> hd argv = js ''--'' then tl argv else argv) in
      case cleaned of
        [] \<Rightarrow> \<lparr>pa_command = None, pa_flags = []\<rparr>
      | c # args \<Rightarrow> \<lparr>pa_command = Some c, pa_flags = parseFlags [] args\<rparr>)"

definition configFromFlags :: "CliConfig \<Rightarrow> (jsstring \<times> jsstring) list \<Rightarrow> CliConfig" where
  "configFromFlags c flags =
     c\<lparr>cf_relayUrl := orDefault (map_of flags (js ''relay'')) (cf_relayUrl c),
       cf_aiUsername := (case map_of flags (js ''ai'') of Some a \<Rightarrow> Some a | None \<Rightarrow> cf_aiUsername c),
       cf_stateDir := orDefault (map_of flags (js ''state-dir'')) (cf_stateDir c)\<rparr>"

subsection \<open>Rendering\<close>

datatype RenderKind = KMessage | KSystem | KWarn | KConnection | KInfo | KError

record RenderedLine =
  rl_kind :: RenderKind
  rl_text :: jsstring
  rl_ts :: int

record local_time =
  lt_year :: nat
  lt_month :: nat
  lt_day :: nat
  lt_hours :: nat
  lt_minutes :: nat

definition padStart2 :: "jsstring \<Rightarrow> jsstring" where
  "padStart2 s = replicate (2 - length s) 48 @ s"

definition formatTime :: "(int \<Rightarrow> local_time) \<Rightarrow> int \<Rightarrow> jsstring" where
  "formatTime local ts = padStart2 (decimalDigits (lt_hours (local ts))) @ js '':'' @ padStart2 (decimalDigits (lt_minutes (local ts)))"

definition formatDate :: "(int \<Rightarrow> local_time) \<Rightarrow> int \<Rightarrow> jsstring" where
  "formatDate local ts = decimalDigits (lt_year (local ts)) @ js ''-'' @ padStart2 (decimalDigits (lt_month (local ts)))
     @ js ''-'' @ padStart2 (decimalDigits (lt_day (local ts)))"

text \<open>\<^verbatim>\<open>match(/.{1,4}/g)\<close> of a text without line ends; the groups joined by blanks.\<close>

function quads :: "jsstring \<Rightarrow> jsstring" where
  "quads s = (if length s \<le> 4 then s else take 4 s @ 32 # quads (drop 4 s))"
  by auto
termination by (relation "measure length") auto

declare quads.simps [simp del]

definition formatFingerprint :: "jsstring \<Rightarrow> jsstring" where
  "formatFingerprint fp = (if fp = [] then js ''(no key on file)'' else quads fp)"

definition shortUserId :: "jsstring \<Rightarrow> jsstring" where
  "shortUserId userId = (if length userId > 8 then take 8 userId else userId)"

subsection \<open>State\<close>

datatype cli_exn = CliClientError client_error | CliStoreError agent_error | NoAccount

record cli_env =
  ce_client :: client_env
  ce_config :: CliConfig
  ce_seal :: seal_lib
  ce_stateCodec :: "PersistedClientState codec"
  ce_iv :: "nat \<Rightarrow> bytes"
  ce_local :: "int \<Rightarrow> local_time"
  ce_keyPair :: "Identity \<Rightarrow> bytes"
  ce_message :: "cli_exn \<Rightarrow> jsstring"

text \<open>\<open>ca_seenMessages\<close> and \<open>ca_seenEvents\<close> count the client's reports handled so far, \<open>ca_handled\<close> are the system events among them.\<close>

record CliApp =
  ca_client :: Client
  ca_trust :: CliTrustStore
  ca_store :: AgentStore
  ca_buffer :: "RenderedLine list"
  ca_labels :: "(jsstring \<times> jsstring) list"
  ca_joinedSeen :: "jsstring list"
  ca_activeId :: "jsstring option"
  ca_seenMessages :: nat
  ca_seenEvents :: nat
  ca_handled :: "SystemEvent list"
  ca_ivs :: nat

type_synonym 'a cact = "(cli_exn + 'a) \<times> CliApp"

definition kbind :: "'a cact \<Rightarrow> ('a \<Rightarrow> CliApp \<Rightarrow> 'b cact) \<Rightarrow> 'b cact" where
  "kbind r f = (case r of (Inl e, app) \<Rightarrow> (Inl e, app) | (Inr x, app) \<Rightarrow> f x app)"

definition newCliApp :: "Client \<Rightarrow> CliTrustStore \<Rightarrow> AgentStore \<Rightarrow> CliApp" where
  "newCliApp cl t a = \<lparr>ca_client = cl, ca_trust = t, ca_store = a, ca_buffer = [], ca_labels = [], ca_joinedSeen = [], ca_activeId = None,
     ca_seenMessages = length (cl_messages cl), ca_seenEvents = length (cl_events cl), ca_handled = [], ca_ivs = 0\<rparr>"

definition cliState :: "cli_env \<Rightarrow> Client \<Rightarrow> PersistedClientState" where
  "cliState C cl =
     \<lparr>ps_token = cl_token cl, ps_userId = cl_userId cl, ps_username = cl_username cl, ps_deviceId = cl_deviceId cl,
      ps_nextOneTimePreKeyId = cl_nextOneTimePreKeyId cl,
      ps_identityKeyPair = base64Encode (ce_keyPair C (cl_identity cl)),
      ps_registrationId = id_registrationId (cl_identity cl),
      ps_stores = clientToJSON (cl_stores cl)\<rparr>"

definition cliPersist :: "cli_env \<Rightarrow> CliApp \<Rightarrow> CliApp" where
  "cliPersist C app =
     app\<lparr>ca_store := saveState (ce_seal C) (ce_stateCodec C) (ce_iv C (ca_ivs app)) (ca_store app) (cliState C (ca_client app)),
         ca_ivs := Suc (ca_ivs app)\<rparr>"

definition cliNow :: "cli_env \<Rightarrow> CliApp \<Rightarrow> int" where
  "cliNow C app = en_now (ce_client C) (cl_tick (ca_client app))"

definition mk :: "cli_env \<Rightarrow> CliApp \<Rightarrow> RenderKind \<Rightarrow> jsstring \<Rightarrow> RenderedLine" where
  "mk C app kind t = \<lparr>rl_kind = kind, rl_text = t, rl_ts = cliNow C app\<rparr>"

abbreviation info :: "cli_env \<Rightarrow> CliApp \<Rightarrow> jsstring \<Rightarrow> RenderedLine" where "info C app t \<equiv> mk C app KInfo t"
abbreviation err :: "cli_env \<Rightarrow> CliApp \<Rightarrow> jsstring \<Rightarrow> RenderedLine" where "err C app t \<equiv> mk C app KError t"

definition msgLine :: "cli_env \<Rightarrow> jsstring \<Rightarrow> jsstring \<Rightarrow> int \<Rightarrow> RenderedLine" where
  "msgLine C name t ts = \<lparr>rl_kind = KMessage, rl_text = formatTime (ce_local C) ts @ js '' '' @ name @ js '': '' @ t, rl_ts = ts\<rparr>"

definition systemLine :: "cli_env \<Rightarrow> CliApp \<Rightarrow> jsstring \<Rightarrow> RenderedLine" where
  "systemLine C app t = mk C app KSystem (formatTime (ce_local C) (cliNow C app) @ [32, 183, 32] @ t)"

definition emit :: "CliApp \<Rightarrow> RenderedLine list \<Rightarrow> CliApp" where
  "emit app ls = app\<lparr>ca_buffer := ca_buffer app @ ls\<rparr>"

definition displayName :: "cli_env \<Rightarrow> CliApp \<Rightarrow> jsstring \<Rightarrow> agent_error + jsstring" where
  "displayName C app userId =
     (if userId = cl_userId (ca_client app) then Inr (cl_username (ca_client app))
      else rbind (getUsername (ce_seal C) (ca_trust app) userId) (\<lambda>n. Inr (orDefault n (shortUserId userId))))"

subsection \<open>Reports of the client\<close>

definition cliOnMessage :: "cli_env \<Rightarrow> CliApp \<Rightarrow> IncomingMessage \<Rightarrow> CliApp" where
  "cliOnMessage C app m =
     (if im_senderUserId m = cl_userId (ca_client app) then app
      else
        let conv = im_conversationId m;
            app1 = (if ca_activeId app = None then
              emit (app\<lparr>ca_activeId := Some conv,
                  ca_labels := (if map_of (ca_labels app) conv = None then amap_set (ca_labels app) conv (shortUserId conv) else ca_labels app)\<rparr>)
                [info C app (js ''You joined a conversation ('' @ shortUserId conv @ js ''). Type to reply; /members to see who's here.'')]
              else app)
        in case displayName C app1 (im_senderUserId m) of
             Inl _ \<Rightarrow> app1
           | Inr name \<Rightarrow> cliPersist C (emit app1 [msgLine C name (im_text m) (im_sentAt m)]))"

definition nameThen :: "cli_env \<Rightarrow> CliApp \<Rightarrow> jsstring \<Rightarrow> (jsstring \<Rightarrow> CliApp) \<Rightarrow> CliApp" where
  "nameThen C app userId f = (case displayName C app userId of Inl _ \<Rightarrow> app | Inr n \<Rightarrow> cliPersist C (f n))"

definition cliOnSystemEvent :: "cli_env \<Rightarrow> CliApp \<Rightarrow> SystemEvent \<Rightarrow> CliApp" where
  "cliOnSystemEvent C app e =
     (case e of
        MemberJoined conv userId _ \<Rightarrow>
          (let key = conv @ js '':'' @ userId in
           if key \<in> set (ca_joinedSeen app) then cliPersist C app
           else
             let app1 = app\<lparr>ca_joinedSeen := js_set_add (ca_joinedSeen app) key\<rparr> in
             nameThen C app1 userId (\<lambda>n. emit app1 [systemLine C app (n @ js '' joined the conversation'')]))
      | MemberRemoved conv userId \<Rightarrow>
          (let app1 = app\<lparr>ca_joinedSeen := js_set_del (ca_joinedSeen app) (conv @ js '':'' @ userId)\<rparr> in
           nameThen C app1 userId (\<lambda>n. emit app1 [systemLine C app (n @ js '' was removed from the conversation'')]))
      | AiModeChanged _ enabled \<Rightarrow>
          cliPersist C (emit app [systemLine C app (js ''AI mode changed to '' @ (if enabled then js ''active'' else js ''passive''))])
      | IdentityKeyChanged userId _ \<Rightarrow>
          nameThen C app userId (\<lambda>n. emit (app\<lparr>ca_trust := deleteVerifiedForUser (ca_trust app) userId\<rparr>)
            [mk C app KWarn ([9888, 32] @ n @ [39] @ js ''s security fingerprint changed '' @ [8212] @ js '' verify again'')])
      | MemberLeft _ _ \<Rightarrow> cliPersist C app)"

definition cliOnConnectionChange :: "cli_env \<Rightarrow> CliApp \<Rightarrow> jsstring \<Rightarrow> CliApp" where
  "cliOnConnectionChange C app st = emit app [mk C app KConnection (js ''[connection: '' @ st @ js '']'')]"

definition report :: "cli_env \<Rightarrow> CliApp \<Rightarrow> CliApp" where
  "report C app =
     (let evs = drop (ca_seenEvents app) (cl_events (ca_client app));
          ms = drop (ca_seenMessages app) (cl_messages (ca_client app));
          app1 = app\<lparr>ca_seenEvents := length (cl_events (ca_client app)), ca_seenMessages := length (cl_messages (ca_client app)),
            ca_handled := ca_handled app @ evs\<rparr>
      in foldl (cliOnMessage C) (foldl (cliOnSystemEvent C) app1 evs) ms)"

definition callClient :: "cli_env \<Rightarrow> (Client \<Rightarrow> 'a outcome) \<Rightarrow> CliApp \<Rightarrow> 'a cact" where
  "callClient C f app =
     (case f (ca_client app) of
        (Inl e, cl) \<Rightarrow> (Inl (CliClientError e), report C (app\<lparr>ca_client := cl\<rparr>))
      | (Inr x, cl) \<Rightarrow> (Inr x, report C (app\<lparr>ca_client := cl\<rparr>)))"

definition askTrust :: "(CliTrustStore \<Rightarrow> agent_error + 'a) \<Rightarrow> CliApp \<Rightarrow> 'a cact" where
  "askTrust f app = (case f (ca_trust app) of Inl e \<Rightarrow> (Inl (CliStoreError e), app) | Inr x \<Rightarrow> (Inr x, app))"

definition writeTrust :: "cli_env \<Rightarrow> (bytes \<Rightarrow> CliTrustStore \<Rightarrow> CliTrustStore) \<Rightarrow> CliApp \<Rightarrow> CliApp" where
  "writeTrust C f app = app\<lparr>ca_trust := f (ce_iv C (ca_ivs app)) (ca_trust app), ca_ivs := Suc (ca_ivs app)\<rparr>"

subsection \<open>Commands\<close>

text \<open>An undefined or empty id is falsy.\<close>

definition activeConversation :: "CliApp \<Rightarrow> jsstring option" where
  "activeConversation app = (case ca_activeId app of Some (u # us) \<Rightarrow> Some (u # us) | _ \<Rightarrow> None)"

definition truthy :: "jsstring option \<Rightarrow> jsstring option" where
  "truthy x = (case x of Some (u # us) \<Rightarrow> Some (u # us) | _ \<Rightarrow> None)"

definition withActive :: "cli_env \<Rightarrow> CliApp \<Rightarrow> (jsstring \<Rightarrow> RenderedLine list cact) \<Rightarrow> RenderedLine list cact" where
  "withActive C app f =
     (case activeConversation app of
        None \<Rightarrow> (Inr [err C app (js ''no active conversation '' @ [8212] @ js '' use /new <name> first'')], app)
      | Some conv \<Rightarrow> f conv)"

text \<open>\<^verbatim>\<open>/(^|\s)@ai(\b|$)/i\<close>.\<close>

definition aiMention :: "jsstring \<Rightarrow> bool" where
  "aiMention s = list_ex (\<lambda>k. (k = 0 \<or> isSpaceUnit (s ! (k - 1))) \<and> k + 3 \<le> length s \<and> s ! k = 64 \<and> s ! (k + 1) \<in> {65, 97}
     \<and> s ! (k + 2) \<in> {73, 105} \<and> (k + 3 = length s \<or> \<not> isWordUnit (s ! (k + 3)))) [0..<length s]"

definition sendChat :: "cli_env \<Rightarrow> CliApp \<Rightarrow> jsstring \<Rightarrow> RenderedLine list cact" where
  "sendChat C app t =
     withActive C app (\<lambda>conv.
       kbind (askTrust (\<lambda>ts. getAiMember (ce_seal C) ts conv) app) (\<lambda>ai app1.
         let mentions = (case truthy ai of Some u \<Rightarrow> if aiMention t then [u] else [] | None \<Rightarrow> []) in
         (case callClient C (\<lambda>cl. clSend (ce_client C) cl conv t mentions) app1 of
            (Inl e, app2) \<Rightarrow> (Inr [err C app2 (js ''send failed: '' @ ce_message C e)], app2)
          | (Inr _, app2) \<Rightarrow> (Inr [msgLine C (cl_username (ca_client app2)) t (cliNow C app2)], cliPersist C app2))))"

definition cmdNew :: "cli_env \<Rightarrow> CliApp \<Rightarrow> jsstring \<Rightarrow> RenderedLine list cact" where
  "cmdNew C app name =
     (let label = (if name \<noteq> [] then name else js ''(unnamed)'') in
      kbind (callClient C (\<lambda>cl. clCreateConversation (ce_client C) cl [] False) app) (\<lambda>conv app1.
        let app2 = cliPersist C (app1\<lparr>ca_activeId := Some conv, ca_labels := amap_set (ca_labels app1) conv label\<rparr>) in
        (Inr [info C app2 (js ''Created conversation '' @ [34] @ label @ [34] @ js '' ('' @ shortUserId conv @ js ''). It is now active.'')], app2)))"

definition resolve :: "cli_env \<Rightarrow> CliApp \<Rightarrow> jsstring \<Rightarrow> jsstring cact" where
  "resolve C app username =
     kbind (callClient C (\<lambda>cl. resolveUser (ce_client C) cl username) app) (\<lambda>r app1. (Inr (fst r), app1))"

definition cmdInvite :: "cli_env \<Rightarrow> CliApp \<Rightarrow> jsstring \<Rightarrow> RenderedLine list cact" where
  "cmdInvite C app username =
     withActive C app (\<lambda>conv.
       if username = [] then (Inr [err C app (js ''usage: /invite <username>'')], app)
       else kbind (resolve C app username) (\<lambda>userId app1.
         let app2 = writeTrust C (\<lambda>iv ts. setDirectory (ce_seal C) iv ts userId username) app1 in
         kbind (callClient C (\<lambda>cl. clInvite (ce_client C) cl conv userId) app2) (\<lambda>_ app3.
           (Inr [info C app3 (js ''Invited '' @ username @ js ''.'')], cliPersist C app3))))"

definition cmdRemove :: "cli_env \<Rightarrow> CliApp \<Rightarrow> jsstring \<Rightarrow> RenderedLine list cact" where
  "cmdRemove C app username =
     withActive C app (\<lambda>conv.
       if username = [] then (Inr [err C app (js ''usage: /remove <username>'')], app)
       else kbind (resolve C app username) (\<lambda>userId app1.
         kbind (callClient C (\<lambda>cl. clRemoveMember (ce_client C) cl conv userId) app1) (\<lambda>_ app2.
           (Inr [info C app2 (js ''Removed '' @ username @ js ''.'')], cliPersist C app2))))"

definition roleName :: "member_role \<Rightarrow> jsstring" where
  "roleName r = (case r of RoleAdmin \<Rightarrow> js ''admin'' | RoleMember \<Rightarrow> js ''member'')"

text \<open>The mark of a member row: verified, and with the current fingerprint.\<close>

definition memberVerified :: "cli_env \<Rightarrow> CliApp \<Rightarrow> jsstring \<Rightarrow> Member \<Rightarrow> agent_error + bool" where
  "memberVerified C app conv m =
     (if mb_userId m = cl_userId (ca_client app) then Inr False
      else isVerified (ce_seal C) (ca_trust app) conv (mb_userId m) (mb_identityKeyFingerprint m))"

definition renderMember :: "cli_env \<Rightarrow> CliApp \<Rightarrow> jsstring \<Rightarrow> Member \<Rightarrow> jsstring option \<Rightarrow> agent_error + jsstring" where
  "renderMember C app conv m ai =
     rbind (displayName C app (mb_userId m)) (\<lambda>name.
     rbind (memberVerified C app conv m) (\<lambda>v.
       let aiLabel = (if Some (mb_userId m) = ai then js '' [AI '' @ [183, 32]
             @ (if clGetAiMode (ca_client app) conv then js ''active'' else js ''passive'') @ js '']'' else [])
       in Inr (name @ aiLabel @ [32, 8212, 32] @ formatFingerprint (mb_identityKeyFingerprint m) @ [32, 8212, 32] @ js ''joined ''
            @ formatDate (ce_local C) (mb_joinedAt m) @ [32, 8212, 32] @ roleName (mb_role m) @ (if v then [32, 10003] else []))))"

definition PASSIVE_HONESTY_NOTE :: jsstring where
  "PASSIVE_HONESTY_NOTE = js ''The AI is a full member and decrypts every message; passive means it only replies when you @mention it.''"

fun memberLines :: "cli_env \<Rightarrow> CliApp \<Rightarrow> jsstring \<Rightarrow> jsstring option \<Rightarrow> Member list \<Rightarrow> agent_error + RenderedLine list" where
  "memberLines C app conv ai [] = Inr []"
| "memberLines C app conv ai (m # ms) =
     rbind (renderMember C app conv m ai) (\<lambda>t.
     rbind (memberLines C app conv ai ms) (\<lambda>ls. Inr (info C app (js ''  '' @ t) # ls)))"

definition cmdMembers :: "cli_env \<Rightarrow> CliApp \<Rightarrow> RenderedLine list cact" where
  "cmdMembers C app =
     withActive C app (\<lambda>conv.
       kbind (callClient C (\<lambda>cl. clListMembers (ce_client C) cl conv) app) (\<lambda>ms app1.
       kbind (askTrust (\<lambda>ts. getAiMember (ce_seal C) ts conv) app1) (\<lambda>ai app2.
       kbind (askTrust (\<lambda>_. memberLines C app2 conv ai ms) app2) (\<lambda>ls app3.
         (Inr (info C app3 (js ''Members of '' @ [34] @ orDefault (map_of (ca_labels app3) conv) (shortUserId conv) @ [34] @ js '':'') # ls
            @ (if ai \<in> Some ` mb_userId ` set ms then [info C app3 (js ''Note: '' @ PASSIVE_HONESTY_NOTE)] else [])), app3)))))"

definition cmdVerify :: "cli_env \<Rightarrow> CliApp \<Rightarrow> jsstring \<Rightarrow> RenderedLine list cact" where
  "cmdVerify C app username =
     withActive C app (\<lambda>conv.
       if username = [] then (Inr [err C app (js ''usage: /verify <username>'')], app)
       else kbind (resolve C app username) (\<lambda>userId app1.
         let app2 = writeTrust C (\<lambda>iv ts. setDirectory (ce_seal C) iv ts userId username) app1 in
         kbind (callClient C (\<lambda>cl. clListMembers (ce_client C) cl conv) app2) (\<lambda>ms app3.
           (case find (\<lambda>m. mb_userId m = userId) ms of
              None \<Rightarrow> (Inr [err C app3 (username @ js '' is not a member of this conversation'')], app3)
            | Some m \<Rightarrow>
                if mb_identityKeyFingerprint m = [] then
                  (Inr [err C app3 (js ''no identity key on file for '' @ username @ js '' yet '' @ [8212] @ js '' exchange a message first'')], app3)
                else
                  let app4 = writeTrust C (\<lambda>iv ts. setVerified (ce_seal C) iv ts conv userId (mb_identityKeyFingerprint m)) app3 in
                  (Inr [info C app4 (js ''Compare this fingerprint with '' @ username @ js '' out-of-band (read it aloud, side by side):''),
                        info C app4 (js ''  '' @ formatFingerprint (mb_identityKeyFingerprint m)),
                        info C app4 (username @ js '' marked verified. /members shows '' @ [10003] @ js '' until their key changes.'')],
                   cliPersist C app4)))))"

definition cmdAiMode :: "cli_env \<Rightarrow> CliApp \<Rightarrow> bool \<Rightarrow> RenderedLine list cact" where
  "cmdAiMode C app active =
     withActive C app (\<lambda>conv.
       kbind (callClient C (\<lambda>cl. clSetAiMode (ce_client C) cl conv active) app) (\<lambda>_ app1.
         (Inr [info C app1 (if active
              then js ''AI mode set to active '' @ [8212] @ js '' it may reply unprompted (and whenever you @mention it).''
              else js ''AI mode set to passive '' @ [8212] @ js '' it still decrypts every message; it only replies when you @mention it.'')],
          cliPersist C app1)))"

definition cmdAiInvite :: "cli_env \<Rightarrow> CliApp \<Rightarrow> jsstring \<Rightarrow> RenderedLine list cact" where
  "cmdAiInvite C app inline =
     withActive C app (\<lambda>conv.
       (case truthy (if inline \<noteq> [] then Some inline else cf_aiUsername (ce_config C)) of
          None \<Rightarrow> (Inr [err C app (js ''no AI username configured '' @ [8212] @ js '' set SIGNALAI_AI_USERNAME or run /ai invite <username>'')], app)
        | Some aiUsername \<Rightarrow>
            kbind (resolve C app aiUsername) (\<lambda>userId app1.
              let app2 = writeTrust C (\<lambda>iv ts. setDirectory (ce_seal C) iv ts userId aiUsername) app1 in
              kbind (callClient C (\<lambda>cl. clInvite (ce_client C) cl conv userId) app2) (\<lambda>_ app3.
                let app4 = writeTrust C (\<lambda>iv ts. setAiMember (ce_seal C) iv ts conv userId) app3 in
                (Inr [info C app4 (js ''Invited AI member '' @ [34] @ aiUsername @ [34] @ js ''. It is a full member and decrypts every message; ''
                    @ [34] @ js ''passive'' @ [34] @ js '' means it only replies when @mentioned.'')],
                 cliPersist C app4)))))"

definition AI_REMOVED_LINE :: jsstring where
  "AI_REMOVED_LINE = js ''AI removed '' @ [8212] @ js '' new messages are not encrypted to it.''"

definition cmdAiRemove :: "cli_env \<Rightarrow> CliApp \<Rightarrow> RenderedLine list cact" where
  "cmdAiRemove C app =
     withActive C app (\<lambda>conv.
       kbind (askTrust (\<lambda>ts. getAiMember (ce_seal C) ts conv) app) (\<lambda>ai app1.
         (case truthy ai of
            None \<Rightarrow> (Inr [err C app1 (js ''no AI member in this conversation'')], app1)
          | Some u \<Rightarrow>
              kbind (callClient C (\<lambda>cl. clRemoveMember (ce_client C) cl conv u) app1) (\<lambda>_ app2.
                let app3 = writeTrust C (\<lambda>iv ts. deleteAiMember ts conv) app2 in
                (Inr [info C app3 AI_REMOVED_LINE], cliPersist C app3)))))"

text \<open>\<^verbatim>\<open>split(/\s+/)\<close>.\<close>

function splitSpaces :: "jsstring \<Rightarrow> jsstring list" where
  "splitSpaces s =
     (case dropWhile (\<lambda>u. \<not> isSpaceUnit u) s of
        [] \<Rightarrow> [s]
      | u # us \<Rightarrow> takeWhile (\<lambda>u. \<not> isSpaceUnit u) s # splitSpaces (dropWhile isSpaceUnit us))"
  by auto
termination
proof (relation "measure length")
  fix s u us
  assume "dropWhile (\<lambda>u. \<not> isSpaceUnit u) s = u # us"
  then have "length us < length s" using length_dropWhile_le [of "\<lambda>u. \<not> isSpaceUnit u" s] by simp
  then show "(dropWhile isSpaceUnit us, s) \<in> measure length" using length_dropWhile_le [of isSpaceUnit us] by simp
qed simp

declare splitSpaces.simps [simp del]

fun joinSpaces :: "jsstring list \<Rightarrow> jsstring" where
  "joinSpaces [] = []"
| "joinSpaces [w] = w"
| "joinSpaces (w # ws) = w @ 32 # joinSpaces ws"

definition cmdAi :: "cli_env \<Rightarrow> CliApp \<Rightarrow> jsstring list \<Rightarrow> RenderedLine list cact" where
  "cmdAi C app args =
     (let sub = (if args = [] then [] else hd args) in
      if sub = js ''passive'' \<or> sub = js ''active'' then cmdAiMode C app (sub = js ''active'')
      else if sub = js ''invite'' then cmdAiInvite C app (trim (joinSpaces (tl args)))
      else if sub = js ''remove'' then cmdAiRemove C app
      else (Inr [err C app (js ''usage: /ai <passive|active|invite [username]|remove>'')], app))"

definition helpLines :: "jsstring list" where
  "helpLines =
     [js ''Commands:'',
      js ''  /new <name>            create a conversation and make it active'',
      js ''  /invite <username>     add a member (resolves them by username)'',
      js ''  /remove <username>     remove a member'',
      js ''  /members               list members with fingerprints, roles, '' @ [10003] @ js '' verified'',
      js ''  /verify <username>     compare a member's fingerprint out-of-band, mark verified'',
      js ''  /ai invite [username]  invite the AI member (SIGNALAI_AI_USERNAME by default)'',
      js ''  /ai passive|active     set whether the AI replies unprompted'',
      js ''  /ai remove             remove the AI member'',
      js ''  @ai <text>             mention the AI so it replies (passive or active)'',
      js ''  /help                  show this help'',
      js ''  /quit                  disconnect and exit'',
      js ''Note: '' @ PASSIVE_HONESTY_NOTE]"

definition cmdHelp :: "cli_env \<Rightarrow> CliApp \<Rightarrow> RenderedLine list cact" where
  "cmdHelp C app = (Inr (map (info C app) helpLines), app)"

definition cmdQuit :: "cli_env \<Rightarrow> CliApp \<Rightarrow> RenderedLine list cact" where
  "cmdQuit C app = (let app1 = app\<lparr>ca_client := clDisconnect (ca_client app)\<rparr> in (Inr [info C app1 (js ''Disconnected. Bye.'')], app1))"

definition command :: "cli_env \<Rightarrow> CliApp \<Rightarrow> jsstring \<Rightarrow> jsstring list \<Rightarrow> RenderedLine list cact" where
  "command C app cmd args =
     (let arg = trim (joinSpaces args) in
      if cmd = js ''new'' then cmdNew C app arg
      else if cmd = js ''invite'' then cmdInvite C app arg
      else if cmd = js ''remove'' then cmdRemove C app arg
      else if cmd = js ''members'' then cmdMembers C app
      else if cmd = js ''verify'' then cmdVerify C app arg
      else if cmd = js ''ai'' then cmdAi C app args
      else if cmd = js ''help'' then cmdHelp C app
      else if cmd = js ''quit'' then cmdQuit C app
      else (Inr [err C app (js ''unknown command '' @ [34, 47] @ cmd @ [34, 32, 8212, 32] @ js ''try /help'')], app))"

definition dispatchCommand :: "cli_env \<Rightarrow> CliApp \<Rightarrow> jsstring \<Rightarrow> RenderedLine list \<times> CliApp" where
  "dispatchCommand C app input =
     (let ws = splitSpaces (tl input); cmd = hd ws in
      case command C app cmd (tl ws) of
        (Inr ls, app1) \<Rightarrow> (ls, app1)
      | (Inl e, app1) \<Rightarrow> ([err C app1 ([47] @ cmd @ js '' failed: '' @ ce_message C e)], app1))"

text \<open>Only the lookup of the AI member in \<open>sendChat\<close> can make the call itself reject.\<close>

definition handleInput :: "cli_env \<Rightarrow> CliApp \<Rightarrow> jsstring \<Rightarrow> RenderedLine list cact" where
  "handleInput C app input =
     (let trimmed = trim input in
      if trimmed = [] then (Inr [], app)
      else if hd trimmed = 47 then (case dispatchCommand C app trimmed of (ls, app1) \<Rightarrow> (Inr ls, app1))
      else sendChat C app trimmed)"

subsection \<open>The sidebar\<close>

record SidebarMember =
  sm_userId :: jsstring
  sm_name :: jsstring
  sm_fingerprint :: jsstring
  sm_role :: member_role
  sm_isAi :: bool
  sm_aiActive :: bool
  sm_verified :: bool
  sm_isSelf :: bool

record ConversationView =
  cv_conversationId :: jsstring
  cv_label :: jsstring
  cv_members :: "SidebarMember list"

definition sidebarMember :: "cli_env \<Rightarrow> CliApp \<Rightarrow> jsstring \<Rightarrow> jsstring option \<Rightarrow> bool \<Rightarrow> Member \<Rightarrow> agent_error + SidebarMember" where
  "sidebarMember C app conv ai aiActive m =
     rbind (displayName C app (mb_userId m)) (\<lambda>name.
     rbind (memberVerified C app conv m) (\<lambda>v.
       let isAi = (Some (mb_userId m) = ai) in
       Inr \<lparr>sm_userId = mb_userId m, sm_name = name, sm_fingerprint = formatFingerprint (mb_identityKeyFingerprint m), sm_role = mb_role m,
         sm_isAi = isAi, sm_aiActive = (if isAi then aiActive else False), sm_verified = v, sm_isSelf = (mb_userId m = cl_userId (ca_client app))\<rparr>))"

fun sidebarMembers :: "cli_env \<Rightarrow> CliApp \<Rightarrow> jsstring \<Rightarrow> jsstring option \<Rightarrow> bool \<Rightarrow> Member list \<Rightarrow> agent_error + SidebarMember list" where
  "sidebarMembers C app conv ai aiActive [] = Inr []"
| "sidebarMembers C app conv ai aiActive (m # ms) =
     rbind (sidebarMember C app conv ai aiActive m) (\<lambda>x. rbind (sidebarMembers C app conv ai aiActive ms) (\<lambda>xs. Inr (x # xs)))"

definition conversationView :: "cli_env \<Rightarrow> CliApp \<Rightarrow> ConversationView option cact" where
  "conversationView C app =
     (case ca_activeId app of
        None \<Rightarrow> (Inr None, app)
      | Some conv \<Rightarrow>
          kbind (askTrust (\<lambda>ts. getAiMember (ce_seal C) ts conv) app) (\<lambda>ai app1.
            let aiActive = clGetAiMode (ca_client app1) conv in
            kbind (callClient C (\<lambda>cl. clListMembers (ce_client C) cl conv) app1) (\<lambda>ms app2.
            kbind (askTrust (\<lambda>_. sidebarMembers C app2 conv ai aiActive ms) app2) (\<lambda>xs app3.
              (Inr (Some \<lparr>cv_conversationId = conv, cv_label = orDefault (map_of (ca_labels app3) conv) (shortUserId conv), cv_members = xs\<rparr>), app3)))))"

subsection \<open>Sessions\<close>

text \<open>A configured key goes to both databases; without one each falls back to its own variable.\<close>

definition openStores ::
    "seal_lib \<Rightarrow> CliConfig \<Rightarrow> (jsstring \<Rightarrow> jsstring option) \<Rightarrow> AgentDb \<Rightarrow> TrustDb \<Rightarrow> bytes \<Rightarrow> bytes \<Rightarrow> agent_error + AgentStore \<times> CliTrustStore" where
  "openStores S c env adb tdb salt1 salt2 =
     (let key = (\<lambda>name. case truthy (cf_dbKey c) of Some p \<Rightarrow> Some p | None \<Rightarrow> env name) in
      rbind (openAgentStore S adb (key (js ''AGENT_DB_KEY'')) salt1) (\<lambda>a.
      rbind (openTrustStore S tdb (key (js ''SIGNALAI_DB_KEY'')) salt2) (\<lambda>t. Inr (a, t))))"

definition signupSession :: "cli_env \<Rightarrow> Identity \<Rightarrow> AgentStore \<times> CliTrustStore \<Rightarrow> jsstring \<Rightarrow> jsstring \<Rightarrow> cli_exn + CliApp" where
  "signupSession C ident stores username inviteCode =
     (case signup (ce_client C) inviteCode username None ident None None (Some False) of
        (Inl e, _) \<Rightarrow> Inl (CliClientError e)
      | (Inr _, cl) \<Rightarrow> Inr (cliPersist C (newCliApp cl (snd stores) (fst stores))))"

definition loginSession ::
    "cli_env \<Rightarrow> (bytes \<Rightarrow> PreKeyRecord option) \<Rightarrow> (bytes \<Rightarrow> int \<Rightarrow> Identity) \<Rightarrow> AgentStore \<times> CliTrustStore \<Rightarrow> cli_exn + CliApp" where
  "loginSession C readRecord readIdentity stores =
     (case loadState (ce_seal C) (ce_stateCodec C) (fst stores) of
        Inl e \<Rightarrow> Inl (CliStoreError e)
      | Inr None \<Rightarrow> Inl NoAccount
      | Inr (Some p) \<Rightarrow>
          (case resume (ce_client C) readRecord (ps_token p) (ps_userId p) (ps_username p) (Some (ps_deviceId p))
              (readIdentity (base64Decode (ps_identityKeyPair p)) (ps_registrationId p)) (ps_stores p) (ps_nextOneTimePreKeyId p) (Some False) of
             Inl e \<Rightarrow> Inl (CliClientError e)
           | Inr (Inl e, _) \<Rightarrow> Inl (CliClientError e)
           | Inr (Inr _, cl) \<Rightarrow> Inr (newCliApp cl (snd stores) (fst stores))))"

definition closeSession :: "cli_env \<Rightarrow> CliApp \<Rightarrow> CliApp" where
  "closeSession C app = (let app1 = cliPersist C app in app1\<lparr>ca_client := clDisconnect (ca_client app1)\<rparr>)"

text \<open>What \<^verbatim>\<open>main\<close> starts: an account with its invite code, a login, or the usage text and exit code 1.\<close>

datatype boot_choice = BootSignup jsstring jsstring | BootLogin jsstring | BootUsage

definition flagValue :: "(jsstring \<times> jsstring) list \<Rightarrow> jsstring \<Rightarrow> jsstring option" where
  "flagValue flags k = (case truthy (map_of flags k) of Some v \<Rightarrow> if v = js ''true'' then None else Some v | None \<Rightarrow> None)"

definition bootFromArgs :: "ParsedArgs \<Rightarrow> boot_choice" where
  "bootFromArgs a =
     (if pa_command a = Some (js ''signup'') then
        (case (flagValue (pa_flags a) (js ''invite''), flagValue (pa_flags a) (js ''username'')) of
           (Some i, Some u) \<Rightarrow> BootSignup i u
         | _ \<Rightarrow> BootUsage)
      else if pa_command a = Some (js ''login'') then
        (case flagValue (pa_flags a) (js ''username'') of Some u \<Rightarrow> BootLogin u | None \<Rightarrow> BootUsage)
      else BootUsage)"

text \<open>What can happen to the app.\<close>

datatype cli_step = CliInput jsstring | CliInbox | CliLinkEvent nat link_event | CliConnection jsstring | CliView | CliClose

definition cliStep :: "cli_env \<Rightarrow> CliApp \<Rightarrow> cli_step \<Rightarrow> CliApp" where
  "cliStep C app s =
     (case s of
        CliInput t \<Rightarrow> snd (handleInput C app t)
      | CliInbox \<Rightarrow> report C (app\<lparr>ca_client := processInbox (ce_client C) (ca_client app)\<rparr>)
      | CliLinkEvent k ev \<Rightarrow> report C (app\<lparr>ca_client := onLinkEvent (ce_client C) (ca_client app) (k, ev)\<rparr>)
      | CliConnection st \<Rightarrow> cliOnConnectionChange C app st
      | CliView \<Rightarrow> snd (conversationView C app)
      | CliClose \<Rightarrow> closeSession C app)"

end
