(* ===== verification/CliFrame.thy ===== *)
theory CliFrame
  imports CliApp
begin

section \<open>Framing the command-line client\<close>

text \<open>
  The locale \<open>app_frame\<close> is the contract of a relation on states of the app that its parts keep: it
  composes, and holds for a report of the client, a persisted snapshot, an emitted line and a write
  of the directory or of the AI table. The lemmas lift it over every command, so a property of whole
  steps is one interpretation: \<open>CliProps\<close> interprets it for the verified fingerprints, \<open>Tui\<close> for
  what is shown. Only \<^verbatim>\<open>/verify\<close> does more (\<open>verifies\<close>).
\<close>

text \<open>A line that runs \<^verbatim>\<open>/verify\<close>, and the name it gives.\<close>

definition verifyLine :: "jsstring \<Rightarrow> bool" where
  "verifyLine t \<longleftrightarrow> trim t \<noteq> [] \<and> hd (trim t) = 47 \<and> hd (splitSpaces (tl (trim t))) = js ''verify''"

definition verifyName :: "jsstring \<Rightarrow> jsstring" where
  "verifyName t = trim (joinSpaces (tl (splitSpaces (tl (trim t)))))"

text \<open>
  The row \<open>m\<close> of the user \<open>u\<close> a name stands for: the app's client resolves the name and then lists the
  members of the active conversation, which leaves it as \<open>cl'\<close>.
\<close>

definition namedRow :: "cli_env \<Rightarrow> CliApp \<Rightarrow> jsstring \<Rightarrow> jsstring \<Rightarrow> jsstring \<Rightarrow> Member \<Rightarrow> Client \<Rightarrow> bool" where
  "namedRow C app name conv u m cl' \<longleftrightarrow> activeConversation app = Some conv
     \<and> (\<exists>devs cl ms. resolveUser (ce_client C) (ca_client app) name = (Inr (u, devs), cl)
          \<and> clListMembers (ce_client C) cl conv = (Inr ms, cl') \<and> find (\<lambda>m. mb_userId m = u) ms = Some m)
     \<and> mb_identityKeyFingerprint m \<noteq> []"

text \<open>What \<^verbatim>\<open>/verify\<close> does beyond \<open>R\<close>: it records the fingerprint of that row for that user.\<close>

definition verifies :: "cli_env \<Rightarrow> (CliApp \<Rightarrow> CliApp \<Rightarrow> bool) \<Rightarrow> CliApp \<Rightarrow> jsstring \<Rightarrow> CliApp \<Rightarrow> bool" where
  "verifies C R app name app' \<longleftrightarrow> (\<exists>conv u m app3. namedRow C app name conv u m (ca_client app3) \<and> R app app3
     \<and> app' = cliPersist C (writeTrust C (\<lambda>iv ts. setVerified (ce_seal C) iv ts conv u (mb_identityKeyFingerprint m)) app3))"

text \<open>Handling the client's reports leaves the client as it is.\<close>

lemma cliOnMessage_client: "ca_client (cliOnMessage C app m) = ca_client app"
  by (simp add: cliOnMessage_def emit_def cliPersist_def Let_def split: sum.split)

lemma cliOnSystemEvent_client: "ca_client (cliOnSystemEvent C app e) = ca_client app"
  by (simp add: cliOnSystemEvent_def nameThen_def emit_def cliPersist_def Let_def split: SystemEvent.split sum.split)

lemma foldl_client: "(\<And>a x. ca_client (f a x) = ca_client a) \<Longrightarrow> ca_client (foldl f app xs) = ca_client app"
  by (induction xs arbitrary: app) simp_all

lemma report_client: "ca_client (report C app) = ca_client app"
  by (simp add: report_def Let_def foldl_client cliOnMessage_client cliOnSystemEvent_client)

lemma callClient_client: "callClient C f app = (Inr x, app') \<Longrightarrow> f (ca_client app) = (Inr x, ca_client app')"
  by (auto simp: callClient_def report_client split: prod.splits sum.splits)

lemma resolve_client: "resolve C app name = (Inr u, app') \<Longrightarrow> \<exists>devs. resolveUser (ce_client C) (ca_client app) name = (Inr (u, devs), ca_client app')"
  by (auto simp: resolve_def kbind_def split: prod.splits sum.splits dest: callClient_client)

locale app_frame =
  fixes C :: cli_env and R :: "CliApp \<Rightarrow> CliApp \<Rightarrow> bool"
  assumes R_trans: "R a b \<Longrightarrow> R b c \<Longrightarrow> R a c"
    and R_active: "R app (app\<lparr>ca_activeId := conv, ca_labels := labels\<rparr>)"
    and R_client: "R app (app\<lparr>ca_client := cl\<rparr>)"
    and R_report: "R app (report C (app\<lparr>ca_client := cl\<rparr>))"
    and R_emit: "R app (emit app ls)"
    and R_persist: "R app (cliPersist C app)"
    and R_directory: "R app (writeTrust C (\<lambda>iv ts. setDirectory (ce_seal C) iv ts u name) app)"
    and R_aiMember: "R app (writeTrust C (\<lambda>iv ts. setAiMember (ce_seal C) iv ts k u) app)"
    and R_aiGone: "R app (writeTrust C (\<lambda>iv ts. deleteAiMember ts k) app)"
begin

lemma R_refl: "R app app"
  using R_client [of app "ca_client app"] by simp

lemma R_kbind:
  assumes "R app (snd r)" "\<And>x app'. r = (Inr x, app') \<Longrightarrow> R app' (snd (f x app'))"
  shows "R app (snd (kbind r f))"
proof (cases r)
  case (Pair r' app')
  show ?thesis
  proof (cases r')
    case (Inr x)
    then show ?thesis using assms Pair R_trans by (auto simp: kbind_def)
  qed (use assms(1) Pair in \<open>simp add: kbind_def\<close>)
qed

lemma R_callClient: "R app (snd (callClient C f app))"
  using R_report by (simp add: callClient_def split: prod.split sum.split)

lemma R_askTrust: "R app (snd (askTrust f app))"
  using R_refl by (simp add: askTrust_def split: sum.split)

lemma R_persisted: "R app app' \<Longrightarrow> R app (cliPersist C app')"
  using R_trans R_persist by blast

text \<open>A write followed by the rest of a command.\<close>

lemma R_after:
  assumes "\<And>app'. R app' (snd (f app'))"
  shows "R app (snd (f (writeTrust C (\<lambda>iv ts. setDirectory (ce_seal C) iv ts u name) app)))"
  using R_trans [OF R_directory assms] .

lemma R_withActive:
  "(\<And>conv. activeConversation app = Some conv \<Longrightarrow> R app (snd (f conv))) \<Longrightarrow> R app (snd (withActive C app f))"
  by (simp add: withActive_def R_refl split: option.split)

lemma R_resolve: "R app (snd (resolve C app username))"
  unfolding resolve_def by (rule R_kbind [OF R_callClient]) (simp add: R_refl)

lemmas R_intros = R_withActive R_kbind [OF R_resolve] R_kbind [OF R_callClient] R_kbind [OF R_askTrust] R_persisted R_refl

lemma R_sendChat: "R app (snd (sendChat C app t))"
  unfolding sendChat_def
proof (intro R_withActive R_kbind R_askTrust)
  fix conv ai app1
  define mentions where "mentions = (case truthy ai of None \<Rightarrow> [] | Some u \<Rightarrow> if aiMention t then [u] else [])"
  obtain r app2 where r: "callClient C (\<lambda>cl. clSend (ce_client C) cl conv t mentions) app1 = (r, app2)" by force
  then have "R app1 app2" using R_callClient by (metis snd_conv)
  then show "R app1 (snd (let mentions = case truthy ai of None \<Rightarrow> [] | Some u \<Rightarrow> if aiMention t then [u] else []
      in case callClient C (\<lambda>cl. clSend (ce_client C) cl conv t mentions) app1 of
           (Inl e, app2) \<Rightarrow> (Inr [err C app2 (js ''send failed: '' @ ce_message C e)], app2)
         | (Inr x, app2) \<Rightarrow> (Inr [msgLine C (cl_username (ca_client app2)) t (cliNow C app2)], cliPersist C app2)))"
    by (simp add: mentions_def [symmetric] Let_def r R_persisted split: sum.split)
qed

lemma R_cmdNew: "R app (snd (cmdNew C app name))"
  by (auto simp: cmdNew_def Let_def intro!: R_kbind [OF R_callClient] R_persisted R_active)

lemma R_cmdInvite: "R app (snd (cmdInvite C app name))"
proof -
  have "R a (snd (kbind (callClient C f (writeTrust C (\<lambda>iv ts. setDirectory (ce_seal C) iv ts u name) a)) (\<lambda>_ app3. (Inr (g app3), cliPersist C app3))))"
    for a f u and g :: "CliApp \<Rightarrow> RenderedLine list"
    by (rule R_after [where f = "\<lambda>a. kbind (callClient C f a) (\<lambda>_ app3. (Inr (g app3), cliPersist C app3))"])
      (auto intro!: R_kbind [OF R_callClient] R_persist)
  then show ?thesis by (auto simp: cmdInvite_def Let_def R_refl intro!: R_withActive R_kbind [OF R_resolve])
qed

lemma R_cmdRemove: "R app (snd (cmdRemove C app name))"
  by (auto simp: cmdRemove_def intro!: R_intros)

lemma R_cmdMembers: "R app (snd (cmdMembers C app))"
  by (auto simp: cmdMembers_def intro!: R_intros)

lemma R_cmdAiMode: "R app (snd (cmdAiMode C app b))"
  by (auto simp: cmdAiMode_def intro!: R_intros)

lemma R_cmdAiInvite: "R app (snd (cmdAiInvite C app name))"
proof -
  have "R a (snd (kbind (callClient C f (writeTrust C (\<lambda>iv ts. setDirectory (ce_seal C) iv ts u n) a)) (\<lambda>_ app3.
      let app4 = writeTrust C (\<lambda>iv ts. setAiMember (ce_seal C) iv ts conv u) app3 in (Inr (g app4), cliPersist C app4))))"
    for a f u n conv and g :: "CliApp \<Rightarrow> RenderedLine list"
    by (rule R_after [where f = "\<lambda>a. kbind (callClient C f a) (\<lambda>_ app3.
        let app4 = writeTrust C (\<lambda>iv ts. setAiMember (ce_seal C) iv ts conv u) app3 in (Inr (g app4), cliPersist C app4))"])
      (auto simp: Let_def intro!: R_kbind [OF R_callClient] R_persisted R_aiMember)
  then show ?thesis
    by (auto simp: cmdAiInvite_def Let_def R_refl intro!: R_withActive R_kbind [OF R_resolve] split: option.split)
qed

lemma R_cmdAiRemove: "R app (snd (cmdAiRemove C app))"
  by (auto simp: cmdAiRemove_def Let_def intro!: R_withActive R_kbind [OF R_askTrust] R_kbind [OF R_callClient] R_persisted R_aiGone R_refl
      split: option.split)

lemma R_cmdAi: "R app (snd (cmdAi C app args))"
  by (simp add: cmdAi_def Let_def R_cmdAiMode R_cmdAiInvite R_cmdAiRemove R_refl)

lemma cmdVerify_effect:
  "R app (snd (cmdVerify C app name)) \<or> verifies C R app name (snd (cmdVerify C app name))"
proof (cases "activeConversation app = None \<or> name = []")
  case True
  then show ?thesis by (auto simp: cmdVerify_def withActive_def R_refl split: option.split)
next
  case False
  then obtain conv where conv: "activeConversation app = Some conv" "name \<noteq> []" by auto
  obtain r app1 where r: "resolve C app name = (r, app1)" by force
  then have k1: "R app app1" using R_resolve by (metis snd_conv)
  show ?thesis
  proof (cases r)
    case (Inl e)
    then show ?thesis using k1 by (simp add: cmdVerify_def withActive_def conv r kbind_def)
  next
    case (Inr u)
    let ?app2 = "writeTrust C (\<lambda>iv ts. setDirectory (ce_seal C) iv ts u name) app1"
    obtain q app3 where q: "callClient C (\<lambda>cl. clListMembers (ce_client C) cl conv) ?app2 = (q, app3)" by force
    then have "R ?app2 app3" using R_callClient by (metis snd_conv)
    then have k3: "R app app3" using k1 R_directory R_trans by blast
    have "verifies C R app name (cliPersist C (writeTrust C (\<lambda>iv ts. setVerified (ce_seal C) iv ts conv u (mb_identityKeyFingerprint m)) app3))"
      if "q = Inr ms" "find (\<lambda>m. mb_userId m = u) ms = Some m" "mb_identityKeyFingerprint m \<noteq> []" for ms m
    proof -
      have "clListMembers (ce_client C) (ca_client app1) conv = (Inr ms, ca_client app3)"
        using callClient_client [OF q [unfolded that(1)]] by (simp add: writeTrust_def)
      then have "namedRow C app name conv u m (ca_client app3)"
        using conv(1) resolve_client [OF r [unfolded Inr]] that(2,3) unfolding namedRow_def by blast
      then show ?thesis using k3 unfolding verifies_def by blast
    qed
    then show ?thesis
      using k3 by (auto simp: cmdVerify_def withActive_def conv r Inr kbind_def q Let_def split: sum.split option.split)
  qed
qed

lemma command_effect:
  "R app (snd (command C app cmd args))
    \<or> cmd = js ''verify'' \<and> verifies C R app (trim (joinSpaces args)) (snd (command C app cmd args))"
proof (cases "cmd = js ''verify''")
  case True
  have "js ''verify'' \<noteq> js ''new''" "js ''verify'' \<noteq> js ''invite''" "js ''verify'' \<noteq> js ''remove''" "js ''verify'' \<noteq> js ''members''"
    by (simp_all add: js_def)
  then show ?thesis using cmdVerify_effect True by (simp add: command_def Let_def)
next
  case False
  then show ?thesis
    by (simp add: command_def Let_def R_cmdNew R_cmdInvite R_cmdRemove R_cmdMembers R_cmdAi
        cmdHelp_def cmdQuit_def R_refl R_client)
qed

lemma input_effect:
  "R app (snd (handleInput C app t)) \<or> verifyLine t \<and> verifies C R app (verifyName t) (snd (handleInput C app t))"
proof (cases "trim t = [] \<or> hd (trim t) \<noteq> 47")
  case True
  then show ?thesis using R_sendChat by (auto simp: handleInput_def Let_def R_refl)
next
  case False
  have "snd (dispatchCommand C app (trim t)) = snd (command C app (hd (splitSpaces (tl (trim t)))) (tl (splitSpaces (tl (trim t)))))"
    by (simp add: dispatchCommand_def Let_def split: prod.split sum.split)
  then have "snd (handleInput C app t) = snd (command C app (hd (splitSpaces (tl (trim t)))) (tl (splitSpaces (tl (trim t)))))"
    using False by (simp add: handleInput_def Let_def split_beta)
  then show ?thesis using command_effect False by (auto simp: verifyLine_def verifyName_def)
qed

lemma R_view: "R app (snd (conversationView C app))"
  by (auto simp: conversationView_def Let_def R_refl intro!: R_kbind [OF R_askTrust] R_kbind [OF R_callClient] split: option.split)

lemma R_close: "R app (closeSession C app)"
  using R_trans [OF R_persist R_client] by (simp add: closeSession_def Let_def)

lemma step_effect:
  "R app (cliStep C app s) \<or> (\<exists>t. s = CliInput t \<and> verifyLine t \<and> verifies C R app (verifyName t) (cliStep C app s))"
  using input_effect R_view by (cases s) (auto simp: cliStep_def R_report R_close R_emit cliOnConnectionChange_def)

end

end
