(* ===== verification/Tui.thy ===== *)
theory Tui
  imports CliFrame
begin

section \<open>The two shells of the command-line client (\<^verbatim>\<open>apps/cli/src\<close>: tui.tsx, main.ts)\<close>

text \<open>
  The Ink component \<^verbatim>\<open>Tui\<close> as a state machine over the app: its React state, the lines whose command
  is still awaited and the projections that were requested. An awaited command or projection is
  one step of the app, taken when it ends; the link events in between are steps of their own. The
  lines the app emits reach the component through its sink, one call per emitted line. Of Ink the
  model has one parameter: whether it keeps Ctrl-C for itself (its option \<^verbatim>\<open>exitOnCtrlC\<close>) or hands it
  to \<^verbatim>\<open>useInput\<close>. What is drawn is a value of the record \<open>Screen\<close>. The readline shell is a second state
  machine. A rejection nobody handles ends the process with code 1.
\<close>

subsection \<open>What is drawn\<close>

datatype Colour = Cyan | Gray | Yellow | Red | Magenta | Green | BlueBright

definition colorFor :: "RenderKind \<Rightarrow> Colour option" where
  "colorFor k = (case k of KMessage \<Rightarrow> None | KInfo \<Rightarrow> Some Cyan | KSystem \<Rightarrow> Some Gray | KWarn \<Rightarrow> Some Yellow
     | KError \<Rightarrow> Some Red | KConnection \<Rightarrow> Some Magenta)"

text \<open>A \<^verbatim>\<open>Text\<close> element: its text, its colour, whether it is bold; a row is a list of them.\<close>

record Span =
  sp_text :: jsstring
  sp_colour :: "Colour option"
  sp_bold :: bool

definition span :: "Colour option \<Rightarrow> jsstring \<Rightarrow> Span" where
  "span c t = \<lparr>sp_text = t, sp_colour = c, sp_bold = False\<rparr>"

definition boldSpan :: "Colour option \<Rightarrow> jsstring \<Rightarrow> Span" where
  "boldSpan c t = \<lparr>sp_text = t, sp_colour = c, sp_bold = True\<rparr>"

text \<open>\<^verbatim>\<open>split(" ").slice(0, 2).join(" ")\<close>: what is before the second blank.\<close>

definition shortFingerprint :: "jsstring \<Rightarrow> jsstring" where
  "shortFingerprint fp =
     (let notBlank = (\<lambda>u. u \<noteq> 32); first = takeWhile notBlank fp in
      case dropWhile notBlank fp of [] \<Rightarrow> first | b # after \<Rightarrow> first @ [b] @ takeWhile notBlank after)"

definition memberRow :: "SidebarMember \<Rightarrow> Span list list" where
  "memberRow m =
     (let marker = (if sm_isAi m then (if sm_aiActive m then 9679 else 9675) else 8226);
          markerColor = (if sm_isAi m then (if sm_aiActive m then Green else Gray) else BlueBright)
      in [[span (Some markerColor) [marker, 32], boldSpan None (sm_name m)]
            @ (if sm_isSelf m then [span (Some Gray) (js '' (you)'')] else [])
            @ (if sm_verified m then [span (Some Green) [32, 10003]] else []),
          [span (Some Gray) (js ''  '' @ roleName (sm_role m)
            @ (if sm_isAi m then [32, 183, 32] @ js ''AI '' @ (if sm_aiActive m then js ''active'' else js ''passive'') else []))],
          [span (Some Gray) (js ''  '' @ shortFingerprint (sm_fingerprint m))]])"

definition sidebar :: "ConversationView option \<Rightarrow> Span list list" where
  "sidebar view =
     [boldSpan (Some Cyan) (js ''Members'' @ (case view of None \<Rightarrow> [] | Some v \<Rightarrow> js '' ('' @ decimalDigits (length (cv_members v)) @ js '')''))]
     # (case view of
          None \<Rightarrow> [[span (Some Gray) (js ''no active conversation'')]]
        | Some v \<Rightarrow> if cv_members v = [] then [[span (Some Gray) (js ''(none yet)'')]] else concat (map memberRow (cv_members v)))"

record Screen =
  sc_header :: "Span list"
  sc_pane :: "Span list"
  sc_sidebar :: "Span list list"
  sc_sidebarWidth :: nat
  sc_prompt :: Span
  sc_input :: jsstring

subsection \<open>State and events of the component\<close>

text \<open>\<open>tu_exit\<close> is the exit code of the process, \<open>tu_running\<close> the lines whose command is not finished.\<close>

record Tui =
  tu_app :: CliApp
  tu_lines :: "RenderedLine list"
  tu_view :: "ConversationView option"
  tu_input :: jsstring
  tu_busy :: bool
  tu_rows :: nat
  tu_cols :: nat
  tu_mounted :: bool
  tu_running :: "jsstring list"
  tu_refreshes :: nat
  tu_exit :: "nat option"

text \<open>The first render and the effects: the lines emitted so far, the sink, one projection.\<close>

definition mountTui :: "nat option \<Rightarrow> nat option \<Rightarrow> CliApp \<Rightarrow> Tui" where
  "mountTui rows cols app = \<lparr>tu_app = app, tu_lines = ca_buffer app, tu_view = None, tu_input = [], tu_busy = False,
     tu_rows = orDefault rows 24, tu_cols = orDefault cols 80, tu_mounted = True, tu_running = [], tu_refreshes = 1, tu_exit = None\<rparr>"

definition addLines :: "Tui \<Rightarrow> RenderedLine list \<Rightarrow> Tui" where
  "addLines t ls = (if tu_mounted t then t\<lparr>tu_lines := tu_lines t @ ls\<rparr> else t)"

text \<open>The app moves to \<open>app\<close>; what it emitted on the way goes through the sink, which is detached on unmount.\<close>

definition tuiSink :: "Tui \<Rightarrow> CliApp \<Rightarrow> Tui" where
  "tuiSink t app =
     (let incoming = drop (length (ca_buffer (tu_app t))) (ca_buffer app); t1 = t\<lparr>tu_app := app\<rparr> in
      if tu_mounted t then (addLines t1 incoming)\<lparr>tu_refreshes := tu_refreshes t + length incoming\<rparr> else t1)"

definition refreshView :: "Tui \<Rightarrow> Tui" where
  "refreshView t = t\<lparr>tu_refreshes := Suc (tu_refreshes t)\<rparr>"

definition projected :: "cli_env \<Rightarrow> Tui \<Rightarrow> Tui" where
  "projected C t =
     (if tu_refreshes t = 0 then t
      else case conversationView C (tu_app t) of
        (r, app) \<Rightarrow>
          (let t1 = tuiSink (t\<lparr>tu_refreshes := tu_refreshes t - 1\<rparr>) app in
           case r of Inl _ \<Rightarrow> t1 | Inr v \<Rightarrow> t1\<lparr>tu_view := v\<rparr>))"

definition quitTui :: "cli_env \<Rightarrow> Tui \<Rightarrow> Tui" where
  "quitTui C t = (tuiSink t (closeSession C (tu_app t)))\<lparr>tu_mounted := False, tu_exit := Some 0\<rparr>"

definition submitLine :: "jsstring \<Rightarrow> Tui \<Rightarrow> Tui" where
  "submitLine raw t =
     (let trimmed = trim raw; t1 = t\<lparr>tu_input := []\<rparr> in
      if trimmed = [] then t1 else t1\<lparr>tu_busy := True, tu_running := tu_running t1 @ [trimmed]\<rparr>)"

text \<open>The \<open>k\<close>-th awaited command ends.\<close>

definition lineHandled :: "cli_env \<Rightarrow> nat \<Rightarrow> Tui \<Rightarrow> Tui" where
  "lineHandled C k t =
     (if k < length (tu_running t) then
        let input = tu_running t ! k; t0 = t\<lparr>tu_running := take k (tu_running t) @ drop (Suc k) (tu_running t)\<rparr> in
        (case handleInput C (tu_app t0) input of
           (Inl _, app) \<Rightarrow> (tuiSink t0 app)\<lparr>tu_busy := False, tu_exit := Some 1\<rparr>
         | (Inr out, app) \<Rightarrow>
             let t1 = (refreshView (addLines (tuiSink t0 app) out))\<lparr>tu_busy := False\<rparr> in
             if input = js ''/quit'' then quitTui C t1 else t1)
      else t)"

definition resizeTui :: "nat option \<Rightarrow> nat option \<Rightarrow> Tui \<Rightarrow> Tui" where
  "resizeTui rows cols t = t\<lparr>tu_rows := orDefault rows 24, tu_cols := orDefault cols 80\<rparr>"

text \<open>
  Ctrl-C. When Ink keeps the key it unmounts the component, \<^verbatim>\<open>waitUntilExit\<close> resolves and \<^verbatim>\<open>main\<close>
  returns; otherwise the handler of \<^verbatim>\<open>useInput\<close> quits.
\<close>

definition ctrlC :: "cli_env \<Rightarrow> bool \<Rightarrow> Tui \<Rightarrow> Tui" where
  "ctrlC C inkKeeps t = (if inkKeeps then t\<lparr>tu_mounted := False\<rparr> else quitTui C t)"

text \<open>What happens to the app without the user.\<close>

definition background :: "cli_step \<Rightarrow> bool" where
  "background s = (case s of CliInbox \<Rightarrow> True | CliLinkEvent _ _ \<Rightarrow> True | CliConnection _ \<Rightarrow> True | _ \<Rightarrow> False)"

datatype tui_event =
    TuType jsstring
  | TuSubmit jsstring
  | TuHandled nat
  | TuProjected
  | TuApp cli_step
  | TuResize "nat option" "nat option"
  | TuCtrlC

definition tuiStep :: "cli_env \<Rightarrow> bool \<Rightarrow> Tui \<Rightarrow> tui_event \<Rightarrow> Tui" where
  "tuiStep C inkKeeps t ev =
     (if tu_exit t \<noteq> None then t
      else case ev of
        TuHandled k \<Rightarrow> lineHandled C k t
      | TuProjected \<Rightarrow> projected C t
      | TuApp s \<Rightarrow> if background s then tuiSink t (cliStep C (tu_app t) s) else t
      | TuType s \<Rightarrow> if tu_mounted t then t\<lparr>tu_input := s\<rparr> else t
      | TuSubmit raw \<Rightarrow> if tu_mounted t then submitLine raw t else t
      | TuResize rows cols \<Rightarrow> if tu_mounted t then resizeTui rows cols t else t
      | TuCtrlC \<Rightarrow> if tu_mounted t then ctrlC C inkKeeps t else t)"

text \<open>The binary fraction 0.32 gives the same floor as \<open>8 / 25\<close> for every terminal width. Boxes and borders are left out.\<close>

definition screen :: "Tui \<Rightarrow> Screen" where
  "screen t =
     (let sidebarWidth = max 24 (min 36 (tu_cols t * 8 div 25));
          paneRows = max 3 (tu_rows t - 5);
          visible = drop (length (tu_lines t) - paneRows) (tu_lines t);
          memberCount = (case tu_view t of None \<Rightarrow> 0 | Some v \<Rightarrow> length (cv_members v));
          headerLabel = (case tu_view t of None \<Rightarrow> js ''(no conversation)'' | Some v \<Rightarrow> cv_label v)
      in \<lparr>sc_header = [boldSpan (Some Cyan) headerLabel,
            span (Some Gray) (js ''  '' @ decimalDigits memberCount @ js '' member'' @ (if memberCount = 1 then [] else js ''s'')),
            span (Some Gray) (js ''signalai'')],
          sc_pane = (if visible = [] then [span (Some Gray) (js ''connected. type /help for commands, /quit to exit.'')]
            else map (\<lambda>l. span (colorFor (rl_kind l)) (rl_text l)) visible),
          sc_sidebar = sidebar (tu_view t),
          sc_sidebarWidth = sidebarWidth,
          sc_prompt = span (Some (if tu_busy t then Yellow else Green)) (js ''> ''),
          sc_input = tu_input t\<rparr>)"

subsection \<open>The readline shell\<close>

text \<open>
  What appears: the lines the shell prints, and the line the user entered behind its prompt, which
  readline writes back while it is edited. Readline does so exactly when its output is a terminal
  (the default of its option \<^verbatim>\<open>terminal\<close>, \<open>rd_terminal\<close>); then a sent message is seen twice. In a
  pipe only the printed lines appear (and the bare prompt, which is left out).
\<close>

datatype shown = Printed jsstring | Echoed jsstring

record Readline =
  rd_app :: CliApp
  rd_terminal :: bool
  rd_shown :: "shown list"
  rd_running :: bool
  rd_error :: "jsstring option"
  rd_exit :: "nat option"

definition printLines :: "Readline \<Rightarrow> RenderedLine list \<Rightarrow> Readline" where
  "printLines r ls = r\<lparr>rd_shown := rd_shown r @ map (Printed \<circ> rl_text) ls\<rparr>"

definition readlineSink :: "Readline \<Rightarrow> CliApp \<Rightarrow> Readline" where
  "readlineSink r app = printLines (r\<lparr>rd_app := app\<rparr>) (drop (length (ca_buffer (rd_app r))) (ca_buffer app))"

definition startReadline :: "bool \<Rightarrow> CliApp \<Rightarrow> Readline" where
  "startReadline terminal app = \<lparr>rd_app = app, rd_terminal = terminal,
     rd_shown = [Printed (js ''connected. type /help for commands, /quit to exit.'')], rd_running = True, rd_error = None, rd_exit = None\<rparr>"

text \<open>\<^verbatim>\<open>rl.question("> ")\<close> answered with \<open>input\<close>.\<close>

definition readQuestion :: "Readline \<Rightarrow> jsstring \<Rightarrow> Readline" where
  "readQuestion r input = (if rd_terminal r then r\<lparr>rd_shown := rd_shown r @ [Echoed (js ''> '' @ input)]\<rparr> else r)"

text \<open>After the loop.\<close>

definition endReadline :: "cli_env \<Rightarrow> Readline \<Rightarrow> Readline" where
  "endReadline C r = (readlineSink r (closeSession C (rd_app r)))\<lparr>rd_exit := Some 0\<rparr>"

text \<open>
  \<open>RlLine\<close>: the question is answered and the command runs to its end. \<open>RlClosed\<close>: the question is
  rejected, or the loop ends because a SIGINT came while a command ran. \<open>RlSigint\<close> closes the
  interface; whether the pending question is then rejected is up to the runtime. A line that comes
  while no question is asked is dropped by readline and is no event here.
\<close>

datatype readline_event = RlLine jsstring | RlClosed | RlSigint | RlApp cli_step

definition readlineStep :: "cli_env \<Rightarrow> Readline \<Rightarrow> readline_event \<Rightarrow> Readline" where
  "readlineStep C r ev =
     (if rd_exit r \<noteq> None then r
      else case ev of
        RlClosed \<Rightarrow> endReadline C r
      | RlSigint \<Rightarrow> r\<lparr>rd_running := False\<rparr>
      | RlApp s \<Rightarrow> if background s then readlineSink r (cliStep C (rd_app r) s) else r
      | RlLine input \<Rightarrow>
          if \<not> rd_running r then r
          else let trimmed = trim input; r0 = readQuestion r input in
            (case handleInput C (rd_app r0) trimmed of
               (Inl e, app) \<Rightarrow>
                 (readlineSink r0 app)\<lparr>rd_error := Some (ce_message C e), rd_exit := Some 1\<rparr>
             | (Inr out, app) \<Rightarrow>
                 let r1 = printLines (readlineSink r0 app) out in
                 if trimmed = js ''/quit'' then endReadline C r1 else r1))"

end
