(* ===== verification/CliProps.thy ===== *)
theory CliProps
  imports CliFrame ClientSafety
begin

section \<open>The verified mark of the command-line client\<close>

text \<open>
  \<open>keeps\<close> is what every part of the app but \<^verbatim>\<open>/verify\<close> does to the verified fingerprints: none appears, and
  of the users whose row of the name table opens exactly those whose key change was reported lose
  theirs. For a user whose row does not open, the report's handler throws before it resets the mark.
  \<open>keeps\<close> is an \<open>app_frame\<close>, which gives the theorem \<open>verified_only_by_verify\<close> about every step.
\<close>

abbreviation verified_of :: "cli_env \<Rightarrow> CliApp \<Rightarrow> jsstring \<Rightarrow> jsstring \<Rightarrow> agent_error + jsstring option" where
  "verified_of C app conv u \<equiv> getVerifiedFingerprint (ce_seal C) (ca_trust app) conv u"

text \<open>The user's row of the name table opens, or there is none.\<close>

definition name_opens :: "cli_env \<Rightarrow> CliApp \<Rightarrow> jsstring \<Rightarrow> bool" where
  "name_opens C app u \<longleftrightarrow> (\<exists>n. getUsername (ce_seal C) (ca_trust app) u = Inr n)"

definition cli_env_ok :: "cli_env \<Rightarrow> bool" where
  "cli_env_ok C \<longleftrightarrow> seal_ok (ce_seal C) \<and> (\<forall>n. length (ce_iv C n) = 12)"

definition changed :: "SystemEvent list \<Rightarrow> jsstring \<Rightarrow> bool" where
  "changed evs u \<longleftrightarrow> (\<exists>d. IdentityKeyChanged u d \<in> set evs)"

definition keeps_for :: "cli_env \<Rightarrow> SystemEvent list \<Rightarrow> CliApp \<Rightarrow> CliApp \<Rightarrow> jsstring \<Rightarrow> bool" where
  "keeps_for C evs app app' u \<longleftrightarrow> (name_opens C app u \<longrightarrow> name_opens C app' u)
     \<and> (\<forall>conv. verified_of C app' conv u = verified_of C app conv u \<or> verified_of C app' conv u = Inr None)
     \<and> (name_opens C app u \<longrightarrow> (\<forall>conv. verified_of C app' conv u = (if changed evs u then Inr None else verified_of C app conv u)))"

definition keeps :: "cli_env \<Rightarrow> CliApp \<Rightarrow> CliApp \<Rightarrow> bool" where
  "keeps C app app' \<longleftrightarrow> (\<exists>evs. ca_handled app' = ca_handled app @ evs \<and> (\<forall>u. keeps_for C evs app app' u))"

lemma keeps_same:
  "ca_trust app' = ca_trust app \<Longrightarrow> ca_handled app' = ca_handled app \<Longrightarrow> keeps C app app'"
  by (simp add: keeps_def keeps_for_def name_opens_def changed_def)

lemma changed_append: "changed (e1 @ e2) u \<longleftrightarrow> changed e1 u \<or> changed e2 u"
  by (auto simp: changed_def)

lemma keeps_for_trans: "keeps_for C e1 a b u \<Longrightarrow> keeps_for C e2 b c u \<Longrightarrow> keeps_for C (e1 @ e2) a c u"
  unfolding keeps_for_def changed_append by metis

lemma keeps_trans:
  assumes "keeps C a b" "keeps C b c"
  shows "keeps C a c"
proof -
  obtain e1 e2 where e: "ca_handled b = ca_handled a @ e1" "\<forall>u. keeps_for C e1 a b u"
    "ca_handled c = ca_handled b @ e2" "\<forall>u. keeps_for C e2 b c u" using assms by (auto simp: keeps_def)
  have "keeps_for C (e1 @ e2) a c u" for u by (rule keeps_for_trans) (use e in blast)+
  moreover have "ca_handled c = ca_handled a @ (e1 @ e2)" using e by simp
  ultimately show ?thesis unfolding keeps_def by blast
qed

subsection \<open>Reports\<close>

lemma names_display: "name_opens C app u \<Longrightarrow> \<exists>n. displayName C app u = Inr n"
  by (auto simp: displayName_def name_opens_def rbind_def split: sum.split)

lemma persist_trust [simp]:
  "ca_trust (cliPersist C app) = ca_trust app" "ca_handled (cliPersist C app) = ca_handled app"
  "ca_trust (emit app ls) = ca_trust app" "ca_handled (emit app ls) = ca_handled app"
  by (simp_all add: cliPersist_def emit_def)

lemma onMessage_trust [simp]: "ca_trust (cliOnMessage C app m) = ca_trust app" "ca_handled (cliOnMessage C app m) = ca_handled app"
  by (simp_all add: cliOnMessage_def Let_def split: sum.split)

lemma onMessages_trust [simp]:
  "ca_trust (foldl (cliOnMessage C) app ms) = ca_trust app" "ca_handled (foldl (cliOnMessage C) app ms) = ca_handled app"
  by (induction ms arbitrary: app) simp_all

lemma onSystemEvent_handled: "ca_handled (cliOnSystemEvent C app e) = ca_handled app"
  by (simp add: cliOnSystemEvent_def nameThen_def Let_def split: SystemEvent.split sum.split)

lemma onSystemEvent_trust:
  "ca_trust (cliOnSystemEvent C app e) = (case e of
     IdentityKeyChanged u _ \<Rightarrow> (case displayName C app u of Inl _ \<Rightarrow> ca_trust app | Inr _ \<Rightarrow> deleteVerifiedForUser (ca_trust app) u)
   | _ \<Rightarrow> ca_trust app)"
  by (simp add: cliOnSystemEvent_def nameThen_def Let_def split: SystemEvent.split sum.split)

lemma names_deleted: "getUsername S (deleteVerifiedForUser t u) = getUsername S t"
  by (simp add: fun_eq_iff getUsername_def deleteVerifiedForUser_def)

lemma names_others: "getUsername S (setAiMember S iv t conv u) = getUsername S t" "getUsername S (deleteAiMember t conv) = getUsername S t"
    "getUsername S (setVerified S iv t conv u fp) = getUsername S t"
  by (simp_all add: fun_eq_iff getUsername_def setAiMember_def deleteAiMember_def setVerified_def)

lemma onSystemEvent_keeps: "keeps_for C [e] app (cliOnSystemEvent C app e) u"
proof (cases e)
  case (IdentityKeyChanged v d)
  show ?thesis
  proof (cases "displayName C app v")
    case (Inl x)
    then have "\<not> name_opens C app v" using names_display by fastforce
    then show ?thesis using IdentityKeyChanged Inl
      by (auto simp: keeps_for_def name_opens_def onSystemEvent_trust changed_def)
  next
    case (Inr n)
    then show ?thesis using IdentityKeyChanged
      by (simp add: keeps_for_def name_opens_def onSystemEvent_trust names_deleted verified_deleted changed_def)
  qed
qed (simp_all add: keeps_for_def name_opens_def onSystemEvent_trust changed_def)

lemma onSystemEvents_keeps:
  "ca_handled (foldl (cliOnSystemEvent C) app evs) = ca_handled app \<and> keeps_for C evs app (foldl (cliOnSystemEvent C) app evs) u"
proof (induction evs arbitrary: app)
  case (Cons e evs)
  let ?app1 = "cliOnSystemEvent C app e"
  have "keeps_for C ([e] @ evs) app (foldl (cliOnSystemEvent C) ?app1 evs) u"
    using Cons.IH [of ?app1] by (intro keeps_for_trans [OF onSystemEvent_keeps]) blast
  then show ?case using Cons.IH [of ?app1] by (simp add: onSystemEvent_handled)
qed (simp add: keeps_for_def changed_def)

lemma keeps_for_same_trust:
  "keeps_for C evs a b u \<Longrightarrow> ca_trust a' = ca_trust a \<Longrightarrow> ca_trust b' = ca_trust b \<Longrightarrow> keeps_for C evs a' b' u"
  by (simp add: keeps_for_def name_opens_def)

lemma keeps_report: "keeps C app (report C (app\<lparr>ca_client := cl\<rparr>))"
proof -
  define evs where "evs = drop (ca_seenEvents app) (cl_events cl)"
  define app1 where "app1 = app\<lparr>ca_client := cl, ca_seenEvents := length (cl_events cl), ca_seenMessages := length (cl_messages cl),
    ca_handled := ca_handled app @ evs\<rparr>"
  have r: "report C (app\<lparr>ca_client := cl\<rparr>) = foldl (cliOnMessage C) (foldl (cliOnSystemEvent C) app1 evs) (drop (ca_seenMessages app) (cl_messages cl))"
    by (simp add: report_def Let_def evs_def app1_def)
  have "ca_handled (report C (app\<lparr>ca_client := cl\<rparr>)) = ca_handled app @ evs"
    using onSystemEvents_keeps [of C app1 evs] by (simp add: r app1_def)
  moreover have "keeps_for C evs app (report C (app\<lparr>ca_client := cl\<rparr>)) u" for u
    using onSystemEvents_keeps [of C app1 evs u] by (rule keeps_for_same_trust [OF conjunct2]) (simp_all add: r app1_def)
  ultimately show ?thesis unfolding keeps_def by blast
qed

text \<open>Writes to the other two tables.\<close>

lemma keeps_write:
  assumes "cli_env_ok C"
  shows "keeps C app (writeTrust C (\<lambda>iv ts. setDirectory (ce_seal C) iv ts u name) app)"
    "keeps C app (writeTrust C (\<lambda>iv ts. setAiMember (ce_seal C) iv ts conv u) app)"
    "keeps C app (writeTrust C (\<lambda>iv ts. deleteAiMember ts conv) app)"
proof -
  have "\<exists>n. getUsername (ce_seal C) (setDirectory (ce_seal C) iv t u name) v = Inr n"
    if "\<exists>n. getUsername (ce_seal C) t v = Inr n" "length iv = 12" for iv t v
  proof -
    obtain s where "openValue (ce_seal C) t (sealValue (ce_seal C) iv t name) = Inr s"
    proof (cases "ts_key t")
      case None
      then show ?thesis using that by (simp add: openValue_def sealValue_def encodePayload_def decodePayload_def stringCodec_def)
    next
      case (Some k)
      obtain tag enc where s: "sl_seal (ce_seal C) k iv (utf8Encode name) = (tag, enc)" by force
      then have "length tag = 16" "sl_open (ce_seal C) k iv tag enc = Some (utf8Encode name)"
        using assms by (auto simp: cli_env_ok_def seal_ok_def)
      then show ?thesis using that \<open>length iv = 12\<close> s Some
        by (simp add: openValue_def sealValue_def encodePayload_def decodePayload_def stringCodec_def)
    qed
    then show ?thesis
      using that(1) by (auto simp: getUsername_def setDirectory_def map_of_amap_set openRow_def rbind_def openValue_def split: option.split)
  qed
  then show "keeps C app (writeTrust C (\<lambda>iv ts. setDirectory (ce_seal C) iv ts u name) app)"
    using assms by (auto simp: keeps_def keeps_for_def name_opens_def writeTrust_def changed_def cli_env_ok_def)
qed (auto simp: keeps_def keeps_for_def name_opens_def writeTrust_def changed_def names_others)

interpretation kept: app_frame C "\<lambda>a b. cli_env_ok C \<longrightarrow> keeps C a b" for C
proof unfold_locales
  fix a b c
  assume "cli_env_ok C \<longrightarrow> keeps C a b" "cli_env_ok C \<longrightarrow> keeps C b c"
  then show "cli_env_ok C \<longrightarrow> keeps C a c" using keeps_trans by blast
qed (simp_all add: keeps_report keeps_write keeps_same)

subsection \<open>Fingerprints\<close>

lemma wfString_units: "(\<And>u. u \<in> set t \<Longrightarrow> unat u < 128) \<Longrightarrow> wfString t"
proof -
  assume "\<And>u. u \<in> set t \<Longrightarrow> unat u < 128"
  then have "\<And>u. u \<in> set t \<Longrightarrow> \<not> isHighSurrogate u \<and> \<not> isLowSurrogate u"
    by (fastforce simp: isHighSurrogate_def isLowSurrogate_def)
  then show ?thesis by (induction t rule: wfString.induct) auto
qed

lemma fingerprint_wf: "wfString (fingerprintOf K key)"
proof (rule wfString_units)
  fix u assume "u \<in> set (fingerprintOf K key)"
  then obtain k where "u \<in> set (toHex (sha256 K k))"
    by (auto simp: fingerprintOf_def split: option.splits dest: in_set_takeD)
  then have "isHexUnit u" using toHex_isHex by blast
  then show "unat u < 128" by (auto simp: isHexUnit_def word_le_nat_alt)
qed

lemma roster_fingerprints: "roster E cl conv au raw = Some ms \<Longrightarrow> m \<in> set ms \<Longrightarrow> \<exists>k. mb_identityKeyFingerprint m = fingerprintOf (en_crypto E) k"
  by (induction E cl conv au raw arbitrary: ms rule: roster.induct)
    (fastforce simp: memberRows_def split: if_splits option.splits)+

lemma listMembers_fingerprints:
  assumes "clListMembers E cl conv = (Inr ms, cl')" "m \<in> set ms"
  shows "wfString (mb_identityKeyFingerprint m)"
proof -
  have "\<exists>cl au raw. roster E cl conv au raw = Some ms \<or> ms = []"
    using assms(1) by (auto simp: clListMembers_def cbind_def split: prod.splits sum.splits option.splits)
  then show ?thesis using roster_fingerprints [OF _ assms(2)] fingerprint_wf assms(2) by fastforce
qed

text \<open>What is left of a mark, and the mark \<^verbatim>\<open>/verify\<close> sets.\<close>

lemma keeps_marked:
  assumes "keeps C app app'" "verified_of C app' conv u = Inr (Some fp)"
  shows "verified_of C app conv u = Inr (Some fp)
    \<and> (\<forall>d. IdentityKeyChanged u d \<in> set (drop (length (ca_handled app)) (ca_handled app')) \<longrightarrow> \<not> name_opens C app u)"
proof -
  obtain evs where evs: "ca_handled app' = ca_handled app @ evs" "keeps_for C evs app app' u"
    using assms(1) by (auto simp: keeps_def)
  have "verified_of C app conv u = Inr (Some fp)"
    using evs(2) assms(2) unfolding keeps_for_def by (metis option.distinct(1) sum.inject(2))
  moreover have "\<not> changed evs u" if "name_opens C app u"
    using evs(2) assms(2) that unfolding keeps_for_def by (metis option.distinct(1) sum.inject(2))
  ultimately show ?thesis using evs(1) by (auto simp: changed_def)
qed

lemma verifies_marked:
  assumes "cli_env_ok C" "verifies C R app name app'"
  obtains conv u m app3 where "namedRow C app name conv u m (ca_client app3)" "R app app3" "ca_client app' = ca_client app3"
    "ca_handled app' = ca_handled app3"
    "\<And>c v. verified_of C app' c v = (if c = conv \<and> v = u then Inr (Some (mb_identityKeyFingerprint m)) else verified_of C app3 c v)"
proof -
  obtain conv u m app3 where row: "namedRow C app name conv u m (ca_client app3)" "R app app3"
    and s: "app' = cliPersist C (writeTrust C (\<lambda>iv ts. setVerified (ce_seal C) iv ts conv u (mb_identityKeyFingerprint m)) app3)"
    using assms(2) unfolding verifies_def by blast
  have "wfString (mb_identityKeyFingerprint m)"
    using row(1) listMembers_fingerprints by (fastforce simp: namedRow_def find_Some_iff)
  then have "verified_of C app' c v = (if c = conv \<and> v = u then Inr (Some (mb_identityKeyFingerprint m)) else verified_of C app3 c v)" for c v
    using assms(1) by (simp add: s writeTrust_def cli_env_ok_def verified_set)
  moreover have "ca_client app' = ca_client app3" "ca_handled app' = ca_handled app3"
    by (simp_all add: s writeTrust_def) (simp add: cliPersist_def)
  ultimately show thesis using row that by blast
qed

text \<open>C37: a verified mark comes from \<^verbatim>\<open>/verify\<close> and goes with the key: whatever the app does in a step, a
  fingerprint that is recorded as verified for a member afterwards either was so before, and a key change of that
  user was reported during the step only if the user's row of the name table does not open; or the
  step is a line \<^verbatim>\<open>/verify name\<close> in that conversation, the app's client resolved this name to this user, and
  the non-empty fingerprint is that of the first row of this user in the roster the client listed next.
  The exception is real: the handler asks for the name first and throws before it resets the mark.\<close>

theorem verified_only_by_verify:
  assumes "cli_env_ok C" "verified_of C (cliStep C app s) conv u = Inr (Some fp)"
  shows "(verified_of C app conv u = Inr (Some fp)
      \<and> (\<forall>d. IdentityKeyChanged u d \<in> set (drop (length (ca_handled app)) (ca_handled (cliStep C app s)))
          \<longrightarrow> (\<nexists>n. getUsername (ce_seal C) (ca_trust app) u = Inr n)))
    \<or> (\<exists>t devs cl ms m. s = CliInput t \<and> verifyLine t \<and> activeConversation app = Some conv
      \<and> resolveUser (ce_client C) (ca_client app) (verifyName t) = (Inr (u, devs), cl)
      \<and> clListMembers (ce_client C) cl conv = (Inr ms, ca_client (cliStep C app s))
      \<and> find (\<lambda>m. mb_userId m = u) ms = Some m \<and> mb_identityKeyFingerprint m = fp \<and> fp \<noteq> [])"
proof -
  note marked = keeps_marked [of C app _ conv u fp, unfolded name_opens_def]
  from kept.step_effect [of C app s] show ?thesis
  proof
    assume "cli_env_ok C \<longrightarrow> keeps C app (cliStep C app s)"
    then show ?thesis using assms marked by blast
  next
    assume "\<exists>t. s = CliInput t \<and> verifyLine t \<and> verifies C (\<lambda>a b. cli_env_ok C \<longrightarrow> keeps C a b) app (verifyName t) (cliStep C app s)"
    then obtain t where t: "s = CliInput t" "verifyLine t"
      and v: "verifies C (\<lambda>a b. cli_env_ok C \<longrightarrow> keeps C a b) app (verifyName t) (cliStep C app s)" by blast
    obtain c w m app3 where row: "namedRow C app (verifyName t) c w m (ca_client app3)" "keeps C app app3"
      and app3: "ca_client (cliStep C app s) = ca_client app3" "ca_handled (cliStep C app s) = ca_handled app3"
      and marks: "\<And>c' v. verified_of C (cliStep C app s) c' v
        = (if c' = c \<and> v = w then Inr (Some (mb_identityKeyFingerprint m)) else verified_of C app3 c' v)"
      using verifies_marked [OF assms(1) v] assms(1) by metis
    show ?thesis
    proof (cases "conv = c \<and> u = w")
      case True
      then have "mb_identityKeyFingerprint m = fp" using assms(2) marks by simp
      then show ?thesis using row(1) t True unfolding namedRow_def app3(1) by blast
    next
      case False
      then have "verified_of C app3 conv u = Inr (Some fp)" using assms(2) marks by (simp only: if_False)
      then show ?thesis using marked [OF row(2)] unfolding app3(2) by blast
    qed
  qed
qed

subsection \<open>A concrete app\<close>

definition demoCliEnv :: cli_env where
  "demoCliEnv = \<lparr>ce_client = demoEnv, ce_config = loadCliConfig (\<lambda>a b. a @ b) [] (\<lambda>_. None), ce_seal = demoSeal,
     ce_stateCodec = \<lparr>cd_text = (\<lambda>_. []), cd_value = (\<lambda>_. None)\<rparr>, ce_iv = (\<lambda>_. replicate 12 0),
     ce_local = (\<lambda>_. \<lparr>lt_year = 2024, lt_month = 1, lt_day = 2, lt_hours = 3, lt_minutes = 4\<rparr>), ce_keyPair = (\<lambda>_. []), ce_message = (\<lambda>_. [])\<rparr>"

text \<open>Carol's fingerprint is verified; then the user asks for help.\<close>

definition demoTrust :: CliTrustStore where
  "demoTrust = setVerified demoSeal (replicate 12 0) \<lparr>ts_db = emptyTrustDb, ts_key = None\<rparr> (js ''c1'') (js ''carol'') (js ''ab'')"

definition demoCli :: CliApp where
  "demoCli = newCliApp (demoClient []) demoTrust \<lparr>as_db = emptyAgentDb, as_key = None\<rparr>"

lemma demo_help: "handleInput demoCliEnv demoCli (js ''/help'') = (Inr (map (info demoCliEnv demoCli) helpLines), demoCli)"
proof -
  have t: "trim (js ''/help'') = js ''/help''" "hd (js ''/help'') = 47" "js ''/help'' \<noteq> []" "splitSpaces (tl (js ''/help'')) = [js ''help'']"
    by (simp_all add: js_def trim_def trimEnd_def isSpaceUnit_def splitSpaces.simps)
  have "js ''help'' \<noteq> js ''new''" "js ''help'' \<noteq> js ''invite''" "js ''help'' \<noteq> js ''remove''" "js ''help'' \<noteq> js ''members''"
    "js ''help'' \<noteq> js ''verify''" "js ''help'' \<noteq> js ''ai''" by (simp_all add: js_def)
  then show ?thesis by (simp add: handleInput_def t dispatchCommand_def Let_def command_def cmdHelp_def)
qed

theorem verified_only_by_verify_witness:
  "verified_of demoCliEnv demoCli (js ''c1'') (js ''carol'') = Inr (Some (js ''ab''))
     \<and> cliStep demoCliEnv demoCli (CliInput (js ''/help'')) = demoCli"
proof -
  have ok: "cli_env_ok demoCliEnv" by (simp add: cli_env_ok_def demoCliEnv_def demoSeal_ok)
  have s: "cliStep demoCliEnv demoCli (CliInput (js ''/help'')) = demoCli" by (simp add: cliStep_def demo_help)
  have "wfString (js ''ab'')" by (rule wfString_js)
  then have "verified_of demoCliEnv demoCli (js ''c1'') (js ''carol'') = Inr (Some (js ''ab''))"
    using verified_set [OF demoSeal_ok] by (simp add: demoCli_def newCliApp_def demoTrust_def demoCliEnv_def)
  then have "verified_of demoCliEnv (cliStep demoCliEnv demoCli (CliInput (js ''/help''))) (js ''c1'') (js ''carol'') = Inr (Some (js ''ab''))"
    by (simp add: s)
  from verified_only_by_verify [OF ok this] show ?thesis
    using s by (auto simp: demoCli_def newCliApp_def activeConversation_def)
qed

end
