(* ===== verification/TuiProps.thy ===== *)
theory TuiProps
  imports Tui CliProps
begin

section \<open>What the shells show and how they end\<close>

text \<open>
  The app's emitted lines only grow (an interpretation of \<open>app_frame\<close>), so each shell shows an
  interleaving of them and of what the commands return, each line once and in order. How a session
  ends depends on the exact line and on Ink.
\<close>

subsection \<open>The emitted lines grow\<close>

definition grows :: "CliApp \<Rightarrow> CliApp \<Rightarrow> bool" where
  "grows a b \<longleftrightarrow> prefix (ca_buffer a) (ca_buffer b)"

lemma grows_same: "ca_buffer b = ca_buffer a \<Longrightarrow> grows a b"
  by (simp add: grows_def)

lemma buffer_persist [simp]: "ca_buffer (cliPersist C app) = ca_buffer app" "ca_buffer (writeTrust C f app) = ca_buffer app"
  by (simp_all add: cliPersist_def writeTrust_def)

lemma grows_onMessage: "grows app (cliOnMessage C app m)"
  by (simp add: grows_def cliOnMessage_def emit_def Let_def split: sum.split)

lemma grows_onSystemEvent: "grows app (cliOnSystemEvent C app e)"
  by (simp add: grows_def cliOnSystemEvent_def nameThen_def emit_def Let_def split: SystemEvent.split sum.split)

lemma grows_foldl: "(\<And>a x. grows a (f a x)) \<Longrightarrow> grows app (foldl f app xs)"
proof (induction xs arbitrary: app)
  case (Cons x xs)
  then show ?case unfolding grows_def by (metis foldl_Cons prefix_order.trans)
qed (simp add: grows_def)

lemma grows_report: "grows app (report C (app\<lparr>ca_client := cl\<rparr>))"
proof -
  have "grows app (foldl (cliOnMessage C) (foldl (cliOnSystemEvent C) a evs) ms)" if "ca_buffer a = ca_buffer app" for a evs ms
    using grows_foldl [of "cliOnSystemEvent C"] grows_foldl [of "cliOnMessage C"] grows_onMessage grows_onSystemEvent that
    unfolding grows_def by (metis prefix_order.trans)
  then show ?thesis unfolding report_def Let_def by simp
qed

interpretation shown: app_frame C grows for C
proof unfold_locales
  fix a b c
  assume "grows a b" "grows b c"
  then show "grows a c" unfolding grows_def by (rule prefix_order.trans)
qed (simp_all add: grows_report grows_same, simp add: grows_def emit_def)

lemma grows_step: "grows app (cliStep C app s)"
  using shown.step_effect [of app C s] by (auto simp: verifies_def grows_def)

lemma grows_input: "handleInput C app t = (r, app') \<Longrightarrow> grows app app'"
  using grows_step [of app C "CliInput t"] by (simp add: cliStep_def)

lemma grows_view: "conversationView C app = (r, app') \<Longrightarrow> grows app app'"
  using shown.R_view by (metis snd_conv)

lemma growsE:
  assumes "grows app app'"
  obtains new where "ca_buffer app' = ca_buffer app @ new" "drop (length (ca_buffer app)) (ca_buffer app') = new"
  using assms by (auto simp: grows_def prefix_def)

subsection \<open>Interleavings\<close>

lemma shuffles_append_left: "zs \<in> shuffles xs ys \<Longrightarrow> zs @ us \<in> shuffles (xs @ us) ys"
proof (induction zs arbitrary: xs ys)
  case (Cons z zs)
  then show ?case by (auto simp: Cons_in_shuffles_iff)
qed simp

lemma shuffles_append_right: "zs \<in> shuffles xs ys \<Longrightarrow> zs @ us \<in> shuffles xs (ys @ us)"
  using shuffles_append_left [of zs ys xs us] by (simp add: shuffles_commutes)

lemma shuffles_append: "zs \<in> shuffles xs ys \<Longrightarrow> zs @ us @ vs \<in> shuffles (xs @ us) (ys @ vs)"
  using shuffles_append_right [OF shuffles_append_left, of zs xs ys us vs] by simp

subsection \<open>The component\<close>

definition tuiOutput :: "cli_env \<Rightarrow> Tui \<Rightarrow> tui_event \<Rightarrow> RenderedLine list" where
  "tuiOutput C t ev =
     (case ev of
        TuHandled k \<Rightarrow>
          if tu_exit t = None \<and> k < length (tu_running t)
          then (case fst (handleInput C (tu_app t) (tu_running t ! k)) of Inl _ \<Rightarrow> [] | Inr out \<Rightarrow> out) else []
      | _ \<Rightarrow> [])"

fun tuiOutputs :: "cli_env \<Rightarrow> bool \<Rightarrow> Tui \<Rightarrow> tui_event list \<Rightarrow> RenderedLine list" where
  "tuiOutputs C ink t [] = []"
| "tuiOutputs C ink t (ev # evs) = tuiOutput C t ev @ tuiOutputs C ink (tuiStep C ink t ev) evs"

lemma tuiSink_lines:
  assumes "grows (tu_app t) app" "tu_mounted t"
  shows "\<exists>new. ca_buffer app = ca_buffer (tu_app t) @ new \<and> tu_lines (tuiSink t app) = tu_lines t @ new"
proof -
  obtain new where "ca_buffer app = ca_buffer (tu_app t) @ new" "drop (length (ca_buffer (tu_app t))) (ca_buffer app) = new"
    using growsE [OF assms(1)] by blast
  then show ?thesis using assms(2) by (simp add: tuiSink_def addLines_def)
qed

lemma tuiSink_fixed [simp]:
  "tu_app (tuiSink t app) = app" "tu_mounted (tuiSink t app) = tu_mounted t" "tu_exit (tuiSink t app) = tu_exit t"
  "tu_running (tuiSink t app) = tu_running t"
  by (simp_all add: tuiSink_def addLines_def Let_def)

lemma addLines_fixed [simp]:
  "tu_app (addLines t ls) = tu_app t" "tu_mounted (addLines t ls) = tu_mounted t" "tu_exit (addLines t ls) = tu_exit t"
  "tu_running (addLines t ls) = tu_running t"
  by (simp_all add: addLines_def)

definition paints :: "Tui \<Rightarrow> RenderedLine list \<Rightarrow> Tui \<Rightarrow> bool" where
  "paints t out t' \<longleftrightarrow> (tu_mounted t' \<longrightarrow> tu_mounted t \<and> (\<exists>new. ca_buffer (tu_app t') = ca_buffer (tu_app t) @ new
     \<and> tu_lines t' = tu_lines t @ new @ out))"

lemma lineHandled_paints:
  assumes "tu_exit t = None"
  shows "paints t (tuiOutput C t (TuHandled k)) (lineHandled C k t)"
proof (cases "k < length (tu_running t)")
  case True
  define t0 where "t0 = t\<lparr>tu_running := take k (tu_running t) @ drop (Suc k) (tu_running t)\<rparr>"
  obtain r app where h: "handleInput C (tu_app t) (tu_running t ! k) = (r, app)" by force
  have t0: "tu_app t0 = tu_app t" "tu_mounted t0 = tu_mounted t" "tu_lines t0 = tu_lines t" by (simp_all add: t0_def)
  have g: "grows (tu_app t0) app" using grows_input [OF h] by (simp add: t0)
  show ?thesis
  proof (cases "tu_mounted t")
    case mounted: True
    then obtain new where "ca_buffer app = ca_buffer (tu_app t) @ new" "tu_lines (tuiSink t0 app) = tu_lines t @ new"
      using tuiSink_lines [OF g] t0 by auto
    then show ?thesis
      using True h assms mounted t0
      by (cases r) (simp_all add: paints_def lineHandled_def tuiOutput_def quitTui_def Let_def addLines_def refreshView_def flip: t0_def)
  next
    case False
    then show ?thesis
      using True h t0 by (cases r) (simp_all add: paints_def lineHandled_def quitTui_def Let_def refreshView_def flip: t0_def)
  qed
qed (simp add: paints_def lineHandled_def tuiOutput_def)

lemma tuiStep_paints: "paints t (tuiOutput C t ev) (tuiStep C ink t ev)"
proof (cases "tu_exit t = None")
  case True
  have sink: "paints t [] (tuiSink t app)" if "grows (tu_app t) app" for app
    using tuiSink_lines [OF that] by (auto simp: paints_def)
  show ?thesis
  proof (cases ev)
    case (TuHandled k)
    then show ?thesis using lineHandled_paints [OF True] True by (simp add: tuiStep_def)
  next
    case TuProjected
    obtain r app where v: "conversationView C (tu_app t) = (r, app)" by force
    have "grows (tu_app (t\<lparr>tu_refreshes := tu_refreshes t - 1\<rparr>)) app" using grows_view [OF v] by simp
    then show ?thesis
      using tuiSink_lines v True TuProjected
      by (cases r) (fastforce simp: paints_def tuiStep_def projected_def tuiOutput_def Let_def)+
  next
    case (TuApp s)
    then show ?thesis using sink [OF grows_step] True by (simp add: tuiStep_def tuiOutput_def) (simp add: paints_def)
  qed (use True in \<open>auto simp: paints_def tuiStep_def tuiOutput_def submitLine_def resizeTui_def ctrlC_def quitTui_def Let_def\<close>)
qed (cases ev; auto simp: paints_def tuiStep_def tuiOutput_def)

lemma mounted_before: "tu_mounted (foldl (tuiStep C ink) t evs) \<Longrightarrow> tu_mounted t"
proof (induction evs arbitrary: t)
  case (Cons ev evs)
  then have "tu_mounted (tuiStep C ink t ev)" by simp
  then show ?case using tuiStep_paints [of t C ev ink] by (simp add: paints_def)
qed simp

lemma tui_run_paints:
  assumes "tu_lines t \<in> shuffles (ca_buffer (tu_app t)) outs" "tu_mounted (foldl (tuiStep C ink) t evs)"
  shows "tu_lines (foldl (tuiStep C ink) t evs) \<in> shuffles (ca_buffer (tu_app (foldl (tuiStep C ink) t evs))) (outs @ tuiOutputs C ink t evs)"
  using assms
proof (induction evs arbitrary: t outs)
  case (Cons ev evs)
  let ?t1 = "tuiStep C ink t ev"
  have "tu_mounted ?t1" using Cons.prems(2) mounted_before [of C ink ?t1 evs] by simp
  then obtain new where new: "ca_buffer (tu_app ?t1) = ca_buffer (tu_app t) @ new" "tu_lines ?t1 = tu_lines t @ new @ tuiOutput C t ev"
    using tuiStep_paints [of t C ev ink] by (auto simp: paints_def)
  then have "tu_lines ?t1 \<in> shuffles (ca_buffer (tu_app ?t1)) (outs @ tuiOutput C t ev)"
    using shuffles_append [OF Cons.prems(1)] by simp
  from Cons.IH [OF this] Cons.prems(2) show ?case unfolding foldl_Cons tuiOutputs.simps append_assoc by blast
qed simp

subsection \<open>The readline shell\<close>

definition readlineOutput :: "cli_env \<Rightarrow> Readline \<Rightarrow> readline_event \<Rightarrow> RenderedLine list" where
  "readlineOutput C r ev =
     (case ev of
        RlLine input \<Rightarrow>
          if rd_exit r = None \<and> rd_running r
          then (case fst (handleInput C (rd_app r) (trim input)) of Inl _ \<Rightarrow> [] | Inr out \<Rightarrow> out) else []
      | _ \<Rightarrow> [])"

fun readlineOutputs :: "cli_env \<Rightarrow> Readline \<Rightarrow> readline_event list \<Rightarrow> RenderedLine list" where
  "readlineOutputs C r [] = []"
| "readlineOutputs C r (ev # evs) = readlineOutput C r ev @ readlineOutputs C (readlineStep C r ev) evs"

text \<open>The lines that were entered while a question was asked.\<close>

definition lineEntered :: "Readline \<Rightarrow> readline_event \<Rightarrow> jsstring list" where
  "lineEntered r ev = (case ev of RlLine input \<Rightarrow> if rd_exit r = None \<and> rd_running r then [input] else [] | _ \<Rightarrow> [])"

fun linesEntered :: "cli_env \<Rightarrow> Readline \<Rightarrow> readline_event list \<Rightarrow> jsstring list" where
  "linesEntered C r [] = []"
| "linesEntered C r (ev # evs) = lineEntered r ev @ linesEntered C (readlineStep C r ev) evs"

text \<open>The two parts of what is shown.\<close>

fun printedOf :: "shown list \<Rightarrow> jsstring list" where
  "printedOf [] = []"
| "printedOf (Printed t # xs) = t # printedOf xs"
| "printedOf (Echoed t # xs) = printedOf xs"

fun echoedOf :: "shown list \<Rightarrow> jsstring list" where
  "echoedOf [] = []"
| "echoedOf (Printed t # xs) = echoedOf xs"
| "echoedOf (Echoed t # xs) = t # echoedOf xs"

lemma shown_append [simp]: "printedOf (xs @ ys) = printedOf xs @ printedOf ys" "echoedOf (xs @ ys) = echoedOf xs @ echoedOf ys"
  by (induction xs rule: printedOf.induct) simp_all

lemma shown_printed [simp]: "printedOf (map (Printed \<circ> f) ls) = map f ls" "echoedOf (map (Printed \<circ> f) ls) = []"
  by (induction ls) simp_all

lemma readline_fixed [simp]:
  "rd_app (readlineSink r app) = app" "rd_app (printLines r ls) = rd_app r" "rd_shown (printLines r ls) = rd_shown r @ map (Printed \<circ> rl_text) ls"
  "rd_running (readlineSink r app) = rd_running r" "rd_running (printLines r ls) = rd_running r"
  "rd_exit (readlineSink r app) = rd_exit r" "rd_exit (printLines r ls) = rd_exit r"
  "rd_terminal (readlineSink r app) = rd_terminal r" "rd_terminal (printLines r ls) = rd_terminal r"
  "rd_app (readQuestion r input) = rd_app r" "rd_running (readQuestion r input) = rd_running r"
  "rd_exit (readQuestion r input) = rd_exit r" "rd_terminal (readQuestion r input) = rd_terminal r"
  "rd_shown (readQuestion r input) = rd_shown r @ (if rd_terminal r then [Echoed (js ''> '' @ input)] else [])"
  by (simp_all add: readlineSink_def printLines_def readQuestion_def)

lemma readlineSink_prints:
  assumes "grows (rd_app r) app"
  shows "\<exists>new. ca_buffer app = ca_buffer (rd_app r) @ new \<and> rd_shown (readlineSink r app) = rd_shown r @ map (Printed \<circ> rl_text) new"
proof -
  obtain new where "ca_buffer app = ca_buffer (rd_app r) @ new" "drop (length (ca_buffer (rd_app r))) (ca_buffer app) = new"
    using growsE [OF assms] by blast
  then show ?thesis by (simp add: readlineSink_def)
qed

lemma buffer_close [simp]: "ca_buffer (closeSession C app) = ca_buffer app"
  by (simp add: closeSession_def Let_def)

lemma endReadline_fixed [simp]:
  "ca_buffer (rd_app (endReadline C r)) = ca_buffer (rd_app r)" "rd_shown (endReadline C r) = rd_shown r"
  "rd_terminal (endReadline C r) = rd_terminal r"
  by (simp_all add: endReadline_def) (simp add: readlineSink_def)

definition echoes :: "Readline \<Rightarrow> jsstring list \<Rightarrow> jsstring list" where
  "echoes r ls = (if rd_terminal r then map ((@) (js ''> '')) ls else [])"

definition prints :: "Readline \<Rightarrow> RenderedLine list \<Rightarrow> jsstring list \<Rightarrow> Readline \<Rightarrow> bool" where
  "prints r out entered r' \<longleftrightarrow> (\<exists>new. ca_buffer (rd_app r') = ca_buffer (rd_app r) @ new
     \<and> printedOf (rd_shown r') = printedOf (rd_shown r) @ map rl_text (new @ out))
     \<and> echoedOf (rd_shown r') = echoedOf (rd_shown r) @ echoes r entered \<and> rd_terminal r' = rd_terminal r"

lemma readlineStep_prints: "prints r (readlineOutput C r ev) (lineEntered r ev) (readlineStep C r ev)"
proof (cases "rd_exit r = None")
  case True
  show ?thesis
  proof (cases ev)
    case (RlLine input)
    obtain q app where h: "handleInput C (rd_app r) (trim input) = (q, app)" by force
    then have "grows (rd_app (readQuestion r input)) app" using grows_input by simp
    then obtain new where "ca_buffer app = ca_buffer (rd_app r) @ new"
        "rd_shown (readlineSink (readQuestion r input) app) = rd_shown (readQuestion r input) @ map (Printed \<circ> rl_text) new"
      using readlineSink_prints by (metis readline_fixed(10))
    then show ?thesis using True h RlLine
      by (cases q) (simp_all add: prints_def readlineStep_def readlineOutput_def lineEntered_def echoes_def Let_def)
  next
    case (RlApp s)
    then show ?thesis
      using True readlineSink_prints [of r "cliStep C (rd_app r) s"] grows_step
      by (auto simp: prints_def readlineStep_def readlineOutput_def lineEntered_def echoes_def)
  qed (use True in \<open>simp_all add: prints_def readlineStep_def readlineOutput_def lineEntered_def echoes_def\<close>)
qed (cases ev; auto simp: prints_def readlineStep_def readlineOutput_def lineEntered_def echoes_def)

lemma readline_run_prints:
  assumes "printedOf (rd_shown r) = b # map rl_text ls" "ls \<in> shuffles (drop n (ca_buffer (rd_app r))) outs" "n \<le> length (ca_buffer (rd_app r))"
  shows "\<exists>ls'. printedOf (rd_shown (foldl (readlineStep C) r evs)) = b # map rl_text ls'
    \<and> ls' \<in> shuffles (drop n (ca_buffer (rd_app (foldl (readlineStep C) r evs)))) (outs @ readlineOutputs C r evs)"
  using assms
proof (induction evs arbitrary: r ls outs)
  case (Cons ev evs)
  let ?r1 = "readlineStep C r ev"
  obtain new where new: "ca_buffer (rd_app ?r1) = ca_buffer (rd_app r) @ new"
      "printedOf (rd_shown ?r1) = printedOf (rd_shown r) @ map rl_text (new @ readlineOutput C r ev)"
    using readlineStep_prints [of r C ev] by (auto simp: prints_def)
  have "printedOf (rd_shown ?r1) = b # map rl_text (ls @ new @ readlineOutput C r ev)" using new(2) Cons.prems(1) by simp
  moreover have "ls @ new @ readlineOutput C r ev \<in> shuffles (drop n (ca_buffer (rd_app ?r1))) (outs @ readlineOutput C r ev)"
    using shuffles_append [OF Cons.prems(2)] Cons.prems(3) new(1) by simp
  moreover have "n \<le> length (ca_buffer (rd_app ?r1))" using new(1) Cons.prems(3) by simp
  ultimately show ?case
    using Cons.IH unfolding foldl_Cons readlineOutputs.simps append_assoc [symmetric] by blast
qed auto

lemma readline_run_echoes:
  "echoedOf (rd_shown (foldl (readlineStep C) r evs)) = echoedOf (rd_shown r) @ echoes r (linesEntered C r evs)"
proof (induction evs arbitrary: r)
  case (Cons ev evs)
  have "echoedOf (rd_shown (readlineStep C r ev)) = echoedOf (rd_shown r) @ echoes r (lineEntered r ev)"
    "rd_terminal (readlineStep C r ev) = rd_terminal r"
    using readlineStep_prints [of r C ev] by (simp_all add: prints_def)
  then show ?case using Cons.IH [of "readlineStep C r ev"] by (simp add: echoes_def)
qed (simp add: echoes_def)

subsection \<open>Properties\<close>

text \<open>C38: both shells show each line exactly once: in every run of the full-screen interface, as long as
  it is mounted, the lines of the component are an interleaving of everything the app emitted since it
  was made and of everything the commands returned, both in order and nothing twice, and the pane
  shows the last of them that fit; what the readline shell prints is the same interleaving after
  its first line, from the lines emitted since it started. Beside these only the entered lines are
  shown, as the echo of readline, each once and in order, and only when its output is a terminal.\<close>

theorem shells_show_once:
  assumes "t = foldl (tuiStep C ink) (mountTui rows cols app) evs" "r = foldl (readlineStep C) (startReadline terminal app) revs"
  shows "(tu_mounted t \<longrightarrow> tu_lines t \<in> shuffles (ca_buffer (tu_app t)) (tuiOutputs C ink (mountTui rows cols app) evs))
    \<and> (tu_lines t \<noteq> [] \<longrightarrow> suffix (map sp_text (sc_pane (screen t))) (map rl_text (tu_lines t))
        \<and> length (sc_pane (screen t)) = min (length (tu_lines t)) (max 3 (tu_rows t - 5)))
    \<and> (\<exists>ls. tl (printedOf (rd_shown r)) = map rl_text ls
        \<and> ls \<in> shuffles (drop (length (ca_buffer app)) (ca_buffer (rd_app r))) (readlineOutputs C (startReadline terminal app) revs))
    \<and> echoedOf (rd_shown r) = (if terminal then map ((@) (js ''> '')) (linesEntered C (startReadline terminal app) revs) else [])"
proof (intro conjI impI)
  show "tu_lines t \<in> shuffles (ca_buffer (tu_app t)) (tuiOutputs C ink (mountTui rows cols app) evs)" if "tu_mounted t"
    using tui_run_paints [of "mountTui rows cols app" "[]" C ink evs] that unfolding assms(1) by (simp add: mountTui_def)
  obtain ls where "printedOf (rd_shown r) = js ''connected. type /help for commands, /quit to exit.'' # map rl_text ls"
    "ls \<in> shuffles (drop (length (ca_buffer app)) (ca_buffer (rd_app r))) (readlineOutputs C (startReadline terminal app) revs)"
    using readline_run_prints [of "startReadline terminal app" _ "[]" "length (ca_buffer app)" "[]" C revs] unfolding assms(2)
    by (auto simp: startReadline_def)
  then show "\<exists>ls. tl (printedOf (rd_shown r)) = map rl_text ls
      \<and> ls \<in> shuffles (drop (length (ca_buffer app)) (ca_buffer (rd_app r))) (readlineOutputs C (startReadline terminal app) revs)" by auto
  show "echoedOf (rd_shown r) = (if terminal then map ((@) (js ''> '')) (linesEntered C (startReadline terminal app) revs) else [])"
    unfolding assms(2) readline_run_echoes by (simp add: startReadline_def echoes_def)
  assume ne: "tu_lines t \<noteq> []"
  define k where "k = length (tu_lines t) - max 3 (tu_rows t - 5)"
  have "k < length (tu_lines t)" using ne unfolding k_def length_greater_0_conv [symmetric] by linarith
  then have "drop k (tu_lines t) \<noteq> []" by simp
  then have pane: "sc_pane (screen t) = map (\<lambda>l. span (colorFor (rl_kind l)) (rl_text l)) (drop k (tu_lines t))"
    by (simp add: screen_def Let_def k_def)
  have "map sp_text (sc_pane (screen t)) = drop k (map rl_text (tu_lines t))" by (simp add: pane span_def drop_map)
  then show "suffix (map sp_text (sc_pane (screen t))) (map rl_text (tu_lines t))" by (simp add: suffix_drop)
  show "length (sc_pane (screen t)) = min (length (tu_lines t)) (max 3 (tu_rows t - 5))" by (simp add: pane k_def)
qed

theorem shells_show_once_witness:
  "tu_lines (foldl (tuiStep demoCliEnv True) (mountTui None None demoCli) [TuSubmit (js '' /help ''), TuHandled 0])
     \<in> shuffles [] (map (info demoCliEnv demoCli) helpLines)
   \<and> length (tl (printedOf (rd_shown (readlineStep demoCliEnv (startReadline True demoCli) (RlLine (js ''/help'')))))) = length helpLines
   \<and> echoedOf (rd_shown (readlineStep demoCliEnv (startReadline True demoCli) (RlLine (js ''/help'')))) = [js ''> /help'']
   \<and> echoedOf (rd_shown (readlineStep demoCliEnv (startReadline False demoCli) (RlLine (js ''/help'')))) = []"
proof -
  have trim: "trim (js '' /help '') = js ''/help''" "trim (js ''/help'') = js ''/help''" "js ''/help'' \<noteq> []" "js ''/help'' \<noteq> js ''/quit''"
    "js ''> '' @ js ''/help'' = js ''> /help''"
    by (simp_all add: js_def trim_def trimEnd_def isSpaceUnit_def)
  define t where "t = foldl (tuiStep demoCliEnv True) (mountTui None None demoCli) [TuSubmit (js '' /help ''), TuHandled 0]"
  have buf: "ca_buffer demoCli = []" by (simp add: demoCli_def newCliApp_def)
  have t: "tu_mounted t" "tu_app t = demoCli"
    "tuiOutputs demoCliEnv True (mountTui None None demoCli) [TuSubmit (js '' /help ''), TuHandled 0] = map (info demoCliEnv demoCli) helpLines"
    by (simp_all add: t_def mountTui_def tuiStep_def submitLine_def Let_def trim lineHandled_def demo_help tuiOutput_def refreshView_def)
  have r: "rd_app (readlineStep demoCliEnv (startReadline b demoCli) (RlLine (js ''/help''))) = demoCli"
    "readlineOutputs demoCliEnv (startReadline b demoCli) [RlLine (js ''/help'')] = map (info demoCliEnv demoCli) helpLines"
    "linesEntered demoCliEnv (startReadline b demoCli) [RlLine (js ''/help'')] = [js ''/help'']" for b
    by (simp_all add: readlineStep_def startReadline_def Let_def trim demo_help readlineOutput_def lineEntered_def)
  note once = shells_show_once [OF t_def refl, where revs = "[RlLine (js ''/help'')]"]
  have "tu_lines t \<in> shuffles [] (map (info demoCliEnv demoCli) helpLines)" using once t buf by simp
  moreover have "length (tl (printedOf (rd_shown (readlineStep demoCliEnv (startReadline True demoCli) (RlLine (js ''/help'')))))) = length helpLines"
    using once [of True] buf r by auto
  ultimately show ?thesis using once [of True] once [of False] r trim(5) by (simp add: t_def)
qed

text \<open>Leaving.\<close>

lemma quit_result:
  "cmdQuit C app = (Inr [info C (app\<lparr>ca_client := clDisconnect (ca_client app)\<rparr>) (js ''Disconnected. Bye.'')], app\<lparr>ca_client := clDisconnect (ca_client app)\<rparr>)"
  by (simp add: cmdQuit_def Let_def)

lemma quit_command: "command C app (js ''quit'') args = cmdQuit C app"
proof -
  have "js ''quit'' \<noteq> js ''new''" "js ''quit'' \<noteq> js ''invite''" "js ''quit'' \<noteq> js ''remove''" "js ''quit'' \<noteq> js ''members''"
    "js ''quit'' \<noteq> js ''verify''" "js ''quit'' \<noteq> js ''ai''" "js ''quit'' \<noteq> js ''help''" by (simp_all add: js_def)
  then show ?thesis by (simp add: command_def Let_def)
qed

lemma quit_line:
  assumes "\<forall>u \<in> set w. \<not> isSpaceUnit u" "line = js ''/quit'' \<or> w \<noteq> [] \<and> line = js ''/quit '' @ w"
  shows "trim line = line" "line \<noteq> []" "handleInput C app line = cmdQuit C app"
proof -
  have units: "\<not> isSpaceUnit 47" "\<not> isSpaceUnit 113" "\<not> isSpaceUnit 117" "\<not> isSpaceUnit 105" "\<not> isSpaceUnit 116" "isSpaceUnit 32"
    by (simp_all add: isSpaceUnit_def)
  have word: "trimEnd (xs @ w) = xs @ w" if "w \<noteq> []" for xs
    using that assms(1) by (cases w rule: rev_cases) (simp_all add: trimEnd_def)
  show trim: "trim line = line"
    using assms(2) word [of "js ''/quit ''"] by (auto simp: trim_def js_def units trimEnd_def)
  show "line \<noteq> []" using assms(2) by (auto simp: js_def)
  have "splitSpaces (tl line) = js ''quit'' # (if line = js ''/quit'' then [] else [w])"
  proof (cases "line = js ''/quit''")
    case True
    then show ?thesis by (simp add: js_def splitSpaces.simps units)
  next
    case False
    then have w: "w \<noteq> []" "line = js ''/quit '' @ w" using assms(2) by auto
    then have d: "dropWhile isSpaceUnit w = w" "dropWhile (\<lambda>u. \<not> isSpaceUnit u) w = []"
      using assms(1) by (cases w; simp)+
    have "splitSpaces (dropWhile isSpaceUnit w) = [w]" unfolding d(1) by (subst splitSpaces.simps) (simp add: d(2))
    moreover have "splitSpaces (tl line) = js ''quit'' # splitSpaces (dropWhile isSpaceUnit w)"
      by (subst splitSpaces.simps) (simp add: w(2) js_def units)
    ultimately show ?thesis using False by simp
  qed
  moreover have "hd line = 47" using assms(2) by (auto simp: js_def)
  ultimately show "handleInput C app line = cmdQuit C app"
    using \<open>line \<noteq> []\<close> by (simp add: handleInput_def trim Let_def dispatchCommand_def quit_command quit_result)
qed

lemma unmounted_stays:
  "\<not> tu_mounted t \<and> tu_running t = [] \<and> tu_exit t = None
    \<Longrightarrow> \<not> tu_mounted (foldl (tuiStep C ink) t evs) \<and> tu_running (foldl (tuiStep C ink) t evs) = [] \<and> tu_exit (foldl (tuiStep C ink) t evs) = None"
proof (induction evs arbitrary: t)
  case (Cons ev evs)
  have "\<not> tu_mounted (tuiStep C ink t ev) \<and> tu_running (tuiStep C ink t ev) = [] \<and> tu_exit (tuiStep C ink t ev) = None"
    using Cons.prems by (cases ev) (auto simp: tuiStep_def lineHandled_def projected_def Let_def split: prod.split sum.split)
  then show ?case using Cons.IH by simp
qed simp

text \<open>Only the exact line \<^verbatim>\<open>/quit\<close> ends a session: it makes either shell close the session and exit with
  code 0, but \<^verbatim>\<open>/quit\<close> followed by a word disconnects the client, says goodbye and leaves the shell
  running; and when Ink keeps Ctrl-C for itself, Ctrl-C with no command pending unmounts the
  interface and nothing that happens afterwards ends the process.\<close>

theorem only_exact_quit_ends:
  assumes t: "tu_exit t = None" "tu_mounted t" "tu_running t = []"
    and r: "rd_exit r = None" "rd_running r"
    and w: "w \<noteq> []" "\<forall>u \<in> set w. \<not> isSpaceUnit u"
  shows "tu_exit (foldl (tuiStep C ink) t [TuSubmit (js ''/quit''), TuHandled 0]) = Some 0
    \<and> rd_exit (readlineStep C r (RlLine (js ''/quit''))) = Some 0
    \<and> (\<exists>t' r'. t' = foldl (tuiStep C ink) t [TuSubmit (js ''/quit '' @ w), TuHandled 0] \<and> r' = readlineStep C r (RlLine (js ''/quit '' @ w))
        \<and> tu_exit t' = None \<and> tu_mounted t' \<and> ca_client (tu_app t') = clDisconnect (ca_client (tu_app t))
        \<and> rl_text (last (tu_lines t')) = js ''Disconnected. Bye.''
        \<and> rd_exit r' = None \<and> rd_running r' \<and> ca_client (rd_app r') = clDisconnect (ca_client (rd_app r)))
    \<and> (\<forall>evs. tu_exit (foldl (tuiStep C True) t (TuCtrlC # evs)) = None)"
proof (intro conjI allI)
  note q = quit_line [OF w(2), of "js ''/quit''"] and qw = quit_line [OF w(2), of "js ''/quit '' @ w"]
  have ne: "js ''/quit '' @ w \<noteq> js ''/quit''" using w(1) by (simp add: js_def)
  note defs = tuiStep_def submitLine_def lineHandled_def quitTui_def refreshView_def addLines_def readlineStep_def endReadline_def readQuestion_def quit_result
  show "tu_exit (foldl (tuiStep C ink) t [TuSubmit (js ''/quit''), TuHandled 0]) = Some 0"
    "rd_exit (readlineStep C r (RlLine (js ''/quit''))) = Some 0"
    using t r q by (simp_all add: defs Let_def)
  show "\<exists>t' r'. t' = foldl (tuiStep C ink) t [TuSubmit (js ''/quit '' @ w), TuHandled 0] \<and> r' = readlineStep C r (RlLine (js ''/quit '' @ w))
      \<and> tu_exit t' = None \<and> tu_mounted t' \<and> ca_client (tu_app t') = clDisconnect (ca_client (tu_app t))
      \<and> rl_text (last (tu_lines t')) = js ''Disconnected. Bye.''
      \<and> rd_exit r' = None \<and> rd_running r' \<and> ca_client (rd_app r') = clDisconnect (ca_client (rd_app r))"
    using t r qw w(1) ne by (simp add: defs Let_def mk_def)
  fix evs
  have "tuiStep C True t TuCtrlC = t\<lparr>tu_mounted := False\<rparr>" using t by (simp add: tuiStep_def ctrlC_def)
  then show "tu_exit (foldl (tuiStep C True) t (TuCtrlC # evs)) = None"
    using unmounted_stays [of "t\<lparr>tu_mounted := False\<rparr>" C True evs] t by simp
qed

theorem only_exact_quit_ends_witness:
  "tu_exit (foldl (tuiStep demoCliEnv True) (mountTui None None demoCli) [TuSubmit (js ''/quit''), TuHandled 0]) = Some 0
   \<and> tu_exit (foldl (tuiStep demoCliEnv True) (mountTui None None demoCli) [TuSubmit (js ''/quit now''), TuHandled 0]) = None
   \<and> tu_exit (foldl (tuiStep demoCliEnv True) (mountTui None None demoCli) [TuCtrlC, TuApp CliInbox, TuProjected]) = None"
proof -
  have now: "js ''now'' \<noteq> []" "\<forall>u \<in> set (js ''now''). \<not> isSpaceUnit u" "js ''/quit '' @ js ''now'' = js ''/quit now''"
    by (simp_all add: js_def isSpaceUnit_def)
  have t: "tu_exit (mountTui None None demoCli) = None" "tu_mounted (mountTui None None demoCli)" "tu_running (mountTui None None demoCli) = []"
    "rd_exit (startReadline True demoCli) = None" "rd_running (startReadline True demoCli)"
    by (simp_all add: mountTui_def startReadline_def)
  show ?thesis
    using only_exact_quit_ends [OF t now(1,2), of demoCliEnv True] unfolding now(3) by (auto dest: spec [of _ "[TuApp CliInbox, TuProjected]"])
qed

end
