(* ===== verification/Spec2Isabelle.thy ===== *)
theory Spec2Isabelle
  imports DualWrite HttpTransport P2pTransport Devices Auth AgentSafety LateJoin TuiProps
begin

section \<open>signal-ai: an end-to-end encrypted group messenger with an AI member\<close>

text \<open>
  The program. Users exchange messages that are encrypted pairwise with libsignal. A relay stores
  accounts, device keys, conversations and envelopes and pushes them over WebSockets; it is not trusted
  with contents, and who is a member of a conversation is not left to it either: the founder
  signs every membership change as an op of a hash chain, and a client shows a message
  only if its sender is in the fold of the client's own verified chain. On the client library
  stand a command-line interface and an agent, a member that answers with a language model.

  The parts and how they call each other, from the bottom:

  \<^item> the membership package (\<^verbatim>\<open>packages/membership/src\<close>): ops, their canonical bytes, signatures and hashes,
    chain verification and fold, the log a peer holds, the gate for incoming messages, and the
    service with which a founder authors ops;
  \<^item> the wire schemas (\<^verbatim>\<open>packages/proto/src\<close>), shared by relay and client;
  \<^item> the relay (\<^verbatim>\<open>apps/node/src\<close>): tables and queries, mailbox, tokens and lockout, REST routes, WebSocket handler;
  \<^item> the protocol core (\<^verbatim>\<open>packages/core/src\<close>): key stores, prekeys, sessions, pairwise fan-out;
  \<^item> the client library (\<^verbatim>\<open>packages/client-sdk/src\<close>): stores, link, transports, \<^verbatim>\<open>SignalAiClient\<close>, which drives the relay
    over REST and the link, the op-log service beside it, and the gate on what arrives;
  \<^item> the agent (\<^verbatim>\<open>apps/agent/src\<close>) and the command-line client (\<^verbatim>\<open>apps/cli/src\<close>), which call the client and
    react to what it reports, each with its own durable store.
\<close>

subsection \<open>Which theory models what\<close>

text \<open>
  A definition carries the name of the function or type it translates; where several sources use
  one name, a prefix tells them apart (\<open>sv\<close> the op-log service, \<open>cl\<close> the client, \<open>db\<close> and \<open>route\<close> the
  relay, \<open>mb\<close> the mailbox, \<open>ag\<close> the agent, \<open>cmd\<close> and \<open>cli\<close> the command-line client).
  A class is a \<^verbatim>\<open>record\<close> of its fields, a method a function from the record to a result and the record it
  leaves; an exception is \<open>Inl\<close>; a loop that may not end is \<open>None\<close>.

  \<^item> \<open>Prelude\<close>, \<open>Utf8\<close>, \<open>Base64\<close>, \<open>Json\<close>: JavaScript strings (16-bit units), buffers, maps in insertion
    order, the exceptions, UTF-8 with replacement characters, base64, JSON values.
  \<^item> \<open>Ops\<close> (\<^verbatim>\<open>ops.ts\<close>), \<open>Canonical\<close> (\<^verbatim>\<open>canonical.ts\<close>), \<open>Crypto\<close> (\<^verbatim>\<open>crypto.ts\<close>), \<open>Chain\<close> (\<^verbatim>\<open>chain.ts\<close>), \<open>MemberLog\<close>
    (\<^verbatim>\<open>log.ts\<close>), \<open>Gate\<close> (\<^verbatim>\<open>gate.ts\<close>), \<open>OpService\<close> (\<^verbatim>\<open>service.ts\<close>).
  \<^item> \<open>Proto\<close> (\<^verbatim>\<open>proto/src/index.ts\<close>): each zod schema as a parser of JSON values.
  \<^item> \<open>RelayDb\<close> (\<^verbatim>\<open>db.ts\<close>, \<^verbatim>\<open>schema.prisma\<close>), \<open>Mailbox\<close> (\<^verbatim>\<open>mailbox.ts\<close>), \<open>Devices\<close> (what the key queries of
    \<^verbatim>\<open>db.ts\<close> guarantee), \<open>Auth\<close> (\<^verbatim>\<open>auth.ts\<close>), \<open>Relay\<close> (the WebSocket half of \<^verbatim>\<open>index.ts\<close>), \<open>RestApi\<close> (its REST half and
    \<^verbatim>\<open>config.ts\<close>).
  \<^item> \<open>CoreStores\<close> (\<^verbatim>\<open>stores.ts\<close>, \<^verbatim>\<open>prekeys.ts\<close>, \<^verbatim>\<open>identity.ts\<close>, \<^verbatim>\<open>wire.ts\<close> of core), \<open>Session\<close> (\<^verbatim>\<open>session.ts\<close>,
    \<^verbatim>\<open>group.ts\<close>).
  \<^item> \<open>ClientStores\<close> (\<^verbatim>\<open>client-sdk/src/stores.ts\<close>), \<open>AgentStore\<close> (\<^verbatim>\<open>stores/sqlite.ts\<close>), \<open>Link\<close> (\<^verbatim>\<open>connection.ts\<close>),
    \<open>Client\<close> (\<^verbatim>\<open>client.ts\<close>), \<open>HttpTransport\<close> (\<^verbatim>\<open>transport.ts\<close>), \<open>P2pTransport\<close> (\<^verbatim>\<open>transport-p2p.ts\<close>,
    \<^verbatim>\<open>transport-select.ts\<close>).
  \<^item> \<open>Knowledge\<close> (\<^verbatim>\<open>knowledge.ts\<close>), \<open>Llm\<close> (\<^verbatim>\<open>llm.ts\<close>), \<open>Agent\<close> (\<^verbatim>\<open>agent.ts\<close> and \<^verbatim>\<open>index.ts\<close> of the agent).
  \<^item> \<open>TrustStore\<close> (\<^verbatim>\<open>trust-store.ts\<close>), \<open>CliApp\<close> (\<^verbatim>\<open>app.ts\<close>, \<^verbatim>\<open>render.ts\<close>, \<^verbatim>\<open>session.ts\<close>, \<^verbatim>\<open>config.ts\<close>, the arguments of
    \<^verbatim>\<open>main.ts\<close> of the CLI), \<open>Tui\<close> (\<^verbatim>\<open>tui.tsx\<close> and the readline shell of \<^verbatim>\<open>main.ts\<close>).

  The state of the running parts: \<open>Relay\<close> holds the database, the op store, the lockout, the connections and the
  registry of live ones, and moves by \<open>relay_step\<close>; \<open>Client\<close> holds stores, links, inbox and pins, and its
  methods interleave with the link events an environment delivers while they wait; \<open>Agent\<close> adds
  its task queue and moves by \<open>agent_run\<close>; \<open>Link\<close>, \<open>P2pTransport\<close> and the two shells of the CLI move by events.
\<close>

subsection \<open>What is shown\<close>

text \<open>
  \<^item> Encodings (\<open>Canonical\<close>, \<open>Proto\<close>, \<open>Base64\<close>, \<open>CoreStores\<close>, \<open>ClientStores\<close>): \<open>decodeOp\<close> accepts exactly the
    canonical encodings of well-formed ops; frames, bundles and snapshots read back. A string
    with a lone surrogate shares its encoding with another.
  \<^item> Chains (\<open>Chain\<close>, \<open>MemberLog\<close>): \<open>verifyChain\<close> accepts exactly the documented chains; a head pins the history
    up to a hash collision; a log only grows and never leaves its pin.
  \<^item> The gate (\<open>Gate\<close>) and the client around it (\<open>ClientProps\<close>, \<open>ClientSafety\<close>, \<open>ClientChain\<close>): what is dispatched comes
    from members of the receiver's own chain, once; what is sent goes to members of the sender's own
    chain; waiting for a chain ends; chains arrive op by op.
  \<^item> The relay (\<open>RestProps\<close>, \<open>RelayProps\<close>, \<open>Mailbox\<close>, \<open>Devices\<close>): \<open>rest_effect\<close> is an abstract specification of the REST
    interface that every request refines; in every reachable state the tables and the registry are
    well-formed and what is written to a connection belongs to its user's conversations;
    envelopes stay until acked; one-time prekeys are handed out once.
  \<^item> Across components: the op log and the relay's tables agree under the same commands (\<open>DualWrite\<close>); an
    invite through the HTTP transport is the invite in the tables (\<open>HttpTransport\<close>); a message goes
    from the sender's frame through the relay to the recipient's application and its ack back to
    the mailbox (\<open>EndToEnd\<close>); what the relay drains to a device that logs in gives its client the
    chain (\<open>LateJoin\<close>).
  \<^item> The transports (\<open>Link\<close>, \<open>P2pTransport\<close>): reconnects are bounded and come back, a socket keeps the order of what is
    sent.
  \<^item> The agent (\<open>AgentProps\<close>, \<open>AgentSafety\<close>): conversations stay apart in every run, replies follow the cadence,
    apologies keep their distance. The CLI: only \<open>/verify\<close> makes a key verified,
    and only the named user's (\<open>CliProps\<close>); its shells show each line once, beside the echo of a terminal, and end on
    the exact line \<open>/quit\<close> (\<open>TuiProps\<close>). Both rest on
    \<open>CliFrame\<close>, which lifts what a part of the app keeps over every command.

  Some theorems record what the code does against its intention: a joiner with a pin above genesis
  never gets a chain, a resumed founder authors nothing, an empty roster purges an agent's state, one
  frame blocks a mailbox, anyone may occupy the next place of an op log, a disconnect during backoff
  ends reconnecting, the relay fallback of a peer-to-peer socket reports a close and can hang, a verified
  mark outlives a key change of a user whose name cannot be read. Others contradict what is written beside
  the code: \<^verbatim>\<open>SECURITY.md\<close> has clients encrypt for whatever member list the relay reports, and the client sends
  only within the fold of its own chain (\<open>sends_only_within_fold\<close>); a comment in \<^verbatim>\<open>main.ts\<close> has a sent message appear
  twice in a pipe, where only a terminal echoes it (\<open>shells_show_once\<close>).
\<close>

subsection \<open>Interfaces\<close>

text \<open>
  Contracts are locales, proved on the model by interpretation: \<open>field_codec\<close> (one field of
  the canonical format; \<open>str_codec\<close> and the others), \<open>dense_log\<close> (a log that takes the next
  entry only; \<open>opstore\<close> of the relay, \<open>cachelog\<close> of the client), \<open>device_mailbox\<close> (\<open>box\<close>),
  \<open>membership_authority\<close> (\<open>svc\<close> the op-log service, \<open>rdb\<close> the database), \<open>agent_invariant\<close> (\<open>iso\<close>, \<open>spc\<close>),
  \<open>app_frame\<close> (\<open>kept\<close> the verified marks, \<open>shown\<close> the emitted lines).

  Code outside the repository is a parameter with its documented laws as hypotheses: \<open>crypto_lib\<close> (SHA-256 and
  identity keys: a signature made verifies; no collision among finitely many buffers, asked
  for only where a theorem names it), \<open>signal_lib\<close> and \<open>prekey_lib\<close> (libsignal), \<open>seal_lib\<close> (scrypt and AES-GCM: opening inverts
  sealing), \<open>codec\<close> (JSON text at a type), \<open>transport\<close> and \<open>fetch\<close> (the network), \<open>router\<close> (Fastify), the row
  choice of an unordered query (\<open>picker\<close>), the language model, the file system, the clock, randomness,
  \<^verbatim>\<open>toLowerCase\<close>, local time, and whether Ink keeps Ctrl-C for itself.
\<close>

subsection \<open>Loops and bounds\<close>

text \<open>
  No definition takes fuel. Loops over data are structural recursion; \<open>pollChain\<close> ends because each sleep
  takes at least the 50 ms poll interval off a wait of 3 s, so there are at most sixty;
  \<open>trimTokens\<close>, \<open>wordsOf\<close>, \<open>splitSpaces\<close>, \<open>quads\<close> and \<open>walk\<close> have termination proofs. Two loops of the program may run forever
  and are partial functions whose \<open>None\<close> is not returning: the context window of the agent
  with a negative limit (\<open>trimCount\<close>) and the flush loop of the peer-to-peer transport (\<open>flushInto\<close>);
  exactly when they return is proved.

  Sequence numbers of ops are unbounded integers with the 64-bit range check the writer makes, lengths
  have the 32-bit header check, string units are 16-bit and bytes 8-bit words.
\<close>

subsection \<open>Simplifications\<close>

text \<open>
  \<^item> Two calls of the user on one client do not overlap; link events and envelopes do arrive while a call
    waits. A WebSocket handler of the relay runs to its end before the next frame of any connection,
    except that live pushes may come in during the drain of a handshake, which has its own theorem.
  \<^item> The tasks of the agent run one after the other, as its promise chain makes them; the client's inbox is
    handled between tasks and while the model is awaited.
  \<^item> The report handlers of the CLI run when the client call that caused the reports returns; a command or a
    projection the full-screen interface awaits is one step, taken when it ends.
  \<^item> A number is an integer or some non-integer; 32-bit integer columns of the database do not overflow.
  \<^item> A handler that throws in the relay answers 500; which message the error has is not modelled.
\<close>

subsection \<open>Not modelled\<close>

text \<open>
  \<^item> JSON text, HTTP, WebSocket and UDP traffic, SQL, the terminal: I/O of runtimes and libraries, parameters or
    event lists here.
  \<^item> The boxes, borders and truncation of the full-screen interface: Ink's layout.
  \<^item> \<^verbatim>\<open>packages/p2p\<close>: a wrapper of hyperdht, one library call per method, and a connectivity probe script;
    its \<^verbatim>\<open>dial\<close> is a numbered handle in \<open>P2pTransport\<close>.
  \<^item> \<^verbatim>\<open>tools/chat-cli.ts\<close>, a manual test client; configuration files of build and test tools.
  \<^item> The rate-limit plugin of the relay, which only refuses requests, and process start-up and signal handlers.
\<close>

end
